(* ===== verification/Prelude.thy ===== *)
theory Prelude
  imports Main "HOL-Library.Word" "HOL-Library.Char_ord"
begin

text \<open>
  Shared vocabulary of the development: names for the machine integers of the library and the
  generic facts on words, options and lists that several components use. The collections
  declared here are filled by the component theories.
\<close>

unbundle bit_operations_syntax

section \<open>Machine integers\<close>

type_synonym u8 = "8 word"
type_synonym u16 = "16 word"
type_synonym u32 = "32 word"
type_synonym u64 = "64 word"
type_synonym u128 = "128 word"

named_theorems wide_simps "arithmetic of the two-word integers, read as 128-bit words"
named_theorems scan_consumes "a scanner that succeeds leaves a suffix of its input"

section \<open>Words\<close>

lemma uint_u64_bounds: "0 \<le> uint (a :: u64)" "uint a < 2 ^ 64"
  using uint_lt2p [of a] by simp_all

lemma uint_of_bool_u64 [simp]: "uint (of_bool b :: u64) = of_bool b"
  by (cases b) simp_all

lemma uint_less_iff: "(a :: 'a::len word) < b \<longleftrightarrow> uint a < uint b"
  by (simp add: word_less_def)

lemma unat_of_nat_eq: "k < 2 ^ LENGTH('a) \<Longrightarrow> unat (of_nat k :: 'a::len word) = k"
  by (simp add: unsigned_of_nat take_bit_nat_eq_self)

text \<open>
  A two-word integer is read as \<open>h * B + l\<close> with \<open>B\<close> the number of values of a word. Reducing
  the upper word modulo \<open>B\<close> is reducing the whole value modulo \<open>B * B\<close>, the carry into the
  upper word is the quotient of the lower sum, and the order is lexicographic.
\<close>

lemma join_mod:
  fixes h l B :: int
  assumes "0 \<le> l" "l < B"
  shows "h mod B * B + l = (h * B + l) mod (B * B)"
proof -
  have "(h * B + l) mod (B * B) = B * ((h * B + l) div B mod B) + (h * B + l) mod B"
    using assms by (intro zmod_zmult2_eq) simp
  then show ?thesis
    using assms by simp
qed

lemma join_add:
  fixes h l B :: int
  assumes "0 < B"
  shows "(h + l div B) mod B * B + l mod B = (h * B + l) mod (B * B)"
proof -
  have "(h + l div B) mod B * B + l mod B = ((h + l div B) * B + l mod B) mod (B * B)"
    using assms by (intro join_mod) simp_all
  also have "(h + l div B) * B + l mod B = h * B + l"
    by (simp add: distrib_right)
  finally show ?thesis .
qed

lemma join_less_iff:
  fixes h l B :: int
  assumes "0 \<le> l1" "l1 < B" "0 \<le> l2" "l2 < B"
  shows "h1 * B + l1 < h2 * B + l2 \<longleftrightarrow> h1 < h2 \<or> h1 = h2 \<and> l1 < l2"
proof (cases h1 h2 rule: linorder_cases)
  case less
  then have "(h1 + 1) * B \<le> h2 * B"
    using assms by (intro mult_right_mono) simp_all
  with less assms show ?thesis by (simp add: distrib_right)
next
  case greater
  then have "(h2 + 1) * B \<le> h1 * B"
    using assms by (intro mult_right_mono) simp_all
  with greater assms show ?thesis by (simp add: distrib_right)
qed simp

lemma join_inject:
  fixes h l B :: int
  assumes "0 \<le> l1" "l1 < B" "0 \<le> l2" "l2 < B"
  shows "h1 * B + l1 = h2 * B + l2 \<longleftrightarrow> h1 = h2 \<and> l1 = l2"
  using join_less_iff [OF assms, of h1 h2] join_less_iff [OF assms(3,4,1,2), of h2 h1] by fastforce

text \<open>The carry test of the two-word addition: the wrapped sum is below an addend.\<close>

lemma carry_div:
  fixes a b :: int
  assumes "0 \<le> a" "a < n" "0 \<le> b" "b < n"
  shows "((a + b) mod n < a) \<longleftrightarrow> (a + b) div n = 1" and "(a + b) div n = of_bool ((a + b) mod n < a)"
proof -
  have "(a + b) div n = (if a + b < n then 0 else 1)" "(a + b) mod n = (if a + b < n then a + b else a + b - n)"
    using assms int_div_pos_eq [of "a + b" n 1 "a + b - n"] int_mod_pos_eq [of "a + b" n 1 "a + b - n"]
    by auto
  then show "((a + b) mod n < a) \<longleftrightarrow> (a + b) div n = 1" "(a + b) div n = of_bool ((a + b) mod n < a)"
    using assms by auto
qed

lemma diff_div:
  fixes a b :: int
  assumes "0 \<le> a" "a < n" "0 \<le> b" "b < n"
  shows "(a - b) div n = (if b \<le> a then 0 else - 1)"
proof (cases "b \<le> a")
  case True
  then have "0 \<le> a - b" "a - b < n" using assms by linarith+
  with True show ?thesis by simp
next
  case False
  then have "0 \<le> a - b + n" "a - b + n < n" using assms by linarith+
  then have "(a - b) div n = - 1"
    by (intro int_div_pos_eq [of _ _ _ "a - b + n"]) simp_all
  with False show ?thesis by simp
qed

lemma int_div_bounds:
  fixes a d :: int
  assumes "0 \<le> a" "0 < d"
  shows "0 \<le> a div d" "a div d \<le> a"
  using assms zdiv_mono2 [of a 1 d] by (simp_all add: pos_imp_zdiv_nonneg_iff)

lemma div_mod_scale:
  fixes x B :: int
  shows "x div B * (B * B) + x mod B * B = x * B"
  by (metis div_mult_mod_eq distrib_right mult.assoc)

lemma div_mod_mult:
  fixes x B r :: int
  shows "x div B * r * B + x mod B * r = x * r"
proof -
  have "x div B * r * B + x mod B * r = (x div B * B + x mod B) * r"
    by (simp only: distrib_left distrib_right ac_simps)
  then show ?thesis by (simp only: div_mult_mod_eq)
qed

lemma int_div_less:
  fixes a c d :: int
  assumes "0 < d" "a < c * d"
  shows "a div d < c"
proof (rule ccontr)
  assume "\<not> a div d < c"
  then have "c * d \<le> a div d * d" using assms(1) by (intro mult_right_mono) simp_all
  also have "\<dots> \<le> a" using div_mult_mod_eq [of a d] pos_mod_sign [OF assms(1), of a] by linarith
  finally show False using assms(2) by simp
qed

text \<open>One step of a long division in base \<open>B\<close>.\<close>

lemma long_div_step:
  fixes a b d B :: int
  assumes "0 < d"
  shows "(a * B + b) div d = a div d * B + (a mod d * B + b) div d"
    and "(a * B + b) mod d = (a mod d * B + b) mod d"
proof -
  have eq: "a * B + b = d * (a div d * B) + (a mod d * B + b)"
    by (metis (no_types, lifting) ab_semigroup_add_class.add_ac(1) distrib_right mult.assoc
        mult_div_mod_eq)
  show "(a * B + b) div d = a div d * B + (a mod d * B + b) div d"
    unfolding eq using assms by simp
  show "(a * B + b) mod d = (a mod d * B + b) mod d"
    unfolding eq by simp
qed

section \<open>Splitting a 64-bit word into halves\<close>

lemma and_low32: "(a :: u64) AND 0xffffffff = take_bit 32 a"
proof -
  have "(0xffffffff :: u64) = mask 32" by (simp add: mask_eq_exp_minus_1)
  then show ?thesis by (simp add: take_bit_eq_mask)
qed

lemma drop_high32: "drop_bit 32 ((a :: u64) AND 0xffffffff00000000) = drop_bit 32 a"
proof -
  have m: "(0xffffffff00000000 :: u64) = push_bit 32 (mask 32)"
    by (simp add: mask_eq_exp_minus_1 push_bit_eq_mult)
  show ?thesis unfolding m by (rule bit_word_eqI) (auto simp: bit_drop_bit_eq bit_and_iff bit_push_bit_iff bit_mask_iff dest: bit_imp_le_length)
qed

lemma uint_take_bit32: "uint (take_bit 32 (a :: u64)) = uint a mod 2 ^ 32"
  by (simp only: unsigned_take_bit_eq) (simp add: take_bit_eq_mod)

lemma uint_drop_bit32: "uint (drop_bit 32 (a :: u64)) = uint a div 2 ^ 32"
  by (simp add: drop_bit_eq_div uint_div_distrib)

lemma uint_push_bit32: "uint (push_bit 32 (a :: u64)) = uint a mod 2 ^ 32 * 2 ^ 32"
  by (simp add: unsigned_push_bit_eq take_bit_push_bit) (simp add: push_bit_eq_mult take_bit_eq_mod)

lemma uint_push_or32:
  assumes "uint (b :: u64) < 2 ^ 32"
  shows "uint (push_bit 32 a OR b) = uint a mod 2 ^ 32 * 2 ^ 32 + uint b"
proof -
  have b: "b = take_bit 32 b"
    using assms by (simp add: word_uint_eq_iff uint_take_bit32)
  have "push_bit 32 a AND b = 0"
    by (subst b) (auto intro!: bit_word_eqI simp: bit_simps)
  then have "push_bit 32 a OR b = push_bit 32 a + b"
    by (simp add: disjunctive_add_eq_or)
  moreover have "uint (push_bit 32 a) + uint b < 2 ^ 64"
    using assms pos_mod_bound [of "2 ^ 32" "uint a"] by (simp add: uint_push_bit32)
  ultimately show ?thesis
    by (simp add: uint_push_bit32 uint_plus_if')
qed

lemma uint_ucast_u32_u64 [simp]: "uint (ucast (a :: u32) :: u64) = uint a"
  by (simp add: unsigned_ucast_eq take_bit_int_eq_self_iff uint_lt2p [of a, simplified] order.strict_trans [OF uint_lt2p [of a, simplified]])

lemma uint_pos_iff: "0 < uint a \<longleftrightarrow> a \<noteq> 0"
  by (simp add: word_uint_eq_iff less_le)

lemma uint_u32_bounds: "0 \<le> uint (a :: u32)" "uint a < 2 ^ 32"
  using uint_lt2p [of a] by simp_all

section \<open>Decimal numerals\<close>

text \<open>The usual decimal notation of a number: the reference for every printer of the library.\<close>

definition digit_char :: "nat \<Rightarrow> char" where
  "digit_char d = char_of (d + 48)"

fun decimal :: "nat \<Rightarrow> string" where
  "decimal n = (if n < 10 then [digit_char n] else decimal (n div 10) @ [digit_char (n mod 10)])"

declare decimal.simps [simp del]

lemma decimal_small [simp]: "n < 10 \<Longrightarrow> decimal n = [digit_char n]"
  by (simp add: decimal.simps)

lemma decimal_step: "10 \<le> n \<Longrightarrow> decimal n = decimal (n div 10) @ [digit_char (n mod 10)]"
  by (subst decimal.simps) simp

lemma decimal_nonempty [simp]: "decimal n \<noteq> []"
  by (subst decimal.simps) simp

lemma of_char_digit_char [simp]: "d < 10 \<Longrightarrow> of_char (digit_char d) = d + 48"
  by (simp add: digit_char_def)

lemma digit_char_eq:
  "digit_char 0 = CHR ''0''" "digit_char 1 = CHR ''1''" "digit_char 2 = CHR ''2''"
  "digit_char 3 = CHR ''3''" "digit_char 4 = CHR ''4''" "digit_char 5 = CHR ''5''"
  "digit_char 6 = CHR ''6''" "digit_char 7 = CHR ''7''" "digit_char 8 = CHR ''8''"
  "digit_char 9 = CHR ''9''"
  by code_simp+

lemma digit_char_nonzero: "d < 10 \<Longrightarrow> digit_char d \<noteq> CHR 0x00"
  using of_char_digit_char [of d] by (auto simp del: of_char_digit_char)

lemma decimal_chars: "c \<in> set (decimal n) \<Longrightarrow> \<exists>d < 10. c = digit_char d"
proof (induction n rule: decimal.induct)
  case (1 n)
  then show ?case
    by (cases "n < 10") (auto simp: decimal_step not_less intro: exI [of _ "n mod 10"])
qed

lemma length_decimal: "n < 10 ^ Suc m \<Longrightarrow> length (decimal n) \<le> Suc m"
proof (induction m arbitrary: n)
  case (Suc m)
  show ?case
  proof (cases "n < 10")
    case False
    then have "n div 10 < 10 ^ Suc m" using Suc.prems by (simp add: less_mult_imp_div_less)
    from Suc.IH [OF this] False show ?thesis by (simp add: decimal_step)
  qed simp
qed simp

end
