(* ===== verification/Wide_Int.thy ===== *)
theory Wide_Int
  imports Prelude
begin

text \<open>
  The software 128-bit integers of \<^verbatim>\<open>include/dynd/uint128.hpp\<close>, \<^verbatim>\<open>include/dynd/int128.hpp\<close>
  and their \<^verbatim>\<open>.cpp\<close> files, used where the compiler has no native type. A value is a pair of
  64-bit words. The readings \<open>uval\<close> and \<open>ival\<close> give the number a pair stands for; every
  operation is shown against the arithmetic of those numbers.
\<close>

section \<open>Data\<close>

datatype uint128 = UInt128 (um_hi: u64) (um_lo: u64)

datatype int128 = Int128 (im_hi: u64) (im_lo: u64)

datatype arith_error = Division_By_Zero

definition uval :: "uint128 \<Rightarrow> int" where
  "uval x = uint (um_hi x) * 2 ^ 64 + uint (um_lo x)"

definition iraw :: "int128 \<Rightarrow> int" where
  "iraw x = uint (im_hi x) * 2 ^ 64 + uint (im_lo x)"

definition ival :: "int128 \<Rightarrow> int" where
  "ival x = sint (im_hi x) * 2 ^ 64 + uint (im_lo x)"

section \<open>Construction from the narrower integers\<close>

text \<open>
  The unsigned type stores a narrower value in its low word and zero in its high word: the
  conversion to the low word sign-extends a negative argument, but the high word stays zero.
  The signed type extends the sign into the high word.
\<close>

definition uint128_of_unsigned :: "'a::len word \<Rightarrow> uint128" where
  "uint128_of_unsigned v = UInt128 0 (ucast v)"

definition uint128_of_signed :: "'a::len word \<Rightarrow> uint128" where
  "uint128_of_signed v = UInt128 0 (scast v)"

definition int128_of_unsigned :: "'a::len word \<Rightarrow> int128" where
  "int128_of_unsigned v = Int128 0 (ucast v)"

definition int128_of_signed :: "'a::len word \<Rightarrow> int128" where
  "int128_of_signed v = Int128 (if v <s 0 then 0xffffffffffffffff else 0) (scast v)"

definition uint128_of_int128 :: "int128 \<Rightarrow> uint128" where
  "uint128_of_int128 v = UInt128 (im_hi v) (im_lo v)"

definition int128_of_uint128 :: "uint128 \<Rightarrow> int128" where
  "int128_of_uint128 v = Int128 (um_hi v) (um_lo v)"

text \<open>The conversions back to a narrower integer keep the low word.\<close>

definition uint128_to :: "uint128 \<Rightarrow> 'a::len word" where
  "uint128_to v = ucast (um_lo v)"

definition int128_to :: "int128 \<Rightarrow> 'a::len word" where
  "int128_to v = ucast (im_lo v)"

definition uint128_min :: uint128 where
  "uint128_min = UInt128 0 0"

definition uint128_max :: uint128 where
  "uint128_max = UInt128 0xffffffffffffffff 0xffffffffffffffff"

definition int128_min :: int128 where
  "int128_min = Int128 0x8000000000000000 0"

definition int128_max :: int128 where
  "int128_max = Int128 0x7fffffffffffffff 0xffffffffffffffff"

section \<open>Unsigned operations\<close>

definition uint128_eq :: "uint128 \<Rightarrow> uint128 \<Rightarrow> bool" where
  "uint128_eq a b \<longleftrightarrow> um_hi a = um_hi b \<and> um_lo a = um_lo b"

definition uint128_eq_u64 :: "uint128 \<Rightarrow> u64 \<Rightarrow> bool" where
  "uint128_eq_u64 a b \<longleftrightarrow> um_hi a = 0 \<and> um_lo a = b"

definition uint128_eq_int :: "uint128 \<Rightarrow> 32 word \<Rightarrow> bool" where
  "uint128_eq_int a b \<longleftrightarrow> 0 \<le> sint b \<and> um_hi a = 0 \<and> um_lo a = ucast b"

definition uint128_ne :: "uint128 \<Rightarrow> uint128 \<Rightarrow> bool" where
  "uint128_ne a b \<longleftrightarrow> um_hi a \<noteq> um_hi b \<or> um_lo a \<noteq> um_lo b"

definition uint128_ne_int :: "uint128 \<Rightarrow> 32 word \<Rightarrow> bool" where
  "uint128_ne_int a b \<longleftrightarrow> sint b < 0 \<or> um_hi a \<noteq> 0 \<or> um_lo a \<noteq> ucast b"

definition uint128_lt :: "uint128 \<Rightarrow> uint128 \<Rightarrow> bool" where
  "uint128_lt a b \<longleftrightarrow> um_hi a < um_hi b \<or> (um_hi a = um_hi b \<and> um_lo a < um_lo b)"

definition uint128_le :: "uint128 \<Rightarrow> uint128 \<Rightarrow> bool" where
  "uint128_le a b \<longleftrightarrow> um_hi a < um_hi b \<or> (um_hi a = um_hi b \<and> um_lo a \<le> um_lo b)"

definition uint128_gt :: "uint128 \<Rightarrow> uint128 \<Rightarrow> bool" where
  "uint128_gt a b = uint128_lt b a"

definition uint128_ge :: "uint128 \<Rightarrow> uint128 \<Rightarrow> bool" where
  "uint128_ge a b = uint128_le b a"

text \<open>Comparison of a signed builtin on the left: a negative one is below every value.\<close>

definition signed_lt_uint128 :: "'a::len word \<Rightarrow> uint128 \<Rightarrow> bool" where
  "signed_lt_uint128 a b \<longleftrightarrow> sint a < 0 \<or> uint128_lt (uint128_of_signed a) b"

definition unsigned_lt_uint128 :: "'a::len word \<Rightarrow> uint128 \<Rightarrow> bool" where
  "unsigned_lt_uint128 a b \<longleftrightarrow> uint128_lt (uint128_of_unsigned a) b"

definition uint128_add :: "uint128 \<Rightarrow> uint128 \<Rightarrow> uint128" where
  "uint128_add a b = (let lo = um_lo a + um_lo b
     in UInt128 (um_hi a + um_hi b + of_bool (lo < um_lo a)) lo)"

definition uint128_add_u64 :: "uint128 \<Rightarrow> u64 \<Rightarrow> uint128" where
  "uint128_add_u64 a b = (let lo = um_lo a + b in UInt128 (um_hi a + of_bool (lo < um_lo a)) lo)"

definition uint128_add_u32 :: "uint128 \<Rightarrow> u32 \<Rightarrow> uint128" where
  "uint128_add_u32 a b =
     (let lo = um_lo a + ucast b in UInt128 (um_hi a + of_bool (lo < um_lo a)) lo)"

definition uint128_sub :: "uint128 \<Rightarrow> uint128 \<Rightarrow> uint128" where
  "uint128_sub a b = (let lo = um_lo a + NOT (um_lo b) + 1
     in UInt128 (um_hi a + NOT (um_hi b) + of_bool (lo < um_lo a)) lo)"

definition uint128_sub_u64 :: "uint128 \<Rightarrow> u64 \<Rightarrow> uint128" where
  "uint128_sub_u64 a b = (let lo = um_lo a + NOT b + 1
     in UInt128 (um_hi a + 0xffffffffffffffff + of_bool (lo < um_lo a)) lo)"

text \<open>Multiplication and division by a 32-bit number, in three partial steps each.\<close>

definition mul_u32_words :: "u64 \<Rightarrow> u64 \<Rightarrow> u32 \<Rightarrow> u64 \<times> u64" where
  "mul_u32_words hi0 lo0 rhs =
     (let lo_partial = (lo0 AND 0x00000000ffffffff) * ucast rhs;
          tmp = drop_bit 32 (lo0 AND 0xffffffff00000000) * ucast rhs;
          lo = lo_partial + push_bit 32 tmp;
          hi = drop_bit 32 tmp + of_bool (lo < lo_partial)
      in (hi + hi0 * ucast rhs, lo))"

definition uint128_mul :: "uint128 \<Rightarrow> u32 \<Rightarrow> uint128" where
  "uint128_mul a rhs = (case mul_u32_words (um_hi a) (um_lo a) rhs of (hi, lo) \<Rightarrow> UInt128 hi lo)"

definition div_u32_words :: "u64 \<Rightarrow> u64 \<Rightarrow> u32 \<Rightarrow> u64 \<times> u64 \<times> u32" where
  "div_u32_words hi0 lo0 rhs =
     (let d = ucast rhs :: u64;
          hi_div = hi0 div d; hi_rem = hi0 mod d;
          mid_val = push_bit 32 hi_rem OR drop_bit 32 lo0;
          mid_div = mid_val div d; mid_rem = mid_val mod d;
          low_val = push_bit 32 mid_rem OR (lo0 AND 0x00000000ffffffff);
          low_div = low_val div d
      in (hi_div, push_bit 32 mid_div OR low_div, ucast (low_val mod d)))"

definition uint128_div :: "uint128 \<Rightarrow> u32 \<Rightarrow> arith_error + uint128" where
  "uint128_div a rhs = (if rhs = 0 then Inl Division_By_Zero
     else case div_u32_words (um_hi a) (um_lo a) rhs of (hi, lo, _) \<Rightarrow> Inr (UInt128 hi lo))"

definition uint128_divrem :: "uint128 \<Rightarrow> u32 \<Rightarrow> arith_error + (uint128 \<times> u32)" where
  "uint128_divrem a rhs = (if rhs = 0 then Inl Division_By_Zero
     else case div_u32_words (um_hi a) (um_lo a) rhs of (hi, lo, r) \<Rightarrow> Inr (UInt128 hi lo, r))"


section \<open>Signed operations\<close>

definition int128_eq :: "int128 \<Rightarrow> int128 \<Rightarrow> bool" where
  "int128_eq a b \<longleftrightarrow> im_lo a = im_lo b \<and> im_hi a = im_hi b"

definition int128_eq_int :: "int128 \<Rightarrow> 32 word \<Rightarrow> bool" where
  "int128_eq_int a b \<longleftrightarrow> sint (im_lo a) = sint b
     \<and> im_hi a = (if 0 \<le> sint b then 0 else 0xffffffffffffffff)"

definition int128_ne_int :: "int128 \<Rightarrow> 32 word \<Rightarrow> bool" where
  "int128_ne_int a b \<longleftrightarrow> sint (im_lo a) \<noteq> sint b
     \<or> im_hi a \<noteq> (if 0 \<le> sint b then 0 else 0xffffffffffffffff)"

definition int128_lt :: "int128 \<Rightarrow> int128 \<Rightarrow> bool" where
  "int128_lt a b \<longleftrightarrow> im_hi a <s im_hi b \<or> (im_hi a = im_hi b \<and> im_lo a < im_lo b)"

definition int128_le :: "int128 \<Rightarrow> int128 \<Rightarrow> bool" where
  "int128_le a b \<longleftrightarrow> im_hi a <s im_hi b \<or> (im_hi a = im_hi b \<and> im_lo a \<le> im_lo b)"

definition int128_gt :: "int128 \<Rightarrow> int128 \<Rightarrow> bool" where
  "int128_gt a b = int128_lt b a"

definition int128_ge :: "int128 \<Rightarrow> int128 \<Rightarrow> bool" where
  "int128_ge a b = int128_le b a"

definition int128_is_negative :: "int128 \<Rightarrow> bool" where
  "int128_is_negative a \<longleftrightarrow> im_hi a AND 0x8000000000000000 \<noteq> 0"

text \<open>The body of both \<open>negate\<close> (in place) and the unary minus (a new value).\<close>

definition int128_negate :: "int128 \<Rightarrow> int128" where
  "int128_negate a = (let lo = NOT (im_lo a); hi = NOT (im_hi a); lo_p1 = lo + 1
     in Int128 (hi + of_bool (lo_p1 < lo)) lo_p1)"

definition int128_neg :: "int128 \<Rightarrow> int128" where
  "int128_neg a = (let lo = NOT (im_lo a); hi = NOT (im_hi a); lo_p1 = lo + 1
     in Int128 (hi + of_bool (lo_p1 < lo)) lo_p1)"

definition int128_add :: "int128 \<Rightarrow> int128 \<Rightarrow> int128" where
  "int128_add a b = (let lo = im_lo a + im_lo b
     in Int128 (im_hi a + im_hi b + of_bool (lo < im_lo a)) lo)"

definition int128_sub :: "int128 \<Rightarrow> int128 \<Rightarrow> int128" where
  "int128_sub a b = (let lo = im_lo a + NOT (im_lo b) + 1
     in Int128 (im_hi a + NOT (im_hi b) + of_bool (lo < im_lo a)) lo)"

text \<open>
  Multiplication and division negate a negative operand and call themselves. The smallest
  number is its own negation, so there the calls never end: the result is \<open>None\<close>.
\<close>

partial_function (option) int128_mul :: "int128 \<Rightarrow> u32 \<Rightarrow> int128 option" where
  "int128_mul a rhs =
     (if im_hi a <s 0
      then Option.bind (int128_mul (int128_neg a) rhs) (\<lambda>p. Some (int128_neg p))
      else Some (case mul_u32_words (im_hi a) (im_lo a) rhs of (hi, lo) \<Rightarrow> Int128 hi lo))"

partial_function (option) int128_div :: "int128 \<Rightarrow> u32 \<Rightarrow> (arith_error + int128) option" where
  "int128_div a rhs =
     (if im_hi a <s 0
      then Option.bind (int128_div (int128_neg a) rhs) (\<lambda>q. Some (map_sum id int128_neg q))
      else Some (if rhs = 0 then Inl Division_By_Zero
                 else case div_u32_words (im_hi a) (im_lo a) rhs of (hi, lo, _) \<Rightarrow> Inr (Int128 hi lo)))"

section \<open>The readings\<close>

lemma uval_bounds: "0 \<le> uval a" "uval a < 2 ^ 128"
  using uint_u64_bounds [of "um_hi a"] uint_u64_bounds [of "um_lo a"] by (simp_all add: uval_def)

lemma uval_UInt128 [simp]: "uval (UInt128 h l) = uint h * 2 ^ 64 + uint l"
  by (simp add: uval_def)

lemma uval_inject [simp]: "uval a = uval b \<longleftrightarrow> a = b"
  unfolding uval_def join_inject [OF uint_u64_bounds uint_u64_bounds]
  by (auto simp: uint128.expand word_uint_eq_iff)

lemma carry_u64: "(of_bool (a + b < (a :: u64)) :: int) = (uint a + uint b) div 2 ^ 64"
  using carry_div(2) [OF uint_u64_bounds uint_u64_bounds, of a b]
  by (simp add: uint_less_iff uint_word_ariths)

lemma two_128: "(2 :: int) ^ 128 = 2 ^ 64 * 2 ^ 64"
  by simp

text \<open>A carried upper word over a wrapped lower word is the sum modulo the full width.\<close>

lemma uval_carry:
  assumes "uint h = (k + l div 2 ^ 64) mod 2 ^ 64" "uint lo = l mod 2 ^ 64"
  shows "uval (UInt128 h lo) = (k * 2 ^ 64 + l) mod 2 ^ 128"
  unfolding uval_UInt128 assms two_128 by (rule join_add) simp

section \<open>Order\<close>

lemma uint128_lt_iff: "uint128_lt a b \<longleftrightarrow> uval a < uval b"
  unfolding uval_def join_less_iff [OF uint_u64_bounds uint_u64_bounds]
  by (simp add: uint128_lt_def uint_less_iff word_uint_eq_iff)

lemma uint128_le_lt: "uint128_le a b \<longleftrightarrow> uint128_lt a b \<or> a = b"
  by (cases a; cases b) (auto simp: uint128_le_def uint128_lt_def le_less)

lemma uint128_le_iff: "uint128_le a b \<longleftrightarrow> uval a \<le> uval b"
  unfolding uint128_le_lt uint128_lt_iff by (auto simp: le_less)

lemma uint128_add_val: "uval (uint128_add a b) = (uval a + uval b) mod 2 ^ 128"
proof -
  let ?l = "uint (um_lo a) + uint (um_lo b)"
  have "uval (uint128_add a b) = ((uint (um_hi a) + uint (um_hi b)) * 2 ^ 64 + ?l) mod 2 ^ 128"
    unfolding uint128_add_def Let_def
    by (rule uval_carry) (simp_all add: uint_word_ariths carry_u64 mod_simps)
  then show ?thesis
    by (simp only: uval_def distrib_right ac_simps)
qed

lemma not_u64: "uint (NOT (a :: u64)) = 2 ^ 64 - 1 - uint a"
  unfolding unsigned_not_eq take_bit_not_eq_mask_diff
  using uint_u64_bounds [of a] by (simp add: mask_eq_exp_minus_1 take_bit_int_eq_self_iff)

lemma sub_lo: "um_lo a + NOT (b :: u64) + 1 = um_lo a - b"
  by (simp add: not_eq_complement)

text \<open>The carry test of the subtraction sees no borrow exactly when the word subtracted is not zero.\<close>

lemma borrow_u64:
  "(of_bool (a - b < (a :: u64)) :: int) = (uint a - uint b) div 2 ^ 64 + 1 - of_bool (b = 0)"
proof (cases "b = 0")
  case False
  then have "0 < uint b" by (simp add: word_uint_eq_iff less_le)
  moreover have "(uint a - uint b) div 2 ^ 64 = (if uint b \<le> uint a then 0 else - 1)"
    by (rule diff_div) (rule uint_u64_bounds)+
  ultimately show ?thesis
    using False uint_u64_bounds [of a] uint_u64_bounds [of b]
    by (auto simp: uint_less_iff uint_sub_if')
qed (use uint_u64_bounds [of a] in simp)

lemma uint128_sub_val:
  "uval (uint128_sub a b) = (uval a - uval b - of_bool (um_lo b = 0) * 2 ^ 64) mod 2 ^ 128"
proof -
  let ?l = "uint (um_lo a) - uint (um_lo b)"
  let ?k = "uint (um_hi a) - uint (um_hi b) - of_bool (um_lo b = 0)"
  have "uval (uint128_sub a b) = (?k * 2 ^ 64 + ?l) mod 2 ^ 128"
    unfolding uint128_sub_def Let_def sub_lo
  proof (rule uval_carry)
    have "uint (um_hi a + NOT (um_hi b) + of_bool (um_lo a - um_lo b < um_lo a))
        = (uint (um_hi a) + (2 ^ 64 - 1 - uint (um_hi b)) + of_bool (um_lo a - um_lo b < um_lo a)) mod 2 ^ 64"
      by (simp add: uint_word_ariths not_u64 mod_simps)
    also have "\<dots> = (?k + ?l div 2 ^ 64 + 2 ^ 64) mod 2 ^ 64"
      by (simp only: borrow_u64) (simp add: algebra_simps)
    finally show "uint (um_hi a + NOT (um_hi b) + of_bool (um_lo a - um_lo b < um_lo a))
        = (?k + ?l div 2 ^ 64) mod 2 ^ 64"
      by simp
  qed (simp add: uint_word_ariths)
  also have "?k * 2 ^ 64 + ?l = uval a - uval b - of_bool (um_lo b = 0) * 2 ^ 64"
    by (simp add: uval_def algebra_simps)
  finally show ?thesis .
qed


section \<open>Multiplication and division by a 32-bit number\<close>

lemma prod_u32_u64:
  assumes "uint a < 2 ^ 32"
  shows "uint ((a :: u64) * ucast (r :: u32)) = uint a * uint r"
proof -
  have "uint a * uint r < 2 ^ 32 * 2 ^ 32"
    using assms uint_u32_bounds [of r] by (intro mult_strict_mono) simp_all
  then show ?thesis
    by (simp add: uint_word_ariths)
qed

lemma mul_u32_words_val:
  assumes "mul_u32_words h0 l0 r = (h, l)"
  shows "uval (UInt128 h l) = (uval (UInt128 h0 l0) * uint r) mod 2 ^ 128"
proof -
  define p where "p = take_bit 32 l0 * ucast r"
  define t where "t = drop_bit 32 l0 * ucast r"
  have p: "uint p = uint l0 mod 2 ^ 32 * uint r"
    unfolding p_def by (subst prod_u32_u64) (simp_all add: uint_take_bit32)
  have t: "uint t = uint l0 div 2 ^ 32 * uint r"
    unfolding t_def using uint_u64_bounds [of l0] by (subst prod_u32_u64) (simp_all add: uint_drop_bit32)
  have hl: "h = drop_bit 32 t + of_bool (p + push_bit 32 t < p) + h0 * ucast r" "l = p + push_bit 32 t"
    using assms unfolding mul_u32_words_def Let_def and_low32 drop_high32 p_def t_def prod.inject by blast+
  let ?l = "uint p + uint t mod 2 ^ 32 * 2 ^ 32"
  let ?k = "uint t div 2 ^ 32 + uint h0 * uint r"
  have "uval (UInt128 h l) = (?k * 2 ^ 64 + ?l) mod 2 ^ 128"
    unfolding hl
  proof (rule uval_carry)
    show "uint (drop_bit 32 t + of_bool (p + push_bit 32 t < p) + h0 * ucast r) = (?k + ?l div 2 ^ 64) mod 2 ^ 64"
      by (simp add: uint_word_ariths carry_u64 uint_push_bit32 uint_drop_bit32 mod_simps) (simp add: ac_simps)
  qed (simp add: uint_word_ariths uint_push_bit32)
  also have "?k * 2 ^ 64 + ?l = uint h0 * uint r * 2 ^ 64 + uint t * 2 ^ 32 + uint p"
    unfolding distrib_right using div_mod_scale [of "uint t" "2 ^ 32"] by simp
  also have "\<dots> = (uint h0 * 2 ^ 64 + uint l0) * uint r"
    unfolding p t distrib_right using div_mod_mult [of "uint l0" "2 ^ 32" "uint r"] by simp
  finally show ?thesis
    by simp
qed

lemma div_u32_words_val:
  assumes "div_u32_words h0 l0 r = (h, l, m)" "r \<noteq> 0"
  shows "uval (UInt128 h l) = uval (UInt128 h0 l0) div uint r"
    and "uint m = uval (UInt128 h0 l0) mod uint r"
proof -
  define d :: u64 where "d = ucast r"
  have d: "0 < uint d" "uint d < 2 ^ 32" "uint d = uint r"
    using assms(2) uint_u32_bounds [of r] by (simp_all add: d_def word_uint_eq_iff less_le)
  define mv where "mv = push_bit 32 (h0 mod d) OR drop_bit 32 l0"
  define lv where "lv = push_bit 32 (mv mod d) OR take_bit 32 l0"
  let ?B = "2 ^ 32 :: int"
  have lt32: "uint (w mod d) < ?B" "uint (w mod d) mod ?B = uint (w mod d)" for w
  proof -
    have "uint (w mod d) < uint d" using d by (simp add: uint_mod)
    with d show "uint (w mod d) < ?B" by linarith
    then show "uint (w mod d) mod ?B = uint (w mod d)" by simp
  qed
  have mv: "uint mv = uint h0 mod uint d * ?B + uint l0 div ?B"
    unfolding mv_def using uint_u64_bounds [of l0] lt32(2) [of h0]
    by (subst uint_push_or32) (simp_all add: uint_drop_bit32 uint_mod)
  have lv: "uint lv = uint mv mod uint d * ?B + uint l0 mod ?B"
    unfolding lv_def using lt32(2) [of mv]
    by (subst uint_push_or32) (simp_all add: uint_take_bit32 uint_mod)
  have quot: "(x mod uint d * ?B + y) div uint d < ?B" if "y < ?B" for x y
  proof -
    have "x mod uint d * ?B + y < uint d * ?B"
    proof -
      have "(x mod uint d + 1) * ?B \<le> uint d * ?B"
        using pos_mod_bound [OF d(1), of x] by (intro mult_right_mono) simp_all
      with that show ?thesis by (simp add: distrib_right)
    qed
    with d(1) show ?thesis by (intro int_div_less) (simp_all add: mult.commute)
  qed
  have md: "uint (mv div d) < ?B" "uint (lv div d) < ?B"
    unfolding uint_div lv unfolding mv
    by (rule quot, rule int_div_less, use uint_u64_bounds [of l0] in simp, use uint_u64_bounds [of l0] in simp)
      (rule quot, simp)
  have hl: "h = h0 div d" "l = push_bit 32 (mv div d) OR (lv div d)" "m = ucast (lv mod d)"
    using assms(1) by (simp_all add: div_u32_words_def Let_def mv_def lv_def d_def and_low32)
  have split: "uval (UInt128 h0 l0) = (uint h0 * ?B + uint l0 div ?B) * ?B + uint l0 mod ?B"
    by (simp add: distrib_right)
  let ?x = "uint h0 * ?B + uint l0 div ?B"
  have x: "?x div uint d = uint h0 div uint d * ?B + uint mv div uint d" "?x mod uint d = uint mv mod uint d"
    unfolding mv by (rule long_div_step [OF d(1)])+
  have y: "uval (UInt128 h0 l0) div uint d = ?x div uint d * ?B + uint lv div uint d"
    "uval (UInt128 h0 l0) mod uint d = uint lv mod uint d"
    unfolding split lv x(2) [symmetric] by (rule long_div_step [OF d(1)])+
  show "uval (UInt128 h l) = uval (UInt128 h0 l0) div uint r"
    unfolding hl d(3) [symmetric] y x unfolding uval_UInt128 uint_push_or32 [OF md(2)]
    using md(1) d(1) by (simp add: uint_div distrib_right pos_imp_zdiv_nonneg_iff)
  show "uint m = uval (UInt128 h0 l0) mod uint r"
    unfolding hl d(3) [symmetric] y using d lt32(1) [of lv]
    by (simp add: uint_mod unsigned_ucast_eq take_bit_eq_mod)
qed

lemma uint128_mul_val: "uval (uint128_mul a r) = uval a * uint r mod 2 ^ 128"
proof (cases "mul_u32_words (um_hi a) (um_lo a) r")
  case (Pair h l)
  from mul_u32_words_val [OF this] show ?thesis
    by (simp add: uint128_mul_def uval_def Pair)
qed

lemma uint128_divrem_val:
  assumes "r \<noteq> 0"
  shows "\<exists>q m. uint128_divrem a r = Inr (q, m) \<and> uint128_div a r = Inr q
    \<and> uval q = uval a div uint r \<and> uint m = uval a mod uint r"
  using div_u32_words_val [OF _ assms] assms
  by (cases a) (auto simp: uint128_divrem_def uint128_div_def split: prod.split)

lemma uval_zero_iff: "uval q = 0 \<longleftrightarrow> q = UInt128 0 0"
  using uval_inject [of q "UInt128 0 0"] by simp

lemma uint128_ne_zero: "uint128_ne q (uint128_of_unsigned (0 :: u64)) \<longleftrightarrow> uval q \<noteq> 0"
  by (cases q) (auto simp: uint128_ne_def uint128_of_unsigned_def uval_zero_iff simp del: uval_UInt128)

lemma uint128_eq_zero: "uint128_eq q (uint128_of_unsigned (0 :: u64)) \<longleftrightarrow> uval q = 0"
  by (cases q) (auto simp: uint128_eq_def uint128_of_unsigned_def uval_zero_iff simp del: uval_UInt128)

lemma divrem_10_decreases:
  assumes "uint128_divrem a 10 = Inr (q, m)" "uint128_ne q (uint128_of_unsigned (0 :: u64))"
  shows "uval q < uval a" "0 < uval a"
proof -
  have q: "uval q = uval a div 10"
    using uint128_divrem_val [of 10 a] assms(1) by auto
  have "uval q \<noteq> 0"
    using assms(2) by (simp add: uint128_ne_zero)
  then have "0 < uval q" using uval_bounds(1) [of q] by linarith
  then show "0 < uval a" "uval q < uval a" unfolding q by linarith+
qed

section \<open>Printing\<close>

text \<open>
  The digits are written from the end of a buffer of 40 characters towards its start; the text
  printed is what follows the last index, up to the first null character. An index outside
  the buffer would be undefined behaviour and has no result.
\<close>

function print_digits :: "uint128 \<Rightarrow> string \<Rightarrow> u64 \<Rightarrow> (string \<times> u64) option" where
  "print_digits tmp buffer idx =
     (case uint128_divrem tmp 10 of
        Inl _ \<Rightarrow> None
      | Inr (tmp', digit) \<Rightarrow>
          if unat idx < length buffer
          then (let buffer' = buffer[unat idx := char_of (unat digit + 48)]; idx' = idx - 1
                in if uint128_ne tmp' (uint128_of_unsigned (0 :: u64))
                   then print_digits tmp' buffer' idx' else Some (buffer', idx'))
          else None)"
  by pat_completeness auto
termination
  by (relation "measure (\<lambda>(tmp, _, _). nat (uval tmp))") (auto dest: divrem_10_decreases)

declare print_digits.simps [simp del]

definition uint128_print :: "uint128 \<Rightarrow> string option" where
  "uint128_print val =
     (if uint128_eq val (uint128_of_unsigned (0 :: u64)) then Some ''0''
      else case print_digits val (replicate 40 (CHR 0x00)) 39 of
             None \<Rightarrow> None
           | Some (buffer, idx) \<Rightarrow>
               Some (takeWhile (\<lambda>c. c \<noteq> CHR 0x00) (drop (unat (idx + 1)) buffer)))"

definition int128_print :: "int128 \<Rightarrow> string option" where
  "int128_print val =
     (if int128_lt val (int128_of_signed (0 :: 32 word))
      then (let tmp = int128_neg val
            in map_option (\<lambda>s. CHR ''-'' # s) (uint128_print (UInt128 (im_hi tmp) (im_lo tmp))))
      else uint128_print (UInt128 (im_hi val) (im_lo val)))"


text \<open>The loop writes the decimal digits in front of what the buffer already holds.\<close>

lemma print_digits_decimal:
  assumes "0 < uval v" "length (decimal (nat (uval v))) \<le> k" "k + length done = 40"
  shows "print_digits v (replicate k (CHR 0x00) @ done) (of_nat k - 1)
    = Some (replicate (k - length (decimal (nat (uval v)))) (CHR 0x00) @ decimal (nat (uval v)) @ done,
            of_nat (k - length (decimal (nat (uval v)))) - 1)"
  using assms
proof (induction "nat (uval v)" arbitrary: v k "done" rule: less_induct)
  case less
  let ?n = "nat (uval v)"
  have k: "0 < k" "k \<le> 40"
    using less.prems by (cases k, auto)
  then have idx: "of_nat k - 1 = (of_nat (k - 1) :: u64)"
    by (simp add: of_nat_diff)
  have unat_idx: "unat (of_nat (k - 1) :: u64) = k - 1"
    using k by (intro unat_of_nat_eq) simp
  obtain q m where qm: "uint128_divrem v 10 = Inr (q, m)" "uval q = uval v div 10" "uint m = uval v mod 10"
    using uint128_divrem_val [of 10 v] by auto
  have m: "char_of (unat m + 48) = digit_char (?n mod 10)"
    using qm(3) less.prems(1) by (simp add: digit_char_def nat_mod_distrib flip: nat_uint_eq)
  have upd: "(replicate k (CHR 0x00) @ done)[k - 1 := c] = replicate (k - 1) (CHR 0x00) @ c # done" for c
    using k(1) by (cases k) (simp_all add: replicate_append_same [symmetric] list_update_append)
  have len: "k - 1 < length (replicate k (CHR 0x00) @ done)"
    using k by simp
  have "print_digits v (replicate k (CHR 0x00) @ done) (of_nat k - 1)
      = (let b = replicate (k - 1) (CHR 0x00) @ digit_char (?n mod 10) # done; i = of_nat (k - 1) - 1
         in if uval q \<noteq> 0 then print_digits q b i else Some (b, i))"
    by (subst print_digits.simps)
      (simp only: qm(1) idx unat_idx uint128_ne_zero m upd len sum.case prod.case if_True Let_def)
  note step = this [unfolded Let_def]
  show ?case
  proof (cases "uval q = 0")
    case True
    then have "?n < 10" using qm(2) less.prems(1) by linarith
    with True show ?thesis by (simp add: step)
  next
    case False
    then have n: "10 \<le> ?n" "nat (uval q) = ?n div 10" "0 < uval q" "nat (uval q) < ?n"
      using qm(2) uval_bounds(1) [of q] by linarith+
    then have "length (decimal (nat (uval q))) \<le> k - 1" and "k - 1 + length (digit_char (?n mod 10) # done) = 40"
      using less.prems k by (simp_all add: decimal_step)
    from less.hyps [OF n(4) n(3) this] show ?thesis
      using False n by (simp add: step decimal_step)
  qed
qed

lemma uint128_print_decimal: "uint128_print v = Some (decimal (nat (uval v)))"
proof (cases "uval v = 0")
  case False
  let ?s = "decimal (nat (uval v))"
  have pos: "0 < uval v" using False uval_bounds(1) [of v] by linarith
  have "nat (uval v) < 10 ^ Suc 38"
    using uval_bounds(2) [of v] by simp
  from length_decimal [OF this] have len: "length ?s \<le> 39" by simp
  have "print_digits v (replicate 40 (CHR 0x00)) 39
      = Some (replicate (40 - length ?s) (CHR 0x00) @ ?s, of_nat (40 - length ?s) - 1)"
    using print_digits_decimal [of v 40 "[]"] pos len by simp
  moreover have "unat (of_nat (40 - length ?s) - 1 + 1 :: u64) = 40 - length ?s"
    by (simp add: unat_of_nat_eq)
  moreover have "takeWhile (\<lambda>c. c \<noteq> CHR 0x00) ?s = ?s"
    by (auto simp: takeWhile_eq_all_conv dest!: decimal_chars digit_char_nonzero)
  ultimately show ?thesis
    using False by (simp add: uint128_print_def uint128_eq_zero)
qed (simp add: uint128_print_def uint128_eq_zero digit_char_eq)

section \<open>The signed readings\<close>

text \<open>A number reduced to the range of the signed type, as two's complement arithmetic does.\<close>

definition wrap128 :: "int \<Rightarrow> int" where
  "wrap128 k = (k + 2 ^ 127) mod 2 ^ 128 - 2 ^ 127"

lemma wrap128_id: "- (2 ^ 127) \<le> k \<Longrightarrow> k < 2 ^ 127 \<Longrightarrow> wrap128 k = k"
  by (simp add: wrap128_def)

lemma wrap128_range: "- (2 ^ 127) \<le> wrap128 k" "wrap128 k < 2 ^ 127"
  using pos_mod_bound [of "2 ^ 128" "k + 2 ^ 127"] by (simp_all add: wrap128_def)

lemma wrap128_cong: "j mod 2 ^ 128 = k mod 2 ^ 128 \<Longrightarrow> wrap128 j = wrap128 k"
  unfolding wrap128_def by (metis mod_add_left_eq)

lemma wrap128_mod: "wrap128 k mod 2 ^ 128 = k mod 2 ^ 128"
  unfolding wrap128_def by (simp only: mod_diff_left_eq) simp

lemma wrap128_shift: "wrap128 (k + c * 2 ^ 128) = wrap128 k"
  by (rule wrap128_cong) simp

lemma sint_u64: "sint (h :: u64) = uint h - (if uint h < 2 ^ 63 then 0 else 2 ^ 64)"
proof -
  have "(uint h + 2 ^ 63) mod 2 ^ 64 = (if uint h < 2 ^ 63 then uint h + 2 ^ 63 else uint h - 2 ^ 63)"
    using uint_u64_bounds [of h] int_mod_pos_eq [of "uint h + 2 ^ 63" "2 ^ 64" 1 "uint h - 2 ^ 63"]
    by auto
  then show ?thesis
    by (simp add: sint_uint signed_take_bit_eq_take_bit_shift take_bit_eq_mod)
qed

lemma iraw_uval: "iraw a = uval (uint128_of_int128 a)"
  by (simp add: iraw_def uint128_of_int128_def)

lemma iraw_bounds: "0 \<le> iraw a" "iraw a < 2 ^ 128"
  unfolding iraw_uval by (rule uval_bounds)+

lemma ival_iraw: "ival a = iraw a - (if uint (im_hi a) < 2 ^ 63 then 0 else 2 ^ 128)"
  by (simp add: ival_def iraw_def sint_u64 left_diff_distrib)

lemma ival_range: "- (2 ^ 127) \<le> ival a" "ival a < 2 ^ 127"
  using uint_u64_bounds [of "im_lo a"] sint_greater_eq [of "im_hi a"] sint_less [of "im_hi a"]
  unfolding ival_def by (simp_all, linarith+)

text \<open>The two readings differ by a multiple of \<open>2 ^ 128\<close>.\<close>

lemma raw_shift: "\<exists>c. uval (uint128_of_int128 a) = ival a + c * 2 ^ 128"
  by (rule exI [of _ "if uint (im_hi a) < 2 ^ 63 then 0 else 1"]) (simp add: ival_iraw iraw_uval)

text \<open>An operation whose words wrap to a number modulo \<open>2 ^ 128\<close> yields that number wrapped.\<close>

lemma ival_eqI:
  assumes "uval (uint128_of_int128 a) = (k + c * 2 ^ 128) mod 2 ^ 128"
  shows "ival a = wrap128 k"
proof -
  obtain d where "uval (uint128_of_int128 a) = ival a + d * 2 ^ 128"
    using raw_shift by blast
  with assms have "(ival a + d * 2 ^ 128) mod 2 ^ 128 = k mod 2 ^ 128"
    by (metis mod_mod_trivial mod_mult_self1)
  then have "wrap128 (ival a) = wrap128 k"
    by (intro wrap128_cong) simp
  then show ?thesis
    using ival_range [of a] by (simp add: wrap128_id)
qed

lemma ival_inject [simp]: "ival a = ival b \<longleftrightarrow> a = b"
proof
  assume eq: "ival a = ival b"
  obtain c d where "iraw a = ival a + c * 2 ^ 128" "iraw b = ival b + d * 2 ^ 128"
    unfolding iraw_uval using raw_shift by meson
  then have "iraw a mod 2 ^ 128 = iraw b mod 2 ^ 128"
    using eq by simp
  then have "uval (uint128_of_int128 a) = uval (uint128_of_int128 b)"
    using iraw_bounds [of a] iraw_bounds [of b] by (simp add: iraw_uval)
  then show "a = b"
    unfolding uval_inject by (simp add: uint128_of_int128_def int128.expand)
qed simp

lemma int128_lt_iff: "int128_lt a b \<longleftrightarrow> ival a < ival b"
proof -
  have "im_hi a = im_hi b \<longleftrightarrow> sint (im_hi a) = sint (im_hi b)"
    by (auto intro: signed_word_eqI)
  then show ?thesis
    unfolding ival_def join_less_iff [OF uint_u64_bounds uint_u64_bounds]
    by (simp only: int128_lt_def uint_less_iff word_sless_alt)
qed

lemma int128_le_lt: "int128_le a b \<longleftrightarrow> int128_lt a b \<or> a = b"
  by (cases a; cases b) (auto simp: int128_le_def int128_lt_def le_less)

lemma int128_le_iff: "int128_le a b \<longleftrightarrow> ival a \<le> ival b"
  unfolding int128_le_lt int128_lt_iff by (auto simp: le_less)

lemma hi_negative_iff: "im_hi a <s 0 \<longleftrightarrow> ival a < 0"
  using join_less_iff [OF uint_u64_bounds uint_u64_bounds, of "sint (im_hi a)" "im_lo a" 0 0]
  by (simp add: word_sless_alt ival_def uint_less_iff)

lemma ival_nonneg_raw: "0 \<le> ival a \<Longrightarrow> uval (UInt128 (im_hi a) (im_lo a)) = ival a"
  using iraw_bounds [of a] by (auto simp: ival_iraw iraw_def split: if_splits)

lemma int128_add_val: "ival (int128_add a b) = wrap128 (ival a + ival b)"
proof -
  obtain c d where "uval (uint128_of_int128 a) = ival a + c * 2 ^ 128" "uval (uint128_of_int128 b) = ival b + d * 2 ^ 128"
    using raw_shift by meson
  moreover have "uint128_of_int128 (int128_add a b) = uint128_add (uint128_of_int128 a) (uint128_of_int128 b)"
    by (simp add: int128_add_def uint128_add_def uint128_of_int128_def Let_def)
  ultimately show ?thesis
    by (intro ival_eqI [where c = "c + d"]) (simp add: uint128_add_val algebra_simps)
qed

lemma int128_sub_val:
  "ival (int128_sub a b) = wrap128 (ival a - ival b - of_bool (im_lo b = 0) * 2 ^ 64)"
proof -
  obtain c d where "uval (uint128_of_int128 a) = ival a + c * 2 ^ 128" "uval (uint128_of_int128 b) = ival b + d * 2 ^ 128"
    using raw_shift by meson
  moreover have "uint128_of_int128 (int128_sub a b) = uint128_sub (uint128_of_int128 a) (uint128_of_int128 b)"
    by (simp add: int128_sub_def uint128_sub_def uint128_of_int128_def Let_def)
  moreover have "um_lo (uint128_of_int128 b) = im_lo b"
    by (simp add: uint128_of_int128_def)
  ultimately show ?thesis
    by (intro ival_eqI [where c = "c - d"]) (simp only: uint128_sub_val, simp add: algebra_simps)
qed

lemma int128_neg_val: "ival (int128_neg a) = wrap128 (- ival a)"
proof -
  obtain c where c: "uval (uint128_of_int128 a) = ival a + c * 2 ^ 128"
    using raw_shift by blast
  let ?l = "2 ^ 64 - uint (im_lo a)" and ?k = "- uint (im_hi a) - 1"
  have carry: "uint (NOT (im_hi a) + of_bool (NOT (im_lo a) + 1 < NOT (im_lo a))) = (?k + ?l div 2 ^ 64) mod 2 ^ 64"
  proof -
    have "uint (NOT (im_hi a) + of_bool (NOT (im_lo a) + 1 < NOT (im_lo a)))
        = ((2 ^ 64 - 1 - uint (im_hi a)) + (of_bool (NOT (im_lo a) + 1 < NOT (im_lo a)))) mod 2 ^ 64"
      by (simp add: uint_word_ariths not_u64)
    also have "\<dots> = (?k + ?l div 2 ^ 64 + 2 ^ 64) mod 2 ^ 64"
      unfolding carry_u64 by (simp add: not_u64 algebra_simps)
    finally show ?thesis unfolding mod_add_self2 .
  qed
  have lo: "uint (NOT (im_lo a) + 1) = ?l mod 2 ^ 64"
    by (simp add: uint_word_ariths not_u64 mod_simps)
  have "uval (uint128_of_int128 (int128_neg a)) = (?k * 2 ^ 64 + ?l) mod 2 ^ 128"
    unfolding int128_neg_def Let_def uint128_of_int128_def int128.sel by (rule uval_carry [OF carry lo])
  also have "?k * 2 ^ 64 + ?l = - ival a + (- c) * 2 ^ 128"
    using c by (simp add: uint128_of_int128_def algebra_simps)
  finally show ?thesis by (rule ival_eqI)
qed

lemma ival_neg: "ival a \<noteq> - (2 ^ 127) \<Longrightarrow> ival (int128_neg a) = - ival a"
  using ival_range [of a] by (simp add: int128_neg_val wrap128_id)

lemma int128_neg_min: "int128_neg int128_min = int128_min" "ival int128_min = - (2 ^ 127)"
  by (simp_all add: int128_neg_def int128_min_def ival_def word_gt_0)

lemma int128_neg_cases:
  assumes "a \<noteq> int128_min" "\<not> 0 \<le> ival a"
  shows "ival (int128_neg a) = - ival a" "0 \<le> ival (int128_neg a)"
proof -
  have "ival a \<noteq> - (2 ^ 127)"
    using assms(1) ival_inject [of a int128_min] by (simp add: int128_neg_min del: ival_inject)
  then show "ival (int128_neg a) = - ival a"
    by (rule ival_neg)
  with assms(2) show "0 \<le> ival (int128_neg a)" by simp
qed

section \<open>The recursive operations\<close>

lemma int128_mul_nonneg:
  assumes "0 \<le> ival a"
  shows "\<exists>p. int128_mul a r = Some p \<and> ival p = wrap128 (ival a * uint r)"
proof (cases "mul_u32_words (im_hi a) (im_lo a) r")
  case (Pair h l)
  have "uval (uint128_of_int128 (Int128 h l)) = (ival a * uint r + 0 * 2 ^ 128) mod 2 ^ 128"
    using mul_u32_words_val [OF Pair] ival_nonneg_raw [OF assms] by (simp add: uint128_of_int128_def)
  then have "ival (Int128 h l) = wrap128 (ival a * uint r)"
    by (rule ival_eqI)
  then show ?thesis
    using assms by (subst int128_mul.simps) (simp add: hi_negative_iff Pair)
qed

lemma wrap128_neg: "wrap128 (- wrap128 k) = wrap128 (- k)"
  by (rule wrap128_cong) (metis mod_minus_eq wrap128_mod)

lemma int128_mul_val:
  assumes "a \<noteq> int128_min"
  shows "\<exists>p. int128_mul a r = Some p \<and> ival p = wrap128 (ival a * uint r)"
proof (cases "0 \<le> ival a")
  case False
  note neg = int128_neg_cases [OF assms False]
  from False obtain p where "int128_mul (int128_neg a) r = Some p" "ival p = wrap128 (- ival a * uint r)"
    using int128_mul_nonneg [OF neg(2), of r] by (auto simp: neg(1))
  then show ?thesis
    using False by (subst int128_mul.simps) (simp add: hi_negative_iff int128_neg_val wrap128_neg)
qed (rule int128_mul_nonneg)

lemma int128_mul_min: "int128_mul int128_min r = None"
proof (rule ccontr)
  assume "int128_mul int128_min r \<noteq> None"
  then obtain y where ret: "int128_mul int128_min r = Some y" by blast
  have "int128_min \<noteq> int128_min"
  proof (rule int128_mul.raw_induct [where P = "\<lambda>a r y. a \<noteq> int128_min", OF _ ret])
    fix f a r y
    assume IH: "\<And>a r y. f a r = Some y \<Longrightarrow> a \<noteq> int128_min"
      and eq: "(if im_hi a <s 0 then Option.bind (f (int128_neg a) r) (\<lambda>p. Some (int128_neg p))
        else Some (case mul_u32_words (im_hi a) (im_lo a) r of (hi, lo) \<Rightarrow> Int128 hi lo)) = Some y"
    show "a \<noteq> int128_min"
    proof
      assume "a = int128_min"
      moreover from this have "im_hi a <s 0" by (simp add: hi_negative_iff int128_neg_min)
      ultimately obtain y' where "f int128_min r = Some y'"
        using eq by (auto simp: int128_neg_min bind_eq_Some_conv)
      then show False using IH by blast
    qed
  qed
  then show False by simp
qed

lemma int128_div_nonneg:
  assumes "0 \<le> ival a"
  shows "map_option (map_sum id ival) (int128_div a r)
    = Some (if r = 0 then Inl Division_By_Zero else Inr (ival a div uint r))"
proof (cases "div_u32_words (im_hi a) (im_lo a) r")
  case (fields h l m)
  show ?thesis
  proof (cases "r = 0")
    case False
    have "uval (uint128_of_int128 (Int128 h l)) = ival a div uint r"
      using div_u32_words_val(1) [OF fields False] ival_nonneg_raw [OF assms]
      by (simp add: uint128_of_int128_def)
    moreover have "0 \<le> ival a div uint r" "ival a div uint r \<le> ival a"
      using int_div_bounds [OF assms, of "uint r"] False by (simp_all add: uint_pos_iff)
    ultimately have "ival (Int128 h l) = ival a div uint r"
      using ival_range [of a] wrap128_id [of "ival a div uint r"]
        ival_eqI [of "Int128 h l" "ival a div uint r" 0] by simp
    then show ?thesis
      using assms False by (subst int128_div.simps) (simp add: hi_negative_iff fields)
  qed (use assms in \<open>subst int128_div.simps, simp add: hi_negative_iff\<close>)
qed

lemma int128_div_min: "int128_div int128_min r = None"
proof (rule ccontr)
  assume "int128_div int128_min r \<noteq> None"
  then obtain y where ret: "int128_div int128_min r = Some y" by blast
  have "int128_min \<noteq> int128_min"
  proof (rule int128_div.raw_induct [where P = "\<lambda>a r y. a \<noteq> int128_min", OF _ ret])
    fix f a r y
    assume IH: "\<And>a r y. f a r = Some y \<Longrightarrow> a \<noteq> int128_min"
      and eq: "(if im_hi a <s 0 then Option.bind (f (int128_neg a) r) (\<lambda>q. Some (map_sum id int128_neg q))
        else Some (if r = 0 then Inl Division_By_Zero
                   else case div_u32_words (im_hi a) (im_lo a) r of (hi, lo, _) \<Rightarrow> Inr (Int128 hi lo))) = Some y"
    show "a \<noteq> int128_min"
    proof
      assume "a = int128_min"
      moreover from this have "im_hi a <s 0" by (simp add: hi_negative_iff int128_neg_min)
      ultimately obtain y' where "f int128_min r = Some y'"
        using eq by (auto simp: int128_neg_min bind_eq_Some_conv)
      then show False using IH by blast
    qed
  qed
  then show False by simp
qed

text \<open>Division of the signed type truncates towards zero.\<close>

definition trunc_div :: "int \<Rightarrow> int \<Rightarrow> int" where
  "trunc_div a b = (if a < 0 then - (- a div b) else a div b)"

lemma int128_div_val:
  assumes "a \<noteq> int128_min"
  shows "map_option (map_sum id ival) (int128_div a r)
    = Some (if r = 0 then Inl Division_By_Zero else Inr (trunc_div (ival a) (uint r)))"
proof (cases "0 \<le> ival a")
  case False
  note neg = int128_neg_cases [OF assms False]
  obtain z where z: "int128_div (int128_neg a) r = Some z"
    "map_sum id ival z = (if r = 0 then Inl Division_By_Zero else Inr (- ival a div uint r))"
    using int128_div_nonneg [OF neg(2), of r] neg(1) by auto
  have "- ival a div uint r \<le> - ival a" "0 \<le> - ival a div uint r" if "r \<noteq> 0"
    using int_div_bounds [of "- ival a" "uint r"] that False by (simp_all add: uint_pos_iff)
  then have "map_sum id ival (map_sum id int128_neg z)
      = (if r = 0 then Inl Division_By_Zero else Inr (trunc_div (ival a) (uint r)))"
    using z(2) False ival_range [of a]
    by (cases z) (auto simp: trunc_div_def int128_neg_val wrap128_id split: if_splits)
  then show ?thesis
    using False by (subst int128_div.simps) (simp add: hi_negative_iff z(1))
qed (use int128_div_nonneg [of a r] in \<open>auto simp: trunc_div_def\<close>)

definition decimal_int :: "int \<Rightarrow> string" where
  "decimal_int k = (if k < 0 then CHR ''-'' # decimal (nat (- k)) else decimal (nat k))"

lemma int128_print_val: "int128_print v = Some (decimal_int (ival v))"
proof (cases "ival v < 0")
  case True
  have "uval (UInt128 (im_hi (int128_neg v)) (im_lo (int128_neg v))) = - ival v"
  proof (cases "v = int128_min")
    case False
    with True show ?thesis
      using int128_neg_cases [of v] ival_nonneg_raw [of "int128_neg v"] by simp
  qed (simp only: int128_neg_min, simp add: int128_min_def)
  with True show ?thesis
    by (simp add: int128_print_def int128_lt_iff int128_of_signed_def ival_def [of "Int128 0 0"]
        Let_def uint128_print_decimal decimal_int_def)
next
  case False
  then show ?thesis
    using ival_nonneg_raw [of v]
    by (simp add: int128_print_def int128_lt_iff int128_of_signed_def ival_def [of "Int128 0 0"]
        uint128_print_decimal decimal_int_def)
qed

section \<open>Class instances\<close>

text \<open>The operators of the source order the types, so that the library's order facts apply.\<close>

instantiation uint128 :: linorder
begin

definition less_eq_uint128 :: "uint128 \<Rightarrow> uint128 \<Rightarrow> bool" where
  "less_eq_uint128 a b = uint128_le a b"

definition less_uint128 :: "uint128 \<Rightarrow> uint128 \<Rightarrow> bool" where
  "less_uint128 a b = uint128_lt a b"

instance
  by standard (auto simp: less_eq_uint128_def less_uint128_def uint128_le_iff uint128_lt_iff
      simp flip: uval_inject)

end

instantiation int128 :: linorder
begin

definition less_eq_int128 :: "int128 \<Rightarrow> int128 \<Rightarrow> bool" where
  "less_eq_int128 a b = int128_le a b"

definition less_int128 :: "int128 \<Rightarrow> int128 \<Rightarrow> bool" where
  "less_int128 a b = int128_lt a b"

instance
  by standard (auto simp: less_eq_int128_def less_int128_def int128_le_iff int128_lt_iff
      simp flip: ival_inject)

end

section \<open>Conversions\<close>

lemma uval_of_unsigned: "LENGTH('a) \<le> 64 \<Longrightarrow> uval (uint128_of_unsigned (v :: 'a::len word)) = uint v"
  by (simp add: uint128_of_unsigned_def uint_up_ucast is_up)

lemma ival_of_unsigned: "LENGTH('a) \<le> 64 \<Longrightarrow> ival (int128_of_unsigned (v :: 'a::len word)) = uint v"
  by (simp add: int128_of_unsigned_def ival_def uint_up_ucast is_up)

lemma sint_scast_u64: "LENGTH('a) \<le> 64 \<Longrightarrow> sint (scast (v :: 'a::len word) :: u64) = sint v"
  by (simp add: sint_up_scast is_up)

lemma ival_of_signed:
  assumes "LENGTH('a) \<le> 64"
  shows "ival (int128_of_signed (v :: 'a::len word)) = sint v"
proof -
  have "sint v = sint (scast v :: u64)"
    using assms by (simp add: sint_scast_u64)
  moreover have "v <s 0 \<longleftrightarrow> sint v < 0"
    by (simp add: word_sless_alt)
  moreover have "0 \<le> sint v \<longleftrightarrow> uint (scast v :: u64) < 2 ^ 63"
    using uint_u64_bounds [of "scast v"] unfolding \<open>sint v = sint (scast v :: u64)\<close> sint_u64 by auto
  ultimately show ?thesis
    by (auto simp: int128_of_signed_def ival_def sint_u64)
qed

text \<open>
  The signed builtins reach the unsigned type through a zero upper word, so a negative one
  becomes its value modulo \<open>2 ^ 64\<close> and not modulo \<open>2 ^ 128\<close>.
\<close>

lemma uval_of_signed:
  assumes "LENGTH('a) \<le> 64"
  shows "uval (uint128_of_signed (v :: 'a::len word)) = sint v mod 2 ^ 64"
proof -
  have "uint (scast v :: u64) = sint (scast v :: u64) mod 2 ^ 64"
    by (simp only: uint_sint take_bit_eq_mod) simp
  then show ?thesis
    using assms by (simp add: uint128_of_signed_def sint_scast_u64)
qed

section \<open>Properties\<close>

text \<open>
  C17. The sum of two 128-bit numbers is the sum modulo \<open>2 ^ 128\<close> for the unsigned type, and the
  sum and the negation wrapped to the signed range for the signed type: the carry between the
  two words is exact.
\<close>

theorem wide_add_exact:
  "uval (uint128_add a b) = (uval a + uval b) mod 2 ^ 128
   \<and> uval (uint128_add_u64 a w) = (uval a + uint w) mod 2 ^ 128
   \<and> ival (int128_add i j) = wrap128 (ival i + ival j)
   \<and> ival (int128_neg i) = wrap128 (- ival i)"
proof -
  have "uint128_add_u64 a w = uint128_add a (UInt128 0 w)"
    by (simp add: uint128_add_u64_def uint128_add_def)
  then have "uval (uint128_add_u64 a w) = (uval a + uint w) mod 2 ^ 128"
    by (simp add: uint128_add_val)
  then show ?thesis
    by (simp only: uint128_add_val int128_add_val int128_neg_val simp_thms)
qed

text \<open>
  C21. The difference of two unsigned 128-bit numbers is the difference modulo \<open>2 ^ 128\<close> exactly when
  the low word of the number subtracted is not zero. Where it is zero the carry test of the code
  misses the carry and the result is \<open>2 ^ 64\<close> too small; the signed type has the same defect.
\<close>

theorem uint128_sub_exact_iff:
  "(uval (uint128_sub a b) = (uval a - uval b) mod 2 ^ 128 \<longleftrightarrow> um_lo b \<noteq> 0)
   \<and> uval (uint128_sub a (UInt128 h 0)) = (uval a - uval (UInt128 h 0) - 2 ^ 64) mod 2 ^ 128"
proof -
  have "(k - 2 ^ 64) mod 2 ^ 128 \<noteq> k mod 2 ^ 128" for k :: int
    unfolding mod_eq_dvd_iff by (simp add: zdvd_not_zless)
  then show ?thesis
    by (auto simp only: uint128_sub_val uint128.sel of_bool_eq simp_thms mult_1 mult_zero_left diff_zero)
qed

text \<open>
  C22. Multiplying by a 32-bit number is exact modulo \<open>2 ^ 128\<close>, and \<open>divrem\<close> gives the quotient and
  the remainder of the whole number, or traps exactly when the divisor is zero.
\<close>

theorem uint128_mul_divrem_exact:
  "uval (uint128_mul a r) = uval a * uint r mod 2 ^ 128
   \<and> (case uint128_divrem a r of
        Inl e \<Rightarrow> r = 0
      | Inr (q, m) \<Rightarrow> r \<noteq> 0 \<and> uval q = uval a div uint r \<and> uint m = uval a mod uint r)"
proof (cases "r = 0")
  case False
  then show ?thesis
    using uint128_divrem_val [OF False, of a] uint128_mul_val [of a r] by auto
qed (simp add: uint128_mul_val uint128_divrem_def)

text \<open>
  Multiplication and division of the signed type by a 32-bit number return for every number but
  the smallest one, on which the recursion never ends; the product is exact modulo \<open>2 ^ 128\<close> and the
  quotient truncates towards zero.
\<close>

lemma int128_mul_div_returns:
  "map_option ival (int128_mul a r) = (if a = int128_min then None else Some (wrap128 (ival a * uint r)))
   \<and> map_option (map_sum id ival) (int128_div a r)
     = (if a = int128_min then None
        else Some (if r = 0 then Inl Division_By_Zero else Inr (trunc_div (ival a) (uint r))))"
proof (cases "a = int128_min")
  case False
  then show ?thesis
    using int128_mul_val [OF False, of r] int128_div_val [OF False, of r] by auto
qed (simp add: int128_mul_min int128_div_min)

text \<open>
  C23. Printing a 128-bit number of either type writes its decimal notation, for every value: the
  buffer of 40 characters is never overrun, and the smallest signed number prints correctly.
\<close>

theorem wide_print_decimal:
  "uint128_print u = Some (decimal (nat (uval u))) \<and> int128_print i = Some (decimal_int (ival i))"
  by (simp only: uint128_print_decimal int128_print_val)

end
