(* ===== verification/Scan.thy ===== *)
theory Scan
  imports Prelude "HOL-Library.Sublist"
begin

text \<open>
  The scanning functions of \<^verbatim>\<open>include/dynd/parser_util.hpp\<close> and \<^verbatim>\<open>src/dynd/parser_util.cpp\<close>.
  A cursor \<^verbatim>\<open>begin\<close> into a byte range is the list of bytes from it to the end of the range. A
  function that returns \<^verbatim>\<open>bool\<close> and moves the cursor only when it succeeds is a function to an
  option of its output and the rest; this is what \<^verbatim>\<open>saved_begin_state\<close> provides, too. A matched
  range is the string of its bytes.
\<close>

section \<open>The interface of the scanning functions\<close>

type_synonym 'a scan = "string \<Rightarrow> ('a \<times> string) option"

text \<open>
  What every caller relies on: after a match the cursor stands at a later point of the same range.
\<close>

locale scanner =
  fixes p :: "'a scan"
  assumes consumes: "p s = Some (v, r) \<Longrightarrow> suffix r s"
begin

lemma rest_le: "p s = Some (v, r) \<Longrightarrow> length r \<le> length s"
  by (auto dest: consumes suffix_length_le)

lemma rest_suffix: "p s = Some (v, r) \<Longrightarrow> suffix s t \<Longrightarrow> suffix r t"
  by (blast dest: consumes suffix_order.trans)

lemma rest_split: "p s = Some (v, r) \<Longrightarrow> \<exists>u. s = u @ r"
  by (auto dest: consumes simp: suffix_def)

end

text \<open>A scanner that never matches the empty string.\<close>

locale strict_scanner = scanner +
  assumes progress: "p s = Some (v, r) \<Longrightarrow> r \<noteq> s"
begin

lemma rest_less: "p s = Some (v, r) \<Longrightarrow> length r < length s"
  by (metis consumes progress suffix_length_le suffix_order.le_less suffix_length_less)

lemma nothing_on_empty: "p [] = None"
  by (metis length_0_conv list.size(3) not_less_zero option.exhaust prod.exhaust rest_less)

end

section \<open>Character classes\<close>

definition is_digit :: "char \<Rightarrow> bool" where
  "is_digit c \<longleftrightarrow> CHR ''0'' \<le> c \<and> c \<le> CHR ''9''"

definition is_alpha :: "char \<Rightarrow> bool" where
  "is_alpha c \<longleftrightarrow> (CHR ''a'' \<le> c \<and> c \<le> CHR ''z'') \<or> (CHR ''A'' \<le> c \<and> c \<le> CHR ''Z'')"

definition is_hex_digit :: "char \<Rightarrow> bool" where
  "is_hex_digit d \<longleftrightarrow> (CHR ''0'' \<le> d \<and> d \<le> CHR ''9'') \<or> (CHR ''A'' \<le> d \<and> d \<le> CHR ''F'')
     \<or> (CHR ''a'' \<le> d \<and> d \<le> CHR ''f'')"

text \<open>\<^verbatim>\<open>isspace\<close> and \<^verbatim>\<open>tolower\<close> of the C locale.\<close>

definition is_space :: "char \<Rightarrow> bool" where
  "is_space c \<longleftrightarrow> c = CHR '' '' \<or> (CHR 0x09 \<le> c \<and> c \<le> CHR 0x0D)"

definition to_lower :: "char \<Rightarrow> char" where
  "to_lower c = (if CHR ''A'' \<le> c \<and> c \<le> CHR ''Z'' then char_of (of_char c + 32 :: nat) else c)"

text \<open>The number of a digit character, \<^verbatim>\<open>c - '0'\<close>.\<close>

definition digit_val :: "char \<Rightarrow> int" where
  "digit_val c = int (of_char c) - 48"

section \<open>Whitespace and tokens\<close>

definition skip_whitespace :: "string \<Rightarrow> string" where
  "skip_whitespace s = dropWhile is_space s"

definition skip_required_whitespace :: "unit scan" where
  "skip_required_whitespace s =
     (case s of c # cs \<Rightarrow> if is_space c then Some ((), dropWhile is_space cs) else None | [] \<Rightarrow> None)"

definition parse_token_no_ws :: "string \<Rightarrow> unit scan" where
  "parse_token_no_ws token s =
     (if length token \<le> length s \<and> take (length token) s = token
      then Some ((), drop (length token) s) else None)"

definition parse_token :: "string \<Rightarrow> unit scan" where
  "parse_token token s = parse_token_no_ws token (skip_whitespace s)"

function skip_whitespace_and_pound_comments :: "string \<Rightarrow> string" where
  "skip_whitespace_and_pound_comments s =
     (case dropWhile is_space s of
        [] \<Rightarrow> []
      | c # cs \<Rightarrow>
          if c = CHR ''#''
          then (case dropWhile (\<lambda>d. d \<noteq> CHR 0x0A) (c # cs) of
                  [] \<Rightarrow> []
                | _ # rest \<Rightarrow> skip_whitespace_and_pound_comments rest)
          else c # cs)"
  by pat_completeness auto
termination
proof (relation "measure length")
  fix s c cs d rest
  assume "dropWhile is_space s = c # cs" "dropWhile (\<lambda>d. d \<noteq> CHR 0x0A) (c # cs) = d # rest"
  then have "length (d # rest) \<le> length (c # cs)" "length (c # cs) \<le> length s"
    by (metis length_dropWhile_le)+
  then show "(rest, s) \<in> measure length" by simp
qed simp

section \<open>Names and strings\<close>

definition parse_name_no_ws :: "string scan" where
  "parse_name_no_ws s =
     (case s of
        [] \<Rightarrow> None
      | c # cs \<Rightarrow>
          if is_alpha c \<or> c = CHR ''_''
          then (let p = (\<lambda>d. is_alpha d \<or> is_digit d \<or> d = CHR ''_'')
                in Some (c # takeWhile p cs, dropWhile p cs))
          else None)"

definition parse_alpha_name_no_ws :: "string scan" where
  "parse_alpha_name_no_ws s =
     (case s of
        [] \<Rightarrow> None
      | c # cs \<Rightarrow> if is_alpha c then Some (c # takeWhile is_alpha cs, dropWhile is_alpha cs) else None)"

text \<open>
  A parse error carries the position, as the bytes from it on, and the message. The quoted string
  comes back without its quotes, with the flag that says whether it holds escapes.
\<close>

datatype parse_error = Parse_Error string string

definition scan_hex :: "nat \<Rightarrow> string \<Rightarrow> string \<Rightarrow> parse_error + string" where
  "scan_hex n esc rest =
     (if length rest < n then Inl (Parse_Error esc ''invalid unicode escape sequence in string'')
      else case find (\<lambda>i. \<not> is_hex_digit (rest ! i)) [0..<n] of
             Some i \<Rightarrow> Inl (Parse_Error (drop i rest) ''invalid unicode escape sequence in string'')
           | None \<Rightarrow> Inr (drop n rest))"

fun scan_escape :: "string \<Rightarrow> string \<Rightarrow> parse_error + string" where
  "scan_escape start [] = Inl (Parse_Error start ''string has no ending quote'')"
| "scan_escape start (c # rest) =
     (if c \<in> {CHR 0x22, CHR 0x5C, CHR ''/'', CHR ''b'', CHR ''f'', CHR ''n'', CHR ''r'', CHR ''t''} then Inr rest
      else if c = CHR ''u'' then scan_hex 4 (CHR 0x5C # c # rest) rest
      else if c = CHR ''U'' then scan_hex 8 (CHR 0x5C # c # rest) rest
      else Inl (Parse_Error (CHR 0x5C # c # rest) ''invalid escape sequence in string''))"

lemma scan_hex_length: "scan_hex n e rest = Inr r \<Longrightarrow> length r \<le> length rest \<and> suffix r rest"
  by (auto simp: scan_hex_def suffix_drop split: if_splits option.splits)

lemma scan_escape_length: "scan_escape st rest = Inr r \<Longrightarrow> length r \<le> length rest \<and> suffix r rest"
  by (cases rest) (auto split: if_splits dest: scan_hex_length intro: suffix_ConsI)

text \<open>
  The loop over the body of the string; \<open>start\<close> is the range from the opening quote on, from which
  the matched text is cut.
\<close>

function dq_loop :: "string \<Rightarrow> bool \<Rightarrow> string \<Rightarrow> parse_error + ((string \<times> bool) \<times> string)" where
  "dq_loop start escaped [] = Inl (Parse_Error start ''string has no ending quote'')"
| "dq_loop start escaped (c # rest) =
     (if c = CHR 0x5C
      then (case scan_escape start rest of Inl e \<Rightarrow> Inl e | Inr rest' \<Rightarrow> dq_loop start True rest')
      else if c = CHR 0x22
      then Inr ((take (length start - length rest - 2) (tl start), escaped), rest)
      else dq_loop start escaped rest)"
  by pat_completeness auto
termination
  by (relation "measure (\<lambda>(_, _, s). length s)") (auto dest: scan_escape_length)

definition parse_doublequote_string_no_ws ::
  "string \<Rightarrow> (parse_error + ((string \<times> bool) \<times> string)) option" where
  "parse_doublequote_string_no_ws s =
     (case parse_token_no_ws [CHR 0x22] s of
        None \<Rightarrow> None
      | Some (_, rest) \<Rightarrow> Some (dq_loop s False rest))"

section \<open>Numbers as text\<close>

text \<open>The range matched so far: what stands before the cursor.\<close>

definition matched :: "string \<Rightarrow> string \<Rightarrow> string" where
  "matched s rest = take (length s - length rest) s"

definition json_fraction :: "string \<Rightarrow> string option" where
  "json_fraction s =
     (case s of
        c # cs \<Rightarrow>
          if c = CHR ''.''
          then (case cs of
                  [] \<Rightarrow> None
                | d # ds \<Rightarrow> if is_digit d then Some (dropWhile is_digit ds) else None)
          else Some s
      | [] \<Rightarrow> Some s)"

definition json_exponent :: "string \<Rightarrow> string option" where
  "json_exponent s =
     (case s of
        c # cs \<Rightarrow>
          if c = CHR ''e'' \<or> c = CHR ''E''
          then (case cs of
                  [] \<Rightarrow> None
                | d # ds \<Rightarrow>
                    (let t = (if d = CHR ''+'' \<or> d = CHR ''-'' then ds else cs)
                     in case t of
                          [] \<Rightarrow> None
                        | d' # ds' \<Rightarrow> if is_digit d' then Some (dropWhile is_digit ds') else None))
          else Some s
      | [] \<Rightarrow> Some s)"

definition json_integer :: "string \<Rightarrow> string option" where
  "json_integer s =
     (case s of
        [] \<Rightarrow> None
      | c # cs \<Rightarrow>
          if c = CHR ''0'' then Some cs
          else if CHR ''1'' \<le> c \<and> c \<le> CHR ''9'' then Some (dropWhile is_digit cs)
          else None)"

definition parse_json_number_no_ws :: "string scan" where
  "parse_json_number_no_ws s =
     (case s of
        [] \<Rightarrow> None
      | c # cs \<Rightarrow>
          (case json_integer (if c = CHR ''-'' then cs else s) of
             None \<Rightarrow> None
           | Some s1 \<Rightarrow>
               (case json_fraction s1 of
                  None \<Rightarrow> None
                | Some s2 \<Rightarrow>
                    (case json_exponent s2 of
                       None \<Rightarrow> None
                     | Some s3 \<Rightarrow> Some (matched s s3, s3)))))"

definition parse_unsigned_int_no_ws :: "string scan" where
  "parse_unsigned_int_no_ws s =
     (case s of
        [] \<Rightarrow> None
      | c # cs \<Rightarrow>
          if CHR ''1'' \<le> c \<and> c \<le> CHR ''9''
          then Some (matched s (dropWhile is_digit cs), dropWhile is_digit cs)
          else if c = CHR ''0''
          then (case cs of d # _ \<Rightarrow> if is_digit d then None else Some ([c], cs) | [] \<Rightarrow> Some ([c], cs))
          else None)"

definition parse_2digit_int_no_ws :: "int scan" where
  "parse_2digit_int_no_ws s =
     (case s of
        d0 # d1 # rest \<Rightarrow>
          if is_digit d0 \<and> is_digit d1 then Some (digit_val d0 * 10 + digit_val d1, rest) else None
      | _ \<Rightarrow> None)"

definition parse_1or2digit_int_no_ws :: "int scan" where
  "parse_1or2digit_int_no_ws s =
     (case s of
        d0 # d1 # rest \<Rightarrow>
          if is_digit d0
          then (if is_digit d1 then Some (digit_val d0 * 10 + digit_val d1, rest)
                else Some (digit_val d0, d1 # rest))
          else None
      | [d0] \<Rightarrow> if is_digit d0 then Some (digit_val d0, []) else None
      | [] \<Rightarrow> None)"

definition parse_4digit_int_no_ws :: "int scan" where
  "parse_4digit_int_no_ws s =
     (case s of
        d0 # d1 # d2 # d3 # rest \<Rightarrow>
          if is_digit d0 \<and> is_digit d1 \<and> is_digit d2 \<and> is_digit d3
          then Some (((digit_val d0 * 10 + digit_val d1) * 10 + digit_val d2) * 10 + digit_val d3, rest)
          else None
      | _ \<Rightarrow> None)"

definition parse_6digit_int_no_ws :: "int scan" where
  "parse_6digit_int_no_ws s =
     (case s of
        d0 # d1 # d2 # d3 # d4 # d5 # rest \<Rightarrow>
          if is_digit d0 \<and> is_digit d1 \<and> is_digit d2 \<and> is_digit d3 \<and> is_digit d4 \<and> is_digit d5
          then Some (((((digit_val d0 * 10 + digit_val d1) * 10 + digit_val d2) * 10 + digit_val d3) * 10
                       + digit_val d4) * 10 + digit_val d5, rest)
          else None
      | _ \<Rightarrow> None)"

section \<open>Literals and named values\<close>

definition compare_range_to_literal :: "string \<Rightarrow> string \<Rightarrow> bool" where
  "compare_range_to_literal s token \<longleftrightarrow> length s = length token \<and> take (length token) s = token"

text \<open>
  A name of the table matches when its first character is the lowered first character of the word,
  and the rest of it is the lowered rest of the word, to the end of both.
\<close>

fun ci_rest_matches :: "string \<Rightarrow> string \<Rightarrow> bool" where
  "ci_rest_matches [] strptr \<longleftrightarrow> strptr = []"
| "ci_rest_matches (n # name) [] \<longleftrightarrow> False"
| "ci_rest_matches (n # name) (c # strptr) \<longleftrightarrow> n = to_lower c \<and> ci_rest_matches name strptr"

fun ci_table_lookup :: "(string \<times> int) list \<Rightarrow> string \<Rightarrow> int option" where
  "ci_table_lookup [] word = None"
| "ci_table_lookup ((name, value) # nvt) word =
     (if name \<noteq> [] \<and> word \<noteq> [] \<and> hd name = to_lower (hd word) \<and> ci_rest_matches (tl name) (tl word)
      then Some value else ci_table_lookup nvt word)"

definition parse_ci_alpha_str_named_value_no_ws :: "(string \<times> int) list \<Rightarrow> int scan" where
  "parse_ci_alpha_str_named_value_no_ws nvt s =
     (case parse_alpha_name_no_ws s of
        None \<Rightarrow> None
      | Some (word, rest) \<Rightarrow>
          (case ci_table_lookup nvt word of None \<Rightarrow> None | Some v \<Rightarrow> Some (v, rest)))"

definition matches_option_type_na_token :: "string \<Rightarrow> bool" where
  "matches_option_type_na_token s =
     (if length s = 0 then True
      else if length s = 2 then s ! 0 = CHR ''N'' \<and> s ! 1 = CHR ''A''
      else if length s = 4
      then (s ! 0 \<in> {CHR ''N'', CHR ''n''} \<and> s ! 1 \<in> {CHR ''U'', CHR ''u''}
            \<and> s ! 2 \<in> {CHR ''L'', CHR ''l''} \<and> s ! 3 \<in> {CHR ''L'', CHR ''l''})
           \<or> (s ! 0 = CHR ''N'' \<and> s ! 1 = CHR ''o'' \<and> s ! 2 = CHR ''n'' \<and> s ! 3 = CHR ''e'')
      else False)"

section \<open>The scanners consume a part of their input\<close>

lemma suffix_dropWhile_Cons: "suffix (dropWhile p cs) (c # cs)"
  by (simp add: suffix_ConsI suffix_dropWhile)

lemma dropWhile_shorter: "dropWhile p cs \<noteq> c # cs"
  by (metis impossible_Cons length_dropWhile_le)

lemma skip_whitespace_suffix: "suffix (skip_whitespace s) s"
  by (simp add: skip_whitespace_def suffix_dropWhile)

interpretation required_ws: strict_scanner skip_required_whitespace
  by unfold_locales
    (auto simp: skip_required_whitespace_def suffix_dropWhile_Cons dropWhile_shorter split: list.splits if_splits)

interpretation token_no_ws: scanner "parse_token_no_ws token" for token
  by unfold_locales (auto simp: parse_token_no_ws_def suffix_drop split: if_splits)

interpretation ws_token: scanner "parse_token token" for token
  by unfold_locales
    (auto simp: parse_token_def intro: token_no_ws.rest_suffix skip_whitespace_suffix)

interpretation name_scan: strict_scanner parse_name_no_ws
  by unfold_locales
    (auto simp: parse_name_no_ws_def Let_def suffix_dropWhile_Cons dropWhile_shorter split: list.splits if_splits)

interpretation alpha_scan: strict_scanner parse_alpha_name_no_ws
  by unfold_locales
    (auto simp: parse_alpha_name_no_ws_def suffix_dropWhile_Cons dropWhile_shorter split: list.splits if_splits)

interpretation two_digits: strict_scanner parse_2digit_int_no_ws
  by unfold_locales (auto simp: parse_2digit_int_no_ws_def suffix_def split: list.splits if_splits)

interpretation one_or_two_digits: strict_scanner parse_1or2digit_int_no_ws
  by unfold_locales (auto simp: parse_1or2digit_int_no_ws_def suffix_def split: list.splits if_splits)

interpretation four_digits: strict_scanner parse_4digit_int_no_ws
  by unfold_locales (auto simp: parse_4digit_int_no_ws_def suffix_def split: list.splits if_splits)

interpretation six_digits: strict_scanner parse_6digit_int_no_ws
  by unfold_locales (auto simp: parse_6digit_int_no_ws_def suffix_def split: list.splits if_splits)

lemma parse_unsigned_int_rest:
  "parse_unsigned_int_no_ws s = Some (v, r) \<Longrightarrow> \<exists>c cs. s = c # cs \<and> suffix r cs"
  by (auto simp: parse_unsigned_int_no_ws_def suffix_dropWhile
      simp del: dropWhile.simps split: list.splits if_splits)

interpretation unsigned_scan: strict_scanner parse_unsigned_int_no_ws
  by unfold_locales (auto dest!: parse_unsigned_int_rest simp: suffix_def)

interpretation named_value: strict_scanner "parse_ci_alpha_str_named_value_no_ws nvt" for nvt
  by unfold_locales
    (auto simp: parse_ci_alpha_str_named_value_no_ws_def split: option.splits dest: alpha_scan.consumes alpha_scan.progress)

lemma json_integer_suffix: "json_integer s = Some r \<Longrightarrow> suffix r s \<and> r \<noteq> s"
  by (auto simp: json_integer_def suffix_dropWhile_Cons dropWhile_shorter split: list.splits if_splits
      intro: suffix_ConsI)

lemma json_fraction_suffix: "json_fraction s = Some r \<Longrightarrow> suffix r s"
  by (auto simp: json_fraction_def split: list.splits if_splits
      intro!: suffix_ConsI suffix_dropWhile)

lemma json_exponent_suffix: "json_exponent s = Some r \<Longrightarrow> suffix r s"
  by (auto simp: json_exponent_def Let_def split: list.splits if_splits
      intro!: suffix_ConsI suffix_dropWhile)

interpretation json_number: strict_scanner parse_json_number_no_ws
proof
  fix s v r
  assume "parse_json_number_no_ws s = Some (v, r)"
  then obtain s0 s1 s2 where s: "json_integer s0 = Some s1" "json_fraction s1 = Some s2"
    "json_exponent s2 = Some r" "suffix s0 s"
    by (auto simp: parse_json_number_no_ws_def split: list.splits option.splits if_splits intro: suffix_ConsI)
  then have "suffix r s1" "suffix s1 s0" "s1 \<noteq> s0"
    by (auto dest: json_integer_suffix json_fraction_suffix json_exponent_suffix intro: suffix_order.trans)
  with s(4) show "suffix r s" "r \<noteq> s"
    by (metis suffix_order.trans suffix_order.antisym)+
qed

lemmas scan_consumes_rules = required_ws.consumes token_no_ws.consumes ws_token.consumes
  name_scan.consumes alpha_scan.consumes two_digits.consumes one_or_two_digits.consumes
  four_digits.consumes six_digits.consumes unsigned_scan.consumes named_value.consumes
  json_number.consumes

declare scan_consumes_rules [scan_consumes]

text \<open>The matched range in front of the cursor.\<close>

lemma matched_append [simp]: "matched (u @ r) r = u"
  by (simp add: matched_def)

lemma matched_suffix: "suffix r s \<Longrightarrow> matched s r @ r = s"
  by (auto simp: suffix_def)

section \<open>The number grammar of JSON\<close>

definition json_int_part :: "string \<Rightarrow> bool" where
  "json_int_part u \<longleftrightarrow> u = ''0'' \<or>
     (\<exists>d ds. u = d # ds \<and> CHR ''1'' \<le> d \<and> d \<le> CHR ''9'' \<and> list_all is_digit ds)"

definition json_frac_part :: "string \<Rightarrow> bool" where
  "json_frac_part u \<longleftrightarrow> u = [] \<or> (\<exists>d ds. u = CHR ''.'' # d # ds \<and> list_all is_digit (d # ds))"

definition json_exp_part :: "string \<Rightarrow> bool" where
  "json_exp_part u \<longleftrightarrow> u = [] \<or>
     (\<exists>e sg d ds. u = e # sg @ d # ds \<and> e \<in> {CHR ''e'', CHR ''E''} \<and> sg \<in> {[], ''+'', ''-''}
        \<and> list_all is_digit (d # ds))"

definition is_json_number :: "string \<Rightarrow> bool" where
  "is_json_number v \<longleftrightarrow>
     (\<exists>sg i f e. v = sg @ i @ f @ e \<and> sg \<in> {[], ''-''} \<and> json_int_part i \<and> json_frac_part f \<and> json_exp_part e)"

text \<open>Each part of the scanner cuts off a part of the grammar.\<close>

lemma takeWhile_digits [simp]: "list_all is_digit (takeWhile is_digit ds)"
  by (auto simp: list_all_iff dest: set_takeWhileD)

lemma json_integer_sound: "json_integer s = Some r \<Longrightarrow> \<exists>u. s = u @ r \<and> json_int_part u"
  by (auto simp: json_integer_def json_int_part_def split: list.splits if_splits)
    (metis append_Cons takeWhile_digits takeWhile_dropWhile_id)

lemma json_fraction_sound: "json_fraction s = Some r \<Longrightarrow> \<exists>u. s = u @ r \<and> json_frac_part u"
  apply (auto simp: json_fraction_def json_frac_part_def split: list.splits if_splits)
  by (metis append_Cons takeWhile_digits takeWhile_dropWhile_id)

lemma json_exponent_digits:
  assumes "json_exponent (e # t) = Some r" "e = CHR ''e'' \<or> e = CHR ''E''"
  shows "\<exists>sg d ds. t = sg @ d # ds \<and> sg \<in> {[], ''+'', ''-''} \<and> is_digit d \<and> r = dropWhile is_digit ds"
proof -
  obtain c cs where t: "t = c # cs" using assms by (cases t) (auto simp: json_exponent_def)
  let ?t = "if c = CHR ''+'' \<or> c = CHR ''-'' then cs else t"
  obtain d ds where d: "?t = d # ds" "is_digit d" "r = dropWhile is_digit ds"
    using assms t by (auto simp: json_exponent_def Let_def simp del: dropWhile.simps split: list.splits if_splits)
  then show ?thesis using t
    by (intro exI[of _ "if c = CHR ''+'' \<or> c = CHR ''-'' then [c] else []"] exI[of _ d] exI[of _ ds])
      (auto split: if_splits)
qed

lemma json_exponent_sound:
  assumes "json_exponent s = Some r"
  shows "\<exists>u. s = u @ r \<and> json_exp_part u"
proof (cases "\<exists>e t. s = e # t \<and> (e = CHR ''e'' \<or> e = CHR ''E'')")
  case True
  then obtain e t where s: "s = e # t" "e = CHR ''e'' \<or> e = CHR ''E''" by blast
  with assms obtain sg d ds where t: "t = sg @ d # ds" "sg \<in> {[], ''+'', ''-''}" "is_digit d"
    "r = dropWhile is_digit ds"
    using json_exponent_digits by blast
  let ?u = "e # sg @ d # takeWhile is_digit ds"
  have "s = ?u @ r" using s t by simp
  moreover have "json_exp_part ?u"
    using s t unfolding json_exp_part_def by (intro disjI2 exI[of _ e] exI[of _ sg] exI[of _ d]
        exI[of _ "takeWhile is_digit ds"]) auto
  ultimately show ?thesis by blast
next
  case False
  with assms have "r = s" by (auto simp: json_exponent_def split: list.splits if_splits)
  then show ?thesis by (auto simp: json_exp_part_def)
qed

lemma parse_json_number_sound:
  assumes "parse_json_number_no_ws s = Some (v, r)"
  shows "s = v @ r \<and> is_json_number v"
proof -
  obtain c cs where c: "s = c # cs"
    using assms by (cases s) (auto simp: parse_json_number_no_ws_def)
  define sg where "sg = (if c = CHR ''-'' then [c] else [])"
  define s0 where "s0 = (if c = CHR ''-'' then cs else c # cs)"
  have sg: "s = sg @ s0" "sg \<in> {[], ''-''}" by (auto simp: sg_def s0_def c)
  obtain s1 s2 where s: "json_integer s0 = Some s1"
    "json_fraction s1 = Some s2" "json_exponent s2 = Some r" "v = matched s r"
    using assms by (auto simp: parse_json_number_no_ws_def s0_def c split: option.splits)
  then obtain i f e where p: "s0 = i @ s1" "json_int_part i" "s1 = f @ s2" "json_frac_part f"
    "s2 = e @ r" "json_exp_part e"
    using json_integer_sound json_fraction_sound json_exponent_sound by meson
  then have *: "s = (sg @ i @ f @ e) @ r" by (simp add: sg)
  then have "v = sg @ i @ f @ e" using s(4) matched_append by metis
  with * p sg(2) show ?thesis unfolding is_json_number_def by blast
qed

text \<open>The scanner takes every number of the grammar whole.\<close>

lemma dropWhile_digits_append:
  "list_all is_digit ds \<Longrightarrow> dropWhile is_digit (ds @ r) = dropWhile is_digit r"
  by (induction ds) auto

lemma json_integer_complete:
  "json_int_part i \<Longrightarrow> dropWhile is_digit r = r \<Longrightarrow> json_integer (i @ r) = Some r"
  by (auto simp: json_int_part_def json_integer_def dropWhile_digits_append)

lemma json_fraction_complete:
  "json_frac_part f \<Longrightarrow> dropWhile is_digit r = r \<Longrightarrow> (f = [] \<Longrightarrow> r \<noteq> [] \<Longrightarrow> hd r \<noteq> CHR ''.'')
    \<Longrightarrow> json_fraction (f @ r) = Some r"
  by (auto simp: json_frac_part_def json_fraction_def dropWhile_digits_append split: list.splits)

lemma json_exponent_complete: "json_exp_part e \<Longrightarrow> json_exponent e = Some []"
  by (auto simp: json_exp_part_def json_exponent_def is_digit_def dropWhile_eq_Nil_conv list_all_iff)

lemma json_exp_stops:
  "json_exp_part e \<Longrightarrow> dropWhile is_digit e = e \<and> (e \<noteq> [] \<longrightarrow> hd e \<noteq> CHR ''.'')"
  by (auto simp: json_exp_part_def is_digit_def)

lemma json_frac_stops: "json_frac_part f \<Longrightarrow> json_exp_part e \<Longrightarrow> dropWhile is_digit (f @ e) = f @ e"
  by (auto simp: json_frac_part_def is_digit_def json_exp_stops)

lemma parse_json_number_complete:
  assumes "is_json_number s"
  shows "parse_json_number_no_ws s = Some (s, [])"
proof -
  obtain sg i f e where s: "s = sg @ i @ f @ e" "sg \<in> {[], ''-''}" "json_int_part i"
    "json_frac_part f" "json_exp_part e"
    using assms by (auto simp: is_json_number_def)
  have p: "json_integer (i @ f @ e) = Some (f @ e)" "json_fraction (f @ e) = Some e" "json_exponent e = Some []"
    using s by (simp_all add: json_integer_complete json_fraction_complete json_exponent_complete
        json_frac_stops json_exp_stops)
  have "i \<noteq> [] \<and> hd i \<noteq> CHR ''-''" using s(3) by (auto simp: json_int_part_def)
  then show ?thesis
    using p s(1,2) by (cases i) (auto simp: parse_json_number_no_ws_def matched_def)
qed

text \<open>
  The number scanner decides the JSON number grammar: what it cuts off is a number and is the
  text in front of the cursor, it stands at the end exactly when the whole range is a number, and
  when it refuses, the range is no number.
\<close>

lemma json_number_grammar:
  "case parse_json_number_no_ws s of
     None \<Rightarrow> \<not> is_json_number s
   | Some (v, r) \<Rightarrow> s = v @ r \<and> is_json_number v \<and> (r = [] \<longleftrightarrow> is_json_number s)"
  using parse_json_number_sound[of s] parse_json_number_complete[of s]
  by (auto split: option.splits)

section \<open>Comments\<close>

text \<open>A blank stretch: whitespace, and comments from a pound sign to the end of the line.\<close>

inductive blank :: "string \<Rightarrow> bool" where
  blank_Nil: "blank []"
| blank_space: "is_space c \<Longrightarrow> blank u \<Longrightarrow> blank (c # u)"
| blank_comment: "CHR 0x0A \<notin> set w \<Longrightarrow> blank u \<Longrightarrow> blank (CHR ''#'' # w @ CHR 0x0A # u)"

lemma blank_spaces: "\<forall>c\<in>set w. is_space c \<Longrightarrow> blank u \<Longrightarrow> blank (w @ u)"
  by (induction w) (auto intro: blank_space)

lemma spaces_before: "\<exists>w. s = w @ dropWhile p s \<and> (\<forall>c\<in>set w. p c)"
  by (intro exI[of _ "takeWhile p s"]) (auto dest: set_takeWhileD)

lemma comment_line:
  assumes "dropWhile (\<lambda>d. d \<noteq> CHR 0x0A) (CHR ''#'' # cs) = d # rest"
  shows "\<exists>w. cs = w @ CHR 0x0A # rest \<and> CHR 0x0A \<notin> set w"
proof -
  have dr: "dropWhile (\<lambda>d. d \<noteq> CHR 0x0A) cs = d # rest" using assms by simp
  then have "d = CHR 0x0A" using hd_dropWhile[of "\<lambda>d. d \<noteq> CHR 0x0A" cs] by simp
  moreover obtain w where "cs = w @ (d # rest)" "\<forall>c\<in>set w. c \<noteq> CHR 0x0A"
    using spaces_before[of cs "\<lambda>d. d \<noteq> CHR 0x0A"] unfolding dr by blast
  ultimately show ?thesis by blast
qed

declare skip_whitespace_and_pound_comments.simps [simp del]
lemmas skip_comments_eq = skip_whitespace_and_pound_comments.simps

lemma skip_comments_cases:
  fixes s
  defines "r \<equiv> skip_whitespace_and_pound_comments s"
  shows "(\<exists>u. s = u @ r \<and> blank u \<and> \<not> (r \<noteq> [] \<and> (is_space (hd r) \<or> hd r = CHR ''#'')))
         \<or> r = [] \<and> blank (s @ [CHR 0x0A])"
  unfolding r_def
proof (induction s rule: skip_whitespace_and_pound_comments.induct)
  case (1 s)
  obtain w where w: "s = w @ dropWhile is_space s" "\<forall>c\<in>set w. is_space c"
    using spaces_before[of s is_space] by (elim exE conjE) (rule that)
  show ?case
  proof (cases "dropWhile is_space s")
    case Nil
    then have "skip_whitespace_and_pound_comments s = []" by (simp only: skip_comments_eq[of s] list.case)
    moreover have "s = w" "blank w" using w Nil blank_spaces[of w "[]"] by (simp_all add: blank_Nil)
    ultimately show ?thesis by auto
  next
    case (Cons c cs)
    then have nsp: "\<not> is_space c" by (metis hd_dropWhile list.sel(1) list.distinct(1))
    note line = \<open>dropWhile is_space s = c # cs\<close>
    show ?thesis
    proof (cases "c = CHR ''#''")
      case False
      then have "skip_whitespace_and_pound_comments s = c # cs" by (simp add: skip_comments_eq[of s] line)
      then show ?thesis using False w(1) nsp line blank_spaces[OF w(2) blank_Nil]
        by (intro disjI1 exI[of _ w]) simp
    next
      case True
      show ?thesis
      proof (cases "dropWhile (\<lambda>d. d \<noteq> CHR 0x0A) (c # cs)")
        case Nil
        then have "CHR 0x0A \<notin> set cs" by (auto simp: True)
        then have "blank (CHR ''#'' # cs @ CHR 0x0A # [])" by (intro blank.intros)
        moreover have "skip_whitespace_and_pound_comments s = []"
          by (simp only: skip_comments_eq[of s] line list.case True if_True simp_thms Nil[unfolded True])
        ultimately show ?thesis
          using w(1) blank_spaces[OF w(2), of "CHR ''#'' # cs @ [CHR 0x0A]"]
          unfolding line True by (metis append.assoc append_Cons)
      next
        case (Cons d rest)
        obtain v where v: "cs = v @ CHR 0x0A # rest" "CHR 0x0A \<notin> set v"
          using comment_line Cons True by blast
        have step: "blank u \<Longrightarrow> blank ((w @ CHR ''#'' # v @ [CHR 0x0A]) @ u)" for u
          using blank_spaces[OF w(2) blank_comment[OF v(2)]] by simp
        have s: "s = (w @ CHR ''#'' # v @ [CHR 0x0A]) @ rest" using w(1) v(1) unfolding line True by simp
        have eq: "skip_whitespace_and_pound_comments s = skip_whitespace_and_pound_comments rest"
          by (simp only: skip_comments_eq[of s] line list.case True if_True simp_thms Cons[unfolded True])
        show ?thesis using "1.IH"[OF line True Cons] step unfolding eq by (metis s append.assoc)
      qed
    qed
  qed
qed

text \<open>
  Skipping whitespace and comments passes over a blank stretch and nothing else, and stops in
  front of a character that is neither a space nor a pound sign, or at the end of the range, where
  a last comment need not have its newline.
\<close>

lemma skip_comments_exact:
  "let r = skip_whitespace_and_pound_comments s
   in (\<exists>u. s = u @ r \<and> blank u \<and> (case r of [] \<Rightarrow> True | c # _ \<Rightarrow> \<not> (is_space c \<or> c = CHR ''#'')))
      \<or> r = [] \<and> blank (s @ [CHR 0x0A])"
  using skip_comments_cases[of s] by (auto simp: Let_def split: list.split)

section \<open>Case-insensitive tables\<close>

lemma ci_rest_matches_iff: "ci_rest_matches name w \<longleftrightarrow> name = map to_lower w"
  by (induction name w rule: ci_rest_matches.induct) auto

lemma ci_table_lookup_map_of:
  "w \<noteq> [] \<Longrightarrow> ci_table_lookup nvt w = map_of nvt (map to_lower w)"
  by (induction nvt w rule: ci_table_lookup.induct) (auto simp: ci_rest_matches_iff neq_Nil_conv)

text \<open>
  A word is looked up without regard to case: the scan of a named value takes the letters in
  front of it and returns what the table, read as a map, has for them in lower case.
\<close>

lemma named_value_is_map_of:
  "parse_ci_alpha_str_named_value_no_ws nvt s =
     (let w = takeWhile is_alpha s
      in case map_of nvt (map to_lower w) of
           None \<Rightarrow> None
         | Some v \<Rightarrow> if w = [] then None else Some (v, drop (length w) s))"
  by (cases s)
    (auto simp: parse_ci_alpha_str_named_value_no_ws_def parse_alpha_name_no_ws_def Let_def
      ci_table_lookup_map_of dropWhile_eq_drop split: option.splits)

end
