(* ===== verification/Half_Float.thy ===== *)
theory Half_Float
  imports Prelude
begin

text \<open>
  Half precision numbers: \<^verbatim>\<open>include/dynd/float16.hpp\<close> and \<^verbatim>\<open>src/dynd/float16.cpp\<close>. A \<^verbatim>\<open>float\<close> and a
  \<^verbatim>\<open>double\<close> are the words of their bits, as in the unions of the source. The error modes are those of
  \<^verbatim>\<open>include/dynd/typed_data_assign.hpp\<close>, compared by their position in the enumeration.
\<close>

section \<open>Error modes\<close>

datatype assign_error_mode =
  assign_error_nocheck | assign_error_overflow | assign_error_fractional | assign_error_inexact
| assign_error_default

primrec mode_rank :: "assign_error_mode \<Rightarrow> nat" where
  "mode_rank assign_error_nocheck = 0"
| "mode_rank assign_error_overflow = 1"
| "mode_rank assign_error_fractional = 2"
| "mode_rank assign_error_inexact = 3"
| "mode_rank assign_error_default = 4"

instantiation assign_error_mode :: linorder
begin

definition less_eq_assign_error_mode :: "assign_error_mode \<Rightarrow> assign_error_mode \<Rightarrow> bool" where
  "less_eq_assign_error_mode a b \<longleftrightarrow> mode_rank a \<le> mode_rank b"

definition less_assign_error_mode :: "assign_error_mode \<Rightarrow> assign_error_mode \<Rightarrow> bool" where
  "less_assign_error_mode a b \<longleftrightarrow> mode_rank a < mode_rank b"

lemma mode_rank_inject: "mode_rank a = mode_rank b \<longleftrightarrow> a = b"
  by (cases a; cases b) simp_all

instance
  by standard
    (auto simp: less_eq_assign_error_mode_def less_assign_error_mode_def mode_rank_inject)

end

datatype float_error = overflow_converting | underflow_converting

section \<open>Narrowing to half precision\<close>

definition float_to_halfbits :: "u32 \<Rightarrow> assign_error_mode \<Rightarrow> float_error + u16" where
  "float_to_halfbits f errmode =
     (let h_sgn = (ucast (drop_bit 16 (f AND 0x80000000)) :: u16);
          f_exp = f AND 0x7f800000
      in if f_exp \<ge> 0x47800000
         then (if f_exp = 0x7f800000
               then (let f_sig = f AND 0x007fffff
                     in if f_sig \<noteq> 0
                        then (let ret = (ucast (0x7c00 + drop_bit 13 f_sig) :: u16)
                              in Inr (h_sgn + (if ret = 0x7c00 then ret + 1 else ret)))
                        else Inr (h_sgn + 0x7c00))
               else if errmode \<ge> assign_error_overflow then Inl overflow_converting
               else Inr (h_sgn + 0x7c00))
         else if f_exp \<le> 0x38000000
         then (if f_exp < 0x33000000
               then (if errmode \<ge> assign_error_inexact \<and> f AND 0x7fffffff \<noteq> 0
                     then Inl underflow_converting else Inr h_sgn)
               else (let f_exp = drop_bit 23 f_exp;
                         f_sig = 0x00800000 + (f AND 0x007fffff)
                     in if errmode \<ge> assign_error_inexact
                           \<and> f_sig AND (push_bit (unat (126 - f_exp)) 1 - 1) \<noteq> 0
                        then Inl underflow_converting
                        else (let f_sig = drop_bit (unat (113 - f_exp)) f_sig;
                                  f_sig = (if f_sig AND 0x00003fff \<noteq> 0x00001000 then f_sig + 0x00001000 else f_sig);
                                  h_sig = (ucast (drop_bit 13 f_sig) :: u16)
                              in Inr (h_sgn + h_sig))))
         else (let h_exp = (ucast (drop_bit 13 (f_exp - 0x38000000)) :: u16);
                   f_sig = f AND 0x007fffff;
                   f_sig = (if f_sig AND 0x00003fff \<noteq> 0x00001000 then f_sig + 0x00001000 else f_sig);
                   h_sig = (ucast (drop_bit 13 f_sig) :: u16) + h_exp
               in if h_sig = 0x7c00 \<and> errmode \<ge> assign_error_overflow then Inl overflow_converting
                  else Inr (h_sgn + h_sig)))"

definition double_to_halfbits :: "u64 \<Rightarrow> assign_error_mode \<Rightarrow> float_error + u16" where
  "double_to_halfbits d errmode =
     (let h_sgn = (ucast (drop_bit 48 (d AND 0x8000000000000000)) :: u16);
          d_exp = d AND 0x7ff0000000000000
      in if d_exp \<ge> 0x40f0000000000000
         then (if d_exp = 0x7ff0000000000000
               then (let d_sig = d AND 0x000fffffffffffff
                     in if d_sig \<noteq> 0
                        then (let ret = (ucast (0x7c00 + drop_bit 42 d_sig) :: u16)
                              in Inr (h_sgn + (if ret = 0x7c00 then ret + 1 else ret)))
                        else Inr (h_sgn + 0x7c00))
               else if errmode \<ge> assign_error_overflow then Inl overflow_converting
               else Inr (h_sgn + 0x7c00))
         else if d_exp \<le> 0x3f00000000000000
         then (if d_exp < 0x3e60000000000000
               then (if errmode \<ge> assign_error_inexact \<and> d AND 0x7fffffffffffffff \<noteq> 0
                     then Inl underflow_converting else Inr h_sgn)
               else (let d_exp = drop_bit 52 d_exp;
                         d_sig = 0x0010000000000000 + (d AND 0x000fffffffffffff)
                     in if errmode \<ge> assign_error_inexact
                           \<and> d_sig AND (push_bit (unat (1051 - d_exp)) 1 - 1) \<noteq> 0
                        then Inl underflow_converting
                        else (let d_sig = drop_bit (unat (1009 - d_exp)) d_sig;
                                  d_sig = (if d_sig AND 0x000007ffffffffff \<noteq> 0x0000020000000000
                                           then d_sig + 0x0000020000000000 else d_sig);
                                  h_sig = (ucast (drop_bit 42 d_sig) :: u16)
                              in Inr (h_sgn + h_sig))))
         else (let h_exp = (ucast (drop_bit 42 (d_exp - 0x3f00000000000000)) :: u16);
                   d_sig = d AND 0x000fffffffffffff;
                   d_sig = (if d_sig AND 0x000007ffffffffff \<noteq> 0x0000020000000000
                            then d_sig + 0x0000020000000000 else d_sig);
                   h_sig = (ucast (drop_bit 42 d_sig) :: u16) + h_exp
               in if h_sig = 0x7c00 \<and> errmode \<ge> assign_error_overflow then Inl overflow_converting
                  else Inr (h_sgn + h_sig)))"

section \<open>Widening from half precision\<close>

text \<open>The loop that normalises a subnormal significand; it returns None when it does not end.\<close>

partial_function (option) normalize_sig :: "u16 \<Rightarrow> u16 \<Rightarrow> (u16 \<times> u16) option" where
  "normalize_sig h_sig h_exp =
     (if h_sig AND 0x0400 = 0 then normalize_sig (push_bit 1 h_sig) (h_exp + 1) else Some (h_sig, h_exp))"

definition halfbits_to_float :: "u16 \<Rightarrow> u32 option" where
  "halfbits_to_float h =
     (let h_exp = h AND 0x7c00;
          f_sgn = push_bit 16 ((ucast h :: u32) AND 0x8000)
      in if h_exp = 0
         then (let h_sig = h AND 0x03ff
               in if h_sig = 0 then Some f_sgn
                  else (case normalize_sig (push_bit 1 h_sig) h_exp of
                          None \<Rightarrow> None
                        | Some (h_sig, h_exp) \<Rightarrow>
                            (let f_exp = push_bit 23 (127 - 15 - (ucast h_exp :: u32));
                                 f_sig = push_bit 13 (ucast (h_sig AND 0x03ff) :: u32)
                             in Some (f_sgn + f_exp + f_sig))))
         else if h_exp = 0x7c00
         then Some (f_sgn + 0x7f800000 + push_bit 13 (ucast (h AND 0x03ff)))
         else Some (f_sgn + push_bit 13 (ucast (h AND 0x7fff) + 0x1c000)))"

definition halfbits_to_double :: "u16 \<Rightarrow> u64 option" where
  "halfbits_to_double h =
     (let h_exp = h AND 0x7c00;
          d_sgn = push_bit 48 ((ucast h :: u64) AND 0x8000)
      in if h_exp = 0
         then (let h_sig = h AND 0x03ff
               in if h_sig = 0 then Some d_sgn
                  else (case normalize_sig (push_bit 1 h_sig) h_exp of
                          None \<Rightarrow> None
                        | Some (h_sig, h_exp) \<Rightarrow>
                            (let d_exp = push_bit 52 (1023 - 15 - (ucast h_exp :: u64));
                                 d_sig = push_bit 42 (ucast (h_sig AND 0x03ff) :: u64)
                             in Some (d_sgn + d_exp + d_sig))))
         else if h_exp = 0x7c00
         then Some (d_sgn + 0x7ff0000000000000 + push_bit 42 (ucast (h AND 0x03ff)))
         else Some (d_sgn + push_bit 42 (ucast (h AND 0x7fff) + 0xfc000)))"

section \<open>The members of float16\<close>

definition half_iszero :: "u16 \<Rightarrow> bool" where
  "half_iszero h \<longleftrightarrow> h AND 0x7fff = 0"

definition half_signbit :: "u16 \<Rightarrow> bool" where
  "half_signbit h \<longleftrightarrow> h AND 0x8000 \<noteq> 0"

definition half_isnan :: "u16 \<Rightarrow> bool" where
  "half_isnan h \<longleftrightarrow> h AND 0x7c00 = 0x7c00 \<and> h AND 0x03ff \<noteq> 0"

definition half_isinf :: "u16 \<Rightarrow> bool" where
  "half_isinf h \<longleftrightarrow> h AND 0x7fff = 0x7c00"

definition half_isfinite :: "u16 \<Rightarrow> bool" where
  "half_isfinite h \<longleftrightarrow> h AND 0x7c00 \<noteq> 0x7c00"

definition less_nonan :: "u16 \<Rightarrow> u16 \<Rightarrow> bool" where
  "less_nonan a b \<longleftrightarrow>
     (if half_signbit a
      then (if half_signbit b then a > b else a \<noteq> 0x8000 \<or> b \<noteq> 0)
      else (if half_signbit b then False else a < b))"

definition less_equal_nonan :: "u16 \<Rightarrow> u16 \<Rightarrow> bool" where
  "less_equal_nonan a b \<longleftrightarrow>
     (if half_signbit a
      then (if half_signbit b then a \<ge> b else True)
      else (if half_signbit b then a = 0 \<and> b = 0x8000 else a \<le> b))"

section \<open>The conversions on integers\<close>

lemma int_and_field: "(x::int) AND ((2 ^ k - 1) * 2 ^ n) = (x div 2 ^ n) mod 2 ^ k * 2 ^ n"
proof -
  have "x AND push_bit n (mask k) = push_bit n (take_bit k (drop_bit n x))"
    by (auto simp: bit_eq_iff bit_simps)
  then show ?thesis
    by (simp add: push_bit_eq_mult take_bit_eq_mod drop_bit_eq_div mask_eq_exp_minus_1)
qed

lemma int_and_low: "(x::int) AND (2 ^ k - 1) = x mod 2 ^ k"
  by (simp add: take_bit_eq_mod flip: take_bit_eq_mask mask_eq_exp_minus_1)

text \<open>Rounding away the low \<open>n\<close> bits the way the source does it.\<close>

definition round_bits :: "nat \<Rightarrow> int \<Rightarrow> int" where
  "round_bits n q = (if q mod 2 ^ (n + 1) = 2 ^ (n - 1) then q else q + 2 ^ (n - 1)) div 2 ^ n"

text \<open>
  Both narrowings are one function of the magnitude bits, with \<open>p\<close> bits of fraction, the difference
  \<open>b\<close> of the exponent biases and the largest exponent \<open>emax\<close>.
\<close>

definition half_mag :: "nat \<Rightarrow> int \<Rightarrow> int \<Rightarrow> int \<Rightarrow> assign_error_mode \<Rightarrow> float_error + int" where
  "half_mag p b emax x errmode =
     (let e = x div 2 ^ p; m = x mod 2 ^ p
      in if b + 31 \<le> e
         then (if e = emax then Inr (0x7c00 + (if m = 0 then 0 else max 1 (m div 2 ^ (p - 10))))
               else if errmode \<ge> assign_error_overflow then Inl overflow_converting
               else Inr 0x7c00)
         else if e \<le> b
         then (if e < b - 10
               then (if errmode \<ge> assign_error_inexact \<and> x \<noteq> 0 then Inl underflow_converting else Inr 0)
               else if errmode \<ge> assign_error_inexact \<and> (2 ^ p + m) mod 2 ^ nat (int p + b - 9 - e) \<noteq> 0
               then Inl underflow_converting
               else Inr (round_bits (p - 10) ((2 ^ p + m) div 2 ^ nat (b + 1 - e))))
         else (let r = round_bits (p - 10) (x - b * 2 ^ p)
               in if r = 0x7c00 \<and> errmode \<ge> assign_error_overflow then Inl overflow_converting else Inr r))"

lemma uint_field:
  fixes w :: "'a::len word"
  assumes "uint c = (2 ^ k - 1) * 2 ^ n"
  shows "uint (w AND c) = uint w mod 2 ^ (n + k) div 2 ^ n * 2 ^ n"
  by (simp only: uint_and assms int_and_field div_exp_mod_exp_eq)

lemma uint_low_field:
  fixes w :: "'a::len word"
  assumes "uint c = 2 ^ k - 1"
  shows "uint (w AND c) = uint w mod 2 ^ k"
  by (simp only: uint_and assms int_and_low)

lemma float_fields:
  fixes f :: u32
  shows "uint (f AND 0x80000000) = uint f div 2 ^ 31 * 2 ^ 31"
    and "uint (f AND 0x7f800000) = uint f mod 2 ^ 31 div 2 ^ 23 * 2 ^ 23"
    and "uint (f AND 0x007fffff) = uint f mod 2 ^ 23"
    and "uint (f AND 0x7fffffff) = uint f mod 2 ^ 31"
    and "uint (f AND 0x00003fff) = uint f mod 2 ^ 14"
proof -
  show "uint (f AND 0x80000000) = uint f div 2 ^ 31 * 2 ^ 31"
    using uint_field[of "0x80000000" 1 31 f] uint_u32_bounds[of f] by simp
  show "uint (f AND 0x7f800000) = uint f mod 2 ^ 31 div 2 ^ 23 * 2 ^ 23"
    using uint_field[of "0x7f800000" 8 23 f] by simp
qed (simp_all add: uint_low_field[where k = 23] uint_low_field[where k = 31] uint_low_field[where k = 14])

lemma double_fields:
  fixes d :: u64
  shows "uint (d AND 0x8000000000000000) = uint d div 2 ^ 63 * 2 ^ 63"
    and "uint (d AND 0x7ff0000000000000) = uint d mod 2 ^ 63 div 2 ^ 52 * 2 ^ 52"
    and "uint (d AND 0x000fffffffffffff) = uint d mod 2 ^ 52"
    and "uint (d AND 0x7fffffffffffffff) = uint d mod 2 ^ 63"
    and "uint (d AND 0x000007ffffffffff) = uint d mod 2 ^ 43"
proof -
  show "uint (d AND 0x8000000000000000) = uint d div 2 ^ 63 * 2 ^ 63"
    using uint_field[of "0x8000000000000000" 1 63 d] uint_u64_bounds[of d] by simp
  show "uint (d AND 0x7ff0000000000000) = uint d mod 2 ^ 63 div 2 ^ 52 * 2 ^ 52"
    using uint_field[of "0x7ff0000000000000" 11 52 d] by simp
qed (simp_all add: uint_low_field[where k = 52] uint_low_field[where k = 63] uint_low_field[where k = 43])

lemma half_fields:
  fixes h :: u16
  shows "uint (h AND 0x8000) = uint h div 2 ^ 15 * 2 ^ 15"
    and "uint (h AND 0x7c00) = uint h mod 2 ^ 15 div 2 ^ 10 * 2 ^ 10"
    and "uint (h AND 0x03ff) = uint h mod 2 ^ 10"
    and "uint (h AND 0x7fff) = uint h mod 2 ^ 15"
proof -
  show "uint (h AND 0x8000) = uint h div 2 ^ 15 * 2 ^ 15"
    using uint_field[of "0x8000" 1 15 h] uint_lt2p[of h] by simp
  show "uint (h AND 0x7c00) = uint h mod 2 ^ 15 div 2 ^ 10 * 2 ^ 10"
    using uint_field[of "0x7c00" 5 10 h] by simp
qed (simp_all add: uint_low_field[where k = 10] uint_low_field[where k = 15])

lemma uint_drop [simp]: "uint (drop_bit n (w :: 'a::len word)) = uint w div 2 ^ n"
proof -
  have "uint (drop_bit n w) = drop_bit n (uint w)"
    by (simp only: unsigned_drop_bit_eq take_bit_int_eq_self_iff) (simp add: take_bit_int_eq_self)
  then show ?thesis by (simp add: drop_bit_eq_div)
qed

lemma uint_add_small: "uint a + uint b < 2 ^ LENGTH('a) \<Longrightarrow> uint (a + b :: 'a::len word) = uint a + uint b"
  by (simp add: uint_add_lem)

lemma uint_mask_shift:
  "k < LENGTH('a) \<Longrightarrow> uint (push_bit k 1 - 1 :: 'a::len word) = 2 ^ k - 1"
proof -
  assume k: "k < LENGTH('a)"
  have "push_bit k 1 - 1 = (mask k :: 'a word)" by (simp add: mask_eq_decr_exp push_bit_of_1)
  then show ?thesis using k by (simp only: uint_mask_eq) (simp add: mask_eq_exp_minus_1 min_def)
qed

lemma uint_masked:
  "k < LENGTH('a) \<Longrightarrow> uint (w AND (push_bit k 1 - 1) :: 'a::len word) = uint w mod 2 ^ k"
  by (rule uint_low_field) (rule uint_mask_shift)

lemma word_zero_iff: "(w :: 'a::len word) = 0 \<longleftrightarrow> uint w = 0"
  by (simp add: word_uint_eq_iff)

lemma unat_diff_small:
  fixes a b :: "'a::len word"
  assumes "uint b \<le> uint a"
  shows "unat (a - b) = nat (uint a - uint b)"
proof -
  have "uint (a - b) = uint a - uint b" using assms by (simp add: uint_sub_lem)
  then show ?thesis by (metis nat_uint_eq)
qed

text \<open>The rounding of the two word widths is the rounding on integers.\<close>

lemma round_bits_u32:
  fixes w :: u32
  assumes "uint w < 2 ^ 31"
  shows "uint (drop_bit 13 (if w AND 0x00003fff \<noteq> 0x00001000 then w + 0x00001000 else w)) = round_bits 13 (uint w)"
proof -
  have "(w AND 0x00003fff = 0x00001000) = (uint w mod 2 ^ 14 = 2 ^ 12)"
    by (simp only: word_uint_eq_iff float_fields) simp
  moreover have "uint (w + 0x1000) = uint w + 2 ^ 12" using assms by (subst uint_add_small) simp_all
  ultimately show ?thesis by (simp add: round_bits_def)
qed

lemma round_bits_u64:
  fixes w :: u64
  assumes "uint w < 2 ^ 63"
  shows "uint (drop_bit 42 (if w AND 0x000007ffffffffff \<noteq> 0x0000020000000000 then w + 0x0000020000000000 else w))
    = round_bits 42 (uint w)"
proof -
  have "(w AND 0x000007ffffffffff = 0x0000020000000000) = (uint w mod 2 ^ 43 = 2 ^ 41)"
    by (simp only: word_uint_eq_iff double_fields) simp
  moreover have "uint (w + 0x0000020000000000) = uint w + 2 ^ 41" using assms by (subst uint_add_small) simp_all
  ultimately show ?thesis by (simp add: round_bits_def)
qed

lemma round_bits_shift:
  assumes "1 \<le> n"
  shows "round_bits n (x + k * 2 ^ (n + 1)) = round_bits n x + 2 * k"
proof -
  have "(x + k * 2 ^ (n + 1)) div 2 ^ n = x div 2 ^ n + 2 * k" for x :: int
    by (simp add: ac_simps flip: mult.assoc)
  from this[of x] this[of "x + 2 ^ (n - 1)"] show ?thesis
    by (simp add: round_bits_def algebra_simps)
qed

lemma round_bits_bounds:
  assumes "1 \<le> n" "0 \<le> q" "q < k * 2 ^ n"
  shows "0 \<le> round_bits n q" "round_bits n q \<le> k"
proof -
  have n: "(2::int) ^ n = 2 * 2 ^ (n - 1)" using assms(1) by (cases n) simp_all
  show "0 \<le> round_bits n q" using assms by (simp add: round_bits_def int_div_bounds)
  have "q + 2 ^ (n - 1) < (k + 1) * 2 ^ n"
    using assms(3) n zero_less_power[of "2::int" "n - 1"] unfolding distrib_right by linarith
  from int_div_less[OF _ this] int_div_less[OF _ assms(3)] show "round_bits n q \<le> k"
    by (simp add: round_bits_def)
qed

lemma word_of_int_eq_u16: "0 \<le> a \<Longrightarrow> a < 2 ^ 16 \<Longrightarrow> (word_of_int a = (c :: u16)) \<longleftrightarrow> a = uint c"
  by (auto simp: word_uint_eq_iff uint_word_of_int)

lemma float_to_halfbits_mag:
  "float_to_halfbits f errmode =
     map_sum id (\<lambda>r. word_of_int (uint f div 2 ^ 31 * 2 ^ 15 + r)) (half_mag 23 112 255 (uint f mod 2 ^ 31) errmode)"
proof -
  define x where "x = uint f mod 2 ^ 31"
  define e m where "e = x div 2 ^ 23" and "m = x mod 2 ^ 23"
  let ?E = "f AND 0x7f800000" and ?M = "f AND 0x007fffff"
  let ?rnd = "\<lambda>w. drop_bit 13 (if w AND 0x00003fff \<noteq> 0x00001000 then w + 0x00001000 else w :: u32)"
  have bounds: "0 \<le> e" "e \<le> 255" "0 \<le> m" "m < 2 ^ 23" "x = e * 2 ^ 23 + m"
    by (simp_all add: e_def m_def x_def)
  have E: "uint ?E = e * 2 ^ 23" by (simp only: float_fields e_def x_def)
  have M: "uint ?M = m" by (simp only: float_fields m_def x_def) (simp add: mod_mod_cancel)
  have tests: "(?E \<ge> 0x47800000) = (143 \<le> e)" "(?E = 0x7f800000) = (e = 255)"
    "(?E \<le> 0x38000000) = (e \<le> 112)" "(?E < 0x33000000) = (e < 102)" "(?M = 0) = (m = 0)"
    "(f AND 0x7fffffff = 0) = (x = 0)"
    by (simp_all only: word_le_def word_less_def word_uint_eq_iff E M float_fields(4) x_def[symmetric]) simp_all
  have sgn: "(ucast (drop_bit 16 (f AND 0x80000000)) :: u16) = word_of_int (uint f div 2 ^ 31 * 2 ^ 15)"
    by (simp only: ucast_eq uint_drop float_fields(1)) simp
  have nan: "(ucast (0x7c00 + drop_bit 13 ?M) :: u16) = word_of_int (0x7c00 + m div 2 ^ 13)"
    "(word_of_int (0x7c00 + m div 2 ^ 13) = (0x7c00 :: u16)) = (m div 2 ^ 13 = 0)"
  proof -
    have d: "0 \<le> m div 2 ^ 13" "m div 2 ^ 13 < 2 ^ 10" using bounds by (simp_all add: int_div_less)
    have "uint (0x7c00 + drop_bit 13 ?M) = 0x7c00 + m div 2 ^ 13"
      using d by (subst uint_add_small; simp only: uint_drop M) simp_all
    then show "(ucast (0x7c00 + drop_bit 13 ?M) :: u16) = word_of_int (0x7c00 + m div 2 ^ 13)"
      by (simp only: ucast_eq)
    show "(word_of_int (0x7c00 + m div 2 ^ 13) = (0x7c00 :: u16)) = (m div 2 ^ 13 = 0)"
      using d by (subst word_of_int_eq_u16) simp_all
  qed
  have sub: "unat (126 - drop_bit 23 ?E) = nat (126 - e)" "unat (113 - drop_bit 23 ?E) = nat (113 - e)"
    if "e \<le> 112" using that bounds by (subst unat_diff_small; simp only: uint_drop E; simp)+
  have S: "uint (0x00800000 + ?M) = 2 ^ 23 + m" using bounds by (subst uint_add_small) (simp_all add: M)
  have inexact: "((0x00800000 + ?M) AND (push_bit (nat (126 - e)) 1 - 1) = 0) = ((2 ^ 23 + m) mod 2 ^ nat (126 - e) = 0)"
    if "102 \<le> e"
  proof -
    have "nat (126 - e) < LENGTH(32)" using that by simp
    from uint_masked[OF this] show ?thesis by (simp only: word_zero_iff S)
  qed
  have shifted: "(ucast (?rnd (drop_bit k (0x00800000 + ?M))) :: u16) = word_of_int (round_bits 13 ((2 ^ 23 + m) div 2 ^ k))" for k
  proof -
    have "(2 ^ 23 + m) div 2 ^ k \<le> 2 ^ 23 + m" using bounds int_div_bounds(2)[of "2 ^ 23 + m" "2 ^ k"] by simp
    then have "uint (drop_bit k (0x00800000 + ?M)) < 2 ^ 31" using bounds by (simp only: uint_drop S) simp
    from round_bits_u32[OF this] show ?thesis by (simp only: ucast_eq uint_drop S)
  qed
  have regular: "(ucast (?rnd ?M) :: u16) + ucast (drop_bit 13 (?E - 0x38000000)) = word_of_int (round_bits 13 (x - 112 * 2 ^ 23))"
    if "112 < e"
  proof -
    have "uint (?E - 0x38000000) = (e - 112) * 2 ^ 23"
      using that uint_sub_lem[of "0x38000000" ?E] by (simp only: E) simp
    then have "uint (drop_bit 13 (?E - 0x38000000)) = 2 * ((e - 112) * 2 ^ 9)" by (simp only: uint_drop) simp
    moreover have "uint (?rnd ?M) = round_bits 13 m" using bounds round_bits_u32[of ?M] by (simp only: M) simp
    moreover have "x - 112 * 2 ^ 23 = m + ((e - 112) * 2 ^ 9) * 2 ^ (13 + 1)" using bounds by simp
    ultimately show ?thesis by (simp only: ucast_eq round_bits_shift of_int_add)
  qed
  note unfolded = float_to_halfbits_def half_mag_def Let_def x_def[symmetric] e_def[symmetric]
    m_def[symmetric] tests sgn nan
  consider "143 \<le> e" | "e < 102" | "102 \<le> e" "e \<le> 112" | "112 < e" "e < 143" by linarith
  then show ?thesis
  proof cases
    case 1
    then show ?thesis unfolding unfolded using int_div_bounds(1)[OF bounds(3), of "2 ^ 13"]
      by (auto simp: max_def)
  next
    case 2
    then show ?thesis unfolding unfolded by simp
  next
    case 3
    then show ?thesis unfolding unfolded sub[OF 3(2)] inexact[OF 3(1)] shifted by simp
  next
    case 4
    have "0 \<le> x - 112 * 2 ^ 23" "x - 112 * 2 ^ 23 < 31 * 2 ^ 10 * 2 ^ 13" using 4 bounds by simp_all
    from round_bits_bounds[OF _ this]
    have "(word_of_int (round_bits 13 (x - 112 * 2 ^ 23)) = (0x7c00 :: u16)) = (round_bits 13 (x - 112 * 2 ^ 23) = 0x7c00)"
      by (subst word_of_int_eq_u16) simp_all
    then show ?thesis using 4 unfolding unfolded regular[OF 4(1)] by simp
  qed
qed

lemma double_to_halfbits_mag:
  "double_to_halfbits d errmode =
     map_sum id (\<lambda>r. word_of_int (uint d div 2 ^ 63 * 2 ^ 15 + r)) (half_mag 52 1008 2047 (uint d mod 2 ^ 63) errmode)"
proof -
  define x where "x = uint d mod 2 ^ 63"
  define e m where "e = x div 2 ^ 52" and "m = x mod 2 ^ 52"
  let ?E = "d AND 0x7ff0000000000000" and ?M = "d AND 0x000fffffffffffff"
  let ?rnd = "\<lambda>w. drop_bit 42 (if w AND 0x000007ffffffffff \<noteq> 0x0000020000000000 then w + 0x0000020000000000 else w :: u64)"
  have bounds: "0 \<le> e" "e \<le> 2047" "0 \<le> m" "m < 2 ^ 52" "x = e * 2 ^ 52 + m"
    by (simp_all add: e_def m_def x_def)
  have E: "uint ?E = e * 2 ^ 52" by (simp only: double_fields e_def x_def)
  have M: "uint ?M = m" by (simp only: double_fields m_def x_def) (simp add: mod_mod_cancel)
  have tests: "(?E \<ge> 0x40f0000000000000) = (1039 \<le> e)" "(?E = 0x7ff0000000000000) = (e = 2047)"
    "(?E \<le> 0x3f00000000000000) = (e \<le> 1008)" "(?E < 0x3e60000000000000) = (e < 998)" "(?M = 0) = (m = 0)"
    "(d AND 0x7fffffffffffffff = 0) = (x = 0)"
    by (simp_all only: word_le_def word_less_def word_uint_eq_iff E M double_fields(4) x_def[symmetric]) simp_all
  have sgn: "(ucast (drop_bit 48 (d AND 0x8000000000000000)) :: u16) = word_of_int (uint d div 2 ^ 63 * 2 ^ 15)"
    by (simp only: ucast_eq uint_drop double_fields(1)) simp
  have nan: "(ucast (0x7c00 + drop_bit 42 ?M) :: u16) = word_of_int (0x7c00 + m div 2 ^ 42)"
    "(word_of_int (0x7c00 + m div 2 ^ 42) = (0x7c00 :: u16)) = (m div 2 ^ 42 = 0)"
  proof -
    have q: "0 \<le> m div 2 ^ 42" "m div 2 ^ 42 < 2 ^ 10" using bounds by (simp_all add: int_div_less)
    have "uint (0x7c00 + drop_bit 42 ?M) = 0x7c00 + m div 2 ^ 42"
      using q by (subst uint_add_small; simp only: uint_drop M) simp_all
    then show "(ucast (0x7c00 + drop_bit 42 ?M) :: u16) = word_of_int (0x7c00 + m div 2 ^ 42)"
      by (simp only: ucast_eq)
    show "(word_of_int (0x7c00 + m div 2 ^ 42) = (0x7c00 :: u16)) = (m div 2 ^ 42 = 0)"
      using q by (subst word_of_int_eq_u16) simp_all
  qed
  have sub: "unat (1051 - drop_bit 52 ?E) = nat (1051 - e)" "unat (1009 - drop_bit 52 ?E) = nat (1009 - e)"
    if "e \<le> 1008" using that bounds by (subst unat_diff_small; simp only: uint_drop E; simp)+
  have S: "uint (0x0010000000000000 + ?M) = 2 ^ 52 + m" using bounds by (subst uint_add_small) (simp_all add: M)
  have inexact: "((0x0010000000000000 + ?M) AND (push_bit (nat (1051 - e)) 1 - 1) = 0) = ((2 ^ 52 + m) mod 2 ^ nat (1051 - e) = 0)"
    if "998 \<le> e"
  proof -
    have "nat (1051 - e) < LENGTH(64)" using that by simp
    from uint_masked[OF this] show ?thesis by (simp only: word_zero_iff S)
  qed
  have shifted: "(ucast (?rnd (drop_bit k (0x0010000000000000 + ?M))) :: u16) = word_of_int (round_bits 42 ((2 ^ 52 + m) div 2 ^ k))" for k
  proof -
    have "(2 ^ 52 + m) div 2 ^ k \<le> 2 ^ 52 + m" using bounds int_div_bounds(2)[of "2 ^ 52 + m" "2 ^ k"] by simp
    then have "uint (drop_bit k (0x0010000000000000 + ?M)) < 2 ^ 63" using bounds by (simp only: uint_drop S) simp
    from round_bits_u64[OF this] show ?thesis by (simp only: ucast_eq uint_drop S)
  qed
  have regular: "(ucast (?rnd ?M) :: u16) + ucast (drop_bit 42 (?E - 0x3f00000000000000)) = word_of_int (round_bits 42 (x - 1008 * 2 ^ 52))"
    if "1008 < e"
  proof -
    have "uint (?E - 0x3f00000000000000) = (e - 1008) * 2 ^ 52"
      using that uint_sub_lem[of "0x3f00000000000000" ?E] by (simp only: E) simp
    then have "uint (drop_bit 42 (?E - 0x3f00000000000000)) = 2 * ((e - 1008) * 2 ^ 9)" by (simp only: uint_drop) simp
    moreover have "uint (?rnd ?M) = round_bits 42 m" using bounds round_bits_u64[of ?M] by (simp only: M) simp
    moreover have "x - 1008 * 2 ^ 52 = m + ((e - 1008) * 2 ^ 9) * 2 ^ (42 + 1)" using bounds by simp
    ultimately show ?thesis by (simp only: ucast_eq round_bits_shift of_int_add)
  qed
  note unfolded = double_to_halfbits_def half_mag_def Let_def x_def[symmetric] e_def[symmetric]
    m_def[symmetric] tests sgn nan
  consider "1039 \<le> e" | "e < 998" | "998 \<le> e" "e \<le> 1008" | "1008 < e" "e < 1039" by linarith
  then show ?thesis
  proof cases
    case 1
    then show ?thesis unfolding unfolded using int_div_bounds(1)[OF bounds(3), of "2 ^ 42"]
      by (auto simp: max_def)
  next
    case 2
    then show ?thesis unfolding unfolded by simp
  next
    case 3
    then show ?thesis unfolding unfolded sub[OF 3(2)] inexact[OF 3(1)] shifted by simp
  next
    case 4
    have "0 \<le> x - 1008 * 2 ^ 52" "x - 1008 * 2 ^ 52 < 31 * 2 ^ 10 * 2 ^ 42" using 4 bounds by simp_all
    from round_bits_bounds[OF _ this]
    have "(word_of_int (round_bits 42 (x - 1008 * 2 ^ 52)) = (0x7c00 :: u16)) = (round_bits 42 (x - 1008 * 2 ^ 52) = 0x7c00)"
      by (subst word_of_int_eq_u16) simp_all
    then show ?thesis using 4 unfolding unfolded regular[OF 4(1)] by simp
  qed
qed

section \<open>Values\<close>

text \<open>
  The magnitude of a finite number in units of the smallest subnormal of its format: \<open>2 ^ -24\<close> for
  half precision, \<open>2 ^ -149\<close> and \<open>2 ^ -1074\<close> for the wide formats. For the bits of an infinity the
  formula gives a value above every finite one.
\<close>

definition mag_val :: "nat \<Rightarrow> int \<Rightarrow> int" where
  "mag_val p x = (let e = x div 2 ^ p; m = x mod 2 ^ p in if e = 0 then m else (2 ^ p + m) * 2 ^ nat (e - 1))"

abbreviation half_val :: "int \<Rightarrow> int" where
  "half_val \<equiv> mag_val 10"

lemma mag_val_small: "0 \<le> m \<Longrightarrow> m < 2 ^ p \<Longrightarrow> mag_val p m = m"
  by (simp add: mag_val_def)

lemma mag_val_normal:
  "0 \<le> m \<Longrightarrow> m < 2 ^ p \<Longrightarrow> 0 < e \<Longrightarrow> mag_val p (e * 2 ^ p + m) = (2 ^ p + m) * 2 ^ nat (e - 1)"
  by (simp add: mag_val_def)

text \<open>The next number up is one unit in the last place away.\<close>

lemma mag_val_next:
  assumes "0 \<le> x" "1 \<le> p"
  shows "mag_val p (x + 1) = mag_val p x + (if x < 2 ^ p then 1 else 2 ^ nat (x div 2 ^ p - 1))"
proof -
  define e m where "e = x div 2 ^ p" and "m = x mod 2 ^ p"
  have x: "x = e * 2 ^ p + m" "0 \<le> m" "m < 2 ^ p" "0 \<le> e"
    using assms by (simp_all add: e_def m_def pos_imp_zdiv_nonneg_iff div_mult_mod_eq del: minus_mod_eq_div_mult)
  have big: "x < 2 ^ p \<longleftrightarrow> e = 0" using assms(1) by (auto simp: e_def zdiv_eq_0_iff)
  show ?thesis
  proof (cases "m + 1 < 2 ^ p")
    case True
    moreover have "x + 1 = m + 1 + e * 2 ^ p" using x(1) by simp
    ultimately have "(x + 1) div 2 ^ p = e" "(x + 1) mod 2 ^ p = m + 1"
      using x(2) by (simp_all only: div_mult_self1 mod_mult_self1) simp_all
    then show ?thesis unfolding big by (simp add: mag_val_def Let_def algebra_simps flip: e_def m_def)
  next
    case False
    then have m: "m = 2 ^ p - 1" using x by linarith
    have "x + 1 = (e + 1) * 2 ^ p + 0" using x m by (simp add: algebra_simps)
    then have "mag_val p (x + 1) = 2 ^ p * 2 ^ nat e" using mag_val_normal[of 0 p "e + 1"] x by simp
    moreover have "mag_val p x = (if e = 0 then m else (2 ^ p + m) * 2 ^ nat (e - 1))"
      by (simp add: mag_val_def Let_def flip: e_def m_def)
    moreover have "e \<noteq> 0 \<Longrightarrow> (2::int) ^ nat e = 2 * 2 ^ nat (e - 1)"
      using x(4) by (simp add: nat_diff_distrib flip: power_Suc)
    ultimately show ?thesis unfolding big e_def[symmetric] by (simp add: m algebra_simps)
  qed
qed

lemma mag_val_strict_mono:
  assumes "0 \<le> x" "1 \<le> p" "x < y"
  shows "mag_val p x < mag_val p y"
  using assms(3)
proof (induction y rule: int_gr_induct)
  case base
  then show ?case using mag_val_next[OF assms(1,2)] by simp
next
  case (step y)
  then have "mag_val p y < mag_val p (y + 1)" using mag_val_next[of y p] assms by simp
  with step show ?case by simp
qed

lemma mag_val_mono: "0 \<le> x \<Longrightarrow> 1 \<le> p \<Longrightarrow> x \<le> y \<Longrightarrow> mag_val p x \<le> mag_val p y"
  using mag_val_strict_mono[of x p y] by (cases "x = y") simp_all

lemma mag_val_less_iff: "0 \<le> x \<Longrightarrow> 0 \<le> y \<Longrightarrow> 1 \<le> p \<Longrightarrow> mag_val p x < mag_val p y \<longleftrightarrow> x < y"
  using mag_val_strict_mono mag_val_mono by (meson linorder_not_le)

section \<open>Rounding to nearest\<close>

lemma round_bits_cases:
  assumes "1 \<le> n" "0 \<le> q"
  shows "round_bits n q = q div 2 ^ n + (if 2 * (q mod 2 ^ n) < 2 ^ n \<or> 2 * (q mod 2 ^ n) = 2 ^ n \<and> even (q div 2 ^ n) then 0 else 1)"
proof -
  define h :: int where "h = 2 ^ (n - 1)"
  have h: "0 < h" by (simp add: h_def)
  define lo t where "lo = q div 2 ^ n" and "t = q mod 2 ^ n"
  have q: "q = lo * 2 ^ n + t" "0 \<le> t" "t < 2 ^ n" by (simp_all add: lo_def t_def div_mult_mod_eq)
  have n: "(2::int) ^ n = 2 * h" "(2::int) ^ (n + 1) = 2 * 2 ^ n" 
    using assms(1) unfolding h_def by (cases n; simp)+
  have mod2: "q mod 2 ^ (n + 1) = 2 ^ n * (lo mod 2) + t"
    using zmod_zmult2_eq[of 2 q "2 ^ n"] by (simp add: lo_def t_def mult.commute)
  have add: "(q + h) div 2 ^ n = lo + (t + h) div 2 ^ n"
    unfolding q(1) by (simp add: add.assoc)
  have "(t + h) div 2 ^ n = (if t < h then 0 else 1)"
    using q(2,3) n(1) by (intro int_div_pos_eq[where r = "if t < h then t + h else t - h"]) auto
  note carry = this
  have tie: "q mod 2 ^ (n + 1) = h \<longleftrightarrow> even lo \<and> t = h"
    unfolding mod2 using n q(2) h by (cases "even lo") (auto simp: odd_iff_mod_2_eq_one)
  have "round_bits n q = (if even lo \<and> t = h then lo else lo + (if t < h then 0 else 1))"
    unfolding round_bits_def h_def[symmetric] tie if_distrib[of "\<lambda>a. a div 2 ^ n"] add carry by (simp add: lo_def)
  then show ?thesis unfolding lo_def[symmetric] t_def[symmetric] by (auto simp: n(1))
qed

section \<open>The contract of a wide format\<close>

text \<open>
  What the two narrowings need of a format: at least two bits more of fraction, and a range of
  exponents that holds those of half precision with its subnormals. The step is the number of
  smallest units of the wide format in one of half precision.
\<close>

definition half_unit :: "nat \<Rightarrow> int \<Rightarrow> int" where
  "half_unit p b = 2 ^ (p - 10 + nat b)"

text \<open>The magnitudes that the widenings give, by the cases of the source.\<close>

definition widened :: "nat \<Rightarrow> int \<Rightarrow> int \<Rightarrow> int \<Rightarrow> int \<Rightarrow> bool" where
  "widened p b emax y x \<longleftrightarrow>
     (let e = y div 2 ^ 10; m = y mod 2 ^ 10
      in if e = 0
         then (if m = 0 then x = 0
               else \<exists>k. k < 10 \<and> 2 ^ 10 \<le> m * 2 ^ (k + 1) \<and> m * 2 ^ (k + 1) < 2 ^ 11
                      \<and> x = (b - int k) * 2 ^ p + (m * 2 ^ (k + 1) - 2 ^ 10) * 2 ^ (p - 10))
         else if e = 31 then x = emax * 2 ^ p + m * 2 ^ (p - 10)
         else x = (e + b) * 2 ^ p + m * 2 ^ (p - 10))"

locale wide_format =
  fixes p :: nat and b emax :: int
  assumes fraction: "12 \<le> p" and bias: "10 < b" and top: "b + 31 \<le> emax"
begin

lemma p_split: "(2::int) ^ p = 2 ^ 10 * 2 ^ (p - 10)"
proof -
  have "p = 10 + (p - 10)" using fraction by simp
  then show ?thesis by (metis power_add)
qed

lemma frac_bound: "m < 2 ^ 10 \<Longrightarrow> m * 2 ^ (p - 10) < 2 ^ p" for m :: int
  by (simp add: p_split)

lemma fields:
  fixes m e :: int
  assumes "0 \<le> m" "m < 2 ^ 10"
  shows "(e * 2 ^ p + m * 2 ^ (p - 10)) div 2 ^ p = e" "(e * 2 ^ p + m * 2 ^ (p - 10)) mod 2 ^ p = m * 2 ^ (p - 10)"
  using assms frac_bound[of m] by simp_all

lemma round_exact: "round_bits (p - 10) (t * 2 ^ (p - 10)) = t"
proof -
  have "(2::int) ^ (p - 10) = 2 * 2 ^ (p - 10 - 1)" using fraction by (cases "p - 10") simp_all
  then have "(t * 2 ^ (p - 10) + 2 ^ (p - 10 - 1)) div 2 ^ (p - 10) = t"
    by (intro int_div_pos_eq[where r = "2 ^ (p - 10 - 1)"]) (simp_all add: mult.commute)
  then show ?thesis by (simp add: round_bits_def)
qed

lemma half_of_widened:
  assumes "widened p b emax y x" "0 \<le> y" "y < 2 ^ 15"
  shows "half_mag p b emax x errmode = Inr y"
proof -
  define e m where "e = y div 2 ^ 10" and "m = y mod 2 ^ 10"
  have y: "y = e * 2 ^ 10 + m" "0 \<le> m" "m < 2 ^ 10" "0 \<le> e" "e < 32"
    using assms(2,3) by (simp_all add: e_def m_def pos_imp_zdiv_nonneg_iff int_div_less)
  have w: "if e = 0 then (if m = 0 then x = 0
               else \<exists>k. k < 10 \<and> 2 ^ 10 \<le> m * 2 ^ (k + 1) \<and> m * 2 ^ (k + 1) < 2 ^ 11
                      \<and> x = (b - int k) * 2 ^ p + (m * 2 ^ (k + 1) - 2 ^ 10) * 2 ^ (p - 10))
         else if e = 31 then x = emax * 2 ^ p + m * 2 ^ (p - 10)
         else x = (e + b) * 2 ^ p + m * 2 ^ (p - 10)"
    using assms(1) unfolding widened_def Let_def e_def[symmetric] m_def[symmetric] .
  consider "e = 0" "m = 0" | "e = 0" "m \<noteq> 0" | "e = 31" | "0 < e" "e < 31" using y by linarith
  then show ?thesis
  proof cases
    case 1
    then show ?thesis using w y bias by (simp add: half_mag_def)
  next
    case 2
    then obtain k where k: "k < 10" "2 ^ 10 \<le> m * 2 ^ (k + 1)" "m * 2 ^ (k + 1) < 2 ^ 11"
      "x = (b - int k) * 2 ^ p + (m * 2 ^ (k + 1) - 2 ^ 10) * 2 ^ (p - 10)"
      using w by auto
    let ?f = "m * 2 ^ (k + 1) - 2 ^ 10"
    have f: "x div 2 ^ p = b - int k" "x mod 2 ^ p = ?f * 2 ^ (p - 10)"
      unfolding k(4) by (rule fields; use k in simp)+
    have M: "2 ^ p + ?f * 2 ^ (p - 10) = m * 2 ^ (p - 10) * 2 ^ (k + 1)"
      by (simp add: p_split algebra_simps)
    have "nat (int p + b - 9 - (b - int k)) = (p - 10) + (k + 1)" "nat (b + 1 - (b - int k)) = k + 1"
      using fraction by simp_all
    then have "(2 ^ p + ?f * 2 ^ (p - 10)) mod 2 ^ nat (int p + b - 9 - (b - int k)) = 0"
      "(2 ^ p + ?f * 2 ^ (p - 10)) div 2 ^ nat (b + 1 - (b - int k)) = m * 2 ^ (p - 10)"
      unfolding M by (simp_all only: power_add) simp_all
    then show ?thesis using f k(1) y 2 unfolding half_mag_def Let_def f
      by (simp add: round_exact)
  next
    case 3
    then have x: "x = emax * 2 ^ p + m * 2 ^ (p - 10)" using w by simp
    show ?thesis using y 3 top unfolding half_mag_def Let_def x fields[OF y(2,3)] by simp
  next
    case 4
    then have x: "x = (e + b) * 2 ^ p + m * 2 ^ (p - 10)" using w by simp
    have "x - b * 2 ^ p = y * 2 ^ (p - 10)" unfolding x y(1) by (simp add: p_split algebra_simps)
    moreover have "y \<noteq> 0x7c00" using y 4 by simp
    ultimately show ?thesis using 4 unfolding half_mag_def Let_def
      unfolding x fields[OF y(2,3)] by (simp add: round_exact)
  qed
qed

end

context wide_format
begin

lemma half_unit_split: "half_unit p b = 2 ^ (p - 10) * 2 ^ nat b"
  by (simp add: half_unit_def power_add)

lemma widened_value:
  assumes "widened p b emax y x" "0 \<le> y" "y < 31 * 2 ^ 10"
  shows "mag_val p x = half_val y * half_unit p b"
proof -
  define e m where "e = y div 2 ^ 10" and "m = y mod 2 ^ 10"
  have y: "y = e * 2 ^ 10 + m" "0 \<le> m" "m < 2 ^ 10" "0 \<le> e" "e < 31"
    using assms(2,3) by (simp_all add: e_def m_def pos_imp_zdiv_nonneg_iff int_div_less)
  have V: "half_val y = (if e = 0 then m else (2 ^ 10 + m) * 2 ^ nat (e - 1))"
    by (simp add: mag_val_def Let_def e_def m_def)
  note w = assms(1)[unfolded widened_def Let_def, folded e_def m_def]
  consider "e = 0" "m = 0" | "e = 0" "m \<noteq> 0" | "0 < e" using y by linarith
  then show ?thesis
  proof cases
    case 1
    then show ?thesis using w unfolding V by (simp add: mag_val_def)
  next
    case 2
    then obtain k where k: "k < 10" "2 ^ 10 \<le> m * 2 ^ (k + 1)" "m * 2 ^ (k + 1) < 2 ^ 11"
      "x = (b - int k) * 2 ^ p + (m * 2 ^ (k + 1) - 2 ^ 10) * 2 ^ (p - 10)"
      using w by auto
    let ?f = "m * 2 ^ (k + 1) - 2 ^ 10"
    have "mag_val p x = (2 ^ p + ?f * 2 ^ (p - 10)) * 2 ^ nat (b - int k - 1)"
      unfolding k(4) by (rule mag_val_normal) (use k bias frac_bound in simp_all)
    also have "\<dots> = m * 2 ^ (p - 10) * (2 ^ (k + 1) * 2 ^ nat (b - int k - 1))"
      by (simp add: p_split algebra_simps)
    also have "(2::int) ^ (k + 1) * 2 ^ nat (b - int k - 1) = 2 ^ nat b"
      using k(1) bias by (simp only: flip: power_add) (simp add: nat_diff_distrib)
    finally show ?thesis using 2 unfolding V half_unit_split by simp
  next
    case 3
    then have x: "x = (e + b) * 2 ^ p + m * 2 ^ (p - 10)" using w y(5) by simp
    have "mag_val p x = (2 ^ p + m * 2 ^ (p - 10)) * 2 ^ nat (e + b - 1)"
      unfolding x by (rule mag_val_normal) (use y 3 bias frac_bound in simp_all)
    also have "nat (e + b - 1) = nat (e - 1) + nat b"
      using 3 bias by (simp flip: nat_add_distrib add: algebra_simps)
    also have "(2 ^ p + m * 2 ^ (p - 10)) * 2 ^ (nat (e - 1) + nat b) = (2 ^ 10 + m) * 2 ^ (p - 10) * 2 ^ (nat (e - 1) + nat b)"
      by (simp add: p_split algebra_simps)
    finally show ?thesis using 3 unfolding V half_unit_split by (simp add: power_add)
  qed
qed

text \<open>
  A number with a normal exponent, seen from the half number below it: \<open>t\<close> of the \<open>2 ^ (p - 10)\<close>
  steps to the next half number.
\<close>

lemma between_halves:
  fixes x :: int
  assumes "b < x div 2 ^ p" "0 \<le> x"
  defines "lo \<equiv> (x - b * 2 ^ p) div 2 ^ (p - 10)" and "t \<equiv> x mod 2 ^ (p - 10)"
    and "g \<equiv> 2 ^ nat (x div 2 ^ p - 1)"
  shows "2 ^ 10 \<le> lo" and "mag_val p x = half_val lo * half_unit p b + t * g"
    and "half_val (lo + 1) * half_unit p b = half_val lo * half_unit p b + 2 ^ (p - 10) * g"
    and "(x - b * 2 ^ p) mod 2 ^ (p - 10) = t"
proof -
  define E f where "E = x div 2 ^ p - b" and "f = x mod 2 ^ p"
  let ?n = "(2::int) ^ (p - 10)"
  have E: "0 < E" "x = (E + b) * 2 ^ p + f" "0 \<le> f" "f < 2 ^ p"
    using assms(1) by (simp_all add: E_def f_def div_mult_mod_eq)
  have t: "t = f mod ?n" unfolding t_def f_def by (simp add: mod_mod_cancel le_imp_power_dvd)
  have q: "x - b * 2 ^ p = f + (E * 2 ^ 10) * ?n" unfolding E(2) by (simp add: p_split algebra_simps)
  have lo: "lo = E * 2 ^ 10 + f div ?n" unfolding lo_def q by simp
  have fd: "0 \<le> f div ?n" "f div ?n < 2 ^ 10"
    using E(3,4) by (simp_all add: pos_imp_zdiv_nonneg_iff int_div_less p_split)
  show "2 ^ 10 \<le> lo" unfolding lo using fd E(1) by simp
  show "(x - b * 2 ^ p) mod ?n = t" unfolding q t by simp
  have g: "g = 2 ^ nat b * 2 ^ nat (E - 1)"
    using E(1) bias by (simp add: g_def E_def nat_diff_distrib flip: power_add)
  have vlo: "half_val lo = (2 ^ 10 + f div ?n) * 2 ^ nat (E - 1)"
    unfolding lo by (rule mag_val_normal) (use fd E in simp_all)
  have "mag_val p x = (2 ^ p + f) * g"
    using assms(1) bias by (simp add: mag_val_def Let_def f_def g_def)
  also have "2 ^ p + f = (2 ^ 10 + f div ?n) * ?n + t"
    unfolding t by (simp add: p_split algebra_simps)
  finally show "mag_val p x = half_val lo * half_unit p b + t * g"
    unfolding vlo half_unit_split by (simp add: g algebra_simps)
  have "half_val (lo + 1) = half_val lo + 2 ^ nat (E - 1)"
    using mag_val_next[of lo 10] fd E(1) unfolding lo by simp
  then show "half_val (lo + 1) * half_unit p b = half_val lo * half_unit p b + ?n * g"
    by (simp add: half_unit_split g algebra_simps)
qed

end

lemma nearest_end:
  fixes A N T R Y :: int
  assumes "0 \<le> T" "T \<le> N" "Y \<le> A \<or> A + N \<le> Y" "R = A \<and> 2 * T \<le> N \<or> R = A + N \<and> N \<le> 2 * T"
  shows "\<bar>A + T - R\<bar> \<le> \<bar>A + T - Y\<bar>"
  using assms by (auto simp: abs_if)

context wide_format
begin

text \<open>No half number is nearer than the one the rounding gives; at a tie the even one is taken.\<close>

lemma half_mag_nearest:
  assumes r: "half_mag p b emax x assign_error_nocheck = Inr r"
    and x: "b < x div 2 ^ p" "x div 2 ^ p < b + 31" "0 \<le> x" and y: "0 \<le> y"
  shows "\<bar>mag_val p x - half_val r * half_unit p b\<bar> \<le> \<bar>mag_val p x - half_val y * half_unit p b\<bar>"
proof -
  define lo t g where "lo = (x - b * 2 ^ p) div 2 ^ (p - 10)" and "t = x mod 2 ^ (p - 10)"
    and "g = (2::int) ^ nat (x div 2 ^ p - 1)"
  let ?n = "(2::int) ^ (p - 10)" and ?U = "half_unit p b" and ?V = "mag_val p x"
  note B = between_halves[OF x(1,3), folded lo_def t_def g_def]
  have g: "0 < g" and t: "0 \<le> t" "t < ?n" and U: "0 < ?U" by (simp_all add: g_def t_def half_unit_def)
  have lo: "0 \<le> lo" using B(1) by simp
  have rr: "r = round_bits (p - 10) (x - b * 2 ^ p)"
    using r x by (auto simp: half_mag_def Let_def less_eq_assign_error_mode_def)
  have q: "0 \<le> x - b * 2 ^ p"
  proof -
    have "b * 2 ^ p \<le> x div 2 ^ p * 2 ^ p" using x(1) by simp
    also have "\<dots> \<le> x" using div_mult_mod_eq[of x "2 ^ p"] pos_mod_sign[OF zero_less_power[of 2 p], of x] by linarith
    finally show ?thesis by simp
  qed
  have r_cases: "r = lo \<and> 2 * t \<le> ?n \<or> r = lo + 1 \<and> ?n \<le> 2 * t"
    using fraction round_bits_cases[OF _ q, of "p - 10"] unfolding rr lo_def[symmetric] B(4) by auto
  have low: "y \<le> lo \<Longrightarrow> half_val y * ?U \<le> half_val lo * ?U"
    and high: "lo + 1 \<le> y \<Longrightarrow> half_val (lo + 1) * ?U \<le> half_val y * ?U"
    using y lo U by (simp_all add: mag_val_mono)
  have tg: "0 \<le> t * g" "t * g \<le> ?n * g" using g t by simp_all
  have cmp: "2 * t \<le> ?n \<Longrightarrow> 2 * (t * g) \<le> ?n * g" "?n \<le> 2 * t \<Longrightarrow> ?n * g \<le> 2 * (t * g)"
    using g mult_right_mono[of "2 * t" ?n g] mult_right_mono[of ?n "2 * t" g] by simp_all
  show ?thesis unfolding B(2)
  proof (rule nearest_end[OF tg])
    show "half_val y * ?U \<le> half_val lo * ?U \<or> half_val lo * ?U + ?n * g \<le> half_val y * ?U"
      using low high B(3) by linarith
    show "half_val r * ?U = half_val lo * ?U \<and> 2 * (t * g) \<le> ?n * g \<or>
        half_val r * ?U = half_val lo * ?U + ?n * g \<and> ?n * g \<le> 2 * (t * g)"
      using r_cases cmp B(3) by auto
  qed
qed

end

interpretation single: wide_format 23 112 255
  by unfold_locales simp_all

interpretation double: wide_format 52 1008 2047
  by unfold_locales simp_all

section \<open>Widening on integers\<close>

lemma normalize_sig_run:
  assumes "0 < t" "2 ^ 10 \<le> t * 2 ^ j" "t * 2 ^ j < 2 ^ 11"
  shows "normalize_sig (word_of_int t) a = Some (word_of_int (t * 2 ^ j), a + of_nat j)"
  using assms
proof (induction j arbitrary: t a)
  case 0
  then have "uint (word_of_int t AND (0x0400 :: u16)) = 2 ^ 10"
    using uint_field[of "0x0400 :: u16" 1 10 "word_of_int t"] by (simp add: uint_word_of_int)
  then show ?case by (subst normalize_sig.simps) (simp add: word_zero_iff)
next
  case (Suc j)
  then have "t * 2 \<le> t * 2 ^ Suc j" by simp
  with Suc.prems have "t * 2 < 2 ^ 11" by linarith
  then have "uint (word_of_int t AND (0x0400 :: u16)) = 0"
    using uint_field[of "0x0400 :: u16" 1 10 "word_of_int t"] Suc.prems(1) by (simp add: uint_word_of_int)
  moreover have "push_bit 1 (word_of_int t :: u16) = word_of_int (2 * t)"
    by (simp add: push_bit_eq_mult)
  ultimately show ?case using Suc.IH[of "2 * t" "a + 1"] Suc.prems
    by (subst normalize_sig.simps) (simp add: word_zero_iff ac_simps)
qed

lemma normalize_sig_subnormal:
  assumes "0 < m" "m < 2 ^ 10"
  shows "\<exists>k<10. 2 ^ 10 \<le> m * 2 ^ (k + 1) \<and> m * 2 ^ (k + 1) < 2 ^ 11
    \<and> normalize_sig (word_of_int (2 * m)) 0 = Some (word_of_int (m * 2 ^ (k + 1)), of_nat k)"
proof -
  have "1 \<le> nat m" using assms(1) by simp
  then obtain i where i: "2 ^ i \<le> nat m" "nat m < 2 ^ (i + 1)"
    using ex_power_ivl1[OF order.refl] by blast
  have "nat m < 2 ^ 10" using assms by (simp add: nat_less_iff)
  then have "(2::nat) ^ i < 2 ^ 10" by (rule order.strict_trans1[OF i(1)])
  then have "i < 10" by (simp only: power_strict_increasing_iff)
  define k where "k = 9 - i"
  have im: "2 ^ i \<le> m" "m < 2 ^ (i + 1)" using i assms(1) by (simp_all add: nat_le_iff le_nat_iff nat_less_iff)
  have "(2::int) ^ i * 2 ^ (k + 1) = 2 ^ 10" "(2::int) ^ (i + 1) * 2 ^ (k + 1) = 2 ^ 11"
    using \<open>i < 10\<close> by (simp_all only: flip: power_add) (simp_all add: k_def)
  then have k: "k < 10" "2 ^ 10 \<le> m * 2 ^ (k + 1)" "m * 2 ^ (k + 1) < 2 ^ 11"
    using im mult_right_mono[OF im(1), of "2 ^ (k + 1)"] mult_strict_right_mono[OF im(2), of "2 ^ (k + 1)"]
    by (simp_all add: k_def)
  then show ?thesis using normalize_sig_run[of "2 * m" k 0] assms by (intro exI[of _ k]) (simp add: ac_simps)
qed

lemma half_split:
  fixes h :: u16
  shows "uint h = (uint h div 2 ^ 15) * 2 ^ 15 + uint h mod 2 ^ 15"
    and "uint h div 2 ^ 15 = 0 \<or> uint h div 2 ^ 15 = 1"
    and "0 \<le> uint h div 2 ^ 15" "uint h div 2 ^ 15 \<le> 1"
proof -
  have h: "0 \<le> uint h" "uint h < 2 * 2 ^ 15" using uint_lt2p[of h] by simp_all
  show b: "0 \<le> uint h div 2 ^ 15" "uint h div 2 ^ 15 \<le> 1"
    using int_div_less[OF _ h(2)] h(1) by (simp_all add: pos_imp_zdiv_nonneg_iff)
  then show "uint h div 2 ^ 15 = 0 \<or> uint h div 2 ^ 15 = 1" by linarith
qed (simp add: div_mult_mod_eq)

lemma half_tests:
  fixes h :: u16
  defines "e \<equiv> uint h mod 2 ^ 15 div 2 ^ 10" and "m \<equiv> uint h mod 2 ^ 15 mod 2 ^ 10"
  shows "(h AND 0x7c00 = 0) = (e = 0)" "(h AND 0x7c00 = 0x7c00) = (e = 31)" "(h AND 0x03ff = 0) = (m = 0)"
    "uint (h AND 0x03ff) = m" "h AND 0x03ff = word_of_int m" "uint (h AND 0x7fff) = e * 2 ^ 10 + m"
    "0 \<le> e" "e < 32" "0 \<le> m" "m < 2 ^ 10"
proof -
  show E: "(h AND 0x7c00 = 0) = (e = 0)" "(h AND 0x7c00 = 0x7c00) = (e = 31)"
    by (simp_all only: word_uint_eq_iff half_fields e_def[symmetric]) simp_all
  have M: "uint (h AND 0x03ff) = m" by (simp only: half_fields m_def) (simp add: mod_mod_cancel)
  show "uint (h AND 0x03ff) = m" by (rule M)
  show "(h AND 0x03ff = 0) = (m = 0)" by (simp only: word_zero_iff M)
  show "h AND 0x03ff = word_of_int m" by (simp only: M[symmetric] word_of_int_uint)
  show "uint (h AND 0x7fff) = e * 2 ^ 10 + m" by (simp only: half_fields e_def m_def div_mult_mod_eq)
  show "0 \<le> e" "e < 32" "0 \<le> m" "m < 2 ^ 10" by (simp_all add: e_def m_def)
qed

lemma uint_push: "uint w * 2 ^ n < 2 ^ LENGTH('a) \<Longrightarrow> uint (push_bit n (w :: 'a::len word)) = uint w * 2 ^ n"
proof -
  assume "uint w * 2 ^ n < 2 ^ LENGTH('a)"
  moreover have "push_bit n w = word_of_int (uint w * 2 ^ n)" by (simp add: push_bit_eq_mult)
  ultimately show ?thesis by (simp only: uint_word_of_int) simp
qed

lemma uint_ucast_16_32: "uint (ucast (h :: u16) :: u32) = uint h"
  by (simp add: unsigned_ucast_eq take_bit_int_eq_self_iff order.strict_trans [OF uint_lt2p [of h, simplified]])

lemma uint_ucast_16_64: "uint (ucast (h :: u16) :: u64) = uint h"
  by (simp add: unsigned_ucast_eq take_bit_int_eq_self_iff order.strict_trans [OF uint_lt2p [of h, simplified]])

lemma halfbits_to_float_widened:
  "\<exists>f x. halfbits_to_float h = Some f \<and> uint f = uint h div 2 ^ 15 * 2 ^ 31 + x \<and> 0 \<le> x \<and> x < 2 ^ 31
     \<and> widened 23 112 255 (uint h mod 2 ^ 15) x"
proof -
  define e m s where "e = uint h mod 2 ^ 15 div 2 ^ 10" and "m = uint h mod 2 ^ 15 mod 2 ^ 10"
    and "s = uint h div 2 ^ 15"
  note T = half_tests[of h, folded e_def m_def]
  have s: "0 \<le> s" "s \<le> 1" unfolding s_def by (rule half_split)+
  define S where "S = push_bit 16 ((ucast h :: u32) AND 0x8000)"
  have S: "uint S = s * 2 ^ 31"
  proof -
    have "uint ((ucast h :: u32) AND 0x8000) = s * 2 ^ 15"
      using uint_field[of "0x8000 :: u32" 1 15 "ucast h"] uint_lt2p[of h] by (simp add: uint_ucast_16_32 s_def)
    then show ?thesis using s unfolding S_def by (subst uint_push) simp_all
  qed
  have add: "uint (S + w) = s * 2 ^ 31 + uint w" if "uint w < 2 ^ 31" for w
    using that s S by (subst uint_add_small) simp_all
  note defs = halfbits_to_float_def widened_def Let_def e_def[symmetric] m_def[symmetric]
    s_def[symmetric] S_def[symmetric] T(1-3)
  consider "e = 0" "m = 0" | "e = 0" "m \<noteq> 0" | "e = 31" | "0 < e" "e < 31" using T(7,8) by linarith
  then show ?thesis
  proof cases
    case 1
    then show ?thesis using S unfolding defs by simp
  next
    case 2
    then have m: "0 < m" "m < 2 ^ 10" using T(9,10) by simp_all
    from normalize_sig_subnormal[OF m] obtain k where k: "k < 10" "2 ^ 10 \<le> m * 2 ^ (k + 1)"
      "m * 2 ^ (k + 1) < 2 ^ 11" "normalize_sig (word_of_int (2 * m)) 0 = Some (word_of_int (m * 2 ^ (k + 1)), of_nat k)"
      by blast
    define g where "g = m * 2 ^ (k + 1)"
    let ?e = "push_bit 23 (127 - 15 - (ucast (of_nat k :: u16) :: u32))"
      and ?f = "push_bit 13 (ucast (word_of_int g AND (0x03ff :: u16)) :: u32)"
    have "uint (ucast (of_nat k :: u16) :: u32) = int k"
      using k(1) by (simp add: uint_ucast_16_32 unsigned_of_nat take_bit_nat_eq_self)
    then have ue: "uint ?e = (112 - int k) * 2 ^ 23"
      using k(1) by (subst uint_push) (simp_all add: uint_sub_lem[THEN iffD1])
    have "uint (word_of_int g AND (0x03ff :: u16)) = g - 2 ^ 10"
      using k(2,3) int_mod_pos_eq[of g "2 ^ 10" 1 "g - 2 ^ 10"] unfolding g_def[symmetric]
      by (simp only: half_fields) (simp add: uint_word_of_int)
    then have uf: "uint ?f = (g - 2 ^ 10) * 2 ^ 13"
      using k(2,3) by (subst uint_push) (simp_all add: uint_ucast_16_32 g_def)
    have x: "0 \<le> (112 - int k) * 2 ^ 23 + (g - 2 ^ 10) * 2 ^ 13" "(112 - int k) * 2 ^ 23 + (g - 2 ^ 10) * 2 ^ 13 < 2 ^ 31"
      using k(1-3) by (simp_all add: g_def)
    then have uef: "uint (?e + ?f) = (112 - int k) * 2 ^ 23 + (g - 2 ^ 10) * 2 ^ 13"
      using ue uf by (subst uint_add_small) simp_all
    have h2: "push_bit 1 (h AND 0x03ff) = word_of_int (2 * m)"
      unfolding T(5) by (simp add: push_bit_eq_mult)
    have "halfbits_to_float h = Some (S + (?e + ?f))"
    proof -
      have h0: "h AND 0x7c00 = 0" using T(1) 2 by simp
      show ?thesis
        using 2 unfolding defs h2 by (simp only: h0 k(4) g_def[symmetric]) (simp add: add.assoc)
    qed
    moreover have "widened 23 112 255 (uint h mod 2 ^ 15) ((112 - int k) * 2 ^ 23 + (g - 2 ^ 10) * 2 ^ 13)"
      using 2 k(1-3) unfolding defs by (auto simp: g_def)
    ultimately show ?thesis using add[of "?e + ?f"] x unfolding uef s_def by blast
  next
    case 3
    let ?w = "0x7f800000 + push_bit 13 (ucast (h AND 0x03ff)) :: u32"
    have "uint (push_bit 13 (ucast (h AND 0x03ff)) :: u32) = m * 2 ^ 13"
      using T(4,9,10) by (subst uint_push) (simp_all only: uint_ucast_16_32, simp_all)
    then have w: "uint ?w = 255 * 2 ^ 23 + m * 2 ^ 13" using T(9,10) by (subst uint_add_small) simp_all
    have "halfbits_to_float h = Some (S + ?w)" using 3 unfolding defs by (simp add: add.assoc)
    moreover have "widened 23 112 255 (uint h mod 2 ^ 15) (255 * 2 ^ 23 + m * 2 ^ 13)"
      using 3 unfolding defs by simp
    ultimately show ?thesis using add[of ?w] T(9,10) unfolding w s_def
      by (intro exI[of _ "S + ?w"] exI[of _ "255 * 2 ^ 23 + m * 2 ^ 13"]) simp
  next
    case 4
    let ?w = "push_bit 13 (ucast (h AND 0x7fff) + 0x1c000) :: u32"
    have "uint (ucast (h AND 0x7fff) + 0x1c000 :: u32) = e * 2 ^ 10 + m + 112 * 2 ^ 10"
      using T(6,10) 4 by (subst uint_add_small) (simp_all only: uint_ucast_16_32, simp_all)
    then have w: "uint ?w = (e + 112) * 2 ^ 23 + m * 2 ^ 13"
      using T(9,10) 4 by (subst uint_push) simp_all
    have "halfbits_to_float h = Some (S + ?w)" using 4 unfolding defs by simp
    moreover have "widened 23 112 255 (uint h mod 2 ^ 15) ((e + 112) * 2 ^ 23 + m * 2 ^ 13)"
      using 4 unfolding defs by simp
    ultimately show ?thesis using add[of ?w] T(9,10) 4 unfolding w s_def
      by (intro exI[of _ "S + ?w"] exI[of _ "(e + 112) * 2 ^ 23 + m * 2 ^ 13"]) simp
  qed
qed

lemma halfbits_to_double_widened:
  "\<exists>f x. halfbits_to_double h = Some f \<and> uint f = uint h div 2 ^ 15 * 2 ^ 63 + x \<and> 0 \<le> x \<and> x < 2 ^ 63
     \<and> widened 52 1008 2047 (uint h mod 2 ^ 15) x"
proof -
  define e m s where "e = uint h mod 2 ^ 15 div 2 ^ 10" and "m = uint h mod 2 ^ 15 mod 2 ^ 10"
    and "s = uint h div 2 ^ 15"
  note T = half_tests[of h, folded e_def m_def]
  have s: "0 \<le> s" "s \<le> 1" unfolding s_def by (rule half_split)+
  define S where "S = push_bit 48 ((ucast h :: u64) AND 0x8000)"
  have S: "uint S = s * 2 ^ 63"
  proof -
    have "uint ((ucast h :: u64) AND 0x8000) = s * 2 ^ 15"
      using uint_field[of "0x8000 :: u64" 1 15 "ucast h"] uint_lt2p[of h] by (simp add: uint_ucast_16_64 s_def)
    then show ?thesis using s unfolding S_def by (subst uint_push) simp_all
  qed
  have add: "uint (S + w) = s * 2 ^ 63 + uint w" if "uint w < 2 ^ 63" for w
    using that s S by (subst uint_add_small) simp_all
  note defs = halfbits_to_double_def widened_def Let_def e_def[symmetric] m_def[symmetric]
    s_def[symmetric] S_def[symmetric] T(1-3)
  consider "e = 0" "m = 0" | "e = 0" "m \<noteq> 0" | "e = 31" | "0 < e" "e < 31" using T(7,8) by linarith
  then show ?thesis
  proof cases
    case 1
    then show ?thesis using S unfolding defs by simp
  next
    case 2
    then have m: "0 < m" "m < 2 ^ 10" using T(9,10) by simp_all
    from normalize_sig_subnormal[OF m] obtain k where k: "k < 10" "2 ^ 10 \<le> m * 2 ^ (k + 1)"
      "m * 2 ^ (k + 1) < 2 ^ 11" "normalize_sig (word_of_int (2 * m)) 0 = Some (word_of_int (m * 2 ^ (k + 1)), of_nat k)"
      by blast
    define g where "g = m * 2 ^ (k + 1)"
    let ?e = "push_bit 52 (1023 - 15 - (ucast (of_nat k :: u16) :: u64))"
      and ?f = "push_bit 42 (ucast (word_of_int g AND (0x03ff :: u16)) :: u64)"
    have "uint (ucast (of_nat k :: u16) :: u64) = int k"
      using k(1) by (simp add: uint_ucast_16_64 unsigned_of_nat take_bit_nat_eq_self)
    then have ue: "uint ?e = (1008 - int k) * 2 ^ 52"
      using k(1) by (subst uint_push) (simp_all add: uint_sub_lem[THEN iffD1])
    have "uint (word_of_int g AND (0x03ff :: u16)) = g - 2 ^ 10"
      using k(2,3) int_mod_pos_eq[of g "2 ^ 10" 1 "g - 2 ^ 10"] unfolding g_def[symmetric]
      by (simp only: half_fields) (simp add: uint_word_of_int)
    then have uf: "uint ?f = (g - 2 ^ 10) * 2 ^ 42"
      using k(2,3) by (subst uint_push) (simp_all add: uint_ucast_16_64 g_def)
    have x: "0 \<le> (1008 - int k) * 2 ^ 52 + (g - 2 ^ 10) * 2 ^ 42" "(1008 - int k) * 2 ^ 52 + (g - 2 ^ 10) * 2 ^ 42 < 2 ^ 63"
      using k(1-3) by (simp_all add: g_def)
    then have uef: "uint (?e + ?f) = (1008 - int k) * 2 ^ 52 + (g - 2 ^ 10) * 2 ^ 42"
      using ue uf by (subst uint_add_small) simp_all
    have h2: "push_bit 1 (h AND 0x03ff) = word_of_int (2 * m)"
      unfolding T(5) by (simp add: push_bit_eq_mult)
    have "halfbits_to_double h = Some (S + (?e + ?f))"
    proof -
      have h0: "h AND 0x7c00 = 0" using T(1) 2 by simp
      show ?thesis
        using 2 unfolding defs h2 by (simp only: h0 k(4) g_def[symmetric]) (simp add: add.assoc)
    qed
    moreover have "widened 52 1008 2047 (uint h mod 2 ^ 15) ((1008 - int k) * 2 ^ 52 + (g - 2 ^ 10) * 2 ^ 42)"
      using 2 k(1-3) unfolding defs by (auto simp: g_def)
    ultimately show ?thesis using add[of "?e + ?f"] x unfolding uef s_def by blast
  next
    case 3
    let ?w = "0x7ff0000000000000 + push_bit 42 (ucast (h AND 0x03ff)) :: u64"
    have "uint (push_bit 42 (ucast (h AND 0x03ff)) :: u64) = m * 2 ^ 42"
      using T(4,9,10) by (subst uint_push) (simp_all only: uint_ucast_16_64, simp_all)
    then have w: "uint ?w = 2047 * 2 ^ 52 + m * 2 ^ 42" using T(9,10) by (subst uint_add_small) simp_all
    have "halfbits_to_double h = Some (S + ?w)" using 3 unfolding defs by (simp add: add.assoc)
    moreover have "widened 52 1008 2047 (uint h mod 2 ^ 15) (2047 * 2 ^ 52 + m * 2 ^ 42)"
      using 3 unfolding defs by simp
    ultimately show ?thesis using add[of ?w] T(9,10) unfolding w s_def
      by (intro exI[of _ "S + ?w"] exI[of _ "2047 * 2 ^ 52 + m * 2 ^ 42"]) simp
  next
    case 4
    let ?w = "push_bit 42 (ucast (h AND 0x7fff) + 0xfc000) :: u64"
    have "uint (ucast (h AND 0x7fff) + 0xfc000 :: u64) = e * 2 ^ 10 + m + 1008 * 2 ^ 10"
      using T(6,10) 4 by (subst uint_add_small) (simp_all only: uint_ucast_16_64, simp_all)
    then have w: "uint ?w = (e + 1008) * 2 ^ 52 + m * 2 ^ 42"
      using T(9,10) 4 by (subst uint_push) simp_all
    have "halfbits_to_double h = Some (S + ?w)" using 4 unfolding defs by simp
    moreover have "widened 52 1008 2047 (uint h mod 2 ^ 15) ((e + 1008) * 2 ^ 52 + m * 2 ^ 42)"
      using 4 unfolding defs by simp
    ultimately show ?thesis using add[of ?w] T(9,10) 4 unfolding w s_def
      by (intro exI[of _ "S + ?w"] exI[of _ "(e + 1008) * 2 ^ 52 + m * 2 ^ 42"]) simp
  qed
qed

section \<open>The properties of the conversions\<close>

definition half_sign :: "u16 \<Rightarrow> int" where
  "half_sign h = uint h div 2 ^ 15"

definition half_magnitude :: "u16 \<Rightarrow> int" where
  "half_magnitude h = uint h mod 2 ^ 15"

lemma half_rebuild: "word_of_int (half_sign h * 2 ^ 15 + half_magnitude h) = h"
  by (simp only: half_sign_def half_magnitude_def div_mult_mod_eq word_of_int_uint)

lemma half_magnitude_bounds: "0 \<le> half_magnitude h" "half_magnitude h < 2 ^ 15"
  by (simp_all add: half_magnitude_def)

lemma word_fields:
  fixes s x :: int
  assumes "0 \<le> x" "x < n"
  shows "(s * n + x) div n = s" "(s * n + x) mod n = x"
  using assms by simp_all

lemma half_float_half:
  "\<exists>f. halfbits_to_float h = Some f \<and> float_to_halfbits f errmode = Inr h"
proof -
  obtain f x where f: "halfbits_to_float h = Some f" "uint f = half_sign h * 2 ^ 31 + x" "0 \<le> x" "x < 2 ^ 31"
    "widened 23 112 255 (half_magnitude h) x"
    using halfbits_to_float_widened[of h] unfolding half_sign_def half_magnitude_def by blast
  then have "half_mag 23 112 255 x errmode = Inr (half_magnitude h)"
    using single.half_of_widened half_magnitude_bounds by blast
  then have "float_to_halfbits f errmode = Inr h"
    by (simp only: float_to_halfbits_mag f(2) word_fields[OF f(3,4)] map_sum.simps half_rebuild id_apply)
  with f(1) show ?thesis by blast
qed

lemma half_double_half:
  "\<exists>d. halfbits_to_double h = Some d \<and> double_to_halfbits d errmode = Inr h"
proof -
  obtain f x where f: "halfbits_to_double h = Some f" "uint f = half_sign h * 2 ^ 63 + x" "0 \<le> x" "x < 2 ^ 63"
    "widened 52 1008 2047 (half_magnitude h) x"
    using halfbits_to_double_widened[of h] unfolding half_sign_def half_magnitude_def by blast
  then have "half_mag 52 1008 2047 x errmode = Inr (half_magnitude h)"
    using double.half_of_widened half_magnitude_bounds by blast
  then have "double_to_halfbits f errmode = Inr h"
    by (simp only: double_to_halfbits_mag f(2) word_fields[OF f(3,4)] map_sum.simps half_rebuild id_apply)
  with f(1) show ?thesis by blast
qed

text \<open>
  C24. Widening a half precision number returns (the normalisation loop ends), and narrowing the
  result gives the number back, bit for bit and in every error mode: zeros, subnormals, infinities
  and the payloads of NaNs included, through \<^verbatim>\<open>float\<close> and through \<^verbatim>\<open>double\<close>.
\<close>

theorem half_roundtrip:
  "(\<exists>f. halfbits_to_float h = Some f \<and> float_to_halfbits f errmode = Inr h)
   \<and> (\<exists>d. halfbits_to_double h = Some d \<and> double_to_halfbits d errmode = Inr h)"
  by (rule conjI half_float_half half_double_half)+

text \<open>
  C25. Widening keeps the sign and the value of a finite number: the magnitude of the result, in units
  of \<open>2 ^ -149\<close> and of \<open>2 ^ -1074\<close>, is that of the half number, in units of \<open>2 ^ -24\<close>, times \<open>2 ^ 125\<close>
  and \<open>2 ^ 1050\<close>.
\<close>

theorem half_widening_exact:
  assumes "half_isfinite h"
  shows "\<exists>f d. halfbits_to_float h = Some f \<and> halfbits_to_double h = Some d
     \<and> uint f div 2 ^ 31 = half_sign h \<and> mag_val 23 (uint f mod 2 ^ 31) = half_val (half_magnitude h) * 2 ^ 125
     \<and> uint d div 2 ^ 63 = half_sign h \<and> mag_val 52 (uint d mod 2 ^ 63) = half_val (half_magnitude h) * 2 ^ 1050"
proof -
  have fin: "half_magnitude h < 31 * 2 ^ 10"
  proof -
    let ?m = "half_magnitude h"
    have "?m div 2 ^ 10 \<noteq> 31" "?m div 2 ^ 10 < 32"
      using assms half_tests(2,8)[of h] unfolding half_isfinite_def half_magnitude_def by blast+
    then have "?m div 2 ^ 10 \<le> 30" by linarith
    moreover have "31 * 2 ^ 10 \<le> ?m \<Longrightarrow> 31 \<le> ?m div 2 ^ 10" using zdiv_mono1[of "31 * 2 ^ 10" ?m "2 ^ 10"] by simp
    ultimately show ?thesis by linarith
  qed
  obtain f x where f: "halfbits_to_float h = Some f" "uint f = half_sign h * 2 ^ 31 + x" "0 \<le> x" "x < 2 ^ 31"
    "widened 23 112 255 (half_magnitude h) x"
    using halfbits_to_float_widened[of h] unfolding half_sign_def half_magnitude_def by blast
  obtain d y where d: "halfbits_to_double h = Some d" "uint d = half_sign h * 2 ^ 63 + y" "0 \<le> y" "y < 2 ^ 63"
    "widened 52 1008 2047 (half_magnitude h) y"
    using halfbits_to_double_widened[of h] unfolding half_sign_def half_magnitude_def by blast
  have "mag_val 23 x = half_val (half_magnitude h) * 2 ^ 125" "mag_val 52 y = half_val (half_magnitude h) * 2 ^ 1050"
    using single.widened_value[OF f(5) half_magnitude_bounds(1) fin]
      double.widened_value[OF d(5) half_magnitude_bounds(1) fin]
    by (simp_all only: half_unit_def) simp_all
  then show ?thesis using f(1) d(1) unfolding f(2) d(2)
    by (intro exI[of _ f] exI[of _ d]) (simp only: f(2) d(2) word_fields[OF f(3,4)] word_fields[OF d(3,4)] simp_thms)
qed

theorem half_widening_exact_witness:
  "half_isfinite 0x3c01 \<and> (\<exists>f d. halfbits_to_float 0x3c01 = Some f \<and> halfbits_to_double 0x3c01 = Some d
     \<and> uint f div 2 ^ 31 = half_sign 0x3c01 \<and> mag_val 23 (uint f mod 2 ^ 31) = half_val (half_magnitude 0x3c01) * 2 ^ 125
     \<and> uint d div 2 ^ 63 = half_sign 0x3c01 \<and> mag_val 52 (uint d mod 2 ^ 63) = half_val (half_magnitude 0x3c01) * 2 ^ 1050)"
proof -
  have "half_isfinite 0x3c01" by (simp add: half_isfinite_def)
  with half_widening_exact[OF this] show ?thesis by blast
qed

lemma word_sign_magnitude:
  assumes "s = 0 \<or> s = 1" "0 \<le> r" "r < 2 ^ 15"
  shows "half_sign (word_of_int (s * 2 ^ 15 + r)) = s" "half_magnitude (word_of_int (s * 2 ^ 15 + r)) = r"
proof -
  have "uint (word_of_int (s * 2 ^ 15 + r) :: u16) = s * 2 ^ 15 + r"
    using assms by (simp only: uint_word_of_int) auto
  then show "half_sign (word_of_int (s * 2 ^ 15 + r)) = s" "half_magnitude (word_of_int (s * 2 ^ 15 + r)) = r"
    unfolding half_sign_def half_magnitude_def using word_fields[OF assms(2,3), of s] by simp_all
qed

context wide_format
begin

lemma half_mag_nocheck_normal:
  assumes "b < x div 2 ^ p" "x div 2 ^ p < b + 31" "0 \<le> x"
  shows "half_mag p b emax x assign_error_nocheck = Inr (round_bits (p - 10) (x - b * 2 ^ p))"
    and "0 \<le> round_bits (p - 10) (x - b * 2 ^ p)" "round_bits (p - 10) (x - b * 2 ^ p) < 2 ^ 15"
proof -
  show "half_mag p b emax x assign_error_nocheck = Inr (round_bits (p - 10) (x - b * 2 ^ p))"
    using assms by (simp add: half_mag_def Let_def less_eq_assign_error_mode_def)
  define e where "e = x div 2 ^ p"
  have x: "x = e * 2 ^ p + x mod 2 ^ p" "0 \<le> x mod 2 ^ p" "x mod 2 ^ p < 2 ^ p"
    by (simp_all add: e_def div_mult_mod_eq)
  have "b * 2 ^ p \<le> e * 2 ^ p" "(e + 1) * 2 ^ p \<le> (b + 31) * 2 ^ p"
    using assms unfolding e_def[symmetric] by (simp_all only: mult_right_mono less_imp_le zero_le_power zero_le_numeral)
  then have q: "0 \<le> x - b * 2 ^ p" "x - b * 2 ^ p < 31 * 2 ^ 10 * 2 ^ (p - 10)"
    unfolding mult.assoc[of 31] p_split[symmetric] using x unfolding distrib_right by linarith+
  have "1 \<le> p - 10" using fraction by simp
  from round_bits_bounds[OF this q]
  show "0 \<le> round_bits (p - 10) (x - b * 2 ^ p)" "round_bits (p - 10) (x - b * 2 ^ p) < 2 ^ 15"
    by simp_all
qed

end



text \<open>
  In the subnormal range the rounding looks only at the bits that are left after the shift: just
  above half of the smallest half number, where that number is the nearest one, the \<^verbatim>\<open>float\<close> and the
  \<^verbatim>\<open>double\<close> conversion give zero. The exact tie does go to zero, and is flagged in the checked mode.
\<close>

lemma half_subnormal_sticky_bits_lost:
  "float_to_halfbits 0x33000001 assign_error_nocheck = Inr 0
   \<and> \<bar>mag_val 23 0x33000001 - half_val (half_magnitude 1) * 2 ^ 125\<bar> < \<bar>mag_val 23 0x33000001 - half_val (half_magnitude 0) * 2 ^ 125\<bar>
   \<and> double_to_halfbits 0x3e60000000000001 assign_error_nocheck = Inr 0
   \<and> \<bar>mag_val 52 0x3e60000000000001 - half_val (half_magnitude 1) * 2 ^ 1050\<bar>
       < \<bar>mag_val 52 0x3e60000000000001 - half_val (half_magnitude 0) * 2 ^ 1050\<bar>
   \<and> float_to_halfbits 0x33000000 assign_error_inexact = Inl underflow_converting"
  by (simp add: float_to_halfbits_def double_to_halfbits_def mag_val_def half_magnitude_def Let_def
      less_eq_assign_error_mode_def)

section \<open>The order of half numbers\<close>

definition half_signed_val :: "u16 \<Rightarrow> int" where
  "half_signed_val h = (if half_sign h = 0 then half_val (half_magnitude h) else - half_val (half_magnitude h))"

lemma half_sign_cases: "half_sign h = 0 \<or> half_sign h = 1"
  unfolding half_sign_def by (rule half_split(2))

lemma half_signbit_sign: "half_signbit h \<longleftrightarrow> half_sign h = 1"
  using half_sign_cases[of h] unfolding half_signbit_def half_sign_def
  by (simp only: word_zero_iff half_fields) auto

lemma half_uint: "uint h = half_sign h * 2 ^ 15 + half_magnitude h"
  by (simp only: half_sign_def half_magnitude_def div_mult_mod_eq)

lemma half_val_less: "half_val (half_magnitude a) < half_val (half_magnitude b) \<longleftrightarrow> half_magnitude a < half_magnitude b"
  by (rule mag_val_less_iff) (simp_all add: half_magnitude_bounds)

lemma half_val_nonneg: "0 \<le> half_val (half_magnitude h)"
  using mag_val_mono[of 0 10 "half_magnitude h"] half_magnitude_bounds[of h] by (simp add: mag_val_def)

lemma half_val_zero: "half_val (half_magnitude h) = 0 \<longleftrightarrow> half_magnitude h = 0"
  using half_val_less[of 0 h] half_magnitude_bounds[of h] half_val_nonneg[of h]
  by (simp add: half_magnitude_def[of 0]) (auto simp: mag_val_def)

text \<open>
  The comparisons of two numbers that are not NaN are those of their values, the two zeros being
  equal and infinity above every finite number.
\<close>

lemma half_compare_values:
  "(less_nonan a b \<longleftrightarrow> half_signed_val a < half_signed_val b)
   \<and> (less_equal_nonan a b \<longleftrightarrow> half_signed_val a \<le> half_signed_val b)"
proof -
  note V = half_val_less[of a b] half_val_less[of b a] half_val_nonneg[of a] half_val_nonneg[of b]
    half_val_zero[of a] half_val_zero[of b] half_magnitude_bounds[of a] half_magnitude_bounds[of b]
  have cmp: "a < b \<longleftrightarrow> uint a < uint b" "a \<le> b \<longleftrightarrow> uint a \<le> uint b" "b < a \<longleftrightarrow> uint b < uint a" "b \<le> a \<longleftrightarrow> uint b \<le> uint a"
    "a = 0x8000 \<longleftrightarrow> uint a = 2 ^ 15" "b = 0x8000 \<longleftrightarrow> uint b = 2 ^ 15" "a = 0 \<longleftrightarrow> uint a = 0" "b = 0 \<longleftrightarrow> uint b = 0"
    by (simp_all add: word_less_def word_le_def word_uint_eq_iff)
  show ?thesis
    unfolding less_nonan_def less_equal_nonan_def half_signbit_sign half_signed_val_def cmp half_uint
    using half_sign_cases[of a] half_sign_cases[of b] V by (elim disjE) (simp_all, linarith+)
qed

end
