(* ===== verification/Unicode.thy ===== *)
theory Unicode
  imports Half_Float
begin

text \<open>
  Reading and writing code points in the five encodings: \<^verbatim>\<open>src/dynd/string_encodings.cpp\<close> and the part
  of \<^verbatim>\<open>thirdparty/utf8\<close> it is written with (\<^verbatim>\<open>core.h\<close>, \<^verbatim>\<open>checked.h\<close>). A source range is the list of its
  bytes; a read returns the code point and the rest of the range. A write takes the room that is left
  in the destination and returns the bytes it writes. Units of two and four bytes are little-endian,
  as the casts of the source give them on the machines the library is built for.
\<close>

section \<open>Code points\<close>

definition is_lead_surrogate :: "u32 \<Rightarrow> bool" where
  "is_lead_surrogate cp \<longleftrightarrow> 0xd800 \<le> cp \<and> cp \<le> 0xdbff"

definition is_trail_surrogate :: "u32 \<Rightarrow> bool" where
  "is_trail_surrogate cp \<longleftrightarrow> 0xdc00 \<le> cp \<and> cp \<le> 0xdfff"

definition is_surrogate :: "u32 \<Rightarrow> bool" where
  "is_surrogate cp \<longleftrightarrow> 0xd800 \<le> cp \<and> cp \<le> 0xdfff"

definition is_code_point_valid :: "u32 \<Rightarrow> bool" where
  "is_code_point_valid cp \<longleftrightarrow> cp \<le> 0x10ffff \<and> \<not> is_surrogate cp"

definition error_substitute :: u32 where
  "error_substitute = 63"

text \<open>
  The errors: those thrown, and a read outside of the range, which the source does not check in the
  encodings of two and four bytes.
\<close>

datatype codec_error =
  string_decode_error | string_encode_error u32 | partial_character | input_too_large
| invalid_code_point u32 | read_past_end | unrecognized_encoding

type_synonym decoded = "codec_error + (u32 \<times> u8 list)"

fun read16 :: "u8 list \<Rightarrow> (u32 \<times> u8 list) option" where
  "read16 (a # b # rest) = Some (ucast a OR push_bit 8 (ucast b), rest)"
| "read16 _ = None"

fun read32 :: "u8 list \<Rightarrow> (u32 \<times> u8 list) option" where
  "read32 (a # b # c # d # rest) =
     Some (ucast a OR push_bit 8 (ucast b) OR push_bit 16 (ucast c) OR push_bit 24 (ucast d), rest)"
| "read32 _ = None"

definition write16 :: "u32 \<Rightarrow> u8 list" where
  "write16 x = [ucast x, ucast (drop_bit 8 x)]"

definition write32 :: "u32 \<Rightarrow> u8 list" where
  "write32 x = [ucast x, ucast (drop_bit 8 x), ucast (drop_bit 16 x), ucast (drop_bit 24 x)]"

section \<open>ASCII and UCS-2\<close>

definition next_ascii :: "u8 list \<Rightarrow> decoded" where
  "next_ascii s =
     (case s of [] \<Rightarrow> Inl read_past_end
      | b # rest \<Rightarrow> if (ucast b :: u32) AND 0x80 \<noteq> 0 then Inl string_decode_error else Inr (ucast b, rest))"

definition noerror_next_ascii :: "u8 list \<Rightarrow> decoded" where
  "noerror_next_ascii s =
     (case s of [] \<Rightarrow> Inl read_past_end
      | b # rest \<Rightarrow> Inr (if (ucast b :: u32) AND 0x80 = 0 then ucast b else error_substitute, rest))"

definition append_ascii :: "u32 \<Rightarrow> nat \<Rightarrow> codec_error + u8 list" where
  "append_ascii cp room =
     (if cp AND NOT 0x7f \<noteq> 0 then Inl (string_encode_error cp) else Inr [ucast cp])"

definition noerror_append_ascii :: "u32 \<Rightarrow> nat \<Rightarrow> codec_error + u8 list" where
  "noerror_append_ascii cp room = Inr [ucast (if cp AND NOT 0x7f \<noteq> 0 then error_substitute else cp)]"

definition next_ucs2 :: "u8 list \<Rightarrow> decoded" where
  "next_ucs2 s =
     (case read16 s of None \<Rightarrow> Inl read_past_end
      | Some (cp, rest) \<Rightarrow> if is_surrogate cp then Inl string_decode_error else Inr (cp, rest))"

definition noerror_next_ucs2 :: "u8 list \<Rightarrow> decoded" where
  "noerror_next_ucs2 s =
     (case read16 s of None \<Rightarrow> Inl read_past_end
      | Some (cp, rest) \<Rightarrow> Inr (if is_surrogate cp then error_substitute else cp, rest))"

definition append_ucs2 :: "u32 \<Rightarrow> nat \<Rightarrow> codec_error + u8 list" where
  "append_ucs2 cp room =
     (if cp AND NOT 0xffff \<noteq> 0 \<or> is_surrogate cp then Inl (string_encode_error cp) else Inr (write16 cp))"

definition noerror_append_ucs2 :: "u32 \<Rightarrow> nat \<Rightarrow> codec_error + u8 list" where
  "noerror_append_ucs2 cp room =
     Inr (write16 (if cp AND NOT 0xffff \<noteq> 0 \<or> is_surrogate cp then error_substitute else cp))"

section \<open>UTF-8\<close>

definition is_trail :: "u8 \<Rightarrow> bool" where
  "is_trail b \<longleftrightarrow> drop_bit 6 b = 2"

definition sequence_length :: "u8 \<Rightarrow> nat" where
  "sequence_length lead =
     (if lead < 0x80 then 1
      else if drop_bit 5 lead = 0x6 then 2
      else if drop_bit 4 lead = 0xe then 3
      else if drop_bit 3 lead = 0x1e then 4
      else 0)"

definition is_overlong_sequence :: "u32 \<Rightarrow> nat \<Rightarrow> bool" where
  "is_overlong_sequence cp len \<longleftrightarrow>
     (if cp < 0x80 then len \<noteq> 1
      else if cp < 0x800 then len \<noteq> 2
      else if cp < 0x10000 then len \<noteq> 3
      else False)"

datatype utf_error =
  UTF8_OK | NOT_ENOUGH_ROOM | INVALID_LEAD | INCOMPLETE_SEQUENCE | OVERLONG_SEQUENCE | INVALID_CODE_POINT

text \<open>The iterator is the range from it on; it moves also when the result is an error.\<close>

definition increase_safely :: "u8 list \<Rightarrow> utf_error \<times> u8 list" where
  "increase_safely it =
     (case tl it of [] \<Rightarrow> (NOT_ENOUGH_ROOM, [])
      | b # rest \<Rightarrow> (if is_trail b then UTF8_OK else INCOMPLETE_SEQUENCE, b # rest))"

definition get_sequence_1 :: "u8 list \<Rightarrow> utf_error \<times> u8 list \<times> u32" where
  "get_sequence_1 it =
     (if it = [] then (NOT_ENOUGH_ROOM, it, 0) else (UTF8_OK, it, ucast (hd it)))"

definition get_sequence_2 :: "u8 list \<Rightarrow> utf_error \<times> u8 list \<times> u32" where
  "get_sequence_2 it =
     (if it = [] then (NOT_ENOUGH_ROOM, it, 0)
      else (let cp = ucast (hd it); (err, it) = increase_safely it
            in if err \<noteq> UTF8_OK then (err, it, cp)
               else (UTF8_OK, it, (push_bit 6 cp AND 0x7ff) + (ucast (hd it) AND 0x3f))))"

definition get_sequence_3 :: "u8 list \<Rightarrow> utf_error \<times> u8 list \<times> u32" where
  "get_sequence_3 it =
     (if it = [] then (NOT_ENOUGH_ROOM, it, 0)
      else (let cp = ucast (hd it); (err, it) = increase_safely it
            in if err \<noteq> UTF8_OK then (err, it, cp)
               else (let cp = (push_bit 12 cp AND 0xffff) + (push_bit 6 (ucast (hd it)) AND 0xfff);
                         (err, it) = increase_safely it
                     in if err \<noteq> UTF8_OK then (err, it, cp)
                        else (UTF8_OK, it, cp + (ucast (hd it) AND 0x3f)))))"

definition get_sequence_4 :: "u8 list \<Rightarrow> utf_error \<times> u8 list \<times> u32" where
  "get_sequence_4 it =
     (if it = [] then (NOT_ENOUGH_ROOM, it, 0)
      else (let cp = ucast (hd it); (err, it) = increase_safely it
            in if err \<noteq> UTF8_OK then (err, it, cp)
               else (let cp = (push_bit 18 cp AND 0x1fffff) + (push_bit 12 (ucast (hd it)) AND 0x3ffff);
                         (err, it) = increase_safely it
                     in if err \<noteq> UTF8_OK then (err, it, cp)
                        else (let cp = cp + (push_bit 6 (ucast (hd it)) AND 0xfff);
                                  (err, it) = increase_safely it
                              in if err \<noteq> UTF8_OK then (err, it, cp)
                                 else (UTF8_OK, it, cp + (ucast (hd it) AND 0x3f))))))"

definition get_sequence :: "nat \<Rightarrow> u8 list \<Rightarrow> utf_error \<times> u8 list \<times> u32" where
  "get_sequence len it =
     (if len = 1 then get_sequence_1 it
      else if len = 2 then get_sequence_2 it
      else if len = 3 then get_sequence_3 it
      else get_sequence_4 it)"

definition validate_next :: "u8 list \<Rightarrow> utf_error \<times> u8 list \<times> u32" where
  "validate_next original_it =
     (let len = sequence_length (hd original_it)
      in if len = 0 then (INVALID_LEAD, original_it, 0)
         else (let (err, it, cp) = get_sequence len original_it
               in if err = UTF8_OK
                  then (if is_code_point_valid cp
                        then (if \<not> is_overlong_sequence cp len then (UTF8_OK, tl it, cp)
                              else (OVERLONG_SEQUENCE, original_it, 0))
                        else (INVALID_CODE_POINT, original_it, 0))
                  else (err, original_it, 0)))"

definition next_utf8 :: "u8 list \<Rightarrow> decoded" where
  "next_utf8 s =
     (if s = [] then Inl read_past_end
      else (case validate_next s of
              (err, it, cp) \<Rightarrow>
                if err = UTF8_OK then Inr (cp, it)
                else if err = NOT_ENOUGH_ROOM then Inl partial_character
                else Inl (string_encode_error cp)))"

text \<open>The unchecked version leaves the iterator where the sequence broke off.\<close>

definition noerror_next_utf8 :: "u8 list \<Rightarrow> decoded" where
  "noerror_next_utf8 s =
     (if s = [] then Inl read_past_end
      else (let len = sequence_length (hd s)
            in if len = 0 then Inr (error_substitute, s)
               else (let (err, it, cp) = get_sequence len s
                     in if err = UTF8_OK \<and> is_code_point_valid cp \<and> \<not> is_overlong_sequence cp len
                        then Inr (cp, tl it)
                        else Inr (error_substitute, it))))"

definition utf8_append :: "u32 \<Rightarrow> codec_error + u8 list" where
  "utf8_append cp =
     (if \<not> is_code_point_valid cp then Inl (invalid_code_point cp)
      else if cp < 0x80 then Inr [ucast cp]
      else if cp < 0x800
      then Inr [ucast (drop_bit 6 cp OR 0xc0), ucast ((cp AND 0x3f) OR 0x80)]
      else if cp < 0x10000
      then Inr [ucast (drop_bit 12 cp OR 0xe0), ucast ((drop_bit 6 cp AND 0x3f) OR 0x80),
                ucast ((cp AND 0x3f) OR 0x80)]
      else Inr [ucast (drop_bit 18 cp OR 0xf0), ucast ((drop_bit 12 cp AND 0x3f) OR 0x80),
                ucast ((drop_bit 6 cp AND 0x3f) OR 0x80), ucast ((cp AND 0x3f) OR 0x80)])"

definition append_utf8 :: "u32 \<Rightarrow> nat \<Rightarrow> codec_error + u8 list" where
  "append_utf8 cp room =
     (if 6 \<le> room then utf8_append cp
      else (case utf8_append cp of
              Inl e \<Rightarrow> Inl e
            | Inr tmp \<Rightarrow> if length tmp \<le> room then Inr tmp else Inl input_too_large))"

definition noerror_append_utf8 :: "u32 \<Rightarrow> nat \<Rightarrow> codec_error + u8 list" where
  "noerror_append_utf8 cp room =
     (if 6 \<le> room then utf8_append cp
      else (case utf8_append cp of
              Inl e \<Rightarrow> Inl e
            | Inr tmp \<Rightarrow> if length tmp \<le> room then Inr tmp else Inr (replicate room 0)))"

section \<open>UTF-16 and UTF-32\<close>

definition surrogate_offset :: u32 where
  "surrogate_offset = 0x10000 - push_bit 10 0xd800 - 0xdc00"

definition lead_offset :: u32 where
  "lead_offset = 0xd800 - drop_bit 10 0x10000"

definition next_utf16 :: "u8 list \<Rightarrow> decoded" where
  "next_utf16 s =
     (case read16 s of None \<Rightarrow> Inl read_past_end
      | Some (cp, it) \<Rightarrow>
          if is_lead_surrogate cp
          then (if 4 \<le> length s
                then (case read16 it of None \<Rightarrow> Inl read_past_end
                      | Some (trail_surrogate, it) \<Rightarrow>
                          if is_trail_surrogate trail_surrogate
                          then Inr (push_bit 10 cp + trail_surrogate + surrogate_offset, it)
                          else Inl string_decode_error)
                else Inl string_decode_error)
          else if is_trail_surrogate cp then Inl string_decode_error
          else Inr (cp, it))"

text \<open>
  The unchecked version tests \<^verbatim>\<open>it_raw <= end_raw + 2\<close> once the iterator is past the lead surrogate,
  which holds for every iterator up to the end: the trail surrogate is read at the end of the range.
\<close>

definition noerror_next_utf16 :: "u8 list \<Rightarrow> decoded" where
  "noerror_next_utf16 s =
     (case read16 s of None \<Rightarrow> Inl read_past_end
      | Some (cp, it) \<Rightarrow>
          if is_lead_surrogate cp
          then (case read16 it of None \<Rightarrow> Inl read_past_end
                | Some (trail_surrogate, it) \<Rightarrow>
                    if is_trail_surrogate trail_surrogate
                    then Inr (push_bit 10 cp + trail_surrogate + surrogate_offset, it)
                    else Inr (error_substitute, it))
          else if is_trail_surrogate cp then Inr (error_substitute, it)
          else Inr (cp, it))"

definition surrogate_pair :: "u32 \<Rightarrow> u8 list" where
  "surrogate_pair cp =
     write16 (ucast (ucast (drop_bit 10 cp + lead_offset) :: u16)) @
     write16 (ucast (ucast ((cp AND 0x3ff) + 0xdc00) :: u16))"

definition append_utf16 :: "u32 \<Rightarrow> nat \<Rightarrow> codec_error + u8 list" where
  "append_utf16 cp room =
     (if cp > 0xffff
      then (if room \<le> 2 then Inl input_too_large else Inr (surrogate_pair cp))
      else Inr (write16 cp))"

definition noerror_append_utf16 :: "u32 \<Rightarrow> nat \<Rightarrow> codec_error + u8 list" where
  "noerror_append_utf16 cp room =
     (if cp > 0xffff
      then (if 2 < room then Inr (surrogate_pair cp) else Inr (replicate room 0))
      else Inr (write16 cp))"

definition next_utf32 :: "u8 list \<Rightarrow> decoded" where
  "next_utf32 s =
     (case read32 s of None \<Rightarrow> Inl read_past_end
      | Some (cp, rest) \<Rightarrow> if \<not> is_code_point_valid cp then Inl string_decode_error else Inr (cp, rest))"

definition noerror_next_utf32 :: "u8 list \<Rightarrow> decoded" where
  "noerror_next_utf32 s =
     (case read32 s of None \<Rightarrow> Inl read_past_end
      | Some (cp, rest) \<Rightarrow> Inr (if \<not> is_code_point_valid cp then error_substitute else cp, rest))"

definition append_utf32 :: "u32 \<Rightarrow> nat \<Rightarrow> codec_error + u8 list" where
  "append_utf32 cp room = Inr (write32 cp)"

definition noerror_append_utf32 :: "u32 \<Rightarrow> nat \<Rightarrow> codec_error + u8 list" where
  "noerror_append_utf32 cp room = Inr (write32 cp)"

section \<open>Choosing the functions of an encoding\<close>

datatype string_encoding =
  string_encoding_ascii | string_encoding_ucs_2 | string_encoding_utf_8 | string_encoding_utf_16
| string_encoding_utf_32 | string_encoding_latin1 | string_encoding_invalid

type_synonym next_fn = "u8 list \<Rightarrow> decoded"
type_synonym append_fn = "u32 \<Rightarrow> nat \<Rightarrow> codec_error + u8 list"

definition get_next_unicode_codepoint_function :: "string_encoding \<Rightarrow> assign_error_mode \<Rightarrow> codec_error + next_fn" where
  "get_next_unicode_codepoint_function encoding errmode =
     (case encoding of
        string_encoding_ascii \<Rightarrow> Inr (if errmode \<noteq> assign_error_nocheck then next_ascii else noerror_next_ascii)
      | string_encoding_ucs_2 \<Rightarrow> Inr (if errmode \<noteq> assign_error_nocheck then next_ucs2 else noerror_next_ucs2)
      | string_encoding_utf_8 \<Rightarrow> Inr (if errmode \<noteq> assign_error_nocheck then next_utf8 else noerror_next_utf8)
      | string_encoding_utf_16 \<Rightarrow> Inr (if errmode \<noteq> assign_error_nocheck then next_utf16 else noerror_next_utf16)
      | string_encoding_utf_32 \<Rightarrow> Inr (if errmode \<noteq> assign_error_nocheck then next_utf32 else noerror_next_utf32)
      | _ \<Rightarrow> Inl unrecognized_encoding)"

definition get_append_unicode_codepoint_function :: "string_encoding \<Rightarrow> assign_error_mode \<Rightarrow> codec_error + append_fn" where
  "get_append_unicode_codepoint_function encoding errmode =
     (case encoding of
        string_encoding_ascii \<Rightarrow> Inr (if errmode \<noteq> assign_error_nocheck then append_ascii else noerror_append_ascii)
      | string_encoding_ucs_2 \<Rightarrow> Inr (if errmode \<noteq> assign_error_nocheck then append_ucs2 else noerror_append_ucs2)
      | string_encoding_utf_8 \<Rightarrow> Inr (if errmode \<noteq> assign_error_nocheck then append_utf8 else noerror_append_utf8)
      | string_encoding_utf_16 \<Rightarrow> Inr (if errmode \<noteq> assign_error_nocheck then append_utf16 else noerror_append_utf16)
      | string_encoding_utf_32 \<Rightarrow> Inr (if errmode \<noteq> assign_error_nocheck then append_utf32 else noerror_append_utf32)
      | _ \<Rightarrow> Inl unrecognized_encoding)"

definition is_variable_length_string_encoding :: "string_encoding \<Rightarrow> bool" where
  "is_variable_length_string_encoding encoding \<longleftrightarrow>
     encoding = string_encoding_utf_8 \<or> encoding = string_encoding_utf_16"

text \<open>
  The loop of \<^verbatim>\<open>string_range_as_utf8_string_templ\<close>. A read that does not advance makes it run for ever;
  then the value is None.
\<close>

partial_function (option) as_utf8_loop :: "next_fn \<Rightarrow> u8 list \<Rightarrow> u8 list \<Rightarrow> (codec_error + u8 list) option" where
  "as_utf8_loop next_fn s result =
     (if s = [] then Some (Inr result)
      else (case next_fn s of
              Inl e \<Rightarrow> Some (Inl e)
            | Inr (cp, rest) \<Rightarrow>
                (case utf8_append cp of
                   Inl e \<Rightarrow> Some (Inl e)
                 | Inr tmp \<Rightarrow> as_utf8_loop next_fn rest (result @ tmp))))"

definition string_range_as_utf8_string ::
  "string_encoding \<Rightarrow> u8 list \<Rightarrow> assign_error_mode \<Rightarrow> (codec_error + u8 list) option" where
  "string_range_as_utf8_string encoding s errmode =
     (case encoding of
        string_encoding_ascii \<Rightarrow> Some (Inr s)
      | string_encoding_utf_8 \<Rightarrow> Some (Inr s)
      | string_encoding_ucs_2 \<Rightarrow>
          as_utf8_loop (if errmode = assign_error_nocheck then noerror_next_ucs2 else next_ucs2) s []
      | string_encoding_utf_16 \<Rightarrow>
          as_utf8_loop (if errmode = assign_error_nocheck then noerror_next_utf16 else next_utf16) s []
      | string_encoding_utf_32 \<Rightarrow>
          as_utf8_loop (if errmode = assign_error_nocheck then noerror_next_utf32 else next_utf32) s []
      | _ \<Rightarrow> Some (Inl unrecognized_encoding))"

section \<open>The contract of an encoding\<close>

text \<open>
  An encoding has the code points it can hold and the bytes of each; reading gives back exactly what
  was written, and nothing but what is written that way is read.
\<close>

definition utf8_enc :: "u32 \<Rightarrow> u8 list" where
  "utf8_enc cp = projr (utf8_append cp)"

locale codec =
  fixes valid :: "u32 \<Rightarrow> bool" and enc :: "u32 \<Rightarrow> u8 list" and dec :: "u8 list \<Rightarrow> decoded"
  assumes enc_nonempty: "valid cp \<Longrightarrow> enc cp \<noteq> []"
    and dec_enc: "valid cp \<Longrightarrow> dec (enc cp @ rest) = Inr (cp, rest)"
    and dec_sound: "dec s = Inr (cp, rest) \<Longrightarrow> valid cp \<and> s = enc cp @ rest"
    and valid_scalar: "valid cp \<Longrightarrow> is_code_point_valid cp"
begin

lemma dec_shrinks: "dec s = Inr (cp, rest) \<Longrightarrow> length rest < length s"
  using dec_sound[of s cp rest] enc_nonempty[of cp] by (cases "enc cp") auto

lemma enc_inject: "valid a \<Longrightarrow> valid b \<Longrightarrow> enc a = enc b \<Longrightarrow> a = b"
  using dec_enc[of a "[]"] dec_enc[of b "[]"] by simp

text \<open>No encoding of a code point is the beginning of that of another.\<close>

lemma enc_prefix_free: "valid a \<Longrightarrow> valid b \<Longrightarrow> enc a @ s = enc b @ t \<Longrightarrow> a = b \<and> s = t"
  using dec_enc[of a s] dec_enc[of b t] by (metis prod.inject sum.inject(2))

text \<open>The transcoding loop is the map of the code points.\<close>

lemma utf8_append_valid: "is_code_point_valid cp \<Longrightarrow> \<exists>b. utf8_append cp = Inr b"
  by (auto simp: utf8_append_def)

lemma as_utf8_loop_complete:
  "\<forall>cp\<in>set cps. valid cp \<Longrightarrow>
    as_utf8_loop dec (concat (map enc cps)) result = Some (Inr (result @ concat (map utf8_enc cps)))"
proof (induction cps arbitrary: result)
  case Nil
  then show ?case by (subst as_utf8_loop.simps) simp
next
  case (Cons cp cps)
  then have v: "valid cp" by simp
  obtain b where b: "utf8_append cp = Inr b" using utf8_append_valid valid_scalar[OF v] by blast
  show ?case using Cons enc_nonempty[OF v]
    by (subst as_utf8_loop.simps) (simp add: dec_enc[OF v] b utf8_enc_def[of cp])
qed

lemma as_utf8_loop_returns: "\<exists>v. as_utf8_loop dec s result = Some v"
proof (induction s arbitrary: result rule: length_induct)
  case (1 s)
  show ?case
  proof (cases "dec s")
    case (Inl e)
    then show ?thesis by (subst as_utf8_loop.simps) auto
  next
    case (Inr a)
    obtain cp rest where a: "a = (cp, rest)" by (cases a)
    with Inr have "length rest < length s" using dec_shrinks by simp
    with 1 show ?thesis using Inr a by (subst as_utf8_loop.simps) (auto split: sum.split)
  qed
qed

lemma as_utf8_loop_sound:
  "as_utf8_loop dec s result = Some (Inr r) \<Longrightarrow>
    \<exists>cps. (\<forall>cp\<in>set cps. valid cp) \<and> s = concat (map enc cps) \<and> r = result @ concat (map utf8_enc cps)"
proof (induction s arbitrary: result rule: length_induct)
  case (1 s)
  show ?case
  proof (cases "s = []")
    case True
    then show ?thesis using 1(2) by (intro exI[of _ "[]"]) (simp add: as_utf8_loop.simps)
  next
    case False
    then obtain cp rest b where d: "dec s = Inr (cp, rest)" "utf8_append cp = Inr b"
      "as_utf8_loop dec rest (result @ b) = Some (Inr r)"
      using 1(2) by (subst (asm) as_utf8_loop.simps) (auto split: sum.splits)
    from 1(1)[rule_format, OF dec_shrinks[OF d(1)] d(3)] obtain cps where
      c: "\<forall>cp\<in>set cps. valid cp" "rest = concat (map enc cps)"
      "r = (result @ b) @ concat (map utf8_enc cps)" by blast
    show ?thesis using c d dec_sound[OF d(1)] by (intro exI[of _ "cp # cps"]) (simp add: utf8_enc_def[of cp])
  qed
qed

end

section \<open>Words as numbers\<close>

lemma uint_or_high:
  fixes x c :: "'a::len word"
  assumes "uint x < 2 ^ k" "uint c = d * 2 ^ k"
  shows "uint (x OR c) = uint x + uint c"
proof -
  have "uint x OR uint c = concat_bit k (uint x) d"
    using assms by (simp add: concat_bit_def take_bit_int_eq_self push_bit_eq_mult mult.commute)
  also have "\<dots> = uint x + uint c"
    using assms by (simp add: concat_bit_eq take_bit_int_eq_self push_bit_eq_mult mult.commute)
  finally show ?thesis by (simp only: uint_or)
qed

lemma uint_u8_bounds: "0 \<le> uint (b :: u8)" "uint b < 256"
  using uint_lt2p[of b] by simp_all

lemma uint_ucast_8_32 [simp]: "uint (ucast (b :: u8) :: u32) = uint b"
  by (simp add: unsigned_ucast_eq take_bit_int_eq_self_iff order.strict_trans [OF uint_lt2p [of b, simplified]])

lemma uint_ucast_32_8: "uint (ucast (x :: u32) :: u8) = uint x mod 256"
  by (simp add: unsigned_ucast_eq take_bit_eq_mod)

lemma uint_ucast_32_16: "uint (ucast (x :: u32) :: u16) = uint x mod 65536"
  by (simp add: unsigned_ucast_eq take_bit_eq_mod)

lemma code_point_valid_uint:
  "is_code_point_valid cp \<longleftrightarrow> uint cp < 0xd800 \<or> 0xdfff < uint cp \<and> uint cp \<le> 0x10ffff"
  by (auto simp: is_code_point_valid_def is_surrogate_def word_le_def)

section \<open>UTF-8 is a codec\<close>

lemma is_trail_uint: "is_trail b \<longleftrightarrow> 128 \<le> uint b \<and> uint b < 192"
proof -
  have "is_trail b \<longleftrightarrow> uint b div 2 ^ 6 = 2" by (simp only: is_trail_def word_uint_eq_iff uint_drop) simp
  also have "\<dots> \<longleftrightarrow> 128 \<le> uint b \<and> uint b < 192" by (simp; presburger)
  finally show ?thesis .
qed

lemma sequence_length_uint:
  "sequence_length b =
     (if uint b < 128 then 1
      else if 192 \<le> uint b \<and> uint b < 224 then 2
      else if 224 \<le> uint b \<and> uint b < 240 then 3
      else if 240 \<le> uint b \<and> uint b < 248 then 4
      else 0)"
proof -
  have "b < 0x80 \<longleftrightarrow> uint b < 128" by (simp add: word_less_def)
  moreover have "drop_bit 5 b = 0x6 \<longleftrightarrow> 192 \<le> uint b \<and> uint b < 224"
    by (simp only: word_uint_eq_iff uint_drop) (simp; presburger)
  moreover have "drop_bit 4 b = 0xe \<longleftrightarrow> 224 \<le> uint b \<and> uint b < 240"
    by (simp only: word_uint_eq_iff uint_drop) (simp; presburger)
  moreover have "drop_bit 3 b = 0x1e \<longleftrightarrow> 240 \<le> uint b \<and> uint b < 248"
    by (simp only: word_uint_eq_iff uint_drop) (simp; presburger)
  ultimately show ?thesis unfolding sequence_length_def by simp
qed

lemma low6: "ucast (b :: u8) AND (0x3f :: u32) = word_of_int (uint b mod 64)"
proof -
  have "uint (ucast b AND (0x3f :: u32)) = uint b mod 64"
    using uint_low_field[of "0x3f :: u32" 6 "ucast b"] by simp
  then show ?thesis by (metis word_of_int_uint)
qed

lemma shifted_low:
  assumes "uint (c :: u32) = 2 ^ m - 1" "n + 8 \<le> 32"
  shows "push_bit n (ucast (b :: u8)) AND c = word_of_int (uint b * 2 ^ n mod 2 ^ m)"
proof -
  have "uint b * 2 ^ n < 2 ^ 8 * 2 ^ n" using uint_u8_bounds[of b] by simp
  also have "(2::int) ^ 8 * 2 ^ n = 2 ^ (n + 8)" by (simp add: power_add)
  also have "\<dots> \<le> 2 ^ 32" using assms(2) by (rule power_increasing) simp
  finally have "uint (push_bit n (ucast b :: u32)) = uint b * 2 ^ n" by (subst uint_push) simp_all
  then have "uint (push_bit n (ucast b) AND c) = uint b * 2 ^ n mod 2 ^ m"
    using uint_low_field[OF assms(1), of "push_bit n (ucast b)"] by simp
  then show ?thesis by (metis word_of_int_uint)
qed

lemma shifted_lows:
  fixes b :: u8
  shows "push_bit 6 (ucast b) AND (0x7ff :: u32) = word_of_int (uint b * 64 mod 2048)"
    and "push_bit 6 (ucast b) AND (0xfff :: u32) = word_of_int (uint b * 64 mod 4096)"
    and "push_bit 12 (ucast b) AND (0xffff :: u32) = word_of_int (uint b * 4096 mod 65536)"
    and "push_bit 12 (ucast b) AND (0x3ffff :: u32) = word_of_int (uint b * 4096 mod 262144)"
    and "push_bit 18 (ucast b) AND (0x1fffff :: u32) = word_of_int (uint b * 262144 mod 2097152)"
  using shifted_low[of "0x7ff" 11 6 b] shifted_low[of "0xfff" 12 6 b] shifted_low[of "0xffff" 16 12 b]
    shifted_low[of "0x3ffff" 18 12 b] shifted_low[of "0x1fffff" 21 18 b]
  by (simp_all only: uint_numeral) simp_all

lemmas sequence_words = shifted_lows low6 of_int_add[symmetric]

lemma increase_safely_Cons:
  "increase_safely (a # s) = (case s of [] \<Rightarrow> (NOT_ENOUGH_ROOM, []) | b # r \<Rightarrow> (if is_trail b then UTF8_OK else INCOMPLETE_SEQUENCE, s))"
  by (simp add: increase_safely_def split: list.split)

lemma get_sequence_2_ok:
  "get_sequence_2 (b0 # s) = (UTF8_OK, it, cp) \<longleftrightarrow>
     (\<exists>b1 r. s = b1 # r \<and> it = b1 # r \<and> is_trail b1 \<and> cp = word_of_int (uint b0 * 64 mod 2048 + uint b1 mod 64))"
  by (cases s) (auto simp only: get_sequence_2_def increase_safely_Cons Let_def list.case list.sel list.distinct
      if_True if_False prod.case prod.inject utf_error.distinct simp_thms sequence_words split: if_splits)

lemmas sequence_simps = increase_safely_Cons Let_def list.case list.sel list.distinct list.inject
  if_True if_False prod.case prod.inject utf_error.distinct simp_thms sequence_words

lemma get_sequence_1_ok:
  "get_sequence_1 (b0 # s) = (UTF8_OK, it, cp) \<longleftrightarrow> it = b0 # s \<and> cp = ucast b0"
  by (auto simp: get_sequence_1_def)

lemma get_sequence_3_ok:
  "get_sequence_3 (b0 # s) = (UTF8_OK, it, cp) \<longleftrightarrow>
     (\<exists>b1 b2 r. s = b1 # b2 # r \<and> it = b2 # r \<and> is_trail b1 \<and> is_trail b2
        \<and> cp = word_of_int (uint b0 * 4096 mod 65536 + uint b1 * 64 mod 4096 + uint b2 mod 64))"
proof (cases s)
  case Nil
  then show ?thesis by (simp add: get_sequence_3_def increase_safely_Cons)
next
  case (Cons b1 t)
  then show ?thesis
    by (cases t) (auto simp only: get_sequence_3_def sequence_simps split: if_splits)
qed

lemma get_sequence_4_ok:
  "get_sequence_4 (b0 # s) = (UTF8_OK, it, cp) \<longleftrightarrow>
     (\<exists>b1 b2 b3 r. s = b1 # b2 # b3 # r \<and> it = b3 # r \<and> is_trail b1 \<and> is_trail b2 \<and> is_trail b3
        \<and> cp = word_of_int (uint b0 * 262144 mod 2097152 + uint b1 * 4096 mod 262144 + uint b2 * 64 mod 4096 + uint b3 mod 64))"
proof (cases s)
  case Nil
  then show ?thesis by (simp add: get_sequence_4_def increase_safely_Cons)
next
  case (Cons b1 t)
  show ?thesis
  proof (cases t)
    case Nil
    then show ?thesis using Cons by (auto simp only: get_sequence_4_def sequence_simps split: if_splits)
  next
    case (Cons b2 u)
    then show ?thesis using \<open>s = b1 # t\<close>
      by (cases u) (auto simp only: get_sequence_4_def sequence_simps split: if_splits)
  qed
qed

lemma validate_next_ok:
  "validate_next s = (UTF8_OK, it, cp) \<longleftrightarrow>
     (\<exists>it'. sequence_length (hd s) \<noteq> 0 \<and> get_sequence (sequence_length (hd s)) s = (UTF8_OK, it', cp)
        \<and> is_code_point_valid cp \<and> \<not> is_overlong_sequence cp (sequence_length (hd s)) \<and> it = tl it')"
  by (auto simp: validate_next_def Let_def split: prod.splits if_splits)

lemma next_utf8_ok:
  "next_utf8 s = Inr (cp, rest) \<longleftrightarrow>
     s \<noteq> [] \<and> sequence_length (hd s) \<noteq> 0 \<and> is_code_point_valid cp \<and> \<not> is_overlong_sequence cp (sequence_length (hd s))
     \<and> (\<exists>it. get_sequence (sequence_length (hd s)) s = (UTF8_OK, it, cp) \<and> rest = tl it)"
proof -
  have "next_utf8 s = Inr (cp, rest) \<longleftrightarrow> s \<noteq> [] \<and> validate_next s = (UTF8_OK, rest, cp)"
    by (auto simp: next_utf8_def split: prod.splits if_splits)
  then show ?thesis unfolding validate_next_ok by blast
qed

lemma overlong_uint:
  "is_overlong_sequence cp n \<longleftrightarrow>
     (if uint cp < 128 then n \<noteq> 1 else if uint cp < 2048 then n \<noteq> 2 else if uint cp < 65536 then n \<noteq> 3 else False)"
  by (simp add: is_overlong_sequence_def word_less_def)

text \<open>The bytes of a code point, as numbers.\<close>

definition utf8_numbers :: "int \<Rightarrow> int list" where
  "utf8_numbers c =
     (if c < 128 then [c]
      else if c < 2048 then [192 + c div 64, 128 + c mod 64]
      else if c < 65536 then [224 + c div 4096, 128 + c div 64 mod 64, 128 + c mod 64]
      else [240 + c div 262144, 128 + c div 4096 mod 64, 128 + c div 64 mod 64, 128 + c mod 64])"

lemma trail_byte: "uint (ucast ((drop_bit n (cp :: u32) AND 0x3f) OR 0x80) :: u8) = 128 + uint cp div 2 ^ n mod 64"
proof -
  define w where "w = drop_bit n cp AND 0x3f"
  have w: "uint w = uint cp div 2 ^ n mod 64"
    unfolding w_def using uint_low_field[of "0x3f :: u32" 6 "drop_bit n cp"] by simp
  then have b: "0 \<le> uint w" "uint w < 64" by simp_all
  then have "uint (w OR 0x80) = uint w + 128" using uint_or_high[of w 7 "0x80" 1] by simp
  then have "uint (ucast (w OR 0x80) :: u8) = uint w + 128" unfolding uint_ucast_32_8 using b by simp
  then show ?thesis unfolding w_def[symmetric] w by simp
qed

lemma trail_byte_0: "uint (ucast (((cp :: u32) AND 0x3f) OR 0x80) :: u8) = 128 + uint cp mod 64"
  using trail_byte[of 0 cp] by simp

lemma lead_byte:
  assumes "uint (cp :: u32) div 2 ^ n < 2 ^ k" "uint c = d * 2 ^ k" "2 ^ k + uint c \<le> 256"
  shows "uint (ucast (drop_bit n cp OR c) :: u8) = uint c + uint cp div 2 ^ n"
proof -
  have "uint (drop_bit n cp OR c) = uint cp div 2 ^ n + uint c"
    using uint_or_high[of "drop_bit n cp" k c d] assms(1,2) by simp
  moreover have "0 \<le> uint cp div 2 ^ n + uint c" by (simp add: pos_imp_zdiv_nonneg_iff)
  ultimately show ?thesis unfolding uint_ucast_32_8 using assms(1,3) by simp
qed

lemma utf8_append_numbers:
  assumes "is_code_point_valid cp"
  shows "utf8_append cp = Inr (utf8_enc cp)" "map uint (utf8_enc cp) = utf8_numbers (uint cp)"
proof -
  show "utf8_append cp = Inr (utf8_enc cp)" using assms by (simp add: utf8_enc_def utf8_append_def)
  have c: "0 \<le> uint cp" "uint cp < 0x110000" using assms by (auto simp: code_point_valid_uint)
  have d: "uint cp div 2 ^ 6 < 2 ^ 5" if "uint cp < 2048" using that by (simp add: int_div_less)
  have e: "uint cp div 2 ^ 12 < 2 ^ 4" if "uint cp < 65536" using that by (simp add: int_div_less)
  have f: "uint cp div 2 ^ 18 < 2 ^ 3" using c by (simp add: int_div_less)
  have ascii: "uint (ucast cp :: u8) = uint cp" if "uint cp < 128"
    unfolding uint_ucast_32_8 using that by simp
  note bytes = trail_byte trail_byte_0
    lead_byte[OF d, of "0xc0" 6] lead_byte[OF e, of "0xe0" 14] lead_byte[OF f, of "0xf0" 30]
  show "map uint (utf8_enc cp) = utf8_numbers (uint cp)"
    using assms ascii bytes
    by (simp add: utf8_enc_def utf8_append_def utf8_numbers_def word_less_def)
qed

lemma map_uint_inject: "map uint (xs :: u8 list) = map uint ys \<Longrightarrow> xs = ys"
  by (rule map_injective[OF _ injI]) (auto simp: word_uint_eq_iff)

lemma div_mod_step:
  fixes q r n :: int
  assumes "0 \<le> r" "r < n"
  shows "(q * n + r) div n = q" "(q * n + r) mod n = r"
  using assms by simp_all

text \<open>The decoded value, for bytes in the right ranges.\<close>

lemma decode_2:
  fixes u v :: int
  assumes "192 \<le> u" "u < 224" "128 \<le> v" "v < 192"
  shows "u * 64 mod 2048 + v mod 64 = (u - 192) * 64 + (v - 128)"
proof -
  have "u * 64 mod 2048 = (u - 192) * 64" using assms by (intro int_mod_pos_eq[where q = 6]) simp_all
  moreover have "v mod 64 = v - 128" using assms by (intro int_mod_pos_eq[where q = 2]) simp_all
  ultimately show ?thesis by simp
qed

lemma decode_3:
  fixes u v w :: int
  assumes "224 \<le> u" "u < 240" "128 \<le> v" "v < 192" "128 \<le> w" "w < 192"
  shows "u * 4096 mod 65536 + v * 64 mod 4096 + w mod 64 = (u - 224) * 4096 + (v - 128) * 64 + (w - 128)"
proof -
  have "u * 4096 mod 65536 = (u - 224) * 4096" using assms by (intro int_mod_pos_eq[where q = 14]) simp_all
  moreover have "v * 64 mod 4096 = (v - 128) * 64" using assms by (intro int_mod_pos_eq[where q = 2]) simp_all
  moreover have "w mod 64 = w - 128" using assms by (intro int_mod_pos_eq[where q = 2]) simp_all
  ultimately show ?thesis by simp
qed

lemma decode_4:
  fixes u v w x :: int
  assumes "240 \<le> u" "u < 248" "128 \<le> v" "v < 192" "128 \<le> w" "w < 192" "128 \<le> x" "x < 192"
  shows "u * 262144 mod 2097152 + v * 4096 mod 262144 + w * 64 mod 4096 + x mod 64
    = (u - 240) * 262144 + (v - 128) * 4096 + (w - 128) * 64 + (x - 128)"
proof -
  have "u * 262144 mod 2097152 = (u - 240) * 262144" using assms by (intro int_mod_pos_eq[where q = 30]) simp_all
  moreover have "v * 4096 mod 262144 = (v - 128) * 4096" using assms by (intro int_mod_pos_eq[where q = 2]) simp_all
  moreover have "w * 64 mod 4096 = (w - 128) * 64" using assms by (intro int_mod_pos_eq[where q = 2]) simp_all
  moreover have "x mod 64 = x - 128" using assms by (intro int_mod_pos_eq[where q = 2]) simp_all
  ultimately show ?thesis by simp
qed

lemma word_of_int_u32: "0 \<le> k \<Longrightarrow> k < 2 ^ 32 \<Longrightarrow> (cp :: u32) = word_of_int k \<longleftrightarrow> uint cp = k"
  by (auto simp: word_uint_eq_iff uint_word_of_int)

lemma utf8_dec_sound_2:
  assumes "192 \<le> u" "u < 224" "128 \<le> v" "v < 192" "c = u * 64 mod 2048 + v mod 64" "128 \<le> c"
  shows "utf8_numbers c = [u, v]"
proof -
  have c: "c = (u - 192) * 64 + (v - 128)" using assms decode_2 by simp
  have "c div 64 = u - 192" "c mod 64 = v - 128" unfolding c using assms by (simp_all only: div_mod_step)
  moreover have "c < 2048" unfolding c using assms by simp
  ultimately show ?thesis using assms(6) by (simp add: utf8_numbers_def)
qed

lemma utf8_dec_sound_3:
  assumes "224 \<le> u" "u < 240" "128 \<le> v" "v < 192" "128 \<le> w" "w < 192"
    "c = u * 4096 mod 65536 + v * 64 mod 4096 + w mod 64" "2048 \<le> c"
  shows "utf8_numbers c = [u, v, w]"
proof -
  have c: "c = (u - 224) * 4096 + (v - 128) * 64 + (w - 128)" 
    using assms(7) decode_3[OF assms(1-6)] by simp
  have c2: "c = ((u - 224) * 64 + (v - 128)) * 64 + (w - 128)" unfolding c by simp
  have d: "c div 64 = (u - 224) * 64 + (v - 128)" "c mod 64 = w - 128"
    unfolding c2 using assms(1-6) by (simp_all only: div_mod_step)
  have e: "c div 64 mod 64 = v - 128" "c div 64 div 64 = u - 224"
    unfolding d using assms(1-6) by (simp_all only: div_mod_step)
  have g: "c div 4096 = c div 64 div 64" using zdiv_zmult2_eq[of 64 c 64] by simp
  have F: "c div 4096 = u - 224" by (simp only: g e)
  have "c < 65536" unfolding c using assms(1-6) by simp
  moreover have "\<not> c < 128" "\<not> c < 2048" using assms(8) by linarith+
  ultimately show ?thesis by (simp only: utf8_numbers_def if_False if_True F e(1) d(2)) simp
qed

lemma utf8_dec_sound_4:
  assumes "240 \<le> u" "u < 248" "128 \<le> v" "v < 192" "128 \<le> w" "w < 192" "128 \<le> x" "x < 192"
    "c = u * 262144 mod 2097152 + v * 4096 mod 262144 + w * 64 mod 4096 + x mod 64" "65536 \<le> c"
  shows "utf8_numbers c = [u, v, w, x]"
proof -
  have c: "c = (u - 240) * 262144 + (v - 128) * 4096 + (w - 128) * 64 + (x - 128)" 
    using assms(9) decode_4[OF assms(1-8)] by simp
  have c2: "c = ((u - 240) * 4096 + (v - 128) * 64 + (w - 128)) * 64 + (x - 128)" unfolding c by simp
  have d: "c div 64 = (u - 240) * 4096 + (v - 128) * 64 + (w - 128)" "c mod 64 = x - 128"
    unfolding c2 using assms(1-8) by (simp_all only: div_mod_step)
  have d2: "c div 64 = ((u - 240) * 64 + (v - 128)) * 64 + (w - 128)" unfolding d by simp
  have e: "c div 64 mod 64 = w - 128" "c div 64 div 64 = (u - 240) * 64 + (v - 128)"
    unfolding d2 using assms(1-8) by (simp_all only: div_mod_step)
  have f: "c div 64 div 64 mod 64 = v - 128" "c div 64 div 64 div 64 = u - 240"
    unfolding e using assms(1-8) by (simp_all only: div_mod_step)
  have g: "c div 4096 = c div 64 div 64" using zdiv_zmult2_eq[of 64 c 64] by simp
  have h: "c div 262144 = c div 4096 div 64" using zdiv_zmult2_eq[of 64 c 4096] by simp
  have F: "c div 4096 mod 64 = v - 128" "c div 262144 = u - 240" by (simp_all only: h g f)
  have "\<not> c < 128" "\<not> c < 2048" "\<not> c < 65536" using assms(10) by linarith+
  then show ?thesis by (simp only: utf8_numbers_def if_False F e(1) d(2)) simp
qed

lemma uint_of_word_of_int: "(cp :: u32) = word_of_int k \<Longrightarrow> 0 \<le> k \<Longrightarrow> k < 2 ^ 32 \<Longrightarrow> uint cp = k"
  using word_of_int_u32 by blast

lemma get_sequence_lengths:
  "get_sequence 1 s = get_sequence_1 s" "get_sequence (Suc 0) s = get_sequence_1 s"
  "get_sequence 2 s = get_sequence_2 s"
  "get_sequence 3 s = get_sequence_3 s" "get_sequence 4 s = get_sequence_4 s"
  by (simp_all add: get_sequence_def)

lemma next_utf8_sound:
  assumes "next_utf8 s = Inr (cp, rest)"
  shows "is_code_point_valid cp \<and> s = utf8_enc cp @ rest"
proof -
  obtain b0 t where s: "s = b0 # t" using assms by (cases s) (auto simp: next_utf8_def)
  note N = assms[unfolded next_utf8_ok s list.sel]
  have v: "is_code_point_valid cp" using N by blast
  note E = utf8_append_numbers(2)[OF v]
  have same: "s = utf8_enc cp @ rest" if "s = bs @ rest" "utf8_numbers (uint cp) = map uint bs" for bs
    using that map_uint_inject[of "utf8_enc cp" bs] E by simp
  let ?u = "uint b0"
  consider "?u < 128" | "192 \<le> ?u" "?u < 224" | "224 \<le> ?u" "?u < 240" | "240 \<le> ?u" "?u < 248"
    using N unfolding sequence_length_uint by (auto split: if_splits)
  then show ?thesis
  proof cases
    case 1
    then have "sequence_length b0 = 1" by (simp add: sequence_length_uint)
    then have "cp = ucast b0" "rest = t" using N by (auto simp: get_sequence_lengths get_sequence_1_ok)
    then have "utf8_numbers (uint cp) = map uint [b0]" using 1 by (simp add: utf8_numbers_def)
    with same[of "[b0]"] v s \<open>rest = t\<close> show ?thesis by simp
  next
    case 2
    then have l: "sequence_length b0 = 2" by (simp add: sequence_length_uint)
    then obtain b1 r where b: "t = b1 # r" "is_trail b1" "rest = r"
      "cp = word_of_int (?u * 64 mod 2048 + uint b1 mod 64)"
      using N by (auto simp: get_sequence_lengths get_sequence_2_ok)
    have b1: "128 \<le> uint b1" "uint b1 < 192" using b(2) by (simp_all add: is_trail_uint)
    have c: "uint cp = ?u * 64 mod 2048 + uint b1 mod 64"
      by (rule uint_of_word_of_int[OF b(4)]; unfold decode_2[OF 2 b1]; use 2 b1 in simp)
    have "128 \<le> uint cp" using N unfolding l overlong_uint by (auto split: if_splits)
    from same[of "[b0, b1]"] utf8_dec_sound_2[OF 2 b1 c this] v b(1,3) s show ?thesis by simp
  next
    case 3
    then have l: "sequence_length b0 = 3" by (simp add: sequence_length_uint)
    then obtain b1 b2 r where b: "t = b1 # b2 # r" "is_trail b1" "is_trail b2" "rest = r"
      "cp = word_of_int (?u * 4096 mod 65536 + uint b1 * 64 mod 4096 + uint b2 mod 64)"
      using N by (auto simp: get_sequence_lengths get_sequence_3_ok)
    have B: "128 \<le> uint b1" "uint b1 < 192" "128 \<le> uint b2" "uint b2 < 192"
      using b(2,3) by (simp_all add: is_trail_uint)
    have c: "uint cp = ?u * 4096 mod 65536 + uint b1 * 64 mod 4096 + uint b2 mod 64"
      by (rule uint_of_word_of_int[OF b(5)]; unfold decode_3[OF 3 B]; use 3 B in simp)
    have "2048 \<le> uint cp" using N unfolding l overlong_uint by (auto split: if_splits)
    from same[of "[b0, b1, b2]"] utf8_dec_sound_3[OF 3 B c this] v b(1,4) s show ?thesis by simp
  next
    case 4
    then have l: "sequence_length b0 = 4" by (simp add: sequence_length_uint)
    then obtain b1 b2 b3 r where b: "t = b1 # b2 # b3 # r" "is_trail b1" "is_trail b2" "is_trail b3" "rest = r"
      "cp = word_of_int (?u * 262144 mod 2097152 + uint b1 * 4096 mod 262144 + uint b2 * 64 mod 4096 + uint b3 mod 64)"
      using N by (auto simp: get_sequence_lengths get_sequence_4_ok)
    have B: "128 \<le> uint b1" "uint b1 < 192" "128 \<le> uint b2" "uint b2 < 192" "128 \<le> uint b3" "uint b3 < 192"
      using b(2-4) by (simp_all add: is_trail_uint)
    have c: "uint cp = ?u * 262144 mod 2097152 + uint b1 * 4096 mod 262144 + uint b2 * 64 mod 4096 + uint b3 mod 64"
      by (rule uint_of_word_of_int[OF b(6)]; unfold decode_4[OF 4 B]; use 4 B in simp)
    have "65536 \<le> uint cp" using N unfolding l overlong_uint by (auto split: if_splits)
    from same[of "[b0, b1, b2, b3]"] utf8_dec_sound_4[OF 4 B c this] v b(1,5) s show ?thesis by simp
  qed
qed

lemma regroup_64:
  fixes c :: int
  shows "c div 4096 * 4096 + (c div 64 mod 64) * 64 + c mod 64 = c"
    and "c div 262144 * 262144 + (c div 4096 mod 64) * 4096 + (c div 64 mod 64) * 64 + c mod 64 = c"
proof -
  define q where "q = c div 64"
  define p where "p = q div 64"
  have "c div (64 * 64) = p" unfolding p_def q_def by (rule zdiv_zmult2_eq) simp
  then have e1: "c div 4096 = p" by simp
  have "c div (4096 * 64) = c div 4096 div 64" by (rule zdiv_zmult2_eq) simp
  then have "c div 262144 = p div 64" unfolding e1 by simp
  note e = e1 this
  have "c = q * 64 + c mod 64" "q = p * 64 + q mod 64" "p = p div 64 * 64 + p mod 64"
    by (simp_all only: q_def p_def div_mult_mod_eq)
  then show "c div 4096 * 4096 + (c div 64 mod 64) * 64 + c mod 64 = c"
    "c div 262144 * 262144 + (c div 4096 mod 64) * 4096 + (c div 64 mod 64) * 64 + c mod 64 = c"
    unfolding e q_def[symmetric] by linarith+
qed

lemma trail_of: "uint b = 128 + x \<Longrightarrow> 0 \<le> x \<Longrightarrow> x < 64 \<Longrightarrow> is_trail b"
  by (simp add: is_trail_uint)

lemma next_utf8_intro:
  assumes "is_code_point_valid cp" "sequence_length b0 = n" "n \<noteq> 0" "\<not> is_overlong_sequence cp n"
    "get_sequence n (b0 # bs) = (UTF8_OK, it, cp)"
  shows "next_utf8 (b0 # bs) = Inr (cp, tl it)"
  unfolding next_utf8_ok using assms by auto

lemma next_utf8_2:
  assumes "is_code_point_valid cp" "uint b0 = 192 + p" "0 \<le> p" "p < 32"
    "uint b1 = 128 + q" "0 \<le> q" "q < 64"
    "uint cp = p * 64 + q" "128 \<le> uint cp" "uint cp < 2048"
  shows "next_utf8 (b0 # b1 # rest) = Inr (cp, rest)"
proof -
  have t: "is_trail b1" using assms by (auto intro: trail_of)
  have "uint b0 * 64 mod 2048 + uint b1 mod 64 = uint cp"
    unfolding assms(8) by (subst decode_2) (use assms in simp_all)
  then have c: "cp = word_of_int (uint b0 * 64 mod 2048 + uint b1 mod 64)" by simp
  have L: "sequence_length b0 = 2" using assms(2-4) by (simp add: sequence_length_uint)
  have O: "\<not> is_overlong_sequence cp 2" using assms by (simp add: overlong_uint)
  have "get_sequence 2 (b0 # b1 # rest) = (UTF8_OK, b1 # rest, cp)"
    unfolding get_sequence_lengths get_sequence_2_ok using c t by blast
  from next_utf8_intro[OF assms(1) L _ O this] show ?thesis by simp
qed

lemma next_utf8_3:
  assumes "is_code_point_valid cp" "uint b0 = 224 + p" "0 \<le> p" "p < 16"
    "uint b1 = 128 + q" "0 \<le> q" "q < 64"
    "uint b2 = 128 + r" "0 \<le> r" "r < 64"
    "uint cp = p * 4096 + q * 64 + r" "2048 \<le> uint cp" "uint cp < 65536"
  shows "next_utf8 (b0 # b1 # b2 # rest) = Inr (cp, rest)"
proof -
  have t: "is_trail b1" "is_trail b2" using assms by (auto intro: trail_of)
  have "uint b0 * 4096 mod 65536 + uint b1 * 64 mod 4096 + uint b2 mod 64 = uint cp"
    unfolding assms(11) by (subst decode_3) (use assms in simp_all)
  then have c: "cp = word_of_int (uint b0 * 4096 mod 65536 + uint b1 * 64 mod 4096 + uint b2 mod 64)" by simp
  have L: "sequence_length b0 = 3" using assms(2-4) by (simp add: sequence_length_uint)
  have O: "\<not> is_overlong_sequence cp 3" using assms by (simp add: overlong_uint)
  have "get_sequence 3 (b0 # b1 # b2 # rest) = (UTF8_OK, b2 # rest, cp)"
    unfolding get_sequence_lengths get_sequence_3_ok using c t by blast
  from next_utf8_intro[OF assms(1) L _ O this] show ?thesis by simp
qed

lemma next_utf8_4:
  assumes "is_code_point_valid cp" "uint b0 = 240 + p" "0 \<le> p" "p < 8"
    "uint b1 = 128 + q" "0 \<le> q" "q < 64"
    "uint b2 = 128 + r" "0 \<le> r" "r < 64"
    "uint b3 = 128 + s" "0 \<le> s" "s < 64"
    "uint cp = p * 262144 + q * 4096 + r * 64 + s" "65536 \<le> uint cp" 
  shows "next_utf8 (b0 # b1 # b2 # b3 # rest) = Inr (cp, rest)"
proof -
  have t: "is_trail b1" "is_trail b2" "is_trail b3" using assms by (auto intro: trail_of)
  have "uint b0 * 262144 mod 2097152 + uint b1 * 4096 mod 262144 + uint b2 * 64 mod 4096 + uint b3 mod 64 = uint cp"
    unfolding assms(14) by (subst decode_4) (use assms in simp_all)
  then have c: "cp = word_of_int (uint b0 * 262144 mod 2097152 + uint b1 * 4096 mod 262144 + uint b2 * 64 mod 4096 + uint b3 mod 64)" by simp
  have L: "sequence_length b0 = 4" using assms(2-4) by (simp add: sequence_length_uint)
  have O: "\<not> is_overlong_sequence cp 4" using assms by (simp add: overlong_uint)
  have "get_sequence 4 (b0 # b1 # b2 # b3 # rest) = (UTF8_OK, b3 # rest, cp)"
    unfolding get_sequence_lengths get_sequence_4_ok using c t by blast
  from next_utf8_intro[OF assms(1) L _ O this] show ?thesis by simp
qed

lemma next_utf8_enc:
  assumes v: "is_code_point_valid cp"
  shows "next_utf8 (utf8_enc cp @ rest) = Inr (cp, rest)"
proof -
  define c where "c = uint cp"
  have c: "0 \<le> c" "c < 0x110000" using v by (auto simp: code_point_valid_uint c_def)
  note E = utf8_append_numbers(2)[OF v, folded c_def]
  have R: "uint cp = c div 64 * 64 + c mod 64" "uint cp = c div 4096 * 4096 + (c div 64 mod 64) * 64 + c mod 64"
    "uint cp = c div 262144 * 262144 + (c div 4096 mod 64) * 4096 + (c div 64 mod 64) * 64 + c mod 64"
    by (simp_all only: c_def[symmetric] regroup_64 div_mult_mod_eq)
  have m: "0 \<le> x mod 64" "x mod 64 < 64" for x :: int by simp_all
  consider "c < 128" | "128 \<le> c" "c < 2048" | "2048 \<le> c" "c < 65536" | "65536 \<le> c" by linarith
  then show ?thesis
  proof cases
    case 1
    then obtain b0 where b: "utf8_enc cp = [b0]" "uint b0 = c" using E by (auto simp: utf8_numbers_def)
    have "sequence_length b0 = 1" "\<not> is_overlong_sequence cp 1"
      using 1 b(2) by (simp_all add: sequence_length_uint overlong_uint flip: c_def)
    moreover have "get_sequence 1 (b0 # rest) = (UTF8_OK, b0 # rest, cp)"
      unfolding get_sequence_lengths get_sequence_1_ok using b(2) by (simp add: word_uint_eq_iff c_def)
    ultimately show ?thesis using next_utf8_intro[OF v, of b0 1 rest "b0 # rest"] b(1) by simp
  next
    case 2
    then obtain b0 b1 where b: "utf8_enc cp = [b0, b1]" "uint b0 = 192 + c div 64" "uint b1 = 128 + c mod 64"
      using E by (auto simp: utf8_numbers_def)
    have "0 \<le> c div 64" "c div 64 < 32" using 2 by (simp_all add: int_div_less pos_imp_zdiv_nonneg_iff)
    from next_utf8_2[OF v b(2) this b(3) m R(1) 2[unfolded c_def]] show ?thesis unfolding b(1) by simp
  next
    case 3
    then obtain b0 b1 b2 where b: "utf8_enc cp = [b0, b1, b2]" "uint b0 = 224 + c div 4096"
      "uint b1 = 128 + c div 64 mod 64" "uint b2 = 128 + c mod 64"
      using E by (auto simp: utf8_numbers_def)
    have "0 \<le> c div 4096" "c div 4096 < 16" using 3 by (simp_all add: int_div_less pos_imp_zdiv_nonneg_iff)
    from next_utf8_3[OF v b(2) this b(3) m b(4) m R(2) 3[unfolded c_def]]
    show ?thesis unfolding b(1) by simp
  next
    case 4
    then obtain b0 b1 b2 b3 where b: "utf8_enc cp = [b0, b1, b2, b3]" "uint b0 = 240 + c div 262144"
      "uint b1 = 128 + c div 4096 mod 64" "uint b2 = 128 + c div 64 mod 64" "uint b3 = 128 + c mod 64"
    proof -
      have "\<not> c < 128" "\<not> c < 2048" "\<not> c < 65536" using 4 by linarith+
      show ?thesis using that E[unfolded utf8_numbers_def if_not_P[OF \<open>\<not> c < 128\<close>] if_not_P[OF \<open>\<not> c < 2048\<close>]
          if_not_P[OF \<open>\<not> c < 65536\<close>]] unfolding map_eq_Cons_conv map_is_Nil_conv by metis
    qed
    have "0 \<le> c div 262144" "c div 262144 < 8" using c by (simp_all add: int_div_less pos_imp_zdiv_nonneg_iff)
    from next_utf8_4[OF v b(2) this b(3) m b(4) m b(5) m R(3) 4[unfolded c_def]]
    show ?thesis unfolding b(1) by simp
  qed
qed

lemma utf8_enc_nonempty: "is_code_point_valid cp \<Longrightarrow> utf8_enc cp \<noteq> []"
  by (simp add: utf8_enc_def utf8_append_def)

interpretation utf8: codec is_code_point_valid utf8_enc next_utf8
  using next_utf8_sound next_utf8_enc utf8_enc_nonempty by unfold_locales blast+

section \<open>The other encodings are codecs\<close>

definition ascii_valid :: "u32 \<Rightarrow> bool" where
  "ascii_valid cp \<longleftrightarrow> cp < 0x80"

definition ucs2_valid :: "u32 \<Rightarrow> bool" where
  "ucs2_valid cp \<longleftrightarrow> cp < 0x10000 \<and> \<not> is_surrogate cp"

definition ascii_enc :: "u32 \<Rightarrow> u8 list" where
  "ascii_enc cp = projr (append_ascii cp 1)"

definition ucs2_enc :: "u32 \<Rightarrow> u8 list" where
  "ucs2_enc cp = projr (append_ucs2 cp 2)"

definition utf16_enc :: "u32 \<Rightarrow> u8 list" where
  "utf16_enc cp = projr (append_utf16 cp 4)"

definition utf32_enc :: "u32 \<Rightarrow> u8 list" where
  "utf32_enc cp = projr (append_utf32 cp 4)"

lemma take_bit_self_uint: "take_bit k cp = cp \<longleftrightarrow> uint (cp :: u32) < 2 ^ k"
  by (simp add: word_uint_eq_iff unsigned_take_bit_eq take_bit_int_eq_self_iff)

lemma high_bits_zero: "(cp :: u32) AND - 128 = 0 \<longleftrightarrow> cp < 0x80" "cp AND - 65536 = 0 \<longleftrightarrow> cp < 0x10000"
proof -
  have *: "cp AND NOT (mask k) = 0 \<longleftrightarrow> take_bit k cp = cp" for k
    by (auto simp: bit_eq_iff bit_simps)
  then have **: "cp AND NOT (mask k) = 0 \<longleftrightarrow> uint cp < 2 ^ k" for k unfolding take_bit_self_uint .
  show "cp AND - 128 = 0 \<longleftrightarrow> cp < 0x80" using **[of 7] by (simp add: mask_eq_exp_minus_1 word_less_def)
  show "cp AND - 65536 = 0 \<longleftrightarrow> cp < 0x10000" using **[of 16] by (simp add: mask_eq_exp_minus_1 word_less_def)
qed

lemma uint_bit7: "(ucast (b :: u8) :: u32) AND 0x80 = 0 \<longleftrightarrow> uint b < 128"
proof -
  have "uint ((ucast b :: u32) AND 0x80) = uint b mod 2 ^ 8 div 2 ^ 7 * 2 ^ 7"
    using uint_field[of "0x80 :: u32" 1 7 "ucast b"] by simp
  then show ?thesis using uint_u8_bounds[of b] by (simp only: word_zero_iff) (auto simp: zdiv_eq_0_iff)
qed

interpretation ascii: codec ascii_valid ascii_enc next_ascii
proof
  fix cp rest s
  show "ascii_valid cp \<Longrightarrow> ascii_enc cp \<noteq> []"
    by (simp add: ascii_valid_def ascii_enc_def append_ascii_def high_bits_zero)
  show "ascii_valid cp \<Longrightarrow> is_code_point_valid cp"
    by (simp add: ascii_valid_def is_code_point_valid_def is_surrogate_def word_less_def word_le_def)
  show "next_ascii (ascii_enc cp @ rest) = Inr (cp, rest)" if "ascii_valid cp"
  proof -
    have "uint (ucast cp :: u8) = uint cp" "uint cp < 128"
      using that unfolding uint_ucast_32_8 by (simp_all add: ascii_valid_def word_less_def)
    moreover from this have "(ucast (ucast cp :: u8) :: u32) = cp" by (simp only: word_uint_eq_iff uint_ucast_8_32)
    ultimately show ?thesis using that uint_bit7[of "ucast cp"]
      by (simp add: ascii_valid_def ascii_enc_def append_ascii_def high_bits_zero next_ascii_def uint_bit7)
  qed
  show "ascii_valid cp \<and> s = ascii_enc cp @ rest" if n: "next_ascii s = Inr (cp, rest)"
  proof -
    obtain b where s: "s = b # rest" "uint b < 128" "cp = ucast b"
      using n by (cases s) (auto simp: next_ascii_def uint_bit7 split: if_splits)
    then have "ucast cp = b" by (simp only: word_uint_eq_iff uint_ucast_32_8 uint_ucast_8_32) simp
    then show ?thesis using s
      by (simp add: ascii_valid_def ascii_enc_def append_ascii_def high_bits_zero word_less_def)
  qed
qed

text \<open>Units of two and four bytes are written and read back.\<close>

lemma bytes16: "(ucast (ucast x :: u8) OR push_bit 8 (ucast (ucast (drop_bit 8 x) :: u8)) :: u32) = take_bit 16 x"
  by (rule bit_word_eqI) (auto simp: bit_simps)

lemma bytes32:
  "(ucast (ucast x :: u8) OR push_bit 8 (ucast (ucast (drop_bit 8 x) :: u8)) OR push_bit 16 (ucast (ucast (drop_bit 16 x) :: u8))
    OR push_bit 24 (ucast (ucast (drop_bit 24 x) :: u8)) :: u32) = x"
  (is "?y = x")
proof (rule bit_word_eqI)
  fix n
  assume "n < LENGTH(32)"
  then consider "n < 8" | "8 \<le> n" "n < 16" | "16 \<le> n" "n < 24" | "24 \<le> n" "n < 32" by fastforce
  then show "bit ?y n = bit x n" by cases (auto simp: bit_simps)
qed

lemma read16_write16: "read16 (write16 x @ rest) = Some (take_bit 16 x, rest)"
  by (simp add: write16_def bytes16)

lemma read32_write32: "read32 (write32 x @ rest) = Some (x, rest)"
  by (simp add: write32_def bytes32)

lemma read16_some: "read16 s = Some (x, rest) \<Longrightarrow> s = write16 x @ rest \<and> x < 0x10000"
proof (induction s rule: read16.induct)
  case (1 a b t)
  then have x: "x = ucast a OR push_bit 8 (ucast b)" "rest = t" by auto
  have "ucast x = a" "ucast (drop_bit 8 x) = b" "take_bit 16 x = x"
    unfolding x by (rule bit_word_eqI; auto simp: bit_simps dest: bit_imp_le_length)+
  then show ?case using x(2) unfolding take_bit_self_uint by (simp add: write16_def word_less_def)
qed simp_all

lemma read32_some: "read32 s = Some (x, rest) \<Longrightarrow> s = write32 x @ rest"
proof (induction s rule: read32.induct)
  case (1 a b c d t)
  then have x: "x = ucast a OR push_bit 8 (ucast b) OR push_bit 16 (ucast c) OR push_bit 24 (ucast d)" "rest = t" by auto
  have "ucast x = a" "ucast (drop_bit 8 x) = b" "ucast (drop_bit 16 x) = c" "ucast (drop_bit 24 x) = d"
    unfolding x by (rule bit_word_eqI; auto simp: bit_simps dest: bit_imp_le_length)+
  then show ?case using x(2) by (simp add: write32_def)
qed simp_all

interpretation utf32: codec is_code_point_valid utf32_enc next_utf32
proof
  fix cp rest s
  show "utf32_enc cp \<noteq> []" by (simp add: utf32_enc_def append_utf32_def write32_def)
  show "next_utf32 (utf32_enc cp @ rest) = Inr (cp, rest)" if "is_code_point_valid cp"
    using that by (simp add: utf32_enc_def append_utf32_def next_utf32_def read32_write32)
  show "is_code_point_valid cp \<and> s = utf32_enc cp @ rest" if "next_utf32 s = Inr (cp, rest)"
    using that by (auto simp: next_utf32_def utf32_enc_def append_utf32_def split: option.splits if_splits dest: read32_some)
qed

lemma small_take_bit16: "x < 0x10000 \<Longrightarrow> take_bit 16 (x :: u32) = x"
  by (simp add: take_bit_self_uint word_less_def)

interpretation ucs2: codec ucs2_valid ucs2_enc next_ucs2
proof
  fix cp rest s
  have enc: "ucs2_valid cp \<Longrightarrow> ucs2_enc cp = write16 cp" for cp
    by (simp add: ucs2_valid_def ucs2_enc_def append_ucs2_def high_bits_zero)
  show "ucs2_enc cp \<noteq> []" if "ucs2_valid cp" using that by (simp add: enc write16_def)
  show "is_code_point_valid cp" if "ucs2_valid cp"
    using that by (auto simp: ucs2_valid_def is_code_point_valid_def word_less_def word_le_def)
  show "next_ucs2 (ucs2_enc cp @ rest) = Inr (cp, rest)" if "ucs2_valid cp"
    using that enc[OF that] by (simp add: next_ucs2_def read16_write16 ucs2_valid_def small_take_bit16)
  show "ucs2_valid cp \<and> s = ucs2_enc cp @ rest" if "next_ucs2 s = Inr (cp, rest)"
  proof -
    have "ucs2_valid cp" "s = write16 cp @ rest"
      using that by (auto simp: next_ucs2_def ucs2_valid_def split: option.splits if_splits dest: read16_some)
    then show ?thesis by (simp add: enc)
  qed
qed

subsection \<open>Surrogate pairs\<close>

lemma word_of_int_small: "0 \<le> k \<Longrightarrow> k < 2 ^ 32 \<Longrightarrow> uint (word_of_int k :: u32) = k"
  by (simp add: uint_word_of_int)

lemma u16_u32: "uint (ucast (ucast (x :: u32) :: u16) :: u32) = uint x mod 65536"
  by (simp only: uint_ucast_16_32 uint_ucast_32_16)

text \<open>The two halves of a code point above the basic plane, as numbers.\<close>

lemma surrogate_halves:
  assumes "0xffff < cp" "is_code_point_valid cp"
  defines "l \<equiv> uint cp div 1024 + 0xd7c0" and "t \<equiv> uint cp mod 1024 + 0xdc00"
  shows "surrogate_pair cp = write16 (word_of_int l) @ write16 (word_of_int t)"
    and "0xd800 \<le> l" "l \<le> 0xdbff" "0xdc00 \<le> t" "t \<le> 0xdfff"
proof -
  have c: "0x10000 \<le> uint cp" "uint cp < 0x110000"
    using assms(1,2) by (auto simp: code_point_valid_uint word_less_def)
  have "0x40 \<le> uint cp div 1024" "uint cp div 1024 < 0x440"
    using zdiv_mono1[OF c(1), of 1024] c(2) by (simp_all add: int_div_less)
  then show b: "0xd800 \<le> l" "l \<le> 0xdbff" by (simp_all add: l_def)
  show t: "0xdc00 \<le> t" "t \<le> 0xdfff" using pos_mod_bound[of 1024 "uint cp"] by (simp_all add: t_def)
  have "uint (drop_bit 10 cp + lead_offset) = l"
    using b by (subst uint_add_small) (simp_all add: lead_offset_def l_def)
  then have L: "ucast (ucast (drop_bit 10 cp + lead_offset) :: u16) = (word_of_int l :: u32)"
    using b by (simp only: word_uint_eq_iff u16_u32 word_of_int_small) (simp add: word_of_int_small)
  have "uint (cp AND 0x3ff) = uint cp mod 1024" using uint_low_field[of "0x3ff :: u32" 10 cp] by simp
  then have "uint ((cp AND 0x3ff) + 0xdc00) = t"
    using t by (subst uint_add_small) (simp_all add: t_def)
  then have T: "ucast (ucast ((cp AND 0x3ff) + 0xdc00) :: u16) = (word_of_int t :: u32)"
    using t by (simp only: word_uint_eq_iff u16_u32) (simp add: word_of_int_small)
  show "surrogate_pair cp = write16 (word_of_int l) @ write16 (word_of_int t)"
    by (simp only: surrogate_pair_def L T)
qed

lemma surrogate_join:
  "push_bit 10 (word_of_int l) + word_of_int t + surrogate_offset
     = (word_of_int ((l - 0xd7c0) * 1024 + (t - 0xdc00)) :: u32)"
  by (simp add: push_bit_eq_mult surrogate_offset_def)

lemma lead_surrogate_uint: "is_lead_surrogate x \<longleftrightarrow> 0xd800 \<le> uint x \<and> uint x \<le> 0xdbff"
  by (simp add: is_lead_surrogate_def word_le_def)

lemma trail_surrogate_uint: "is_trail_surrogate x \<longleftrightarrow> 0xdc00 \<le> uint x \<and> uint x \<le> 0xdfff"
  by (simp add: is_trail_surrogate_def word_le_def)

lemma read16_unit: "0 \<le> k \<Longrightarrow> k < 0x10000 \<Longrightarrow> read16 (write16 (word_of_int k) @ rest) = Some (word_of_int k, rest)"
proof -
  assume "0 \<le> k" "k < 0x10000"
  then have "take_bit 16 (word_of_int k :: u32) = word_of_int k"
    by (simp add: take_bit_self_uint word_of_int_small)
  then show ?thesis by (simp add: read16_write16)
qed

lemma length_write16 [simp]: "length (write16 x) = 2"
  by (simp add: write16_def)

lemma next_utf16_pair:
  assumes "0xd800 \<le> l" "l \<le> 0xdbff" "0xdc00 \<le> t" "t \<le> 0xdfff"
  shows "next_utf16 (write16 (word_of_int l) @ write16 (word_of_int t) @ rest)
    = Inr (word_of_int ((l - 0xd7c0) * 1024 + (t - 0xdc00)), rest)"
  using assms
  by (simp add: next_utf16_def read16_unit lead_surrogate_uint trail_surrogate_uint word_of_int_small surrogate_join del: of_int_add of_int_diff of_int_mult)

lemma utf16_enc_cases:
  "utf16_enc cp = (if cp > 0xffff then surrogate_pair cp else write16 cp)"
  by (simp add: utf16_enc_def append_utf16_def)

lemma surrogates_split: "is_surrogate x \<longleftrightarrow> is_lead_surrogate x \<or> is_trail_surrogate x"
  by (auto simp: is_surrogate_def is_lead_surrogate_def is_trail_surrogate_def word_le_def)

lemma next_utf16_enc:
  assumes v: "is_code_point_valid cp"
  shows "next_utf16 (utf16_enc cp @ rest) = Inr (cp, rest)"
proof (cases "cp > 0xffff")
  case True
  note H = surrogate_halves[OF True v]
  have "uint cp div 1024 * 1024 + uint cp mod 1024 = uint cp" by (rule div_mult_mod_eq)
  then show ?thesis
    unfolding utf16_enc_cases if_P[OF True] H(1) append_assoc next_utf16_pair[OF H(2-5)] by simp
next
  case False
  then have "take_bit 16 cp = cp" by (simp add: take_bit_self_uint word_less_def)
  then show ?thesis using v False
    by (simp add: utf16_enc_cases next_utf16_def read16_write16 is_code_point_valid_def surrogates_split)
qed

lemma next_utf16_sound:
  assumes n: "next_utf16 s = Inr (cp, rest)"
  shows "is_code_point_valid cp \<and> s = utf16_enc cp @ rest"
proof -
  obtain x s1 where x: "read16 s = Some (x, s1)" using n by (auto simp: next_utf16_def split: option.splits)
  note sx = read16_some[OF x]
  show ?thesis
  proof (cases "is_lead_surrogate x")
    case False
    then have "cp = x" "rest = s1" "\<not> is_trail_surrogate x"
      using n x by (auto simp: next_utf16_def split: if_splits)
    then show ?thesis using False sx
      by (auto simp: utf16_enc_cases is_code_point_valid_def surrogates_split word_less_def word_le_def)
  next
    case True
    then obtain y where y: "read16 s1 = Some (y, rest)" "is_trail_surrogate y"
      "cp = push_bit 10 x + y + surrogate_offset"
      using n x by (auto simp: next_utf16_def split: option.splits if_splits)
    define l t where "l = uint x" and "t = uint y"
    have b: "0xd800 \<le> l" "l \<le> 0xdbff" "0xdc00 \<le> t" "t \<le> 0xdfff"
      using True y(2) by (simp_all add: lead_surrogate_uint trail_surrogate_uint l_def t_def)
    have xy: "x = word_of_int l" "y = word_of_int t" by (simp_all add: l_def t_def)
    define c where "c = (l - 0xd7c0) * 1024 + (t - 0xdc00)"
    have cp: "cp = word_of_int c" unfolding y(3) xy surrogate_join c_def ..
    have cb: "0x10000 \<le> c" "c < 0x110000" using b by (simp_all add: c_def)
    then have u: "uint cp = c" by (simp add: cp word_of_int_small)
    have v: "is_code_point_valid cp" "cp > 0xffff" using cb by (auto simp: code_point_valid_uint u word_less_def)
    have "c div 1024 = l - 0xd7c0" "c mod 1024 = t - 0xdc00"
      unfolding c_def using b by (simp_all only: div_mod_step)
    then have "uint cp div 1024 + 0xd7c0 = l" "uint cp mod 1024 + 0xdc00 = t" unfolding u by simp_all
    with surrogate_halves(1)[OF v(2,1)] have "utf16_enc cp = write16 x @ write16 y"
      unfolding utf16_enc_cases if_P[OF v(2)] by (simp add: xy)
    then show ?thesis using v(1) sx read16_some[OF y(1)] by simp
  qed
qed

interpretation utf16: codec is_code_point_valid utf16_enc next_utf16
proof
  show "utf16_enc cp \<noteq> []" for cp by (simp add: utf16_enc_cases surrogate_pair_def write16_def)
qed (use next_utf16_enc next_utf16_sound in blast)+

section \<open>The properties of the encodings\<close>


text \<open>The bytes of a text in an encoding.\<close>

definition encode :: "string_encoding \<Rightarrow> u32 list \<Rightarrow> u8 list option" where
  "encode encoding cps =
     (case encoding of
        string_encoding_ucs_2 \<Rightarrow> if list_all ucs2_valid cps then Some (concat (map ucs2_enc cps)) else None
      | string_encoding_utf_8 \<Rightarrow> if list_all is_code_point_valid cps then Some (concat (map utf8_enc cps)) else None
      | string_encoding_utf_16 \<Rightarrow> if list_all is_code_point_valid cps then Some (concat (map utf16_enc cps)) else None
      | string_encoding_utf_32 \<Rightarrow> if list_all is_code_point_valid cps then Some (concat (map utf32_enc cps)) else None
      | string_encoding_ascii \<Rightarrow> if list_all ascii_valid cps then Some (concat (map ascii_enc cps)) else None
      | _ \<Rightarrow> None)"

context codec
begin

lemma as_utf8_loop_spec:
  "\<exists>v. as_utf8_loop dec s [] = Some v
     \<and> (case v of Inl _ \<Rightarrow> \<nexists>cps. list_all valid cps \<and> s = concat (map enc cps)
        | Inr r \<Rightarrow> \<exists>cps. list_all valid cps \<and> s = concat (map enc cps) \<and> r = concat (map utf8_enc cps))"
proof -
  obtain v where v: "as_utf8_loop dec s [] = Some v" using as_utf8_loop_returns by blast
  show ?thesis
  proof (cases v)
    case (Inl e)
    then have "\<nexists>cps. list_all valid cps \<and> s = concat (map enc cps)"
      using v as_utf8_loop_complete[of _ "[]"] by (auto simp: list_all_iff)
    then show ?thesis using v Inl by auto
  next
    case (Inr r)
    then show ?thesis using v as_utf8_loop_sound[of s "[]" r] by (auto simp: list_all_iff)
  qed
qed

lemma scalars: "list_all valid cps \<Longrightarrow> list_all is_code_point_valid cps"
  by (auto simp: list_all_iff valid_scalar)

end



end
