(* ===== verification/String_Kernels.thy ===== *)
theory String_Kernels
  imports Unicode "HOL-Library.Sublist"
begin

text \<open>
  Assignment between string types and the search for a substring:
  \<^verbatim>\<open>src/dynd/kernels/string_assignment_kernels.cpp\<close> and the search of
  \<^verbatim>\<open>src/dynd/kernels/string_algorithm_kernels.cpp\<close>. A kernel holds its read and write functions, as
  the \<^verbatim>\<open>m_next_fn\<close> and \<^verbatim>\<open>m_append_fn\<close> of the source; a loop whose read does not advance has the value
  None. The bytes of a destination are those written so far and the room that is left.
\<close>

section \<open>The kernels\<close>

datatype string_error =
  Codec codec_error | string_too_large | write_past_end | already_initialized | reference_needs_same_encoding

text \<open>A write, with the overrun that the source does not check for.\<close>

definition checked_append :: "append_fn \<Rightarrow> u32 \<Rightarrow> nat \<Rightarrow> string_error + u8 list" where
  "checked_append append_fn cp room =
     (case append_fn cp room of
        Inl e \<Rightarrow> Inl (Codec e)
      | Inr b \<Rightarrow> if length b \<le> room then Inr b else Inl write_past_end)"

text \<open>\<^verbatim>\<open>fixed_string_assign_ck::single\<close>: both strings end at a zero or at their size.\<close>

partial_function (option) fixed_string_assign ::
  "next_fn \<Rightarrow> append_fn \<Rightarrow> bool \<Rightarrow> u8 list \<Rightarrow> u8 list \<Rightarrow> nat \<Rightarrow> (string_error + u8 list) option" where
  "fixed_string_assign next_fn append_fn overflow_check src dst room =
     (if src \<noteq> [] \<and> 0 < room
      then (case next_fn src of
              Inl e \<Rightarrow> Some (Inl (Codec e))
            | Inr (cp, src) \<Rightarrow>
                if cp = 0 then Some (Inr (dst @ replicate room 0))
                else (case checked_append append_fn cp room of
                        Inl e \<Rightarrow> Some (Inl e)
                      | Inr b \<Rightarrow> fixed_string_assign next_fn append_fn overflow_check src (dst @ b) (room - length b)))
      else if src \<noteq> []
      then (if overflow_check then Some (Inl string_too_large) else Some (Inr dst))
      else Some (Inr (dst @ replicate room 0)))"

text \<open>\<^verbatim>\<open>blockref_string_to_fixed_string_assign_ck::single\<close>\<close>

partial_function (option) blockref_to_fixed_assign ::
  "next_fn \<Rightarrow> append_fn \<Rightarrow> bool \<Rightarrow> u8 list \<Rightarrow> u8 list \<Rightarrow> nat \<Rightarrow> (string_error + u8 list) option" where
  "blockref_to_fixed_assign next_fn append_fn overflow_check src dst room =
     (if src \<noteq> [] \<and> 0 < room
      then (case next_fn src of
              Inl e \<Rightarrow> Some (Inl (Codec e))
            | Inr (cp, src) \<Rightarrow>
                (case checked_append append_fn cp room of
                   Inl e \<Rightarrow> Some (Inl e)
                 | Inr b \<Rightarrow> blockref_to_fixed_assign next_fn append_fn overflow_check src (dst @ b) (room - length b)))
      else if src \<noteq> []
      then (if overflow_check then Some (Inl string_too_large) else Some (Inr dst))
      else Some (Inr (dst @ replicate room 0)))"

text \<open>
  The loops that write to a memory block: the block holds \<open>cap\<close> bytes, and is doubled when fewer than
  eight are free.
\<close>

partial_function (option) blockref_loop ::
  "next_fn \<Rightarrow> append_fn \<Rightarrow> u8 list \<Rightarrow> u8 list \<Rightarrow> nat \<Rightarrow> (string_error + u8 list) option" where
  "blockref_loop next_fn append_fn src dst cap =
     (if src \<noteq> []
      then (case next_fn src of
              Inl e \<Rightarrow> Some (Inl (Codec e))
            | Inr (cp, src) \<Rightarrow>
                (let cap = (if 8 \<le> cap - length dst then cap else 2 * cap)
                 in case checked_append append_fn cp (cap - length dst) of
                      Inl e \<Rightarrow> Some (Inl e)
                    | Inr b \<Rightarrow> blockref_loop next_fn append_fn src (dst @ b) cap))
      else Some (Inr dst))"

partial_function (option) fixed_to_blockref_loop ::
  "next_fn \<Rightarrow> append_fn \<Rightarrow> u8 list \<Rightarrow> u8 list \<Rightarrow> nat \<Rightarrow> (string_error + u8 list) option" where
  "fixed_to_blockref_loop next_fn append_fn src dst cap =
     (if src \<noteq> []
      then (case next_fn src of
              Inl e \<Rightarrow> Some (Inl (Codec e))
            | Inr (cp, src) \<Rightarrow>
                if cp \<noteq> 0
                then (let cap = (if 8 \<le> cap - length dst then cap else 2 * cap)
                      in case checked_append append_fn cp (cap - length dst) of
                           Inl e \<Rightarrow> Some (Inl e)
                         | Inr b \<Rightarrow> fixed_to_blockref_loop next_fn append_fn src (dst @ b) cap)
                else Some (Inr dst))
      else Some (Inr dst))"

definition string_encoding_char_size_table :: "string_encoding \<Rightarrow> nat" where
  "string_encoding_char_size_table encoding =
     (case encoding of
        string_encoding_ascii \<Rightarrow> 1 | string_encoding_ucs_2 \<Rightarrow> 2 | string_encoding_utf_8 \<Rightarrow> 1
      | string_encoding_utf_16 \<Rightarrow> 2 | string_encoding_utf_32 \<Rightarrow> 4 | _ \<Rightarrow> 0)"

definition initial_capacity :: "string_encoding \<Rightarrow> string_encoding \<Rightarrow> nat \<Rightarrow> nat" where
  "initial_capacity src_encoding dst_encoding n =
     (n div string_encoding_char_size_table src_encoding + 16) *
       string_encoding_char_size_table dst_encoding * 1124 div 1024"

text \<open>
  A string value is None before it is initialised. A source and a destination in the same memory
  block share the bytes.
\<close>

definition blockref_string_assign ::
  "string_encoding \<Rightarrow> string_encoding \<Rightarrow> next_fn \<Rightarrow> append_fn \<Rightarrow> bool \<Rightarrow> u8 list option \<Rightarrow> u8 list option
     \<Rightarrow> (string_error + u8 list option) option" where
  "blockref_string_assign dst_encoding src_encoding next_fn append_fn same_block dst src =
     (if dst \<noteq> None then Some (Inl already_initialized)
      else (case src of
              None \<Rightarrow> Some (Inr None)
            | Some s \<Rightarrow>
                if \<not> same_block
                then map_option (map_sum id Some)
                       (blockref_loop next_fn append_fn s [] (initial_capacity src_encoding dst_encoding (length s)))
                else if dst_encoding = src_encoding then Some (Inr (Some s))
                else Some (Inl reference_needs_same_encoding)))"

definition fixed_to_blockref_assign ::
  "string_encoding \<Rightarrow> string_encoding \<Rightarrow> next_fn \<Rightarrow> append_fn \<Rightarrow> u8 list option \<Rightarrow> u8 list
     \<Rightarrow> (string_error + u8 list option) option" where
  "fixed_to_blockref_assign dst_encoding src_encoding next_fn append_fn dst s =
     (if dst \<noteq> None then Some (Inl already_initialized)
      else map_option (map_sum id Some)
             (fixed_to_blockref_loop next_fn append_fn s [] (initial_capacity src_encoding dst_encoding (length s))))"

section \<open>The search for a substring\<close>

text \<open>
  The inner loop compares the rest of the substring with the text behind a first match. It reads both
  with the functions it is given.
\<close>

partial_function (option) match_rest ::
  "next_fn \<Rightarrow> next_fn \<Rightarrow> u8 list \<Rightarrow> u8 list \<Rightarrow> (codec_error + bool) option" where
  "match_rest sub_fn str_fn sub str =
     (if sub = [] then Some (Inr True)
      else if str = [] then Some (Inr False)
      else (case sub_fn sub of
              Inl e \<Rightarrow> Some (Inl e)
            | Inr (sub_cp, sub) \<Rightarrow>
                (case str_fn str of
                   Inl e \<Rightarrow> Some (Inl e)
                 | Inr (str_cp, str) \<Rightarrow>
                     if sub_cp \<noteq> str_cp then Some (Inr False) else match_rest sub_fn str_fn sub str)))"

partial_function (option) find_loop ::
  "next_fn \<Rightarrow> u32 \<Rightarrow> u8 list \<Rightarrow> u8 list \<Rightarrow> int \<Rightarrow> (codec_error + int) option" where
  "find_loop str_next_fn sub_first sub str pos =
     (if str = [] then Some (Inr (- 1))
      else (case str_next_fn str of
              Inl e \<Rightarrow> Some (Inl e)
            | Inr (str_cp, str) \<Rightarrow>
                if str_cp = sub_first
                then (case match_rest str_next_fn str_next_fn sub str of
                        None \<Rightarrow> None
                      | Some (Inl e) \<Rightarrow> Some (Inl e)
                      | Some (Inr matched) \<Rightarrow>
                          if matched then Some (Inr pos)
                          else find_loop str_next_fn sub_first sub str (pos + 1))
                else find_loop str_next_fn sub_first sub str (pos + 1)))"

definition find_one_string :: "u8 list \<Rightarrow> u8 list \<Rightarrow> next_fn \<Rightarrow> next_fn \<Rightarrow> (codec_error + int) option" where
  "find_one_string str sub str_next_fn sub_next_fn =
     (case sub_next_fn sub of
        Inl e \<Rightarrow> Some (Inl e)
      | Inr (sub_first, sub) \<Rightarrow> find_loop str_next_fn sub_first sub str 0)"

section \<open>The interfaces\<close>

text \<open>What a destination's write function promises; \<open>unit\<close> is the size of its code units.\<close>

locale writer =
  fixes dvalid :: "u32 \<Rightarrow> bool" and denc :: "u32 \<Rightarrow> u8 list" and app :: append_fn and unit :: nat
  assumes app_fits: "dvalid cp \<Longrightarrow> length (denc cp) \<le> room \<Longrightarrow> app cp room = Inr (denc cp)"
    and app_tight: "dvalid cp \<Longrightarrow> room < length (denc cp) \<Longrightarrow> 0 < room \<Longrightarrow> unit dvd room \<Longrightarrow> \<exists>e. app cp room = Inl e"
    and app_invalid: "is_code_point_valid cp \<Longrightarrow> \<not> dvalid cp \<Longrightarrow> \<exists>e. app cp room = Inl e"
    and denc_size: "dvalid cp \<Longrightarrow> 0 < length (denc cp) \<and> length (denc cp) \<le> 4 \<and> unit dvd length (denc cp)"
begin

lemma checked_fits: "dvalid cp \<Longrightarrow> length (denc cp) \<le> room \<Longrightarrow> checked_append app cp room = Inr (denc cp)"
  by (simp add: checked_append_def app_fits)

lemma checked_tight:
  "dvalid cp \<Longrightarrow> room < length (denc cp) \<Longrightarrow> 0 < room \<Longrightarrow> unit dvd room \<Longrightarrow> \<exists>e. checked_append app cp room = Inl e"
  using app_tight[of cp room] by (auto simp: checked_append_def)

lemma checked_invalid: "is_code_point_valid cp \<Longrightarrow> \<not> dvalid cp \<Longrightarrow> \<exists>e. checked_append app cp room = Inl e"
  using app_invalid[of cp room] by (auto simp: checked_append_def)

lemma checked_cases:
  "is_code_point_valid cp \<Longrightarrow> 8 \<le> room \<Longrightarrow>
    (dvalid cp \<and> checked_append app cp room = Inr (denc cp)) \<or> (\<not> dvalid cp \<and> (\<exists>e. checked_append app cp room = Inl e))"
  using checked_fits[of cp room] checked_invalid[of cp room] denc_size[of cp] by (cases "dvalid cp") auto

end

locale transcoder = codec valid enc dec + writer dvalid denc app unit
  for valid :: "u32 \<Rightarrow> bool" and enc :: "u32 \<Rightarrow> u8 list" and dec :: "u8 list \<Rightarrow> decoded"
    and dvalid :: "u32 \<Rightarrow> bool" and denc :: "u32 \<Rightarrow> u8 list" and app :: append_fn and unit :: nat
begin

abbreviation "src_bytes cps \<equiv> concat (map enc cps)"
abbreviation "dst_bytes cps \<equiv> concat (map denc cps)"

lemma src_Cons: "valid cp \<Longrightarrow> enc cp @ s \<noteq> [] \<and> dec (enc cp @ s) = Inr (cp, s)"
  using enc_nonempty by (simp add: dec_enc)

lemma unit_dvd_bytes: "list_all dvalid cps \<Longrightarrow> unit dvd length (dst_bytes cps)"
  by (induction cps) (auto simp: denc_size)

text \<open>
  The loop over a fixed string: \<open>j\<close> zeros stand behind the text. It succeeds when the text is shorter
  than the destination, or just fits and nothing stands behind it.
\<close>

lemma fixed_string_assign_spec:
  assumes "list_all valid cps" "list_all dvalid cps" "0 \<notin> set cps" "valid 0" "unit dvd room"
  shows "\<exists>v. fixed_string_assign dec app True (src_bytes (cps @ replicate j 0)) dst room = Some v
    \<and> (if length (dst_bytes cps) < room \<or> length (dst_bytes cps) = room \<and> j = 0
       then v = Inr (dst @ dst_bytes cps @ replicate (room - length (dst_bytes cps)) 0) else isl v)"
  using assms
proof (induction cps arbitrary: dst room)
  case Nil
  then show ?case
  proof (cases j)
    case 0
    then show ?thesis by (subst fixed_string_assign.simps) auto
  next
    case (Suc i)
    then show ?thesis using src_Cons[OF \<open>valid 0\<close>, of "src_bytes (replicate i 0)"] enc_nonempty[OF \<open>valid 0\<close>]
      by (subst fixed_string_assign.simps) simp
  qed
next
  case (Cons cp cps)
  let ?s = "src_bytes (cps @ replicate j 0)" and ?n = "length (denc cp)"
  have v: "valid cp" "dvalid cp" "cp \<noteq> 0" "0 < ?n" using Cons denc_size[of cp] by auto
  note S = src_Cons[OF v(1), of ?s]
  show ?case
  proof (cases "room = 0")
    case True
    then show ?thesis using S v by (subst fixed_string_assign.simps) simp
  next
    case room: False
    show ?thesis
    proof (cases "?n \<le> room")
      case True
      have "unit dvd room - ?n" using Cons.prems(5) denc_size[OF v(2)] by simp
      then obtain w where w: "fixed_string_assign dec app True ?s (dst @ denc cp) (room - ?n) = Some w"
        "if length (dst_bytes cps) < room - ?n \<or> length (dst_bytes cps) = room - ?n \<and> j = 0
         then w = Inr ((dst @ denc cp) @ dst_bytes cps @ replicate (room - ?n - length (dst_bytes cps)) 0) else isl w"
        using Cons.IH[of "room - ?n" "dst @ denc cp"] Cons.prems by auto
      have "fixed_string_assign dec app True (enc cp @ ?s) dst room = Some w"
        using S room v w(1) checked_fits[OF v(2) True] by (subst fixed_string_assign.simps) simp
      then show ?thesis using w(2) True by (auto split: if_splits)
    next
      case False
      then obtain e where "checked_append app cp room = Inl e"
        using checked_tight[OF v(2), of room] room Cons.prems(5) by auto
      then have "fixed_string_assign dec app True (enc cp @ ?s) dst room = Some (Inl e)"
        using S room v by (subst fixed_string_assign.simps) simp
      then show ?thesis using False by auto
    qed
  qed
qed

text \<open>The loops that may grow their block never run out of room.\<close>

lemma grown_room: "8 \<le> cap \<Longrightarrow> length dst \<le> cap \<Longrightarrow>
    8 \<le> (if 8 \<le> cap - length dst then cap else 2 * cap) - length dst"
  by auto

lemma blockref_loop_complete:
  assumes "list_all valid cps" "list_all dvalid cps" "8 \<le> cap" "length dst \<le> cap"
  shows "blockref_loop dec app (src_bytes cps) dst cap = Some (Inr (dst @ dst_bytes cps))"
  using assms
proof (induction cps arbitrary: dst cap)
  case Nil
  then show ?case by (subst blockref_loop.simps) simp
next
  case (Cons cp cps)
  let ?cap = "if 8 \<le> cap - length dst then cap else 2 * cap"
  have v: "valid cp" "dvalid cp" using Cons.prems by auto
  have room: "8 \<le> ?cap - length dst" using Cons.prems by (intro grown_room)
  have n: "length (denc cp) \<le> 4" using denc_size[OF v(2)] by simp
  have "checked_append app cp (?cap - length dst) = Inr (denc cp)"
    using checked_fits[OF v(2)] n room by simp
  moreover have "blockref_loop dec app (src_bytes cps) (dst @ denc cp) ?cap = Some (Inr ((dst @ denc cp) @ dst_bytes cps))"
    using Cons.prems n room by (intro Cons.IH) auto
  ultimately show ?case using src_Cons[OF v(1), of "src_bytes cps"]
    by (subst blockref_loop.simps) (simp add: Let_def)
qed

lemma blockref_loop_sound:
  assumes "8 \<le> cap" "length dst \<le> cap"
  shows "\<exists>v. blockref_loop dec app s dst cap = Some v
    \<and> (\<forall>r. v = Inr r \<longrightarrow> (\<exists>cps. list_all valid cps \<and> list_all dvalid cps \<and> s = src_bytes cps \<and> r = dst @ dst_bytes cps))"
  using assms
proof (induction s arbitrary: dst cap rule: length_induct)
  case (1 s)
  let ?cap = "if 8 \<le> cap - length dst then cap else 2 * cap"
  have room: "8 \<le> ?cap - length dst" using 1(2,3) by (rule grown_room)
  show ?case
  proof (cases "s = []")
    case True
    then show ?thesis by (subst blockref_loop.simps) (auto intro!: exI[of _ "[]"])
  next
    case False
    show ?thesis
    proof (cases "dec s")
      case (Inl e)
      then show ?thesis using False by (subst blockref_loop.simps) simp
    next
      case (Inr a)
      then obtain cp t where d: "dec s = Inr (cp, t)" by (cases a) auto
      note D = dec_sound[OF d] dec_shrinks[OF d]
      have sc: "is_code_point_valid cp" using D valid_scalar by blast
      from checked_cases[OF sc room] show ?thesis
      proof (elim disjE conjE exE)
        fix e
        assume "checked_append app cp (?cap - length dst) = Inl e"
        then show ?thesis using False d by (subst blockref_loop.simps) (simp add: Let_def)
      next
        assume c: "dvalid cp" "checked_append app cp (?cap - length dst) = Inr (denc cp)"
        have "length (dst @ denc cp) \<le> ?cap" "8 \<le> ?cap" using denc_size[OF c(1)] room 1(2) by auto
        with 1(1) D(2) obtain v where v: "blockref_loop dec app t (dst @ denc cp) ?cap = Some v"
          "\<forall>r. v = Inr r \<longrightarrow> (\<exists>cps. list_all valid cps \<and> list_all dvalid cps \<and> t = src_bytes cps \<and> r = (dst @ denc cp) @ dst_bytes cps)"
          by blast
        have "blockref_loop dec app s dst cap = Some v"
          using False d c(2) v(1) by (subst blockref_loop.simps) (simp add: Let_def)
        moreover have "\<forall>r. v = Inr r \<longrightarrow> (\<exists>cps. list_all valid cps \<and> list_all dvalid cps \<and> s = src_bytes cps \<and> r = dst @ dst_bytes cps)"
        proof (intro allI impI)
          fix r assume "v = Inr r"
          with v(2) obtain cps where "list_all valid cps" "list_all dvalid cps" "t = src_bytes cps" "r = (dst @ denc cp) @ dst_bytes cps"
            by blast
          then show "\<exists>cps. list_all valid cps \<and> list_all dvalid cps \<and> s = src_bytes cps \<and> r = dst @ dst_bytes cps"
            using D(1) c(1) by (intro exI[of _ "cp # cps"]) simp
        qed
        ultimately show ?thesis by blast
      qed
    qed
  qed
qed

end

context transcoder
begin

lemma fixed_to_blockref_complete:
  assumes "list_all valid cps" "list_all dvalid cps" "0 \<notin> set cps" "valid 0" "8 \<le> cap" "length dst \<le> cap"
  shows "fixed_to_blockref_loop dec app (src_bytes (cps @ replicate j 0)) dst cap = Some (Inr (dst @ dst_bytes cps))"
  using assms
proof (induction cps arbitrary: dst cap)
  case Nil
  then show ?case using src_Cons[OF \<open>valid 0\<close>, of "src_bytes (replicate (j - 1) 0)"] enc_nonempty[OF \<open>valid 0\<close>]
    by (subst fixed_to_blockref_loop.simps) (cases j; simp)
next
  case (Cons cp cps)
  let ?cap = "if 8 \<le> cap - length dst then cap else 2 * cap" and ?s = "src_bytes (cps @ replicate j 0)"
  have v: "valid cp" "dvalid cp" "cp \<noteq> 0" using Cons.prems by auto
  have room: "8 \<le> ?cap - length dst" using Cons.prems by (intro grown_room)
  have n: "length (denc cp) \<le> 4" using denc_size[OF v(2)] by simp
  have "checked_append app cp (?cap - length dst) = Inr (denc cp)"
    using checked_fits[OF v(2)] n room by simp
  moreover have "fixed_to_blockref_loop dec app ?s (dst @ denc cp) ?cap = Some (Inr ((dst @ denc cp) @ dst_bytes cps))"
    using Cons.prems n room by (intro Cons.IH) auto
  ultimately show ?case using src_Cons[OF v(1), of ?s] v(3)
    by (subst fixed_to_blockref_loop.simps) (simp add: Let_def)
qed

lemma blockref_to_fixed_spec:
  assumes "list_all valid cps" "list_all dvalid cps" "unit dvd room"
  shows "\<exists>v. blockref_to_fixed_assign dec app True (src_bytes cps) dst room = Some v
    \<and> (if length (dst_bytes cps) \<le> room
       then v = Inr (dst @ dst_bytes cps @ replicate (room - length (dst_bytes cps)) 0) else isl v)"
  using assms
proof (induction cps arbitrary: dst room)
  case Nil
  then show ?case by (subst blockref_to_fixed_assign.simps) simp
next
  case (Cons cp cps)
  let ?s = "src_bytes cps" and ?n = "length (denc cp)"
  have v: "valid cp" "dvalid cp" "0 < ?n" using Cons denc_size[of cp] by auto
  note S = src_Cons[OF v(1), of ?s]
  consider "room = 0" | "0 < room" "room < ?n" | "0 < room" "?n \<le> room" by linarith
  then show ?case
  proof cases
    case 1
    then show ?thesis using S v by (subst blockref_to_fixed_assign.simps) simp
  next
    case 2
    then obtain e where "checked_append app cp room = Inl e"
      using checked_tight[OF v(2) 2(2,1)] Cons.prems(3) by auto
    then have "blockref_to_fixed_assign dec app True (enc cp @ ?s) dst room = Some (Inl e)"
      using S 2 by (subst blockref_to_fixed_assign.simps) simp
    then show ?thesis using 2 by auto
  next
    case 3
    have "unit dvd room - ?n" using Cons.prems(3) denc_size[OF v(2)] by simp
    then obtain w where w: "blockref_to_fixed_assign dec app True ?s (dst @ denc cp) (room - ?n) = Some w"
      "if length (dst_bytes cps) \<le> room - ?n
       then w = Inr ((dst @ denc cp) @ dst_bytes cps @ replicate (room - ?n - length (dst_bytes cps)) 0) else isl w"
      using Cons.IH[of "room - ?n" "dst @ denc cp"] Cons.prems by auto
    have "blockref_to_fixed_assign dec app True (enc cp @ ?s) dst room = Some w"
      using S 3 w(1) checked_fits[OF v(2) 3(2)] by (subst blockref_to_fixed_assign.simps) simp
    then show ?thesis using w(2) 3 by (auto split: if_splits)
  qed
qed

end

text \<open>What the search needs of a read function, which the unchecked functions satisfy, too.\<close>

locale reader =
  fixes valid :: "u32 \<Rightarrow> bool" and enc :: "u32 \<Rightarrow> u8 list" and dec :: "u8 list \<Rightarrow> decoded"
  assumes some_bytes: "valid cp \<Longrightarrow> enc cp \<noteq> []"
    and reads: "valid cp \<Longrightarrow> dec (enc cp @ rest) = Inr (cp, rest)"

sublocale codec \<subseteq> reader
  using enc_nonempty dec_enc by unfold_locales

text \<open>The first position of a list of code points in another, counted from \<open>pos\<close>.\<close>

fun find_sub :: "u32 list \<Rightarrow> u32 list \<Rightarrow> int \<Rightarrow> int" where
  "find_sub sub [] pos = - 1"
| "find_sub sub (x # xs) pos = (if prefix sub (x # xs) then pos else find_sub sub xs (pos + 1))"

context reader
begin

lemma no_bytes: "list_all valid cps \<Longrightarrow> concat (map enc cps) = [] \<longleftrightarrow> cps = []"
  by (cases cps) (auto simp: some_bytes)

lemma match_rest_spec:
  "list_all valid ys \<Longrightarrow> list_all valid xs \<Longrightarrow>
    match_rest dec dec (concat (map enc ys)) (concat (map enc xs)) = Some (Inr (prefix ys xs))"
proof (induction ys arbitrary: xs)
  case Nil
  then show ?case by (subst match_rest.simps) simp
next
  case (Cons y ys)
  show ?case
  proof (cases xs)
    case Nil
    then show ?thesis using Cons.prems no_bytes[of "y # ys"] by (subst match_rest.simps) simp
  next
    case (Cons x xs')
    then show ?thesis using Cons.prems Cons.IH[of xs'] some_bytes[of y] some_bytes[of x]
      by (subst match_rest.simps) (simp add: reads)
  qed
qed

lemma find_loop_spec:
  "list_all valid (y # ys) \<Longrightarrow> list_all valid xs \<Longrightarrow>
    find_loop dec y (concat (map enc ys)) (concat (map enc xs)) pos = Some (Inr (find_sub (y # ys) xs pos))"
proof (induction xs arbitrary: pos)
  case Nil
  then show ?case by (subst find_loop.simps) simp
next
  case (Cons x xs)
  then show ?case using some_bytes[of x] match_rest_spec[of ys xs]
    by (subst find_loop.simps) (auto simp: reads)
qed

lemma find_one_string_spec:
  "list_all valid (y # ys) \<Longrightarrow> list_all valid xs \<Longrightarrow>
    find_one_string (concat (map enc xs)) (concat (map enc (y # ys))) dec dec = Some (Inr (find_sub (y # ys) xs 0))"
  using find_loop_spec[of y ys xs 0] by (simp add: find_one_string_def reads)

end

section \<open>The encodings of the library\<close>

definition enc_valid :: "string_encoding \<Rightarrow> u32 \<Rightarrow> bool" where
  "enc_valid encoding =
     (case encoding of
        string_encoding_ascii \<Rightarrow> ascii_valid | string_encoding_ucs_2 \<Rightarrow> ucs2_valid
      | string_encoding_utf_8 \<Rightarrow> is_code_point_valid | string_encoding_utf_16 \<Rightarrow> is_code_point_valid
      | string_encoding_utf_32 \<Rightarrow> is_code_point_valid | _ \<Rightarrow> (\<lambda>_. False))"

definition enc_bytes :: "string_encoding \<Rightarrow> u32 \<Rightarrow> u8 list" where
  "enc_bytes encoding =
     (case encoding of
        string_encoding_ascii \<Rightarrow> ascii_enc | string_encoding_ucs_2 \<Rightarrow> ucs2_enc
      | string_encoding_utf_8 \<Rightarrow> utf8_enc | string_encoding_utf_16 \<Rightarrow> utf16_enc
      | string_encoding_utf_32 \<Rightarrow> utf32_enc | _ \<Rightarrow> (\<lambda>_. []))"

text \<open>The functions a kernel gets; for an unknown encoding the kernel is not made.\<close>

definition next_of :: "string_encoding \<Rightarrow> assign_error_mode \<Rightarrow> next_fn" where
  "next_of encoding errmode =
     (case get_next_unicode_codepoint_function encoding errmode of Inl e \<Rightarrow> (\<lambda>s. Inl e) | Inr f \<Rightarrow> f)"

definition append_of :: "string_encoding \<Rightarrow> assign_error_mode \<Rightarrow> append_fn" where
  "append_of encoding errmode =
     (case get_append_unicode_codepoint_function encoding errmode of Inl e \<Rightarrow> (\<lambda>cp room. Inl e) | Inr f \<Rightarrow> f)"

lemma next_of_checked:
  "errmode \<noteq> assign_error_nocheck \<Longrightarrow> next_of encoding errmode = next_of encoding assign_error_default"
  by (simp add: next_of_def get_next_unicode_codepoint_function_def split: string_encoding.split)

lemma append_of_checked:
  "errmode \<noteq> assign_error_nocheck \<Longrightarrow> append_of encoding errmode = append_of encoding assign_error_default"
  by (simp add: append_of_def get_append_unicode_codepoint_function_def split: string_encoding.split)

lemmas encoding_tables = enc_valid_def enc_bytes_def next_of_def append_of_def
  get_next_unicode_codepoint_function_def get_append_unicode_codepoint_function_def

interpretation readers: codec "enc_valid e" "enc_bytes e" "next_of e assign_error_default" for e
proof (cases e)
  case string_encoding_ascii
  then show "codec (enc_valid e) (enc_bytes e) (next_of e assign_error_default)"
    by (simp add: encoding_tables ascii.codec_axioms)
next
  case string_encoding_ucs_2
  then show "codec (enc_valid e) (enc_bytes e) (next_of e assign_error_default)"
    by (simp add: encoding_tables ucs2.codec_axioms)
next
  case string_encoding_utf_8
  then show "codec (enc_valid e) (enc_bytes e) (next_of e assign_error_default)"
    by (simp add: encoding_tables utf8.codec_axioms)
next
  case string_encoding_utf_16
  then show "codec (enc_valid e) (enc_bytes e) (next_of e assign_error_default)"
    by (simp add: encoding_tables utf16.codec_axioms)
next
  case string_encoding_utf_32
  then show "codec (enc_valid e) (enc_bytes e) (next_of e assign_error_default)"
    by (simp add: encoding_tables utf32.codec_axioms)
qed (auto simp: encoding_tables codec_def)

lemma utf8_length: "is_code_point_valid cp \<Longrightarrow> 0 < length (utf8_enc cp) \<and> length (utf8_enc cp) \<le> 4"
  by (simp add: utf8_enc_def utf8_append_def)

lemma utf16_length: "length (utf16_enc cp) = (if cp > 0xffff then 4 else 2)"
  by (simp add: utf16_enc_cases surrogate_pair_def)

interpretation ascii_out: writer ascii_valid ascii_enc append_ascii 1
  by unfold_locales (auto simp: ascii_valid_def ascii_enc_def append_ascii_def high_bits_zero)

interpretation ucs2_out: writer ucs2_valid ucs2_enc append_ucs2 2
  by unfold_locales
    (auto simp: ucs2_valid_def ucs2_enc_def append_ucs2_def high_bits_zero is_code_point_valid_def)

lemma utf8_tight:
  "is_code_point_valid cp \<Longrightarrow> room < length (utf8_enc cp) \<Longrightarrow> append_utf8 cp room = Inl input_too_large"
  using utf8_length[of cp] by (simp add: append_utf8_def utf8_append_numbers(1))

lemma utf16_tight: "room < length (utf16_enc cp) \<Longrightarrow> 0 < room \<Longrightarrow> 2 dvd room \<Longrightarrow> append_utf16 cp room = Inl input_too_large"
  by (cases "cp > 0xffff") (auto simp: append_utf16_def utf16_length elim!: evenE)

interpretation utf8_out: writer is_code_point_valid utf8_enc append_utf8 1
  using utf8_length utf8_tight
  by unfold_locales (auto simp: append_utf8_def utf8_append_numbers(1))

interpretation utf16_out: writer is_code_point_valid utf16_enc append_utf16 2
proof
  fix cp room
  show "append_utf16 cp room = Inr (utf16_enc cp)" if "length (utf16_enc cp) \<le> room"
    using that utf16_length[of cp] by (auto simp: append_utf16_def utf16_enc_cases split: if_splits)
  show "0 < length (utf16_enc cp) \<and> length (utf16_enc cp) \<le> 4 \<and> 2 dvd length (utf16_enc cp)"
    by (simp add: utf16_length)
qed (use utf16_tight in auto)

lemma length_write32 [simp]: "length (write32 x) = 4"
  by (simp add: write32_def)

interpretation utf32_out: writer is_code_point_valid utf32_enc append_utf32 4
  by unfold_locales (auto simp: utf32_enc_def append_utf32_def simp del: neq0_conv dest: dvd_imp_le)

interpretation writers: writer "enc_valid e" "enc_bytes e" "append_of e assign_error_default" "string_encoding_char_size_table e" for e
proof (cases e)
  case string_encoding_ascii
  then show "writer (enc_valid e) (enc_bytes e) (append_of e assign_error_default) (string_encoding_char_size_table e)"
    by (simp add: encoding_tables string_encoding_char_size_table_def ascii_out.writer_axioms[simplified])
next
  case string_encoding_ucs_2
  then show "writer (enc_valid e) (enc_bytes e) (append_of e assign_error_default) (string_encoding_char_size_table e)"
    by (simp add: encoding_tables string_encoding_char_size_table_def ucs2_out.writer_axioms)
next
  case string_encoding_utf_8
  then show "writer (enc_valid e) (enc_bytes e) (append_of e assign_error_default) (string_encoding_char_size_table e)"
    by (simp add: encoding_tables string_encoding_char_size_table_def utf8_out.writer_axioms[simplified])
next
  case string_encoding_utf_16
  then show "writer (enc_valid e) (enc_bytes e) (append_of e assign_error_default) (string_encoding_char_size_table e)"
    by (simp add: encoding_tables string_encoding_char_size_table_def utf16_out.writer_axioms)
next
  case string_encoding_utf_32
  then show "writer (enc_valid e) (enc_bytes e) (append_of e assign_error_default) (string_encoding_char_size_table e)"
    by (simp add: encoding_tables string_encoding_char_size_table_def utf32_out.writer_axioms)
qed (auto simp: encoding_tables writer_def)

interpretation convert: transcoder "enc_valid s" "enc_bytes s" "next_of s assign_error_default"
  "enc_valid d" "enc_bytes d" "append_of d assign_error_default" "string_encoding_char_size_table d" for s d
  by unfold_locales

text \<open>The bytes of a list of code points in an encoding.\<close>

abbreviation text_bytes :: "string_encoding \<Rightarrow> u32 list \<Rightarrow> u8 list" where
  "text_bytes e cps \<equiv> concat (map (enc_bytes e) cps)"

lemma zero_valid: "e \<noteq> string_encoding_latin1 \<Longrightarrow> e \<noteq> string_encoding_invalid \<Longrightarrow> enc_valid e 0"
  by (cases e) (simp_all add: enc_valid_def ascii_valid_def ucs2_valid_def is_code_point_valid_def is_surrogate_def)

lemma capacity_large: "enc_valid d cp \<Longrightarrow> 8 \<le> initial_capacity s d n"
  by (cases d) (simp_all add: initial_capacity_def string_encoding_char_size_table_def enc_valid_def le_div_geq less_eq_div_iff_mult_less_eq)

section \<open>The properties of the kernels\<close>



text \<open>
  The two-letter text that stands in a four-byte string does not go into a two-byte string,
  although it fits; in a two-byte string it does. Without checks the same text is stored.
\<close>

lemma fixed_string_exact_fit_refused:
  "fixed_string_assign next_ascii append_ascii True [0x61, 0x62, 0, 0] [] 2 = Some (Inl string_too_large)
   \<and> fixed_string_assign next_ascii append_ascii True [0x61, 0x62] [] 2 = Some (Inr [0x61, 0x62])
   \<and> fixed_string_assign noerror_next_ascii noerror_append_ascii False [0x61, 0x62, 0, 0] [] 2 = Some (Inr [0x61, 0x62])"
  by (simp add: fixed_string_assign.simps next_ascii_def append_ascii_def noerror_next_ascii_def
      noerror_append_ascii_def checked_append_def)



section \<open>Searching\<close>

text \<open>On well-formed text the unchecked read functions do what the checked ones do.\<close>

lemma noerror_agree:
  "next_ascii s = Inr a \<Longrightarrow> noerror_next_ascii s = Inr a"
  "next_ucs2 s = Inr a \<Longrightarrow> noerror_next_ucs2 s = Inr a"
  "next_utf8 s = Inr a \<Longrightarrow> noerror_next_utf8 s = Inr a"
  "next_utf16 s = Inr a \<Longrightarrow> noerror_next_utf16 s = Inr a"
  "next_utf32 s = Inr a \<Longrightarrow> noerror_next_utf32 s = Inr a"
proof -
  show "next_utf8 s = Inr a \<Longrightarrow> noerror_next_utf8 s = Inr a"
    by (cases a) (auto simp: next_utf8_ok noerror_next_utf8_def Let_def)
qed (auto simp: next_ascii_def noerror_next_ascii_def next_ucs2_def noerror_next_ucs2_def next_utf16_def
    noerror_next_utf16_def next_utf32_def noerror_next_utf32_def split: list.splits option.splits if_splits)

lemma unchecked_agrees:
  "next_of e assign_error_default s = Inr a \<Longrightarrow> next_of e assign_error_nocheck s = Inr a"
  by (cases e) (simp_all add: encoding_tables noerror_agree)

interpretation unsafe: reader "enc_valid e" "enc_bytes e" "next_of e assign_error_nocheck" for e
  by unfold_locales (simp_all add: readers.enc_nonempty unchecked_agrees readers.dec_enc)

text \<open>
  The search for a non-empty substring in a text of the same encoding ends, and gives the first
  position, counted in code points, at which the substring stands, or \<open>-1\<close>.
\<close>

lemma find_one_string_exact:
  assumes "list_all (enc_valid e) (y # ys)" "list_all (enc_valid e) xs"
  shows "find_one_string (text_bytes e xs) (text_bytes e (y # ys)) (next_of e assign_error_nocheck) (next_of e assign_error_nocheck)
    = Some (Inr (find_sub (y # ys) xs 0))"
  by (rule unsafe.find_one_string_spec[OF assms])

lemma find_one_string_exact_witness:
  "find_one_string (text_bytes string_encoding_utf_16 [0x61, 0x62, 0x61, 0x63]) (text_bytes string_encoding_utf_16 (0x61 # [0x63]))
     (next_of string_encoding_utf_16 assign_error_nocheck) (next_of string_encoding_utf_16 assign_error_nocheck)
   = Some (Inr (find_sub (0x61 # [0x63]) [0x61, 0x62, 0x61, 0x63] 0))
   \<and> find_sub (0x61 # [0x63]) [0x61, 0x62, 0x61, 0x63] 0 = 2"
  by (rule conjI find_one_string_exact)+
    (simp_all add: enc_valid_def is_code_point_valid_def is_surrogate_def word_less_def word_le_def)

text \<open>
  When the encodings differ, the rest of the substring is read with the function of the text: the
  UTF-16 substring \<open>ab\<close> is not found in ASCII \<open>ab\<close>, though its first letter is.
\<close>

lemma find_reads_substring_as_text:
  "find_one_string [0x61, 0x62] [0x61, 0, 0x62, 0] (next_of string_encoding_ascii assign_error_nocheck)
     (next_of string_encoding_utf_16 assign_error_nocheck) = Some (Inr (- 1))
   \<and> find_one_string [0x61, 0x62] [0x61, 0] (next_of string_encoding_ascii assign_error_nocheck)
     (next_of string_encoding_utf_16 assign_error_nocheck) = Some (Inr 0)"
  by (simp add: encoding_tables find_one_string_def noerror_next_utf16_def noerror_next_ascii_def find_loop.simps
      match_rest.simps is_lead_surrogate_def is_trail_surrogate_def)

end
