(* ===== verification/Escape.thy ===== *)
theory Escape
  imports Scan Unicode
begin

text \<open>
  Printing strings with escapes and reading them back: \<^verbatim>\<open>print_escaped_unicode_codepoint\<close> and
  \<^verbatim>\<open>print_escaped_utf8_string\<close> of \<^verbatim>\<open>src/dynd/string_encodings.cpp\<close>, \<^verbatim>\<open>hexadecimal_print\<close> of
  \<^verbatim>\<open>src/dynd/type.cpp\<close>, \<^verbatim>\<open>string_type::print_data\<close>, and \<^verbatim>\<open>unescape_string\<close> of
  \<^verbatim>\<open>src/dynd/parser_util.cpp\<close>. Text that is parsed or printed is a string, data are bytes.
\<close>

section \<open>Bytes and characters\<close>

definition byte_char :: "u8 \<Rightarrow> char" where
  "byte_char b = char_of (unat b)"

text \<open>The code point of an ASCII character as the source compares it.\<close>

definition char_code :: "char \<Rightarrow> u32" where
  "char_code c = word_of_nat (of_char c)"

section \<open>Hexadecimal output\<close>

definition hex_digit :: "u8 \<Rightarrow> char" where
  "hex_digit v = ''0123456789abcdef'' ! unat v"

definition hexadecimal_print_u8 :: "u8 \<Rightarrow> string" where
  "hexadecimal_print_u8 v = [hex_digit (drop_bit 4 v), hex_digit (v AND 0x0f)]"

definition hexadecimal_print_u16 :: "u16 \<Rightarrow> string" where
  "hexadecimal_print_u16 v =
     hexadecimal_print_u8 (ucast (drop_bit 8 v AND 0xff)) @ hexadecimal_print_u8 (ucast (v AND 0xff))"

definition hexadecimal_print_u32 :: "u32 \<Rightarrow> string" where
  "hexadecimal_print_u32 v =
     hexadecimal_print_u8 (ucast (drop_bit 24 v)) @ hexadecimal_print_u8 (ucast (drop_bit 16 v AND 0xff)) @
     hexadecimal_print_u8 (ucast (drop_bit 8 v AND 0xff)) @ hexadecimal_print_u8 (ucast (v AND 0xff))"

section \<open>Printing\<close>

definition print_escaped_unicode_codepoint :: "u32 \<Rightarrow> bool \<Rightarrow> string" where
  "print_escaped_unicode_codepoint cp single_quote =
     (if cp < 0x80
      then (if cp = 0x08 then [CHR 0x5C, CHR ''b'']
            else if cp = 0x0c then [CHR 0x5C, CHR ''f'']
            else if cp = 0x0a then [CHR 0x5C, CHR ''n'']
            else if cp = 0x0d then [CHR 0x5C, CHR ''r'']
            else if cp = 0x09 then [CHR 0x5C, CHR ''t'']
            else if cp = 0x5c then [CHR 0x5C, CHR 0x5C]
            else if cp = 0x27 then (if single_quote then [CHR 0x5C, CHR 0x27] else [CHR 0x27])
            else if cp = 0x22 then (if single_quote then [CHR 0x22] else [CHR 0x5C, CHR 0x22])
            else if cp < 0x20 \<or> cp = 0x7f
            then [CHR 0x5C, CHR ''u''] @ hexadecimal_print_u16 (ucast cp)
            else [byte_char (ucast cp)])
      else if cp < 0x10000
      then [CHR 0x5C, CHR ''u''] @ hexadecimal_print_u16 (ucast cp)
      else [CHR 0x5C, CHR ''U''] @ hexadecimal_print_u32 cp)"

text \<open>
  The loop over a range, shared by \<^verbatim>\<open>print_escaped_utf8_string\<close>, which reads UTF-8 with checks, and by
  \<^verbatim>\<open>string_type::print_data\<close>, which reads its encoding without.
\<close>

partial_function (option) print_escaped_loop ::
  "next_fn \<Rightarrow> bool \<Rightarrow> u8 list \<Rightarrow> string \<Rightarrow> (codec_error + string) option" where
  "print_escaped_loop next_fn single_quote s o1 =
     (if s = [] then Some (Inr o1)
      else (case next_fn s of
              Inl e \<Rightarrow> Some (Inl e)
            | Inr (cp, rest) \<Rightarrow>
                print_escaped_loop next_fn single_quote rest (o1 @ print_escaped_unicode_codepoint cp single_quote)))"

definition print_escaped_utf8_string :: "u8 list \<Rightarrow> bool \<Rightarrow> (codec_error + string) option" where
  "print_escaped_utf8_string s single_quote =
     (let quote = (if single_quote then CHR 0x27 else CHR 0x22)
      in map_option (map_sum id (\<lambda>o1. o1 @ [quote])) (print_escaped_loop next_utf8 single_quote s [quote]))"

definition string_type_print_data :: "string_encoding \<Rightarrow> u8 list \<Rightarrow> (codec_error + string) option" where
  "string_type_print_data encoding s =
     (case get_next_unicode_codepoint_function encoding assign_error_nocheck of
        Inl e \<Rightarrow> Some (Inl e)
      | Inr next_fn \<Rightarrow>
          map_option (map_sum id (\<lambda>o1. o1 @ [CHR 0x22])) (print_escaped_loop next_fn False s [CHR 0x22]))"

section \<open>Removing the escapes\<close>

text \<open>One hexadecimal digit; a character that is none makes the value a question mark.\<close>

definition hex_step :: "u32 \<Rightarrow> char \<Rightarrow> u32" where
  "hex_step cp d =
     (if CHR ''0'' \<le> d \<and> d \<le> CHR ''9'' then cp * 16 + (char_code d - char_code CHR ''0'')
      else if CHR ''A'' \<le> d \<and> d \<le> CHR ''F'' then cp * 16 + (char_code d - char_code CHR ''A'' + 10)
      else if CHR ''a'' \<le> d \<and> d \<le> CHR ''f'' then cp * 16 + (char_code d - char_code CHR ''a'' + 10)
      else char_code CHR ''?'')"

definition append_utf8_codepoint :: "u32 \<Rightarrow> codec_error + string" where
  "append_utf8_codepoint cp = map_sum id (map byte_char) (utf8_append cp)"

function unescape_string :: "string \<Rightarrow> string \<Rightarrow> codec_error + string" where
  "unescape_string [] out = Inr out"
| "unescape_string (c # s) out =
     (if c = CHR 0x5C
      then (case s of
              [] \<Rightarrow> Inr out
            | d # s \<Rightarrow>
                if d = CHR 0x22 \<or> d = CHR 0x5C \<or> d = CHR ''/'' then unescape_string s (out @ [d])
                else if d = CHR ''b'' then unescape_string s (out @ [CHR 0x08])
                else if d = CHR ''f'' then unescape_string s (out @ [CHR 0x0C])
                else if d = CHR ''n'' then unescape_string s (out @ [CHR 0x0A])
                else if d = CHR ''r'' then unescape_string s (out @ [CHR 0x0D])
                else if d = CHR ''t'' then unescape_string s (out @ [CHR 0x09])
                else if d = CHR ''u''
                then (if length s < 4 then Inr out
                      else (case append_utf8_codepoint (foldl hex_step 0 (take 4 s)) of
                              Inl e \<Rightarrow> Inl e
                            | Inr b \<Rightarrow> unescape_string (drop 4 s) (out @ b)))
                else if d = CHR ''U''
                then (if length s < 8 then Inr out
                      else (case append_utf8_codepoint (foldl hex_step 0 (take 8 s)) of
                              Inl e \<Rightarrow> Inl e
                            | Inr b \<Rightarrow> unescape_string (drop 8 s) (out @ b)))
                else unescape_string s (out @ [CHR ''?'']))
      else unescape_string s (out @ [c]))"
  by pat_completeness auto
termination
  by (relation "measure (\<lambda>(s, _). length s)") auto

section \<open>Hexadecimal digits are read back\<close>

lemma hex_digit_step:
  assumes "uint n < 16"
  shows "hex_step cp (hex_digit n) = cp * 16 + ucast n" and "is_hex_digit (hex_digit n)"
proof -
  define k where "k = unat n"
  have n: "n = word_of_nat k" by (simp add: k_def)
  have "nat (uint n) < 16" using assms by linarith
  then have "k < 16" by (simp add: k_def)
  then have "k = 0 \<or> k = 1 \<or> k = 2 \<or> k = 3 \<or> k = 4 \<or> k = 5 \<or> k = 6 \<or> k = 7 \<or> k = 8 \<or> k = 9 \<or> k = 10 \<or> k = 11 \<or> k = 12 \<or> k = 13 \<or> k = 14 \<or> k = 15"
    by presburger
  then have "hex_step cp (hex_digit n) = cp * 16 + ucast n \<and> is_hex_digit (hex_digit n)"
    unfolding n by (elim disjE) (simp_all add: hex_digit_def hex_step_def char_code_def is_hex_digit_def)
  then show "hex_step cp (hex_digit n) = cp * 16 + ucast n" "is_hex_digit (hex_digit n)" by blast+
qed

lemma byte_nibbles:
  fixes b :: u8
  shows "uint (drop_bit 4 b) = uint b div 16" "uint (b AND 0x0f) = uint b mod 16"
    "uint (drop_bit 4 b) < 16" "uint (b AND 0x0f) < 16"
proof -
  show a: "uint (drop_bit 4 b) = uint b div 16" by simp
  show c: "uint (b AND 0x0f) = uint b mod 16" using uint_low_field[of "0x0f :: u8" 4 b] by simp
  show "uint (drop_bit 4 b) < 16" unfolding a using int_div_less[of 16 "uint b" 16] uint_u8_bounds[of b] by simp
  show "uint (b AND 0x0f) < 16" unfolding c by simp
qed

lemma ucast_word_of_int: "(ucast (w :: 'a::len word) :: u32) = word_of_int (uint w)"
  by (rule ucast_eq)

lemma hex_u8: "foldl hex_step cp (hexadecimal_print_u8 b) = cp * 256 + ucast b"
proof -
  have "ucast (drop_bit 4 b) * 16 + ucast (b AND 0x0f) = (ucast b :: u32)"
    unfolding ucast_word_of_int byte_nibbles(1,2)
    by (metis div_mult_mod_eq of_int_add of_int_mult of_int_numeral)
  moreover have "foldl hex_step cp (hexadecimal_print_u8 b) = (cp * 16 + ucast (drop_bit 4 b)) * 16 + ucast (b AND 0x0f)"
    by (simp only: hexadecimal_print_u8_def foldl.simps hex_digit_step(1)[OF byte_nibbles(3)] hex_digit_step(1)[OF byte_nibbles(4)])
  moreover have "(cp * 16 + a) * 16 + c = cp * 256 + (a * 16 + c)" for a c :: u32 by (simp add: algebra_simps)
  ultimately show ?thesis by metis
qed

lemma low_byte:
  fixes v :: "'a::len word"
  assumes "8 \<le> LENGTH('a)"
  shows "(ucast (ucast (drop_bit n v AND 0xff) :: u8) :: u32) = word_of_int (uint v div 2 ^ n mod 256)"
proof -
  have m: "uint (0xff :: 'a word) = 2 ^ 8 - 1"
  proof -
    have "(0xff :: 'a word) = mask 8" by (simp add: mask_eq_exp_minus_1)
    then show ?thesis using assms by (simp only: uint_mask_eq) (simp add: mask_eq_exp_minus_1 min_def)
  qed
  have "uint (drop_bit n v AND 0xff) = uint v div 2 ^ n mod 256"
    using uint_low_field[OF m, of "drop_bit n v"] by simp
  then show ?thesis by (simp add: ucast_word_of_int unsigned_ucast_eq take_bit_eq_mod)
qed

lemma hex_u16: "foldl hex_step 0 (hexadecimal_print_u16 v) = ucast v"
proof -
  have "uint v div 256 < 256" using uint_lt2p[of v] by (intro int_div_less) simp_all
  then have "uint v div 2 ^ 8 mod 256 * 256 + uint v div 2 ^ 0 mod 256 = uint v"
    using div_mult_mod_eq[of "uint v" 256] by (simp add: pos_imp_zdiv_nonneg_iff)
  moreover have "foldl hex_step 0 (hexadecimal_print_u16 v)
    = word_of_int (uint v div 2 ^ 8 mod 256 * 256 + uint v div 2 ^ 0 mod 256)"
    using low_byte[of 8 v] low_byte[of 0 v] by (simp add: hexadecimal_print_u16_def hex_u8)
  ultimately show ?thesis by (simp only: ucast_word_of_int)
qed

lemma hex_u32: "foldl hex_step 0 (hexadecimal_print_u32 v) = v"
proof -
  have top: "(ucast (ucast (drop_bit 24 v) :: u8) :: u32) = word_of_int (uint v div 2 ^ 24)"
  proof -
    have "uint v div 2 ^ 24 < 2 ^ 8" using uint_u32_bounds[of v] by (intro int_div_less) simp_all
    then show ?thesis by (simp add: ucast_word_of_int unsigned_ucast_eq take_bit_eq_mod pos_imp_zdiv_nonneg_iff)
  qed
  have "foldl hex_step 0 (hexadecimal_print_u32 v)
    = word_of_int (((uint v div 2 ^ 24 * 256 + uint v div 2 ^ 16 mod 256) * 256 + uint v div 2 ^ 8 mod 256) * 256 + uint v div 2 ^ 0 mod 256)"
    using low_byte[of 16 v] low_byte[of 8 v] low_byte[of 0 v] top by (simp add: hexadecimal_print_u32_def hex_u8)
  also have "((uint v div 2 ^ 24 * 256 + uint v div 2 ^ 16 mod 256) * 256 + uint v div 2 ^ 8 mod 256) * 256 + uint v div 2 ^ 0 mod 256 = uint v"
  proof -
    define a where "a = uint v div 256"
    define b where "b = a div 256"
    have "uint v div (256 * 256) = b" "a div (256 * 256) = b div 256"
      unfolding a_def b_def by (rule zdiv_zmult2_eq; simp)+
    then have e: "uint v div 2 ^ 16 = b" "uint v div 2 ^ 8 = a" by (simp_all add: a_def)
    have "uint v div (65536 * 256) = uint v div 65536 div 256" by (rule zdiv_zmult2_eq) simp
    then have f: "uint v div 2 ^ 24 = b div 256" using e(1) by simp
    have "uint v = a * 256 + uint v mod 256" "a = b * 256 + a mod 256" "b = b div 256 * 256 + b mod 256"
      by (simp_all only: a_def b_def div_mult_mod_eq)
    then show ?thesis unfolding e f by simp
  qed
  finally show ?thesis by simp
qed

section \<open>Printed code points are scanned and unescaped\<close>

lemma hex_lengths [simp]:
  "length (hexadecimal_print_u8 b) = 2" "length (hexadecimal_print_u16 v) = 4" "length (hexadecimal_print_u32 w) = 8"
  by (simp_all add: hexadecimal_print_u8_def hexadecimal_print_u16_def hexadecimal_print_u32_def)

lemma hex_print_digits:
  "list_all is_hex_digit (hexadecimal_print_u8 b)" "list_all is_hex_digit (hexadecimal_print_u16 v)"
  "list_all is_hex_digit (hexadecimal_print_u32 w)"
proof -
  show *: "list_all is_hex_digit (hexadecimal_print_u8 b)" for b
    using hex_digit_step(2)[OF byte_nibbles(3)[of b]] hex_digit_step(2)[OF byte_nibbles(4)[of b]]
    by (simp add: hexadecimal_print_u8_def)
  show "list_all is_hex_digit (hexadecimal_print_u16 v)" by (simp add: hexadecimal_print_u16_def *)
  show "list_all is_hex_digit (hexadecimal_print_u32 w)" by (simp add: hexadecimal_print_u32_def *)
qed

lemma scan_hex_digits:
  assumes "list_all is_hex_digit h" "length h = n"
  shows "scan_hex n e (h @ s) = Inr s"
proof -
  have "find (\<lambda>i. \<not> is_hex_digit ((h @ s) ! i)) [0..<n] = None"
    using assms by (auto simp: find_None_iff nth_append list_all_length)
  then show ?thesis using assms(2) by (simp add: scan_hex_def)
qed

lemma ascii_char:
  assumes "cp < 0x80"
  shows "utf8_enc cp = [ucast cp]" "of_char (byte_char (ucast cp)) = unat cp"
proof -
  have c: "uint cp < 128" using assms by (simp add: word_less_def)
  then show "utf8_enc cp = [ucast cp]"
    by (simp add: utf8_enc_def utf8_append_def code_point_valid_uint assms)
  have "uint (ucast cp :: u8) = uint cp" unfolding uint_ucast_32_8 using c by simp
  then have u: "unat (ucast cp :: u8) = unat cp" by (metis nat_uint_eq)
  have "nat (uint cp) < 128" using c by linarith
  then have "unat cp < 128" by simp
  then show "of_char (byte_char (ucast cp)) = unat cp" by (simp add: byte_char_def u)
qed

lemma ascii_codes:
  "byte_char 0x08 = CHR 0x08" "byte_char 0x0c = CHR 0x0C" "byte_char 0x0a = CHR 0x0A" "byte_char 0x0d = CHR 0x0D"
  "byte_char 0x09 = CHR 0x09" "byte_char 0x5c = CHR 0x5C" "byte_char 0x22 = CHR 0x22"
  "byte_char 0x27 = CHR 0x27"
  by (code_simp, code_simp, code_simp, code_simp, code_simp, code_simp, code_simp, code_simp)

lemma of_nat_unat_u32: "of_nat (unat (cp :: u32)) = cp"
  by simp

text \<open>What the printer writes for a code point is one of four shapes.\<close>

lemma print_shapes:
  assumes "is_code_point_valid cp"
  obtains (letter) l where "print_escaped_unicode_codepoint cp False = [CHR 0x5C, l]"
      "l \<in> {CHR ''b'', CHR ''f'', CHR ''n'', CHR ''r'', CHR ''t'', CHR 0x5C, CHR 0x22}"
      "\<And>s out. unescape_string (CHR 0x5C # l # s) out = unescape_string s (out @ map byte_char (utf8_enc cp))"
    | (plain) c where "print_escaped_unicode_codepoint cp False = [c]" "c \<noteq> CHR 0x5C" "c \<noteq> CHR 0x22"
      "map byte_char (utf8_enc cp) = [c]"
    | (short) "print_escaped_unicode_codepoint cp False = CHR 0x5C # CHR ''u'' # hexadecimal_print_u16 (ucast cp)"
      "(ucast (ucast cp :: u16) :: u32) = cp"
    | (long) "print_escaped_unicode_codepoint cp False = CHR 0x5C # CHR ''U'' # hexadecimal_print_u32 cp"
proof (cases "cp < 0x80")
  case True
  note enc = ascii_char(1)[OF True] and code = ascii_char(2)[OF True]
  consider (special) "cp \<in> {0x08, 0x0c, 0x0a, 0x0d, 0x09, 0x5c, 0x22}"
    | (control) "cp \<notin> {0x08, 0x0c, 0x0a, 0x0d, 0x09, 0x5c, 0x22}" "cp < 0x20 \<or> cp = 0x7f"
    | (print) "cp \<notin> {0x08, 0x0c, 0x0a, 0x0d, 0x09, 0x5c, 0x22}" "\<not> (cp < 0x20 \<or> cp = 0x7f)" by blast
  then show ?thesis
  proof cases
    case special
    define l where "l = (if cp = 0x08 then CHR ''b'' else if cp = 0x0c then CHR ''f'' else if cp = 0x0a then CHR ''n''
      else if cp = 0x0d then CHR ''r'' else if cp = 0x09 then CHR ''t'' else if cp = 0x5c then CHR 0x5C else CHR 0x22)"
    show ?thesis
    proof (rule letter)
      show "print_escaped_unicode_codepoint cp False = [CHR 0x5C, l]"
        using special by (elim insertE emptyE) (simp_all add: l_def print_escaped_unicode_codepoint_def)
      show "l \<in> {CHR ''b'', CHR ''f'', CHR ''n'', CHR ''r'', CHR ''t'', CHR 0x5C, CHR 0x22}" by (simp add: l_def)
      show "unescape_string (CHR 0x5C # l # s) out = unescape_string s (out @ map byte_char (utf8_enc cp))" for s out
        unfolding enc using special by (elim insertE emptyE) (simp_all add: l_def ascii_codes)
    qed
  next
    case control
    have "uint cp < 128" using True by (simp add: word_less_def)
    then have "(ucast (ucast cp :: u16) :: u32) = cp" by (simp only: word_uint_eq_iff u16_u32) simp
    then show ?thesis using control
      by (intro short) (auto simp: print_escaped_unicode_codepoint_def word_less_def)
  next
    case print
    have "unat cp \<noteq> 0x5c" "unat cp \<noteq> 0x22"
      using print(1) by (metis insertCI of_nat_numeral of_nat_unat_u32, metis insertCI of_nat_numeral of_nat_unat_u32)
    then have "of_char (byte_char (ucast cp)) \<noteq> (0x5c :: nat)" "of_char (byte_char (ucast cp)) \<noteq> (0x22 :: nat)"
      unfolding code by blast+
    then have "byte_char (ucast cp) \<noteq> CHR 0x5C" "byte_char (ucast cp) \<noteq> CHR 0x22" by auto
    then show ?thesis using print True enc
      by (intro plain[of "byte_char (ucast cp)"]) (auto simp: print_escaped_unicode_codepoint_def ascii_codes)
  qed
next
  case False
  show ?thesis
  proof (cases "cp < 0x10000")
    case True
    then have "uint cp < 65536" by (simp add: word_less_def)
    then have "(ucast (ucast cp :: u16) :: u32) = cp" by (simp only: word_uint_eq_iff u16_u32) simp
    then show ?thesis using True False by (intro short) (auto simp: print_escaped_unicode_codepoint_def)
  qed (use False in \<open>auto intro: long simp: print_escaped_unicode_codepoint_def\<close>)
qed

context codec
begin

lemma text_head:
  assumes "list_all valid cps" "s = concat (map enc cps)" "s \<noteq> []"
  obtains cp cs where "cps = cp # cs" "list_all valid cs" "dec s = Inr (cp, concat (map enc cs))"
  using assms by (cases cps) (auto simp: dec_enc)

lemma print_loop_spec:
  "\<exists>v. print_escaped_loop dec quoted s o1 = Some v
     \<and> (case v of Inl _ \<Rightarrow> \<nexists>cps. list_all valid cps \<and> s = concat (map enc cps)
        | Inr r \<Rightarrow> \<exists>cps. list_all valid cps \<and> s = concat (map enc cps)
            \<and> r = o1 @ concat (map (\<lambda>cp. print_escaped_unicode_codepoint cp quoted) cps))"
proof (induction s arbitrary: o1 rule: length_induct)
  case (1 s)
  show ?case
  proof (cases "s = []")
    case True
    then show ?thesis by (subst print_escaped_loop.simps) (auto intro: exI[of _ "[]"])
  next
    case False
    show ?thesis
    proof (cases "dec s")
      case (Inl e)
      then have "\<nexists>cps. list_all valid cps \<and> s = concat (map enc cps)" using False by (auto elim: text_head)
      then show ?thesis using False Inl by (subst print_escaped_loop.simps) auto
    next
      case (Inr p)
      obtain cp rest where p: "p = (cp, rest)" by fastforce
      note d = dec_sound[OF Inr[unfolded p]] and less = dec_shrinks[OF Inr[unfolded p]]
      have step: "print_escaped_loop dec quoted s o1
          = print_escaped_loop dec quoted rest (o1 @ print_escaped_unicode_codepoint cp quoted)"
        using False Inr p by (subst print_escaped_loop.simps) simp
      obtain v where v: "print_escaped_loop dec quoted rest (o1 @ print_escaped_unicode_codepoint cp quoted) = Some v"
        "case v of Inl _ \<Rightarrow> \<nexists>cps. list_all valid cps \<and> rest = concat (map enc cps)
         | Inr r \<Rightarrow> \<exists>cps. list_all valid cps \<and> rest = concat (map enc cps)
            \<and> r = (o1 @ print_escaped_unicode_codepoint cp quoted) @ concat (map (\<lambda>cp. print_escaped_unicode_codepoint cp quoted) cps)"
        using 1 less by blast
      show ?thesis
      proof (cases v)
        case (Inl e)
        have "\<nexists>cps. list_all valid cps \<and> s = concat (map enc cps)"
        proof
          assume "\<exists>cps. list_all valid cps \<and> s = concat (map enc cps)"
          then obtain cps where "list_all valid cps" "s = concat (map enc cps)" by blast
          from text_head[OF this False]
          obtain cs where "list_all valid cs" "rest = concat (map enc cs)" using \<open>dec s = Inr p\<close> p by auto
          then show False using v(2) unfolding Inl sum.case by blast
        qed
        then show ?thesis unfolding step v(1) Inl by simp
      next
        case (Inr r)
        then obtain cps where "list_all valid cps" "rest = concat (map enc cps)"
          "r = (o1 @ print_escaped_unicode_codepoint cp quoted) @ concat (map (\<lambda>cp. print_escaped_unicode_codepoint cp quoted) cps)"
          using v(2) unfolding Inr by auto
        then have "list_all valid (cp # cps) \<and> s = concat (map enc (cp # cps))
          \<and> r = o1 @ concat (map (\<lambda>cp. print_escaped_unicode_codepoint cp quoted) (cp # cps))"
          using d by simp
        then show ?thesis unfolding step v(1) Inr by (intro exI[of _ "Inr r"], unfold sum.case, blast)
      qed
    qed
  qed
qed

end

section \<open>The scanner and the unescaping on printed text\<close>

text \<open>The printed text of one code point passes the string scanner.\<close>

lemma dq_loop_print:
  assumes "is_code_point_valid cp"
  shows "\<exists>f. \<forall>start flag s. dq_loop start flag (print_escaped_unicode_codepoint cp False @ s) = dq_loop start (flag \<or> f) s
    \<and> (\<not> f \<longrightarrow> print_escaped_unicode_codepoint cp False = map byte_char (utf8_enc cp))"
  using assms
proof (cases rule: print_shapes)
  case (letter l)
  then show ?thesis by (intro exI[of _ True]) auto
next
  case (plain c)
  then show ?thesis by (intro exI[of _ False]) auto
next
  case short
  have "scan_hex 4 e (hexadecimal_print_u16 (ucast cp) @ s) = Inr s" for e s
    by (rule scan_hex_digits) (simp_all add: hex_print_digits)
  then show ?thesis unfolding short(1) by (intro exI[of _ True]) auto
next
  case long
  have "scan_hex 8 e (hexadecimal_print_u32 cp @ s) = Inr s" for e s
    by (rule scan_hex_digits) (simp_all add: hex_print_digits)
  then show ?thesis unfolding long(1) by (intro exI[of _ True]) auto
qed

lemma append_utf8_codepoint_valid:
  "is_code_point_valid cp \<Longrightarrow> append_utf8_codepoint cp = Inr (map byte_char (utf8_enc cp))"
  by (auto simp: append_utf8_codepoint_def utf8_enc_def utf8_append_def)

lemma unescape_print:
  assumes "is_code_point_valid cp"
  shows "unescape_string (print_escaped_unicode_codepoint cp False @ s) out
    = unescape_string s (out @ map byte_char (utf8_enc cp))"
  using assms
proof (cases rule: print_shapes)
  case short
  then show ?thesis
    by (simp add: hex_u16 append_utf8_codepoint_valid[OF assms])
next
  case long
  then show ?thesis by (simp add: hex_u32 append_utf8_codepoint_valid[OF assms])
qed simp_all

lemma printed_text_scans:
  assumes "list_all is_code_point_valid cps"
  shows "\<exists>f. \<forall>start flag s.
      dq_loop start flag (concat (map (\<lambda>cp. print_escaped_unicode_codepoint cp False) cps) @ s) = dq_loop start (flag \<or> f) s
      \<and> (\<not> f \<longrightarrow> concat (map (\<lambda>cp. print_escaped_unicode_codepoint cp False) cps) = map byte_char (concat (map utf8_enc cps)))"
  using assms
proof (induction cps)
  case (Cons cp cps)
  then obtain f where f: "\<And>start flag s.
      dq_loop start flag (concat (map (\<lambda>cp. print_escaped_unicode_codepoint cp False) cps) @ s) = dq_loop start (flag \<or> f) s"
      "\<not> f \<longrightarrow> concat (map (\<lambda>cp. print_escaped_unicode_codepoint cp False) cps) = map byte_char (concat (map utf8_enc cps))"
    by auto
  obtain g where g: "\<And>start flag s. dq_loop start flag (print_escaped_unicode_codepoint cp False @ s) = dq_loop start (flag \<or> g) s"
      "\<not> g \<longrightarrow> print_escaped_unicode_codepoint cp False = map byte_char (utf8_enc cp)"
    using dq_loop_print[of cp] Cons.prems by auto
  show ?case
    by (rule exI[of _ "g \<or> f"]) (use f g in \<open>simp add: disj_assoc\<close>)
qed (auto intro: exI[of _ False])

lemma printed_text_unescapes:
  assumes "list_all is_code_point_valid cps"
  shows "unescape_string (concat (map (\<lambda>cp. print_escaped_unicode_codepoint cp False) cps)) out
    = Inr (out @ map byte_char (concat (map utf8_enc cps)))"
  using assms by (induction cps arbitrary: out) (simp_all add: unescape_print)

section \<open>Printed strings are read back\<close>

text \<open>
  C8. Printing a byte range as an escaped UTF-8 string returns for every range, and it is an error
  exactly when the range is not well-formed UTF-8. The printed text, whatever follows it, is one
  quoted string for the scanner, which stops right behind it; removing the escapes of the scanned
  body gives back the printed bytes, and a body the scanner reports as free of escapes is the bytes
  as they were.
\<close>

theorem printed_string_reads_back:
  "\<exists>v. print_escaped_utf8_string s False = Some v
     \<and> (case v of
          Inl _ \<Rightarrow> \<nexists>cps. encode string_encoding_utf_8 cps = Some s
        | Inr q \<Rightarrow> \<exists>body escaped. \<forall>rest.
            parse_doublequote_string_no_ws (q @ rest) = Some (Inr ((body, escaped), rest))
            \<and> unescape_string body [] = Inr (map byte_char s)
            \<and> (if escaped then True else body = map byte_char s))"
proof -
  let ?p = "\<lambda>cps. concat (map (\<lambda>cp. print_escaped_unicode_codepoint cp False) cps)"
  obtain v where v: "print_escaped_loop next_utf8 False s [CHR 0x22] = Some v"
    "case v of Inl _ \<Rightarrow> \<nexists>cps. list_all is_code_point_valid cps \<and> s = concat (map utf8_enc cps)
     | Inr r \<Rightarrow> \<exists>cps. list_all is_code_point_valid cps \<and> s = concat (map utf8_enc cps) \<and> r = [CHR 0x22] @ ?p cps"
    using utf8.print_loop_spec[of False s "[CHR 0x22]"] by blast
  show ?thesis
  proof (cases v)
    case (Inl e)
    then show ?thesis using v by (auto simp: print_escaped_utf8_string_def encode_def)
  next
    case (Inr r)
    then obtain cps where c: "list_all is_code_point_valid cps" "s = concat (map utf8_enc cps)" "r = CHR 0x22 # ?p cps"
      using v(2) by auto
    obtain f where f: "\<And>start flag s. dq_loop start flag (?p cps @ s) = dq_loop start (flag \<or> f) s"
      "\<not> f \<longrightarrow> ?p cps = map byte_char s" using printed_text_scans[OF c(1)] c(2) by blast
    have scan: "parse_doublequote_string_no_ws ((r @ [CHR 0x22]) @ rest) = Some (Inr ((?p cps, f), rest))" for rest
      by (simp add: parse_doublequote_string_no_ws_def parse_token_no_ws_def c(3) f(1))
    have un: "unescape_string (?p cps) [] = Inr (map byte_char s)" using printed_text_unescapes[OF c(1)] c(2) by simp
    have "print_escaped_utf8_string s False = Some (Inr (r @ [CHR 0x22]))"
      using v(1) Inr by (simp add: print_escaped_utf8_string_def)
    moreover have "\<forall>rest. parse_doublequote_string_no_ws ((r @ [CHR 0x22]) @ rest) = Some (Inr ((?p cps, f), rest))
        \<and> unescape_string (?p cps) [] = Inr (map byte_char s) \<and> (if f then True else ?p cps = map byte_char s)"
      using scan un f(2) by simp
    ultimately show ?thesis by (intro exI[of _ "Inr (r @ [CHR 0x22])"], unfold sum.case, blast)
  qed
qed

section \<open>Where printing and reading fall short\<close>

text \<open>
  The unchecked UTF-8 read does not advance past a byte that can start no sequence, so the unchecked
  print of a string that holds such a byte at the front of a character never returns.
\<close>

lemma noerror_next_utf8_stuck: "sequence_length b = 0 \<Longrightarrow> noerror_next_utf8 (b # s) = Inr (error_substitute, b # s)"
  by (simp add: noerror_next_utf8_def)

lemma print_loop_stuck:
  assumes "sequence_length b = 0"
  shows "print_escaped_loop noerror_next_utf8 q (b # s) o1 = None"
proof -
  have "next_fn = noerror_next_utf8 \<longrightarrow> t \<noteq> b # s" if "print_escaped_loop next_fn q t o1 = Some v" for next_fn q t o1 v
    using that
    by (rule print_escaped_loop.raw_induct[rotated])
      (use noerror_next_utf8_stuck[OF assms, of s] in \<open>fastforce split: if_splits\<close>)
  then show ?thesis by (metis not_None_eq)
qed

lemma noerror_next_utf8_enc:
  "is_code_point_valid cp \<Longrightarrow> noerror_next_utf8 (utf8_enc cp @ rest) = Inr (cp, rest)"
  using next_utf8_enc[of cp rest] by (auto simp: next_utf8_ok noerror_next_utf8_def Let_def)

lemma print_loop_reaches_stuck:
  assumes "sequence_length b = 0" "list_all is_code_point_valid cps"
  shows "print_escaped_loop noerror_next_utf8 q (concat (map utf8_enc cps) @ b # s) o1 = None"
  using assms(2)
proof (induction cps arbitrary: o1)
  case (Cons cp cps)
  then show ?case using utf8_enc_nonempty[of cp]
    by (subst print_escaped_loop.simps) (simp add: noerror_next_utf8_enc)
qed (simp add: print_loop_stuck[OF assms(1)])

text \<open>
  Printing the data of a UTF-8 string type never returns when, after any well-formed text, a
  character starts with a byte that no UTF-8 sequence can start with.
\<close>

lemma print_data_never_returns:
  assumes "list_all is_code_point_valid cps" and "sequence_length b = 0"
  shows "string_type_print_data string_encoding_utf_8 (concat (map utf8_enc cps) @ b # s) = None"
  by (simp add: string_type_print_data_def get_next_unicode_codepoint_function_def
      print_loop_reaches_stuck[OF assms(2,1)])

lemma print_data_never_returns_witness:
  "string_type_print_data string_encoding_utf_8 [0x41, 0xff, 0x42] = None"
proof -
  have "utf8_enc 0x41 = [0x41]" by (simp add: utf8_enc_def utf8_append_def is_code_point_valid_def is_surrogate_def)
  then show ?thesis
    using print_data_never_returns[of "[0x41]" "0xff" "[0x42]"]
    by (simp add: is_code_point_valid_def is_surrogate_def sequence_length_def)
qed

text \<open>
  The escape of a surrogate is an error: a character outside the basic plane that JSON writes as a
  pair of escapes is refused.
\<close>

lemma surrogate_escape_refused:
  "is_surrogate (ucast v) \<Longrightarrow>
    unescape_string (CHR 0x5C # CHR ''u'' # hexadecimal_print_u16 v @ s) out = Inl (invalid_code_point (ucast v))"
  by (simp add: hex_u16 append_utf8_codepoint_def utf8_append_def is_code_point_valid_def)

end
