(* ===== verification/Number_Parse.thy ===== *)
theory Number_Parse
  imports Escape Wide_Int
begin

text \<open>
  Numbers from text: the conversions of \<^verbatim>\<open>src/dynd/parser_util.cpp\<close> from a range of characters to
  integers, floating point numbers and booleans, with the overflow tests of
  \<^verbatim>\<open>include/dynd/parser_util.hpp\<close>. A range is the string of its characters. The two flags that the
  source passes by reference are arguments and results; what is stored behind \<^verbatim>\<open>out\<close> is a \<open>cell\<close>.
\<close>

section \<open>Unsigned integers of any width\<close>

text \<open>The operations of the template argument \<^verbatim>\<open>T\<close>: what \<open>result * 10u\<close>, \<open>+\<close> and \<open><\<close> mean for it.\<close>

record 'a uint_ops =
  zero_of :: 'a
  times_10 :: "'a \<Rightarrow> 'a"
  plus_u32 :: "'a \<Rightarrow> u32 \<Rightarrow> 'a"
  less_than :: "'a \<Rightarrow> 'a \<Rightarrow> bool"

definition u64_ops :: "u64 uint_ops" where
  "u64_ops = \<lparr> zero_of = 0, times_10 = (\<lambda>r. r * 10), plus_u32 = (\<lambda>r d. r + ucast d), less_than = (\<lambda>a b. a < b) \<rparr>"

definition uint128_ops :: "uint128 uint_ops" where
  "uint128_ops = \<lparr> zero_of = UInt128 0 0, times_10 = (\<lambda>r. uint128_mul r 10), plus_u32 = uint128_add_u32,
                   less_than = uint128_lt \<rparr>"

text \<open>The number after the exponent mark: any zeros and at most two digits.\<close>

definition exponent_digits :: "string \<Rightarrow> nat \<times> string" where
  "exponent_digits s =
     (case dropWhile (\<lambda>c. c = CHR ''0'') s of
        [] \<Rightarrow> (0, [])
      | c # t \<Rightarrow>
          if is_digit c
          then (case t of
                  [] \<Rightarrow> (nat (digit_val c), [])
                | d # u \<Rightarrow> if is_digit d then (10 * nat (digit_val c) + nat (digit_val d), u) else (nat (digit_val c), t))
          else (0, c # t))"

definition skip_plus :: "string \<Rightarrow> string" where
  "skip_plus s = (case s of c # t \<Rightarrow> if c = CHR ''+'' then t else s | [] \<Rightarrow> [])"

primrec apply_exponent :: "'a uint_ops \<Rightarrow> nat \<Rightarrow> 'a \<Rightarrow> 'a \<Rightarrow> bool \<Rightarrow> 'a \<times> bool" where
  "apply_exponent T 0 result prev_result overflow = (result, overflow)"
| "apply_exponent T (Suc n) result prev_result overflow =
     (let r = times_10 T result in apply_exponent T n r r (overflow \<or> less_than T r prev_result))"

primrec checked_digits :: "'a uint_ops \<Rightarrow> string \<Rightarrow> 'a \<Rightarrow> 'a \<Rightarrow> bool \<Rightarrow> bool \<Rightarrow> 'a \<times> bool \<times> bool" where
  "checked_digits T [] result prev_result overflow badparse = (result, overflow, badparse)"
| "checked_digits T (c # s) result prev_result overflow badparse =
     (if is_digit c
      then (let r = plus_u32 T (times_10 T result) (char_code c - char_code CHR ''0'')
            in checked_digits T s r r (overflow \<or> less_than T r prev_result) badparse)
      else if c = CHR ''.'' \<and> dropWhile (\<lambda>c. c = CHR ''0'') s = [] then (result, overflow, badparse)
      else if (c = CHR ''e'' \<or> c = CHR ''E'') \<and> skip_plus s \<noteq> []
      then (case exponent_digits (skip_plus s) of
              (exponent, rest) \<Rightarrow>
                if rest = []
                then (case apply_exponent T exponent result result overflow of
                        (r, overflow) \<Rightarrow> (r, overflow, badparse))
                else (result, overflow, True))
      else (result, overflow, True))"

definition checked_string_to_uint :: "'a uint_ops \<Rightarrow> string \<Rightarrow> bool \<Rightarrow> bool \<Rightarrow> 'a \<times> bool \<times> bool" where
  "checked_string_to_uint T s overflow badparse =
     checked_digits T s (zero_of T) (zero_of T) overflow (badparse \<or> s = [])"

primrec unchecked_digits :: "'a uint_ops \<Rightarrow> string \<Rightarrow> 'a \<Rightarrow> 'a" where
  "unchecked_digits T [] result = result"
| "unchecked_digits T (c # s) result =
     (if is_digit c then unchecked_digits T s (plus_u32 T (times_10 T result) (char_code c - char_code CHR ''0''))
      else if (c = CHR ''e'' \<or> c = CHR ''E'') \<and> skip_plus s \<noteq> []
      then (case exponent_digits (skip_plus s) of
              (exponent, rest) \<Rightarrow> if rest = [] then (times_10 T ^^ exponent) result else result)
      else result)"

definition unchecked_string_to_uint :: "'a uint_ops \<Rightarrow> string \<Rightarrow> 'a" where
  "unchecked_string_to_uint T s = unchecked_digits T s (zero_of T)"

definition checked_string_to_uint64 :: "string \<Rightarrow> bool \<Rightarrow> bool \<Rightarrow> u64 \<times> bool \<times> bool" where
  "checked_string_to_uint64 = checked_string_to_uint u64_ops"

definition checked_string_to_uint128 :: "string \<Rightarrow> bool \<Rightarrow> bool \<Rightarrow> uint128 \<times> bool \<times> bool" where
  "checked_string_to_uint128 = checked_string_to_uint uint128_ops"

definition unchecked_string_to_uint64 :: "string \<Rightarrow> u64" where
  "unchecked_string_to_uint64 = unchecked_string_to_uint u64_ops"

definition unchecked_string_to_uint128 :: "string \<Rightarrow> uint128" where
  "unchecked_string_to_uint128 = unchecked_string_to_uint uint128_ops"

section \<open>Overflow tests\<close>

definition overflow_check_int8 :: "u64 \<Rightarrow> bool \<Rightarrow> bool" where
  "overflow_check_int8 value negative \<longleftrightarrow> value AND NOT 0x7f \<noteq> 0 \<and> \<not> (negative \<and> value = 0x80)"

definition overflow_check_int16 :: "u64 \<Rightarrow> bool \<Rightarrow> bool" where
  "overflow_check_int16 value negative \<longleftrightarrow> value AND NOT 0x7fff \<noteq> 0 \<and> \<not> (negative \<and> value = 0x8000)"

definition overflow_check_int32 :: "u64 \<Rightarrow> bool \<Rightarrow> bool" where
  "overflow_check_int32 value negative \<longleftrightarrow> value AND NOT 0x7fffffff \<noteq> 0 \<and> \<not> (negative \<and> value = 0x80000000)"

definition overflow_check_int64 :: "u64 \<Rightarrow> bool \<Rightarrow> bool" where
  "overflow_check_int64 value negative \<longleftrightarrow>
     value AND NOT 0x7fffffffffffffff \<noteq> 0 \<and> \<not> (negative \<and> value = 0x8000000000000000)"

definition overflow_check_int128 :: "uint128 \<Rightarrow> bool \<Rightarrow> bool" where
  "overflow_check_int128 value negative \<longleftrightarrow>
     um_hi value AND NOT 0x7fffffffffffffff \<noteq> 0
     \<and> \<not> (negative \<and> um_hi value = 0x8000000000000000 \<and> um_lo value = 0)"

definition overflow_check_uint8 :: "u64 \<Rightarrow> bool" where
  "overflow_check_uint8 value \<longleftrightarrow> value AND NOT 0xff \<noteq> 0"

definition overflow_check_uint16 :: "u64 \<Rightarrow> bool" where
  "overflow_check_uint16 value \<longleftrightarrow> value AND NOT 0xffff \<noteq> 0"

definition overflow_check_uint32 :: "u64 \<Rightarrow> bool" where
  "overflow_check_uint32 value \<longleftrightarrow> value AND NOT 0xffffffff \<noteq> 0"

section \<open>Results of a conversion\<close>

datatype type_id =
  uninitialized_type_id | bool_type_id | int8_type_id | int16_type_id | int32_type_id | int64_type_id
| int128_type_id | uint8_type_id | uint16_type_id | uint32_type_id | uint64_type_id | uint128_type_id
| float16_type_id | float32_type_id | float64_type_id | float128_type_id | complex_float32_type_id
| complex_float64_type_id | void_type_id | void_pointer_type_id | pointer_type_id | bytes_type_id
| fixed_bytes_type_id | char_type_id | string_type_id | fixed_string_type_id | categorical_type_id
| date_type_id | time_type_id | datetime_type_id | busdate_type_id | json_type_id | fixed_dim_type_id
| offset_dim_type_id | var_dim_type_id | struct_type_id | tuple_type_id | c_contiguous_type_id
| option_type_id | ndarrayarg_type_id | kind_sym_type_id | int_sym_type_id | any_sym_type_id | adapt_type_id
| convert_type_id | byteswap_type_id | view_type_id | cuda_host_type_id | cuda_device_type_id
| property_type_id | expr_type_id | unary_expr_type_id | groupby_type_id | type_type_id | arrfunc_type_id
| typevar_type_id | typevar_dim_type_id | typevar_constructed_type_id | pow_dimsym_type_id
| ellipsis_dim_type_id | dim_fragment_type_id

text \<open>What is stored behind the output pointer: one element, or the two halves of a complex number.\<close>

datatype cell =
  Cell8 u8 | Cell16 u16 | Cell32 u32 | Cell64 u64 | Cell_Int128 int128 | Cell_UInt128 uint128
| Cell_Pair32 u32 u32 | Cell_Pair64 u64 u64

text \<open>
  The exceptions, with the text the message quotes. The message of a failed conversion prints the
  range with escapes; when it is not UTF-8 the printing throws an error of its own.
\<close>

datatype number_error =
  overflow_converting_string string | parse_error_converting_string string | printing_failed "codec_error option"
| no_NA_value type_id | invalid_type_id type_id | float16_error float_error
| overflow_assigning u64 | inexact_precision_loss u64

definition char_byte :: "char \<Rightarrow> u8" where
  "char_byte c = word_of_nat (of_char c)"

definition with_printed :: "(string \<Rightarrow> number_error) \<Rightarrow> string \<Rightarrow> number_error" where
  "with_printed err s =
     (case print_escaped_utf8_string (map char_byte s) False of
        Some (Inr text) \<Rightarrow> err text
      | Some (Inl e) \<Rightarrow> printing_failed (Some e)
      | None \<Rightarrow> printing_failed None)"

section \<open>Integers of the library's types\<close>

definition checked_string_to_intptr :: "string \<Rightarrow> number_error + u64" where
  "checked_string_to_intptr s =
     (let (negative, s) = (case s of c # t \<Rightarrow> if c = CHR ''-'' then (True, t) else (False, s) | [] \<Rightarrow> (False, []))
      in case checked_string_to_uint64 s False False of
           (uvalue, overflow, badparse) \<Rightarrow>
             if overflow \<or> overflow_check_int64 uvalue negative then Inl (overflow_converting_string s)
             else if badparse then Inl (parse_error_converting_string s)
             else Inr (if negative then - uvalue else uvalue))"

definition assign_signed_int_value ::
  "(u64 \<Rightarrow> bool \<Rightarrow> bool) \<Rightarrow> ('a::len word \<Rightarrow> cell) \<Rightarrow> u64 \<Rightarrow> bool \<Rightarrow> bool \<Rightarrow> bool \<Rightarrow> cell option \<times> bool" where
  "assign_signed_int_value is_overflow store uvalue negative overflow badparse =
     (let overflow = overflow \<or> is_overflow uvalue negative
      in (if \<not> overflow \<and> \<not> badparse then Some (store (ucast (if negative then - uvalue else uvalue))) else None,
          overflow))"

definition assign_signed_int128_value :: "uint128 \<Rightarrow> bool \<Rightarrow> bool \<Rightarrow> bool \<Rightarrow> cell option \<times> bool" where
  "assign_signed_int128_value uvalue negative overflow badparse =
     (let overflow = overflow \<or> overflow_check_int128 uvalue negative
      in (if \<not> overflow \<and> \<not> badparse
          then Some (Cell_Int128 (if negative then int128_neg (int128_of_uint128 uvalue) else int128_of_uint128 uvalue))
          else None,
          overflow))"

definition assign_unsigned_int_value ::
  "(u64 \<Rightarrow> bool) \<Rightarrow> ('a::len word \<Rightarrow> cell) \<Rightarrow> u64 \<Rightarrow> bool \<Rightarrow> bool \<Rightarrow> bool \<Rightarrow> cell option \<times> bool" where
  "assign_unsigned_int_value is_overflow store uvalue negative overflow badparse =
     (let overflow = overflow \<or> negative \<or> is_overflow uvalue
      in (if \<not> overflow \<and> \<not> badparse then Some (store (ucast uvalue)) else None, overflow))"

section \<open>Floating point numbers\<close>

text \<open>
  The C library's \<^verbatim>\<open>strtod\<close> (the double, as its bits, and the number of characters read) and the
  conversions between the two hardware formats are arguments.
\<close>

record fp_env =
  strtod :: "string \<Rightarrow> u64 \<times> nat"
  double_to_float :: "u64 \<Rightarrow> u32"
  float_to_double :: "u32 \<Rightarrow> u64"

definition make_double_nan :: "bool \<Rightarrow> u64" where
  "make_double_nan negative = (if negative then 0xfff8000000000000 else 0x7ff8000000000000)"

definition double_infinity :: "bool \<Rightarrow> u64" where
  "double_infinity negative = (if negative then 0xfff0000000000000 else 0x7ff0000000000000)"

text \<open>Each character is that of the upper or that of the lower spelling.\<close>

definition spells :: "string \<Rightarrow> string \<Rightarrow> string \<Rightarrow> bool" where
  "spells upper lower s \<longleftrightarrow> length s = length upper \<and> list_all2 (\<lambda>p c. c = fst p \<or> c = snd p) (zip upper lower) s"

definition checked_string_to_float64 :: "fp_env \<Rightarrow> string \<Rightarrow> assign_error_mode \<Rightarrow> number_error + u64" where
  "checked_string_to_float64 env s errmode =
     (let (negative, pos) = (case s of c # t \<Rightarrow> if c = CHR ''-'' then (True, t) else (False, s) | [] \<Rightarrow> (False, []))
      in if spells ''NAN'' ''nan'' pos then Inr (make_double_nan negative)
         else if spells ''INF'' ''inf'' pos then Inr (double_infinity negative)
         else if spells ''1.#QNAN'' ''1.#qnan'' pos then Inr (make_double_nan negative)
         else if spells ''1.#IND'' ''1.#ind'' pos then Inr (make_double_nan negative)
         else if spells ''1.#INF'' ''1.#inf'' pos then Inr (double_infinity negative)
         else if spells ''INFINITY'' ''infinity'' pos then Inr (double_infinity negative)
         else (case strtod env s of
                 (value, read) \<Rightarrow>
                   if errmode \<noteq> assign_error_nocheck \<and> read \<noteq> length s
                   then Inl (with_printed parse_error_converting_string s)
                   else Inr value))"

text \<open>
  The assignment kernel from a double to a float; a double beyond the largest float is told by its
  bits, and \<open>d != s\<close> compares as floating point numbers do.
\<close>

definition double_isfinite :: "u64 \<Rightarrow> bool" where
  "double_isfinite d \<longleftrightarrow> d AND 0x7ff0000000000000 \<noteq> 0x7ff0000000000000"

definition double_isnan :: "u64 \<Rightarrow> bool" where
  "double_isnan d \<longleftrightarrow> d AND 0x7fffffffffffffff > 0x7ff0000000000000"

definition double_ne :: "u64 \<Rightarrow> u64 \<Rightarrow> bool" where
  "double_ne a b \<longleftrightarrow> double_isnan a \<or> double_isnan b
     \<or> (a \<noteq> b \<and> \<not> (a AND 0x7fffffffffffffff = 0 \<and> b AND 0x7fffffffffffffff = 0))"

definition assign_double_to_float :: "fp_env \<Rightarrow> assign_error_mode \<Rightarrow> u64 \<Rightarrow> number_error + u32" where
  "assign_double_to_float env errmode s =
     (if errmode = assign_error_nocheck then Inr (double_to_float env s)
      else if double_isfinite s \<and> s AND 0x7fffffffffffffff > 0x47efffffe0000000 then Inl (overflow_assigning s)
      else if errmode = assign_error_inexact
      then (let d = double_to_float env s
            in if double_ne (float_to_double env d) s then Inl (inexact_precision_loss s) else Inr d)
      else Inr (double_to_float env s))"

definition checked_float64_to_float32 :: "fp_env \<Rightarrow> u64 \<Rightarrow> assign_error_mode \<Rightarrow> number_error + u32" where
  "checked_float64_to_float32 env value errmode =
     (case errmode of
        assign_error_default \<Rightarrow> assign_double_to_float env assign_error_fractional value
      | m \<Rightarrow> assign_double_to_float env m value)"

section \<open>Conversion by type\<close>

definition NA_cell :: "type_id \<Rightarrow> cell option" where
  "NA_cell tid =
     (case tid of
        int8_type_id \<Rightarrow> Some (Cell8 0x80)
      | int16_type_id \<Rightarrow> Some (Cell16 0x8000)
      | int32_type_id \<Rightarrow> Some (Cell32 0x80000000)
      | int64_type_id \<Rightarrow> Some (Cell64 0x8000000000000000)
      | int128_type_id \<Rightarrow> Some (Cell_Int128 int128_min)
      | float16_type_id \<Rightarrow> Some (Cell16 0x7e0a)
      | float32_type_id \<Rightarrow> Some (Cell32 0x7f8007a2)
      | float64_type_id \<Rightarrow> Some (Cell64 0x7ff00000000007a2)
      | complex_float32_type_id \<Rightarrow> Some (Cell_Pair32 0x7f8007a2 0x7f8007a2)
      | complex_float64_type_id \<Rightarrow> Some (Cell_Pair64 0x7ff00000000007a2 0x7ff00000000007a2)
      | _ \<Rightarrow> None)"

text \<open>
  The integer branches of the checked conversion: the parse of the digits, the overflow test of the
  type and, when it fails, the flags from which the error is made.
\<close>

definition checked_signed ::
  "(u64 \<Rightarrow> bool \<Rightarrow> bool) \<Rightarrow> ('a::len word \<Rightarrow> cell) \<Rightarrow> string \<Rightarrow> bool \<Rightarrow> cell option \<times> bool \<times> bool" where
  "checked_signed is_overflow store s negative =
     (case checked_string_to_uint64 s False False of
        (uvalue, overflow, badparse) \<Rightarrow>
          (case assign_signed_int_value is_overflow store uvalue negative overflow badparse of
             (out, overflow) \<Rightarrow> (out, overflow, badparse)))"

definition checked_unsigned ::
  "(u64 \<Rightarrow> bool) \<Rightarrow> ('a::len word \<Rightarrow> cell) \<Rightarrow> string \<Rightarrow> bool \<Rightarrow> cell option \<times> bool \<times> bool" where
  "checked_unsigned is_overflow store s negative =
     (case checked_string_to_uint64 s False False of
        (uvalue, overflow, badparse) \<Rightarrow>
          (case assign_unsigned_int_value is_overflow store uvalue (negative \<and> uvalue \<noteq> 0) overflow badparse of
             (out, overflow) \<Rightarrow> (out, overflow, badparse)))"

definition checked_int128 :: "string \<Rightarrow> bool \<Rightarrow> cell option \<times> bool \<times> bool" where
  "checked_int128 s negative =
     (case checked_string_to_uint128 s False False of
        (buvalue, overflow, badparse) \<Rightarrow>
          (case assign_signed_int128_value buvalue negative overflow badparse of
             (out, overflow) \<Rightarrow> (out, overflow, badparse)))"

definition checked_uint128 :: "string \<Rightarrow> bool \<Rightarrow> cell option \<times> bool \<times> bool" where
  "checked_uint128 s negative =
     (case checked_string_to_uint128 s False False of
        (buvalue, overflow, badparse) \<Rightarrow>
          (let overflow = overflow \<or> (negative \<and> uint128_ne_int buvalue 0)
           in (if \<not> overflow \<and> \<not> badparse then Some (Cell_UInt128 buvalue) else None, overflow, badparse)))"

definition string_to_real :: "fp_env \<Rightarrow> type_id \<Rightarrow> string \<Rightarrow> assign_error_mode \<Rightarrow> number_error + cell option" where
  "string_to_real env tid s errmode =
     (case checked_string_to_float64 env s errmode of
        Inl e \<Rightarrow> Inl e
      | Inr value \<Rightarrow>
          (case tid of
             float16_type_id \<Rightarrow> map_sum float16_error (\<lambda>h. Some (Cell16 h)) (double_to_halfbits value errmode)
           | float32_type_id \<Rightarrow> map_sum id (\<lambda>f. Some (Cell32 f)) (checked_float64_to_float32 env value errmode)
           | _ \<Rightarrow> Inr (Some (Cell64 value))))"

definition finish_integer :: "string \<Rightarrow> cell option \<times> bool \<times> bool \<Rightarrow> number_error + cell option" where
  "finish_integer s r =
     (case r of (out, overflow, badparse) \<Rightarrow>
        if overflow then Inl (with_printed overflow_converting_string s)
        else if badparse then Inl (with_printed parse_error_converting_string s)
        else Inr out)"

definition string_to_number_checked ::
  "fp_env \<Rightarrow> type_id \<Rightarrow> string \<Rightarrow> string \<Rightarrow> bool \<Rightarrow> assign_error_mode \<Rightarrow> number_error + cell option" where
  "string_to_number_checked env tid saved_begin s negative errmode =
     (case tid of
        int8_type_id \<Rightarrow> finish_integer s (checked_signed overflow_check_int8 Cell8 s negative)
      | int16_type_id \<Rightarrow> finish_integer s (checked_signed overflow_check_int16 Cell16 s negative)
      | int32_type_id \<Rightarrow> finish_integer s (checked_signed overflow_check_int32 Cell32 s negative)
      | int64_type_id \<Rightarrow> finish_integer s (checked_signed overflow_check_int64 Cell64 s negative)
      | int128_type_id \<Rightarrow> finish_integer s (checked_int128 s negative)
      | uint8_type_id \<Rightarrow> finish_integer s (checked_unsigned overflow_check_uint8 Cell8 s negative)
      | uint16_type_id \<Rightarrow> finish_integer s (checked_unsigned overflow_check_uint16 Cell16 s negative)
      | uint32_type_id \<Rightarrow> finish_integer s (checked_unsigned overflow_check_uint32 Cell32 s negative)
      | uint64_type_id \<Rightarrow> finish_integer s (checked_unsigned (\<lambda>_. False) Cell64 s negative)
      | uint128_type_id \<Rightarrow> finish_integer s (checked_uint128 s negative)
      | float16_type_id \<Rightarrow> string_to_real env tid saved_begin errmode
      | float32_type_id \<Rightarrow> string_to_real env tid saved_begin errmode
      | float64_type_id \<Rightarrow> string_to_real env tid saved_begin errmode
      | _ \<Rightarrow> Inl (invalid_type_id tid))"

definition string_to_number_nocheck ::
  "fp_env \<Rightarrow> type_id \<Rightarrow> string \<Rightarrow> string \<Rightarrow> bool \<Rightarrow> number_error + cell option" where
  "string_to_number_nocheck env tid saved_begin s negative =
     (let uvalue = unchecked_string_to_uint64 s;
          buvalue = unchecked_string_to_uint128 s;
          signed_value = (if negative then - uvalue else uvalue);
          unsigned_value = (if negative then 0 else uvalue)
      in case tid of
           int8_type_id \<Rightarrow> Inr (Some (Cell8 (ucast signed_value)))
         | int16_type_id \<Rightarrow> Inr (Some (Cell16 (ucast signed_value)))
         | int32_type_id \<Rightarrow> Inr (Some (Cell32 (ucast signed_value)))
         | int64_type_id \<Rightarrow> Inr (Some (Cell64 signed_value))
         | int128_type_id \<Rightarrow>
             Inr (Some (Cell_Int128 (if negative then int128_neg (int128_of_uint128 buvalue)
                                     else int128_of_uint128 buvalue)))
         | uint8_type_id \<Rightarrow> Inr (Some (Cell8 (ucast unsigned_value)))
         | uint16_type_id \<Rightarrow> Inr (Some (Cell16 (ucast unsigned_value)))
         | uint32_type_id \<Rightarrow> Inr (Some (Cell32 (ucast unsigned_value)))
         | uint64_type_id \<Rightarrow> Inr (Some (Cell64 unsigned_value))
         | uint128_type_id \<Rightarrow>
             Inr (Some (Cell_UInt128 (if negative then uint128_of_signed (0 :: u32) else buvalue)))
         | float16_type_id \<Rightarrow> string_to_real env tid saved_begin assign_error_nocheck
         | float32_type_id \<Rightarrow> string_to_real env tid saved_begin assign_error_nocheck
         | float64_type_id \<Rightarrow> string_to_real env tid saved_begin assign_error_nocheck
         | _ \<Rightarrow> Inl (invalid_type_id tid))"

definition string_to_number ::
  "fp_env \<Rightarrow> type_id \<Rightarrow> string \<Rightarrow> bool \<Rightarrow> assign_error_mode \<Rightarrow> number_error + cell option" where
  "string_to_number env tid s option errmode =
     (if option \<and> matches_option_type_na_token s
      then (case NA_cell tid of Some na \<Rightarrow> Inr (Some na) | None \<Rightarrow> Inl (no_NA_value tid))
      else (let (negative, t) = (case s of c # t \<Rightarrow> if c = CHR ''-'' then (True, t) else (False, s) | [] \<Rightarrow> (False, []))
            in if errmode \<noteq> assign_error_nocheck
               then string_to_number_checked env tid s t negative errmode
               else string_to_number_nocheck env tid s t negative))"

section \<open>Booleans\<close>

definition string_to_bool :: "string \<Rightarrow> bool \<Rightarrow> assign_error_mode \<Rightarrow> number_error + u8" where
  "string_to_bool s option errmode =
     (if option \<and> matches_option_type_na_token s then Inr 2
      else if length s = 1 \<and> hd s \<in> {CHR ''0'', CHR ''n'', CHR ''N'', CHR ''f'', CHR ''F''} then Inr 0
      else if length s = 1 \<and> (errmode = assign_error_nocheck \<or> hd s \<in> {CHR ''1'', CHR ''y'', CHR ''Y'', CHR ''t'', CHR ''T''})
      then Inr 1
      else if length s = 4 \<and> (errmode = assign_error_nocheck \<or> spells ''TRUE'' ''true'' s) then Inr 1
      else if length s = 5 \<and> spells ''FALSE'' ''false'' s then Inr 0
      else if length s = 5 \<and> errmode = assign_error_nocheck then Inr 1
      else if length s = 0 \<and> errmode = assign_error_nocheck then Inr 0
      else if length s = 2 \<and> spells ''NO'' ''no'' s then Inr 0
      else if length s = 2 \<and> (errmode = assign_error_nocheck \<or> spells ''ON'' ''on'' s) then Inr 1
      else if length s = 3 \<and> spells ''OFF'' ''off'' s then Inr 0
      else if length s = 3 \<and> (errmode = assign_error_nocheck \<or> spells ''YES'' ''yes'' s) then Inr 1
      else Inl (with_printed parse_error_converting_string s))"

section \<open>What a range of characters means as an unsigned integer\<close>

text \<open>
  The reference reading: digits, then nothing, or a point and zeros, or an exponent mark with an
  optional plus and a number of at most two digits behind any zeros.
\<close>

definition digits_value :: "nat \<Rightarrow> string \<Rightarrow> nat" where
  "digits_value n ds = foldl (\<lambda>a c. a * 10 + (of_char c - 48)) n ds"

definition tail_exponent :: "string \<Rightarrow> nat option" where
  "tail_exponent t =
     (case t of
        [] \<Rightarrow> Some 0
      | c # u \<Rightarrow>
          if c = CHR ''.'' then (if list_all (\<lambda>d. d = CHR ''0'') u then Some 0 else None)
          else if c = CHR ''e'' \<or> c = CHR ''E''
          then (let v = skip_plus u; w = dropWhile (\<lambda>d. d = CHR ''0'') v
                in if v \<noteq> [] \<and> length w \<le> 2 \<and> list_all is_digit w then Some (digits_value 0 w) else None)
          else None)"

definition uint_text :: "string \<Rightarrow> bool" where
  "uint_text s \<longleftrightarrow> s \<noteq> [] \<and> tail_exponent (dropWhile is_digit s) \<noteq> None"

definition uint_text_value :: "string \<Rightarrow> nat" where
  "uint_text_value s =
     digits_value 0 (takeWhile is_digit s)
     * 10 ^ (case tail_exponent (dropWhile is_digit s) of None \<Rightarrow> 0 | Some e \<Rightarrow> e)"

lemma digits_value_Cons: "digits_value n (c # ds) = digits_value (n * 10 + (of_char c - 48)) ds"
  by (simp add: digits_value_def)

lemma digits_value_ge: "n \<le> digits_value n ds"
proof (induction ds arbitrary: n)
  case (Cons c ds)
  show ?case using Cons[of "n * 10 + (of_char c - 48)"] by (simp add: digits_value_Cons)
qed (simp add: digits_value_def)

lemma is_digit_code: "is_digit c \<longleftrightarrow> 48 \<le> (of_char c :: nat) \<and> (of_char c :: nat) \<le> 57"
  by (simp add: is_digit_def less_eq_char_def)

lemma digit_number: "is_digit c \<Longrightarrow> nat (digit_val c) = of_char c - 48"
  by (simp add: digit_val_def is_digit_code nat_diff_distrib)

lemma uint_digit: "is_digit c \<Longrightarrow> uint (char_code c - char_code CHR ''0'') = int (of_char c - 48)"
proof -
  assume d: "is_digit c"
  then have w: "char_code c - char_code CHR ''0'' = word_of_nat (of_char c - 48)"
    by (simp add: char_code_def is_digit_code of_nat_diff)
  have "(of_char c :: nat) \<le> 57" using d by (simp add: is_digit_code)
  then have "(of_char c - 48 :: nat) < 2 ^ 32" by (rule order.strict_trans1[OF order.trans[OF diff_le_self]]) simp
  then have "unat (word_of_nat (of_char c - 48) :: u32) = of_char c - 48" by (intro unat_of_nat_eq) simp
  moreover have "uint (x :: u32) = int (unat x)" for x by simp
  ultimately show ?thesis unfolding w by presburger
qed

lemma exponent_digits_value:
  assumes "exponent_digits v = (n, rest)"
  shows "rest = [] \<longleftrightarrow> length (dropWhile (\<lambda>d. d = CHR ''0'') v) \<le> 2 \<and> list_all is_digit (dropWhile (\<lambda>d. d = CHR ''0'') v)"
    and "rest = [] \<Longrightarrow> n = digits_value 0 (dropWhile (\<lambda>d. d = CHR ''0'') v)"
proof -
  let ?w = "dropWhile (\<lambda>d. d = CHR ''0'') v"
  have "(rest = [] \<longleftrightarrow> length ?w \<le> 2 \<and> list_all is_digit ?w) \<and> (rest = [] \<longrightarrow> n = digits_value 0 ?w)"
  proof (cases ?w)
    case Nil
    then show ?thesis using assms unfolding exponent_digits_def digits_value_def Nil by simp
  next
    case (Cons c t)
    then show ?thesis using assms unfolding exponent_digits_def Cons
      by (cases t) (auto simp: digits_value_def digit_number split: if_splits)
  qed
  then show "rest = [] \<longleftrightarrow> length ?w \<le> 2 \<and> list_all is_digit ?w" "rest = [] \<Longrightarrow> n = digits_value 0 ?w" by blast+
qed

lemma dropWhile_zeros: "dropWhile (\<lambda>c. c = CHR ''0'') u = [] \<longleftrightarrow> list_all (\<lambda>d. d = CHR ''0'') u"
  by (simp add: dropWhile_eq_Nil_conv list_all_iff)

section \<open>The interface of the integer template\<close>

locale uint_template =
  fixes T :: "'a uint_ops" and val :: "'a \<Rightarrow> int" and bits :: nat
  assumes val_bounds: "0 \<le> val a" "val a < 2 ^ bits"
    and zero_val: "val (zero_of T) = 0"
    and times_val: "val (times_10 T r) = val r * 10 mod 2 ^ bits"
    and plus_val: "val (plus_u32 T r d) = (val r + uint d) mod 2 ^ bits"
    and less_val: "less_than T r r' \<longleftrightarrow> val r < val r'"
begin

lemma step_val:
  assumes "is_digit c" "val r = int n mod 2 ^ bits"
  shows "val (plus_u32 T (times_10 T r) (char_code c - char_code CHR ''0'')) = int (n * 10 + (of_char c - 48)) mod 2 ^ bits"
  by (simp add: plus_val times_val uint_digit[OF assms(1)] assms(2) mod_simps)

lemma times_val_nat:
  "val r = int n mod 2 ^ bits \<Longrightarrow> val (times_10 T r) = int (n * 10) mod 2 ^ bits"
  by (simp add: times_val mod_simps)

lemma no_wrap: "n < 2 ^ bits \<Longrightarrow> val r = int n mod 2 ^ bits \<Longrightarrow> val r = int n"
  by (metis mod_less of_nat_mod of_nat_numeral of_nat_power)

lemma no_overflow:
  assumes "n \<le> m" "m < 2 ^ bits" "val r = int n mod 2 ^ bits" "val r' = int m mod 2 ^ bits"
  shows "\<not> less_than T r' r"
  using no_wrap[OF _ assms(3)] no_wrap[OF assms(2,4)] assms(1,2) by (simp add: less_val)

lemma apply_exponent_val:
  assumes "apply_exponent T e r r ov = (r', ov')" "val r = int n mod 2 ^ bits"
  shows "val r' = int (n * 10 ^ e) mod 2 ^ bits" and "n * 10 ^ e < 2 ^ bits \<Longrightarrow> ov' = ov"
proof -
  have "val r' = int (n * 10 ^ e) mod 2 ^ bits \<and> (n * 10 ^ e < 2 ^ bits \<longrightarrow> ov' = ov)"
    using assms
  proof (induction e arbitrary: r ov n)
    case (Suc e)
    let ?r = "times_10 T r"
    note v = times_val_nat[OF Suc.prems(2)]
    have ap: "apply_exponent T e ?r ?r (ov \<or> less_than T ?r r) = (r', ov')" using Suc.prems(1) by (simp add: Let_def)
    from Suc.IH[OF ap v]
    have ih: "val r' = int (n * 10 ^ Suc e) mod 2 ^ bits"
      "n * 10 ^ Suc e < 2 ^ bits \<Longrightarrow> ov' = (ov \<or> less_than T ?r r)" by (simp_all add: algebra_simps)
    have "\<not> less_than T ?r r" if "n * 10 ^ Suc e < 2 ^ bits"
    proof (rule no_overflow[OF _ _ Suc.prems(2) v])
      have "n * 10 * 1 \<le> n * 10 * 10 ^ e" by (intro mult_left_mono) simp_all
      also have "... = n * 10 ^ Suc e" by simp
      finally show "n * 10 < 2 ^ bits" using that by linarith
    qed simp
    then show ?case using ih by simp
  qed simp
  then show "val r' = int (n * 10 ^ e) mod 2 ^ bits" "n * 10 ^ e < 2 ^ bits \<Longrightarrow> ov' = ov" by blast+
qed

lemma apply_exponent_fst: "fst (apply_exponent T e r p ov) = (times_10 T ^^ e) r"
  by (induction e arbitrary: r p ov) (simp_all add: Let_def funpow_swap1)

end

context uint_template
begin

text \<open>The tail behind the digits: both loops stop there.\<close>

lemma checked_tail:
  assumes "checked_digits T s r r ov bad = (r', ov', bad')" "val r = int n mod 2 ^ bits"
    and "s \<noteq> []" "\<not> is_digit (hd s)"
  shows "bad' \<longleftrightarrow> bad \<or> tail_exponent s = None"
    and "val r' = int (n * 10 ^ (case tail_exponent s of None \<Rightarrow> 0 | Some e \<Rightarrow> e)) mod 2 ^ bits"
    and "n * 10 ^ (case tail_exponent s of None \<Rightarrow> 0 | Some e \<Rightarrow> e) < 2 ^ bits \<Longrightarrow> ov' = ov"
proof -
  obtain c u where s: "s = c # u" using assms(3) by (cases s) auto
  have nd: "\<not> is_digit c" using assms(4) s by simp
  have dot: "\<not> (CHR ''.'' = CHR ''e'' \<or> CHR ''.'' = CHR ''E'')" by simp
  obtain e rest where ed: "exponent_digits (skip_plus u) = (e, rest)" by fastforce
  let ?w = "dropWhile (\<lambda>d. d = CHR ''0'') (skip_plus u)"
  have te: "tail_exponent s = (if c = CHR ''.'' then (if list_all (\<lambda>d. d = CHR ''0'') u then Some 0 else None)
      else if (c = CHR ''e'' \<or> c = CHR ''E'') \<and> skip_plus u \<noteq> [] \<and> rest = [] then Some e else None)"
    using exponent_digits_value[OF ed] by (auto simp: tail_exponent_def s Let_def)
  consider (point) "c = CHR ''.''"
    | (mark) "c \<noteq> CHR ''.''" "(c = CHR ''e'' \<or> c = CHR ''E'') \<and> skip_plus u \<noteq> []" "rest = []"
    | (bad) "c \<noteq> CHR ''.''" "\<not> ((c = CHR ''e'' \<or> c = CHR ''E'') \<and> skip_plus u \<noteq> [] \<and> rest = [])" by blast
  then have "(bad' \<longleftrightarrow> bad \<or> tail_exponent s = None)
      \<and> val r' = int (n * 10 ^ (case tail_exponent s of None \<Rightarrow> 0 | Some e \<Rightarrow> e)) mod 2 ^ bits
      \<and> (n * 10 ^ (case tail_exponent s of None \<Rightarrow> 0 | Some e \<Rightarrow> e) < 2 ^ bits \<longrightarrow> ov' = ov)"
  proof cases
    case point
    have "checked_digits T s r r ov bad = (r, ov, bad \<or> \<not> list_all (\<lambda>d. d = CHR ''0'') u)"
      using point nd by (auto simp: s dropWhile_zeros list_all_iff)
    moreover have "tail_exponent s = (if list_all (\<lambda>d. d = CHR ''0'') u then Some 0 else None)"
      unfolding te point by (simp only: simp_thms if_True)
    ultimately show ?thesis using assms(1,2) by (cases "list_all (\<lambda>d. d = CHR ''0'') u") simp_all
  next
    case mark
    obtain q qo where ap: "apply_exponent T e r r ov = (q, qo)" by fastforce
    have "r' = q" "ov' = qo" "bad' = bad" using assms(1) mark nd ap by (auto simp: s ed)
    then show ?thesis using apply_exponent_val[OF ap assms(2)] mark unfolding te by simp
  next
    case bad
    have "checked_digits T s r r ov bad = (r, ov, True)" using bad nd ed by (cases "rest = []") (auto simp: s)
    moreover have "tail_exponent s = None" using bad unfolding te by simp
    ultimately show ?thesis using assms(1,2) by simp
  qed
  then show "bad' \<longleftrightarrow> bad \<or> tail_exponent s = None"
    "val r' = int (n * 10 ^ (case tail_exponent s of None \<Rightarrow> 0 | Some e \<Rightarrow> e)) mod 2 ^ bits"
    "n * 10 ^ (case tail_exponent s of None \<Rightarrow> 0 | Some e \<Rightarrow> e) < 2 ^ bits \<Longrightarrow> ov' = ov" by iprover+
qed

lemma checked_digits_val:
  assumes "checked_digits T s r r ov bad = (r', ov', bad')" "val r = int n mod 2 ^ bits"
  shows "(bad' \<longleftrightarrow> bad \<or> tail_exponent (dropWhile is_digit s) = None)
    \<and> val r' = int (digits_value n (takeWhile is_digit s)
        * 10 ^ (case tail_exponent (dropWhile is_digit s) of None \<Rightarrow> 0 | Some e \<Rightarrow> e)) mod 2 ^ bits
    \<and> (digits_value n (takeWhile is_digit s)
        * 10 ^ (case tail_exponent (dropWhile is_digit s) of None \<Rightarrow> 0 | Some e \<Rightarrow> e) < 2 ^ bits \<longrightarrow> ov' = ov)"
  using assms
proof (induction s arbitrary: r ov n)
  case Nil
  then show ?case by (simp add: digits_value_def tail_exponent_def)
next
  case (Cons c s)
  show ?case
  proof (cases "is_digit c")
    case True
    let ?r = "plus_u32 T (times_10 T r) (char_code c - char_code CHR ''0'')" and ?n = "n * 10 + (of_char c - 48)"
    let ?e = "case tail_exponent (dropWhile is_digit s) of None \<Rightarrow> 0 | Some e \<Rightarrow> e"
    note v = step_val[OF True Cons.prems(2)]
    have "checked_digits T s ?r ?r (ov \<or> less_than T ?r r) bad = (r', ov', bad')"
      using Cons.prems(1) True by (simp add: Let_def)
    note ih = Cons.IH[OF this v]
    have "\<not> less_than T ?r r" if "digits_value ?n (takeWhile is_digit s) * 10 ^ ?e < 2 ^ bits"
    proof (rule no_overflow[OF _ _ Cons.prems(2) v])
      have "?n * 1 \<le> digits_value ?n (takeWhile is_digit s) * 10 ^ ?e"
        by (rule mult_mono[OF digits_value_ge]) simp_all
      then have "?n \<le> digits_value ?n (takeWhile is_digit s) * 10 ^ ?e" by (simp only: mult_1_right)
      then show "?n < 2 ^ bits" using that by (rule order.strict_trans1)
    qed simp
    with ih show ?thesis using True by (simp add: digits_value_Cons)
  next
    case False
    then show ?thesis using checked_tail[OF Cons.prems] by (simp add: digits_value_def)
  qed
qed

lemma checked_string_to_uint_val:
  assumes "checked_string_to_uint T s False False = (r, ov, bad)"
  shows "bad \<longleftrightarrow> \<not> uint_text s" and "val r = int (uint_text_value s) mod 2 ^ bits"
    and "uint_text_value s < 2 ^ bits \<Longrightarrow> \<not> ov"
  using checked_digits_val[OF assms[unfolded checked_string_to_uint_def], of 0]
  by (auto simp: uint_text_def uint_text_value_def zero_val)

text \<open>The loop without checks computes the same number, whatever the text.\<close>

lemma unchecked_digits_eq: "fst (checked_digits T s r p ov bad) = unchecked_digits T s r"
proof (induction s arbitrary: r p ov bad)
  case (Cons c s)
  obtain e rest where "exponent_digits (skip_plus s) = (e, rest)" by fastforce
  then show ?case
    using Cons apply_exponent_fst[of e r r ov] by (auto simp: Let_def is_digit_def split: prod.split)
qed simp

lemma unchecked_string_to_uint_eq:
  "fst (checked_string_to_uint T s ov bad) = unchecked_string_to_uint T s"
  by (simp add: checked_string_to_uint_def unchecked_string_to_uint_def unchecked_digits_eq)

end

text \<open>Both instances of the template satisfy the laws.\<close>

interpretation u64: uint_template u64_ops uint 64
proof
  show "uint a < 2 ^ 64" for a :: u64 using uint_u64_bounds(2)[of a] .
qed (simp_all add: u64_ops_def uint_word_ariths uint_less_iff unsigned_ucast_eq take_bit_eq_mod mod_simps)

lemma uint128_add_u32_val: "uval (uint128_add_u32 a d) = (uval a + uint d) mod 2 ^ 128"
proof -
  have d: "uint (ucast d :: u64) = uint d" using uint_lt2p[of d] by (simp add: unsigned_ucast_eq take_bit_eq_mod)
  have "uval (UInt128 (um_hi a + of_bool (um_lo a + ucast d < um_lo a)) (um_lo a + ucast d))
      = (uint (um_hi a) * 2 ^ 64 + (uint (um_lo a) + uint d)) mod 2 ^ 128"
  proof (rule uval_carry)
    have "uint (um_hi a + of_bool (um_lo a + ucast d < um_lo a))
        = (uint (um_hi a) + of_bool (um_lo a + ucast d < um_lo a)) mod 2 ^ 64"
      by (simp add: uint_word_ariths)
    also have "(of_bool (um_lo a + ucast d < um_lo a) :: int) = (uint (um_lo a) + uint d) div 2 ^ 64"
      unfolding carry_u64 d ..
    finally show "uint (um_hi a + of_bool (um_lo a + ucast d < um_lo a))
        = (uint (um_hi a) + (uint (um_lo a) + uint d) div 2 ^ 64) mod 2 ^ 64" .
    show "uint (um_lo a + ucast d) = (uint (um_lo a) + uint d) mod 2 ^ 64" using d by (simp add: uint_word_ariths)
  qed
  then show ?thesis unfolding uint128_add_u32_def Let_def uval_def[of a] by (simp only: add.assoc)
qed

interpretation u128: uint_template uint128_ops uval 128
proof
  show "0 \<le> uval a" "uval a < 2 ^ 128" for a by (rule uval_bounds)+
  show "uval (plus_u32 uint128_ops r d) = (uval r + uint d) mod 2 ^ 128" for r d
    by (simp only: uint128_ops_def uint_ops.simps uint128_add_u32_val)
  show "uval (times_10 uint128_ops r) = uval r * 10 mod 2 ^ 128" for r
    using uint128_mul_val[of r 10] by (simp add: uint128_ops_def)
qed (simp_all add: uint128_ops_def uint128_lt_iff)

section \<open>The overflow tests read as bounds\<close>

lemma and_not_mask_zero:
  fixes v :: "'a::len word"
  shows "v AND NOT (mask m) = 0 \<longleftrightarrow> uint v < 2 ^ m"
proof -
  have "v AND NOT (mask m) = 0 \<longleftrightarrow> take_bit m v = v" by (auto simp: bit_eq_iff bit_simps)
  then show ?thesis by (simp add: word_uint_eq_iff unsigned_take_bit_eq take_bit_int_eq_self_iff)
qed

lemma high_part_zero:
  fixes v :: u64
  shows "v AND NOT 0x7f = 0 \<longleftrightarrow> uint v < 2 ^ 7" "v AND NOT 0x7fff = 0 \<longleftrightarrow> uint v < 2 ^ 15"
    "v AND NOT 0x7fffffff = 0 \<longleftrightarrow> uint v < 2 ^ 31" "v AND NOT 0x7fffffffffffffff = 0 \<longleftrightarrow> uint v < 2 ^ 63"
    "v AND NOT 0xff = 0 \<longleftrightarrow> uint v < 2 ^ 8" "v AND NOT 0xffff = 0 \<longleftrightarrow> uint v < 2 ^ 16"
    "v AND NOT 0xffffffff = 0 \<longleftrightarrow> uint v < 2 ^ 32"
  using and_not_mask_zero[of v 7] and_not_mask_zero[of v 15] and_not_mask_zero[of v 31] and_not_mask_zero[of v 63]
    and_not_mask_zero[of v 8] and_not_mask_zero[of v 16] and_not_mask_zero[of v 32]
  by (simp_all add: mask_eq_exp_minus_1)

text \<open>A signed type of \<open>m + 1\<close> bits holds a magnitude with its sign.\<close>

definition fits_signed :: "nat \<Rightarrow> int \<Rightarrow> bool \<Rightarrow> bool" where
  "fits_signed m v negative \<longleftrightarrow> v < 2 ^ m \<or> (negative \<and> v = 2 ^ m)"

lemma overflow_checks_signed:
  "overflow_check_int8 v negative \<longleftrightarrow> \<not> fits_signed 7 (uint v) negative"
  "overflow_check_int16 v negative \<longleftrightarrow> \<not> fits_signed 15 (uint v) negative"
  "overflow_check_int32 v negative \<longleftrightarrow> \<not> fits_signed 31 (uint v) negative"
  "overflow_check_int64 v negative \<longleftrightarrow> \<not> fits_signed 63 (uint v) negative"
  unfolding overflow_check_int8_def overflow_check_int16_def overflow_check_int32_def overflow_check_int64_def
    fits_signed_def high_part_zero
  by (auto simp: word_uint_eq_iff)

lemma overflow_checks_unsigned:
  "overflow_check_uint8 v \<longleftrightarrow> \<not> uint v < 2 ^ 8" "overflow_check_uint16 v \<longleftrightarrow> \<not> uint v < 2 ^ 16"
  "overflow_check_uint32 v \<longleftrightarrow> \<not> uint v < 2 ^ 32"
  unfolding overflow_check_uint8_def overflow_check_uint16_def overflow_check_uint32_def high_part_zero by simp_all

lemma overflow_check_int128_val: "overflow_check_int128 v negative \<longleftrightarrow> \<not> fits_signed 127 (uval v) negative"
proof -
  have e: "uval v = uint (um_hi v) * 2 ^ 64 + uint (um_lo v)" by (simp add: uval_def)
  have lo: "0 \<le> uint (um_lo v)" "uint (um_lo v) < 2 ^ 64" by (rule uint_u64_bounds)+
  have "uval v < 2 ^ 127 \<longleftrightarrow> uint (um_hi v) < 2 ^ 63"
    using join_less_iff[OF lo, of 0 "uint (um_hi v)" "2 ^ 63"] e by simp
  moreover have "uval v = 2 ^ 127 \<longleftrightarrow> uint (um_hi v) = 2 ^ 63 \<and> uint (um_lo v) = 0"
    using join_inject[OF lo, of 0 "uint (um_hi v)" "2 ^ 63"] e by simp
  ultimately show ?thesis
    unfolding overflow_check_int128_def fits_signed_def high_part_zero(4) by (auto simp: word_uint_eq_iff)
qed

section \<open>Decimal text\<close>

lemma digits_value_append: "digits_value n (ds @ es) = digits_value (digits_value n ds) es"
  by (simp add: digits_value_def)

lemma is_digit_digit_char: "d < 10 \<Longrightarrow> is_digit (digit_char d)"
  by (simp add: is_digit_code)

lemma digits_value_decimal: "digits_value 0 (decimal n) = n"
proof (induction n rule: decimal.induct)
  case (1 n)
  then show ?case
    by (cases "n < 10") (simp_all add: digits_value_def decimal_step[of n])
qed

lemma decimal_digits: "list_all is_digit (decimal n)"
  using decimal_chars is_digit_digit_char by (fastforce simp: list_all_iff)

lemma decimal_text:
  "uint_text (decimal n)" "uint_text_value (decimal n) = n"
proof -
  have t: "takeWhile is_digit (decimal n) = decimal n" "dropWhile is_digit (decimal n) = []"
    using decimal_digits[of n] by (simp_all add: list_all_iff takeWhile_eq_all_conv dropWhile_eq_Nil_conv)
  show "uint_text (decimal n)" by (simp add: uint_text_def t tail_exponent_def)
  show "uint_text_value (decimal n) = n" by (simp add: uint_text_value_def t tail_exponent_def digits_value_decimal)
qed

lemma decimal_sign:
  "(case decimal_int k of c # t \<Rightarrow> if c = CHR ''-'' then (True, t) else (False, decimal_int k) | [] \<Rightarrow> (False, []))
    = (k < 0, decimal (nat \<bar>k\<bar>))"
proof -
  obtain c t where d: "decimal (nat \<bar>k\<bar>) = c # t" by (cases "decimal (nat \<bar>k\<bar>)") auto
  then have "is_digit c" using decimal_digits[of "nat \<bar>k\<bar>"] by simp
  then have "c \<noteq> CHR ''-''" by (auto simp: is_digit_code)
  then show ?thesis using d by (auto simp: decimal_int_def)
qed

lemma decimal_not_NA: "\<not> matches_option_type_na_token (decimal_int k)"
proof -
  have "c \<noteq> CHR ''N'' \<and> c \<noteq> CHR ''n''" if "c \<in> set (decimal_int k)" for c
  proof -
    have "c = CHR ''-'' \<or> is_digit c"
      using that decimal_digits by (auto simp: decimal_int_def list_all_iff split: if_splits)
    then show ?thesis by (auto simp: is_digit_code)
  qed
  then have "decimal_int k ! 0 \<noteq> CHR ''N'' \<and> decimal_int k ! 0 \<noteq> CHR ''n''"
    by (simp add: decimal_int_def)
  then show ?thesis
    by (auto simp: matches_option_type_na_token_def decimal_int_def)
qed

lemma checked_decimal_u64:
  "int n < 2 ^ 64 \<Longrightarrow> \<exists>v. checked_string_to_uint64 (decimal n) False False = (v, False, False) \<and> uint v = int n"
  using u64.checked_string_to_uint_val[of "decimal n"]
  by (cases "checked_string_to_uint64 (decimal n) False False")
    (auto simp: checked_string_to_uint64_def decimal_text)

lemma checked_decimal_u128:
  "int n < 2 ^ 128 \<Longrightarrow> \<exists>v. checked_string_to_uint128 (decimal n) False False = (v, False, False) \<and> uval v = int n"
  using u128.checked_string_to_uint_val[of "decimal n"]
  by (cases "checked_string_to_uint128 (decimal n) False False")
    (auto simp: checked_string_to_uint128_def decimal_text)

section \<open>Decimal text is stored exactly\<close>

lemma fits_signed_range: "fits_signed m \<bar>k\<bar> (k < 0) \<longleftrightarrow> - (2 ^ m) \<le> k \<and> k < 2 ^ m"
  by (auto simp: fits_signed_def)

lemma ucast_of_int: "LENGTH('a) \<le> 64 \<Longrightarrow> ucast (word_of_int j :: u64) = (word_of_int j :: 'a::len word)"
proof -
  assume "LENGTH('a) \<le> 64"
  then have "j mod 2 ^ 64 mod 2 ^ LENGTH('a) = j mod (2 :: int) ^ LENGTH('a)"
    by (intro mod_mod_cancel le_imp_power_dvd)
  then show ?thesis by (simp add: word_uint_eq_iff unsigned_ucast_eq uint_word_of_int take_bit_eq_mod)
qed

lemma signed_of_magnitude:
  fixes v :: u64
  assumes "uint v = \<bar>k\<bar>"
  shows "(if k < 0 then - v else v) = word_of_int k"
proof -
  have "v = word_of_int \<bar>k\<bar>" using assms by (metis word_of_int_uint)
  then show ?thesis by simp
qed

lemma finish_signed:
  assumes chk: "\<And>v. is_overflow v (k < 0) \<longleftrightarrow> \<not> fits_signed m (uint v) (k < 0)"
    and k: "\<bar>k\<bar> < 2 ^ 64" and len: "LENGTH('a) \<le> 64"
  shows "finish_integer (decimal (nat \<bar>k\<bar>)) (checked_signed is_overflow (store :: 'a::len word \<Rightarrow> cell) (decimal (nat \<bar>k\<bar>)) (k < 0))
    = (if - (2 ^ m) \<le> k \<and> k < 2 ^ m then Inr (Some (store (word_of_int k)))
       else Inl (with_printed overflow_converting_string (decimal (nat \<bar>k\<bar>))))"
proof -
  obtain v where v: "checked_string_to_uint64 (decimal (nat \<bar>k\<bar>)) False False = (v, False, False)" "uint v = \<bar>k\<bar>"
    using checked_decimal_u64[of "nat \<bar>k\<bar>"] k by auto
  show ?thesis
    unfolding checked_signed_def v(1) assign_signed_int_value_def prod.case Let_def signed_of_magnitude[OF v(2)]
      chk v(2) fits_signed_range
    by (simp add: finish_integer_def ucast_of_int[OF len])
qed

lemma finish_unsigned:
  assumes chk: "\<And>v. is_overflow v \<longleftrightarrow> \<not> uint v < 2 ^ m"
    and k: "\<bar>k\<bar> < 2 ^ 64" and len: "LENGTH('a) \<le> 64"
  shows "finish_integer (decimal (nat \<bar>k\<bar>)) (checked_unsigned is_overflow (store :: 'a::len word \<Rightarrow> cell) (decimal (nat \<bar>k\<bar>)) (k < 0))
    = (if 0 \<le> k \<and> k < 2 ^ m then Inr (Some (store (word_of_int k)))
       else Inl (with_printed overflow_converting_string (decimal (nat \<bar>k\<bar>))))"
proof -
  obtain v where v: "checked_string_to_uint64 (decimal (nat \<bar>k\<bar>)) False False = (v, False, False)" "uint v = \<bar>k\<bar>"
    using checked_decimal_u64[of "nat \<bar>k\<bar>"] k by auto
  have n: "(k < 0 \<and> v \<noteq> 0) \<longleftrightarrow> k < 0" using v(2) by auto
  have w: "v = word_of_int k" if "0 \<le> k" using signed_of_magnitude[OF v(2)] that by simp
  show ?thesis
    unfolding checked_unsigned_def v(1) assign_unsigned_int_value_def prod.case Let_def chk n v(2)
    by (auto simp: finish_integer_def w ucast_of_int[OF len])
qed

lemma fits_u64: "False \<longleftrightarrow> \<not> uint (v :: u64) < 2 ^ 64"
  using uint_u64_bounds(2)[of v] by simp

definition int128_of_int :: "int \<Rightarrow> int128" where
  "int128_of_int k = Int128 (word_of_int (k div 2 ^ 64)) (word_of_int k)"

definition uint128_of_int :: "int \<Rightarrow> uint128" where
  "uint128_of_int k = UInt128 (word_of_int (k div 2 ^ 64)) (word_of_int k)"

lemma uval_of_int: "0 \<le> k \<Longrightarrow> k < 2 ^ 128 \<Longrightarrow> uval (uint128_of_int k) = k"
  using int_div_less[of "2 ^ 64" k "2 ^ 64"]
  by (simp add: uint128_of_int_def uint_word_of_int pos_imp_zdiv_nonneg_iff)

lemma uint128_of_int_eq: "uval v = k \<Longrightarrow> v = uint128_of_int k"
  using uval_of_int[of k] uval_bounds[of v] by (metis uval_inject)

lemma ival_of_int: "ival (int128_of_int k) = wrap128 k"
proof (rule ival_eqI[where c = 0])
  have "k div 2 ^ 64 mod 2 ^ 64 * 2 ^ 64 + k mod 2 ^ 64 = (k div 2 ^ 64 * 2 ^ 64 + k mod 2 ^ 64) mod (2 ^ 64 * 2 ^ 64)"
    by (rule join_mod) simp_all
  also have "k div 2 ^ 64 * 2 ^ 64 + k mod 2 ^ 64 = k" by (rule div_mult_mod_eq)
  finally show "uval (uint128_of_int128 (int128_of_int k)) = (k + 0 * 2 ^ 128) mod 2 ^ 128"
    by (simp add: uint128_of_int128_def int128_of_int_def uint_word_of_int)
qed

lemma int128_of_magnitude:
  assumes "uval v = \<bar>k\<bar>"
  shows "(if k < 0 then int128_neg (int128_of_uint128 v) else int128_of_uint128 v) = int128_of_int k"
proof -
  have "uval (uint128_of_int128 (int128_of_uint128 v)) = (\<bar>k\<bar> + 0 * 2 ^ 128) mod 2 ^ 128"
    using assms uval_bounds[of v] by (simp add: uint128_of_int128_def int128_of_uint128_def)
  then have p: "ival (int128_of_uint128 v) = wrap128 \<bar>k\<bar>" by (rule ival_eqI)
  then have n: "ival (int128_neg (int128_of_uint128 v)) = wrap128 (- \<bar>k\<bar>)"
    by (simp add: int128_neg_val wrap128_neg)
  have "ival (if k < 0 then int128_neg (int128_of_uint128 v) else int128_of_uint128 v) = ival (int128_of_int k)"
    unfolding ival_of_int using p n by simp
  then show ?thesis by (simp only: ival_inject)
qed

lemma finish_int128:
  assumes k: "\<bar>k\<bar> < 2 ^ 128"
  shows "finish_integer (decimal (nat \<bar>k\<bar>)) (checked_int128 (decimal (nat \<bar>k\<bar>)) (k < 0))
    = (if - (2 ^ 127) \<le> k \<and> k < 2 ^ 127 then Inr (Some (Cell_Int128 (int128_of_int k)))
       else Inl (with_printed overflow_converting_string (decimal (nat \<bar>k\<bar>))))"
proof -
  obtain v where v: "checked_string_to_uint128 (decimal (nat \<bar>k\<bar>)) False False = (v, False, False)" "uval v = \<bar>k\<bar>"
    using checked_decimal_u128[of "nat \<bar>k\<bar>"] k by auto
  show ?thesis
    unfolding checked_int128_def v(1) assign_signed_int128_value_def prod.case Let_def int128_of_magnitude[OF v(2)]
      overflow_check_int128_val v(2) fits_signed_range
    by (simp add: finish_integer_def)
qed

lemma finish_uint128:
  assumes k: "\<bar>k\<bar> < 2 ^ 128"
  shows "finish_integer (decimal (nat \<bar>k\<bar>)) (checked_uint128 (decimal (nat \<bar>k\<bar>)) (k < 0))
    = (if 0 \<le> k \<and> k < 2 ^ 128 then Inr (Some (Cell_UInt128 (uint128_of_int k)))
       else Inl (with_printed overflow_converting_string (decimal (nat \<bar>k\<bar>))))"
proof -
  obtain v where v: "checked_string_to_uint128 (decimal (nat \<bar>k\<bar>)) False False = (v, False, False)" "uval v = \<bar>k\<bar>"
    using checked_decimal_u128[of "nat \<bar>k\<bar>"] k by auto
  have "uint128_ne_int v 0 \<longleftrightarrow> uval v \<noteq> 0"
    using uint128_ne_zero[of v] by (simp add: uint128_ne_int_def uint128_ne_def uint128_of_unsigned_def)
  then have n: "k < 0 \<and> uint128_ne_int v 0 \<longleftrightarrow> k < 0" using v(2) by auto
  have "v = uint128_of_int k" if "0 \<le> k" using uint128_of_int_eq[of v k] v(2) that by simp
  then show ?thesis
    unfolding checked_uint128_def v(1) prod.case Let_def n using k by (auto simp: finish_integer_def)
qed

text \<open>
  The integer types with their bounds and their representation; numbers below the limit of a type
  have digits the unsigned parse behind it can hold.
\<close>

definition int_type :: "type_id \<Rightarrow> (int \<times> int \<times> int \<times> (int \<Rightarrow> cell)) option" where
  "int_type tid =
     (case tid of
        int8_type_id \<Rightarrow> Some (2 ^ 64, - (2 ^ 7), 2 ^ 7, \<lambda>k. Cell8 (word_of_int k))
      | int16_type_id \<Rightarrow> Some (2 ^ 64, - (2 ^ 15), 2 ^ 15, \<lambda>k. Cell16 (word_of_int k))
      | int32_type_id \<Rightarrow> Some (2 ^ 64, - (2 ^ 31), 2 ^ 31, \<lambda>k. Cell32 (word_of_int k))
      | int64_type_id \<Rightarrow> Some (2 ^ 64, - (2 ^ 63), 2 ^ 63, \<lambda>k. Cell64 (word_of_int k))
      | int128_type_id \<Rightarrow> Some (2 ^ 128, - (2 ^ 127), 2 ^ 127, \<lambda>k. Cell_Int128 (int128_of_int k))
      | uint8_type_id \<Rightarrow> Some (2 ^ 64, 0, 2 ^ 8, \<lambda>k. Cell8 (word_of_int k))
      | uint16_type_id \<Rightarrow> Some (2 ^ 64, 0, 2 ^ 16, \<lambda>k. Cell16 (word_of_int k))
      | uint32_type_id \<Rightarrow> Some (2 ^ 64, 0, 2 ^ 32, \<lambda>k. Cell32 (word_of_int k))
      | uint64_type_id \<Rightarrow> Some (2 ^ 64, 0, 2 ^ 64, \<lambda>k. Cell64 (word_of_int k))
      | uint128_type_id \<Rightarrow> Some (2 ^ 128, 0, 2 ^ 128, \<lambda>k. Cell_UInt128 (uint128_of_int k))
      | _ \<Rightarrow> None)"

lemmas finish_integers =
  finish_signed[of overflow_check_int8, OF overflow_checks_signed(1), where store = Cell8]
  finish_signed[of overflow_check_int16, OF overflow_checks_signed(2), where store = Cell16]
  finish_signed[of overflow_check_int32, OF overflow_checks_signed(3), where store = Cell32]
  finish_signed[of overflow_check_int64, OF overflow_checks_signed(4), where store = Cell64]
  finish_unsigned[of overflow_check_uint8, OF overflow_checks_unsigned(1), where store = Cell8]
  finish_unsigned[of overflow_check_uint16, OF overflow_checks_unsigned(2), where store = Cell16]
  finish_unsigned[of overflow_check_uint32, OF overflow_checks_unsigned(3), where store = Cell32]
  finish_unsigned[of "\<lambda>_. False", OF fits_u64, where store = Cell64]
  finish_int128 finish_uint128

lemma string_to_number_integer:
  assumes "int_type tid = Some (limit, lo, hi, store)" "\<bar>k\<bar> < limit"
  shows "string_to_number_checked env tid saved (decimal (nat \<bar>k\<bar>)) (k < 0) errmode
    = (if lo \<le> k \<and> k < hi then Inr (Some (store k))
       else Inl (with_printed overflow_converting_string (decimal (nat \<bar>k\<bar>))))"
  using assms by (cases tid) (simp_all only: int_type_def type_id.case option.inject prod.inject
      string_to_number_checked_def option.distinct, auto simp: finish_integers)

section \<open>Boolean words\<close>

definition to_upper :: "char \<Rightarrow> char" where
  "to_upper c = (if CHR ''a'' \<le> c \<and> c \<le> CHR ''z'' then char_of (of_char c - 32 :: nat) else c)"

lemma char_eq_code: "c = d \<longleftrightarrow> (of_char c :: nat) = of_char d"
  by (rule of_char_eq_iff[symmetric])

lemma char_code_bound: "(of_char (c :: char) :: nat) < 256"
  using nat_of_char_less_256 by blast

lemma lower_code:
  fixes x y :: nat
  assumes "y < 65 \<or> 90 < y"
  shows "(if 65 \<le> x \<and> x \<le> 90 then x + 32 else x) = y
    \<longleftrightarrow> x = (if 97 \<le> y \<and> y \<le> 122 then y - 32 else y) \<or> x = y"
  using assms by presburger

lemma lower_or_upper:
  assumes "\<not> (CHR ''A'' \<le> l \<and> l \<le> CHR ''Z'')"
  shows "to_lower c = l \<longleftrightarrow> c = to_upper l \<or> c = l"
proof -
  have l: "(of_char l :: nat) < 65 \<or> 90 < (of_char l :: nat)" using assms by (auto simp: less_eq_char_def)
  have "(of_char (to_lower c) :: nat) = (if 65 \<le> (of_char c :: nat) \<and> (of_char c :: nat) \<le> 90 then of_char c + 32 else of_char c)"
    by (simp add: to_lower_def less_eq_char_def)
  moreover have "(of_char (to_upper l) :: nat) = (if 97 \<le> (of_char l :: nat) \<and> (of_char l :: nat) \<le> 122 then of_char l - 32 else of_char l)"
    using less_imp_diff_less[OF char_code_bound[of l], of 32] by (simp add: to_upper_def less_eq_char_def)
  ultimately show ?thesis using lower_code[OF l] by (simp only: char_eq_code)
qed

lemma spells_lower:
  assumes "list_all (\<lambda>l. \<not> (CHR ''A'' \<le> l \<and> l \<le> CHR ''Z'')) lower"
  shows "spells (map to_upper lower) lower s \<longleftrightarrow> map to_lower s = lower"
  using assms
proof (induction lower arbitrary: s)
  case (Cons l lower)
  show ?case
  proof (cases s)
    case (Cons c t)
    then show ?thesis using Cons.IH[of t] Cons.prems lower_or_upper[of l c] by (auto simp: spells_def)
  qed (simp add: spells_def)
qed (auto simp: spells_def)

lemma spells_words:
  "spells ''TRUE'' ''true'' s \<longleftrightarrow> map to_lower s = ''true''" "spells ''FALSE'' ''false'' s \<longleftrightarrow> map to_lower s = ''false''"
  "spells ''NO'' ''no'' s \<longleftrightarrow> map to_lower s = ''no''" "spells ''ON'' ''on'' s \<longleftrightarrow> map to_lower s = ''on''"
  "spells ''OFF'' ''off'' s \<longleftrightarrow> map to_lower s = ''off''" "spells ''YES'' ''yes'' s \<longleftrightarrow> map to_lower s = ''yes''"
proof -
  have u: "map to_upper ''true'' = ''TRUE''" "map to_upper ''false'' = ''FALSE''" "map to_upper ''no'' = ''NO''"
    "map to_upper ''on'' = ''ON''" "map to_upper ''off'' = ''OFF''" "map to_upper ''yes'' = ''YES''"
    by code_simp+
  have l: "list_all (\<lambda>l. \<not> (CHR ''A'' \<le> l \<and> l \<le> CHR ''Z'')) w" if "w \<in> {''true'', ''false'', ''no'', ''on'', ''off'', ''yes''}" for w
    using that by (auto simp: less_eq_char_def)
  show "spells ''TRUE'' ''true'' s \<longleftrightarrow> map to_lower s = ''true''" "spells ''FALSE'' ''false'' s \<longleftrightarrow> map to_lower s = ''false''"
    "spells ''NO'' ''no'' s \<longleftrightarrow> map to_lower s = ''no''" "spells ''ON'' ''on'' s \<longleftrightarrow> map to_lower s = ''on''"
    "spells ''OFF'' ''off'' s \<longleftrightarrow> map to_lower s = ''off''" "spells ''YES'' ''yes'' s \<longleftrightarrow> map to_lower s = ''yes''"
    using spells_lower[OF l, of "''true''" s] spells_lower[OF l, of "''false''" s] spells_lower[OF l, of "''no''" s]
      spells_lower[OF l, of "''on''" s] spells_lower[OF l, of "''off''" s] spells_lower[OF l, of "''yes''" s]
    unfolding u by simp_all
qed

lemma single_letters:
  "hd [c] \<in> {CHR ''0'', CHR ''n'', CHR ''N'', CHR ''f'', CHR ''F''} \<longleftrightarrow> to_lower c \<in> {CHR ''0'', CHR ''n'', CHR ''f''}"
  "hd [c] \<in> {CHR ''1'', CHR ''y'', CHR ''Y'', CHR ''t'', CHR ''T''} \<longleftrightarrow> to_lower c \<in> {CHR ''1'', CHR ''y'', CHR ''t''}"
proof -
  have u: "to_upper CHR ''0'' = CHR ''0''" "to_upper CHR ''n'' = CHR ''N''" "to_upper CHR ''f'' = CHR ''F''"
    "to_upper CHR ''1'' = CHR ''1''" "to_upper CHR ''y'' = CHR ''Y''" "to_upper CHR ''t'' = CHR ''T''" by code_simp+
  have l: "to_lower c = l \<longleftrightarrow> c = to_upper l \<or> c = l" if "l \<in> {CHR ''0'', CHR ''n'', CHR ''f'', CHR ''1'', CHR ''y'', CHR ''t''}" for l
    by (rule lower_or_upper) (use that in \<open>auto simp: less_eq_char_def\<close>)
  show "hd [c] \<in> {CHR ''0'', CHR ''n'', CHR ''N'', CHR ''f'', CHR ''F''} \<longleftrightarrow> to_lower c \<in> {CHR ''0'', CHR ''n'', CHR ''f''}"
    "hd [c] \<in> {CHR ''1'', CHR ''y'', CHR ''Y'', CHR ''t'', CHR ''T''} \<longleftrightarrow> to_lower c \<in> {CHR ''1'', CHR ''y'', CHR ''t''}"
    using u by (auto simp: l)
qed

lemma to_bool_lower:
  assumes "\<not> (option \<and> matches_option_type_na_token s)"
  shows "string_to_bool s option errmode =
    (if map to_lower s \<in> {''0'', ''n'', ''f'', ''no'', ''off'', ''false''} then Inr 0
     else if map to_lower s \<in> {''1'', ''y'', ''t'', ''on'', ''yes'', ''true''} then Inr 1
     else if errmode = assign_error_nocheck \<and> length s \<le> 5 then Inr (if s = [] then 0 else 1)
     else Inl (with_printed parse_error_converting_string s))"
proof (cases "length s = 1")
  case True
  then obtain c where c: "s = [c]" by (auto simp: length_Suc_conv)
  have n: "(length s = 4) = False" "(length s = 5) = False" "(length s = 0) = False" "(length s = 2) = False" "(length s = 3) = False"
    using True by simp_all
  have "string_to_bool s option errmode =
      (if hd [c] \<in> {CHR ''0'', CHR ''n'', CHR ''N'', CHR ''f'', CHR ''F''} then Inr 0
       else if errmode = assign_error_nocheck \<or> hd [c] \<in> {CHR ''1'', CHR ''y'', CHR ''Y'', CHR ''t'', CHR ''T''} then Inr 1
       else Inl (with_printed parse_error_converting_string s))"
    unfolding string_to_bool_def if_not_P[OF assms] n by (simp only: True[unfolded c] c simp_thms if_False)
  moreover have "[d] \<in> {''0'', ''n'', ''f'', ''no'', ''off'', ''false''} \<longleftrightarrow> d \<in> {CHR ''0'', CHR ''n'', CHR ''f''}"
    "[d] \<in> {''1'', ''y'', ''t'', ''on'', ''yes'', ''true''} \<longleftrightarrow> d \<in> {CHR ''1'', CHR ''y'', CHR ''t''}" for d
    by simp_all
  ultimately show ?thesis unfolding single_letters c list.map by simp
next
  case False
  define l where "l = map to_lower s"
  have ne: "l \<noteq> w" if "length w \<noteq> length s" for w using that by (auto simp: l_def)
  note words = ne[of "''0''"] ne[of "''n''"] ne[of "''f''"] ne[of "''1''"] ne[of "''y''"] ne[of "''t''"] ne[of "''no''"]
    ne[of "''off''"] ne[of "''false''"] ne[of "''on''"] ne[of "''yes''"] ne[of "''true''"]
  consider "length s = 0" | "length s = 2" | "length s = 3" | "length s = 4" | "length s = 5" | "length s > 5"
    using False by linarith
  then show ?thesis
    unfolding string_to_bool_def if_not_P[OF assms] spells_words l_def[symmetric]
    by cases (use words False in \<open>simp_all, auto\<close>)
qed

section \<open>The properties of the number parser\<close>

text \<open>
  Parsing an unsigned integer reports a parse error exactly on text outside the accepted form
  (digits, then nothing, a point with zeros, or an exponent mark with an optional plus and at most two
  digits behind any zeros); the number it returns is always the value of the text modulo the width of
  the type, it never reports an overflow for a text whose value fits, and the version without checks
  returns the same number on every text. This holds for 64 and for 128 bits.
\<close>

lemma string_to_uint_value:
  "(case checked_string_to_uint64 s False False of
      (v, overflow, badparse) \<Rightarrow>
        (badparse \<longleftrightarrow> \<not> uint_text s) \<and> uint v = int (uint_text_value s) mod 2 ^ 64
        \<and> \<not> (overflow \<and> uint_text_value s < 2 ^ 64) \<and> unchecked_string_to_uint64 s = v)
   \<and> (case checked_string_to_uint128 s False False of
        (v, overflow, badparse) \<Rightarrow>
          (badparse \<longleftrightarrow> \<not> uint_text s) \<and> uval v = int (uint_text_value s) mod 2 ^ 128
          \<and> \<not> (overflow \<and> uint_text_value s < 2 ^ 128) \<and> unchecked_string_to_uint128 s = v)"
proof -
  obtain v ov bad where a: "checked_string_to_uint u64_ops s False False = (v, ov, bad)" by (metis prod_cases3)
  obtain w ov' bad' where b: "checked_string_to_uint uint128_ops s False False = (w, ov', bad')" by (metis prod_cases3)
  show ?thesis
    using u64.checked_string_to_uint_val[OF a] u128.checked_string_to_uint_val[OF b]
      u64.unchecked_string_to_uint_eq[of s False False] u128.unchecked_string_to_uint_eq[of s False False] a b
    unfolding checked_string_to_uint64_def checked_string_to_uint128_def
      unchecked_string_to_uint64_def unchecked_string_to_uint128_def
    by auto
qed



text \<open>
  The overflow test of the digit loop compares each new value with the one before, which a wrap
  can exceed again: fifty quintillion is above every 64-bit number, but it is stored, without an error,
  as another number.
\<close>

lemma overflow_goes_unnoticed:
  "uint_text_value ''50000000000000000000'' = 5 * 10 ^ 19
   \<and> string_to_number env uint64_type_id ''50000000000000000000'' option assign_error_inexact
       = Inr (Some (Cell64 13106511852580896768))"
proof
  have digits: "checked_string_to_uint64 ''50000000000000000000'' False False = (13106511852580896768, False, False)"
    by code_simp
  have na: "\<not> matches_option_type_na_token ''50000000000000000000''" by code_simp
  show "uint_text_value ''50000000000000000000'' = 5 * 10 ^ 19"
    by (simp add: uint_text_value_def digits_value_def is_digit_def tail_exponent_def)
  show "string_to_number env uint64_type_id ''50000000000000000000'' option assign_error_inexact
       = Inr (Some (Cell64 13106511852580896768))"
    by (simp add: string_to_number_def na string_to_number_checked_def checked_unsigned_def digits
        assign_unsigned_int_value_def finish_integer_def)
qed

text \<open>
  A boolean is read from the words 0, n, f, no, off, false and 1, y, t, on, yes, true in any mix
  of upper and lower case, and from nothing else in a checked mode; without checks any other text of at
  most five characters is true, the empty one false. A missing value token of an optional boolean is
  stored as 2.
\<close>

lemma string_to_bool_words:
  "string_to_bool s option errmode =
    (if option \<and> matches_option_type_na_token s then Inr 2
     else if map to_lower s \<in> {''0'', ''n'', ''f'', ''no'', ''off'', ''false''} then Inr 0
     else if map to_lower s \<in> {''1'', ''y'', ''t'', ''on'', ''yes'', ''true''} then Inr 1
     else if errmode = assign_error_nocheck \<and> length s \<le> 5 then Inr (if s = [] then 0 else 1)
     else Inl (with_printed parse_error_converting_string s))"
proof (cases "option \<and> matches_option_type_na_token s")
  case True
  then show ?thesis by (simp add: string_to_bool_def)
next
  case False
  show ?thesis unfolding if_not_P[OF False] by (rule to_bool_lower[OF False])
qed

end
