(* ===== verification/Calendar.thy ===== *)
theory Calendar
  imports Prelude "HOL-Library.Signed_Division"
begin

text \<open>
  Dates, times of day and datetimes: \<^verbatim>\<open>date_ymd\<close>, \<^verbatim>\<open>time_hmst\<close> and \<^verbatim>\<open>datetime_struct\<close> of
  \<^verbatim>\<open>include/dynd/types\<close> and \<^verbatim>\<open>src/dynd/types\<close> with their conversions to day and tick counts
  and to text. The arithmetic of C, whose division rounds towards zero, is \<open>sdiv\<close> and \<open>smod\<close>; a
  store into a narrow field is a cast. The intermediate values of the day counts fit 32 bits for all
  years the 16-bit field of a date can hold; products of ticks are cast to 64 bits.
\<close>

section \<open>Integers of the fields\<close>

definition cast8 :: "int \<Rightarrow> int" where
  "cast8 k = sint (word_of_int k :: 8 word)"

definition cast16 :: "int \<Rightarrow> int" where
  "cast16 k = sint (word_of_int k :: 16 word)"

definition cast32 :: "int \<Rightarrow> int" where
  "cast32 k = sint (word_of_int k :: 32 word)"

definition cast64 :: "int \<Rightarrow> int" where
  "cast64 k = sint (word_of_int k :: 64 word)"

text \<open>The character \<open>'0' + k\<close>.\<close>

definition plus_zero_char :: "int \<Rightarrow> char" where
  "plus_zero_char k = char_of (nat ((48 + k) mod 256))"

section \<open>Dates\<close>

record date_ymd =
  ymd_year :: int
  ymd_month :: int
  ymd_day :: int

definition DATE_NA :: int where
  "DATE_NA = - (2 ^ 31)"

definition month_lengths :: "bool \<Rightarrow> int list" where
  "month_lengths leap =
     (if leap then [31, 29, 31, 30, 31, 30, 31, 31, 30, 31, 30, 31]
      else [31, 28, 31, 30, 31, 30, 31, 31, 30, 31, 30, 31])"

definition month_starts :: "bool \<Rightarrow> int list" where
  "month_starts leap =
     (if leap then [0, 31, 60, 91, 121, 152, 182, 213, 244, 274, 305, 335, 366]
      else [0, 31, 59, 90, 120, 151, 181, 212, 243, 273, 304, 334, 365])"

definition is_leap_year :: "int \<Rightarrow> bool" where
  "is_leap_year y \<longleftrightarrow> y smod 4 = 0 \<and> (y smod 100 \<noteq> 0 \<or> y smod 400 = 0)"

definition get_month_length :: "int \<Rightarrow> int \<Rightarrow> int" where
  "get_month_length y m =
     (if 1 \<le> m \<and> m \<le> 12 then month_lengths (is_leap_year y) ! nat (m - 1) else 0)"

definition date_is_valid :: "int \<Rightarrow> int \<Rightarrow> int \<Rightarrow> bool" where
  "date_is_valid y m d \<longleftrightarrow>
     (if m < 1 \<or> m > 12 then False
      else if d < 1 \<or> d > month_lengths (is_leap_year y) ! nat (m - 1) then False
      else True)"

definition date_is_na :: "date_ymd \<Rightarrow> bool" where
  "date_is_na a \<longleftrightarrow> ymd_month a = - 128"

definition to_days :: "int \<Rightarrow> int \<Rightarrow> int \<Rightarrow> int" where
  "to_days y m d =
     (if date_is_valid y m d
      then (let result = (y - 1970) * 365;
                result = (if result \<ge> 0
                          then result + ((y - (1968 + 1)) sdiv 4 - (y - (1900 + 1)) sdiv 100 + (y - (1600 + 1)) sdiv 400)
                          else result + ((y - 1972) sdiv 4 - (y - 2000) sdiv 100 + (y - 2000) sdiv 400))
            in result + month_starts (is_leap_year y) ! nat (m - 1) + (d - 1))
      else DATE_NA)"

definition ymd_to_days :: "date_ymd \<Rightarrow> int" where
  "ymd_to_days a = to_days (ymd_year a) (ymd_month a) (ymd_day a)"

definition get_weekday :: "date_ymd \<Rightarrow> int" where
  "get_weekday a =
     (let weekday = cast32 (ymd_to_days a - 4) smod 7 in if weekday < 0 then weekday + 7 else weekday)"

definition get_day_of_year :: "date_ymd \<Rightarrow> int" where
  "get_day_of_year a =
     (if date_is_valid (ymd_year a) (ymd_month a) (ymd_day a)
      then month_starts (is_leap_year (ymd_year a)) ! nat (ymd_month a - 1) + ymd_day a - 1
      else - 1)"

text \<open>The first position of a sorted range behind all elements that are at most \<open>v\<close>.\<close>

definition upper_bound :: "int list \<Rightarrow> int \<Rightarrow> nat" where
  "upper_bound xs v = length (takeWhile (\<lambda>x. \<not> v < x) xs)"

definition cycle_400 :: int where
  "cycle_400 = 400 * 365 + 100 - 4 + 1"

text \<open>The nested steps of \<^verbatim>\<open>set_from_days\<close>: to a 100 year, a 4 year and a 1 year cycle.\<close>

definition to_1_year_cycle :: "int \<Rightarrow> int \<Rightarrow> int \<times> int" where
  "to_1_year_cycle yearcalc days =
     (if days \<ge> 366 then (yearcalc + (days - 1) sdiv 365, (days - 1) smod 365) else (yearcalc, days))"

definition to_4_year_cycle :: "int \<Rightarrow> int \<Rightarrow> int \<times> int" where
  "to_4_year_cycle yearcalc days =
     (if days \<ge> 365
      then to_1_year_cycle (yearcalc + 4 * ((days + 1) sdiv (4 * 365 + 1))) ((days + 1) smod (4 * 365 + 1))
      else (yearcalc, days))"

definition to_100_year_cycle :: "int \<Rightarrow> int \<Rightarrow> int \<times> int" where
  "to_100_year_cycle yearcalc days =
     (if days \<ge> 366
      then to_4_year_cycle (yearcalc + 100 * ((days - 1) sdiv (100 * 365 + 25 - 1))) ((days - 1) smod (100 * 365 + 25 - 1))
      else (yearcalc, days))"

definition year_of_days :: "int \<Rightarrow> int \<times> int" where
  "year_of_days days0 =
     (let days = cast32 (days0 + 719528)
      in if days \<ge> 0
         then to_100_year_cycle (400 * (days sdiv cycle_400)) (days smod cycle_400)
         else to_100_year_cycle (400 * ((days - (400 * 365 + 100 - 4)) sdiv cycle_400))
                (let r = days smod cycle_400 in if r < 0 then r + cycle_400 else r))"

definition set_from_days :: "int \<Rightarrow> date_ymd" where
  "set_from_days days =
     (if days \<noteq> DATE_NA
      then (case year_of_days days of
              (yearcalc, rest) \<Rightarrow>
                (let monthstart = month_starts (is_leap_year yearcalc);
                     monthfound = 1 + upper_bound (tl monthstart) rest
                 in \<lparr> ymd_year = cast16 yearcalc, ymd_month = cast8 (int monthfound),
                      ymd_day = cast8 (rest - monthstart ! (monthfound - 1) + 1) \<rparr>))
      else \<lparr> ymd_year = 0, ymd_month = - 128, ymd_day = 0 \<rparr>)"

definition TICKS_PER_DAY :: int where
  "TICKS_PER_DAY = 24 * 60 * 60 * 10000000"

definition date_set_from_ticks :: "int \<Rightarrow> date_ymd" where
  "date_set_from_ticks ticks =
     (if ticks \<ge> 0 then set_from_days (cast32 (ticks sdiv TICKS_PER_DAY))
      else set_from_days (cast32 (cast64 (ticks - (TICKS_PER_DAY - 1)) sdiv TICKS_PER_DAY)))"

definition date_set_to_na :: "date_ymd \<Rightarrow> date_ymd" where
  "date_set_to_na a = a \<lparr> ymd_month := - 128 \<rparr>"

definition date_to_str :: "int \<Rightarrow> int \<Rightarrow> int \<Rightarrow> string" where
  "date_to_str y m d =
     (if date_is_valid y m d
      then (let md = [CHR ''-'', plus_zero_char (m sdiv 10), plus_zero_char (m smod 10),
                      CHR ''-'', plus_zero_char (d sdiv 10), plus_zero_char (d smod 10)]
            in if y \<ge> 1 \<and> y \<le> 9999
               then [plus_zero_char (y sdiv 1000), plus_zero_char (y sdiv 100 smod 10),
                     plus_zero_char (y sdiv 10 smod 10), plus_zero_char (y smod 10)] @ md
               else (let sign = (if y \<ge> 0 then CHR ''+'' else CHR ''-''); y = (if y \<ge> 0 then y else - y)
                     in [sign, plus_zero_char (y sdiv 100000), plus_zero_char (y sdiv 10000 smod 10),
                         plus_zero_char (y sdiv 1000 smod 10), plus_zero_char (y sdiv 100 smod 10),
                         plus_zero_char (y sdiv 10 smod 10), plus_zero_char (y smod 10)] @ md))
      else '''')"

section \<open>Two digit years\<close>

datatype date_error = invalid_century_window int

definition resolve_2digit_year_fixed_window :: "int \<Rightarrow> int \<Rightarrow> int" where
  "resolve_2digit_year_fixed_window y year_start =
     (let century_start = year_start sdiv 100 * 100;
          year_start_in_century = year_start - century_start
      in if y \<ge> year_start_in_century then century_start + y else century_start + 100 + y)"

text \<open>The system clock, in seconds since 1970, is the argument \<open>rawtime\<close>.\<close>

definition SECONDS_PER_DAY :: int where
  "SECONDS_PER_DAY = 24 * 60 * 60"

definition resolve_2digit_year_sliding_window :: "int \<Rightarrow> int \<Rightarrow> int \<Rightarrow> int" where
  "resolve_2digit_year_sliding_window rawtime y years_ago =
     (let current_date_days =
            (if rawtime \<ge> 0 then cast32 (rawtime sdiv SECONDS_PER_DAY)
             else cast32 ((rawtime - (SECONDS_PER_DAY - 1)) sdiv SECONDS_PER_DAY))
      in resolve_2digit_year_fixed_window y (ymd_year (set_from_days current_date_days) - years_ago))"

definition resolve_2digit_year :: "int \<Rightarrow> int \<Rightarrow> int \<Rightarrow> date_error + int" where
  "resolve_2digit_year rawtime y century_window =
     (if century_window \<ge> 1 \<and> century_window \<le> 99
      then Inr (resolve_2digit_year_sliding_window rawtime y century_window)
      else if century_window \<ge> 1000 then Inr (resolve_2digit_year_fixed_window y century_window)
      else Inl (invalid_century_window century_window))"

section \<open>Times of day\<close>

record time_hmst =
  hmst_hour :: int
  hmst_minute :: int
  hmst_second :: int
  hmst_tick :: int

definition TIME_NA :: int where
  "TIME_NA = - (2 ^ 63)"

definition time_is_valid :: "int \<Rightarrow> int \<Rightarrow> int \<Rightarrow> int \<Rightarrow> bool" where
  "time_is_valid h m s t \<longleftrightarrow>
     h \<ge> 0 \<and> h < 24 \<and> m \<ge> 0 \<and> m < 60 \<and> s \<ge> 0 \<and> s \<le> 60 \<and> t \<ge> 0 \<and> t < 10000000"

definition time_is_na :: "time_hmst \<Rightarrow> bool" where
  "time_is_na a \<longleftrightarrow> hmst_hour a = - 128"

definition time_to_ticks :: "int \<Rightarrow> int \<Rightarrow> int \<Rightarrow> int \<Rightarrow> int" where
  "time_to_ticks h m s t =
     (if time_is_valid h m s t
      then t + s * 10000000 + m * (60 * 10000000) + h * (60 * 60 * 10000000)
      else TIME_NA)"

definition hmst_to_ticks :: "time_hmst \<Rightarrow> int" where
  "hmst_to_ticks a = time_to_ticks (hmst_hour a) (hmst_minute a) (hmst_second a) (hmst_tick a)"

function tick_digits :: "int \<Rightarrow> int \<Rightarrow> string" where
  "tick_digits t divisor =
     (if t = 0 \<or> divisor \<le> 0 then ''''
      else plus_zero_char (t sdiv divisor) # tick_digits (t smod divisor) (divisor sdiv 10))"
  by pat_completeness auto
termination
  by (relation "measure (\<lambda>(t, divisor). nat divisor)") (auto simp: signed_divide_int_def sgn_if)

declare tick_digits.simps [simp del]

definition time_to_str :: "int \<Rightarrow> int \<Rightarrow> int \<Rightarrow> int \<Rightarrow> string" where
  "time_to_str h m s t =
     (if time_is_valid h m s t
      then [plus_zero_char (h sdiv 10), plus_zero_char (h smod 10), CHR '':'',
            plus_zero_char (m sdiv 10), plus_zero_char (m smod 10)]
           @ (if s \<noteq> 0 \<or> t \<noteq> 0
              then [CHR '':'', plus_zero_char (s sdiv 10), plus_zero_char (s smod 10)]
                   @ (if t \<noteq> 0 then CHR ''.'' # tick_digits t 1000000 else '''')
              else '''')
      else '''')"

definition time_set_to_na :: "time_hmst \<Rightarrow> time_hmst" where
  "time_set_to_na a = a \<lparr> hmst_hour := - 128 \<rparr>"

definition time_set_to_zero :: time_hmst where
  "time_set_to_zero = \<lparr> hmst_hour = 0, hmst_minute = 0, hmst_second = 0, hmst_tick = 0 \<rparr>"

definition time_set_from_ticks :: "time_hmst \<Rightarrow> int \<Rightarrow> time_hmst" where
  "time_set_from_ticks old ticks =
     (if ticks \<ge> 0 \<and> ticks < TICKS_PER_DAY
      then (let t = cast32 (ticks smod 10000000); ticks = ticks sdiv 10000000;
                s = cast8 (ticks smod 60); ticks = ticks sdiv 60
            in \<lparr> hmst_hour = cast8 (ticks sdiv 60), hmst_minute = cast8 (ticks smod 60), hmst_second = s, hmst_tick = t \<rparr>)
      else time_set_to_na old)"

section \<open>Datetimes\<close>

record datetime_struct =
  dt_ymd :: date_ymd
  dt_hmst :: time_hmst

definition DATETIME_NA :: int where
  "DATETIME_NA = - (2 ^ 63)"

definition datetime_is_valid :: "datetime_struct \<Rightarrow> bool" where
  "datetime_is_valid a \<longleftrightarrow>
     date_is_valid (ymd_year (dt_ymd a)) (ymd_month (dt_ymd a)) (ymd_day (dt_ymd a))
     \<and> time_is_valid (hmst_hour (dt_hmst a)) (hmst_minute (dt_hmst a)) (hmst_second (dt_hmst a)) (hmst_tick (dt_hmst a))"

definition datetime_to_ticks :: "datetime_struct \<Rightarrow> int" where
  "datetime_to_ticks a =
     (if datetime_is_valid a
      then cast64 (cast64 (ymd_to_days (dt_ymd a) * TICKS_PER_DAY) + hmst_to_ticks (dt_hmst a))
      else DATETIME_NA)"

definition datetime_set_to_na :: "datetime_struct \<Rightarrow> datetime_struct" where
  "datetime_set_to_na a = a \<lparr> dt_ymd := date_set_to_na (dt_ymd a) \<rparr>"

definition datetime_set_from_ticks :: "datetime_struct \<Rightarrow> int \<Rightarrow> datetime_struct" where
  "datetime_set_from_ticks old ticks =
     (if ticks \<noteq> DATETIME_NA
      then (let days = (if ticks \<ge> 0 then cast32 (ticks sdiv TICKS_PER_DAY)
                        else cast32 (cast64 (ticks - (TICKS_PER_DAY - 1)) sdiv TICKS_PER_DAY));
                r = ticks smod TICKS_PER_DAY;
                ticks = (if ticks < 0 \<and> r < 0 then r + TICKS_PER_DAY else r)
            in \<lparr> dt_ymd = set_from_days days, dt_hmst = time_set_from_ticks (dt_hmst old) ticks \<rparr>)
      else datetime_set_to_na old)"

definition datetime_to_str :: "datetime_struct \<Rightarrow> string" where
  "datetime_to_str a =
     (if datetime_is_valid a
      then date_to_str (ymd_year (dt_ymd a)) (ymd_month (dt_ymd a)) (ymd_day (dt_ymd a)) @ ''T''
           @ time_to_str (hmst_hour (dt_hmst a)) (hmst_minute (dt_hmst a)) (hmst_second (dt_hmst a)) (hmst_tick (dt_hmst a))
      else '''')"

section \<open>Division of C\<close>

lemma sdiv_nonneg: "0 \<le> (k::int) \<Longrightarrow> 0 < n \<Longrightarrow> k sdiv n = k div n"
  by (auto simp: signed_divide_int_def sgn_if)

lemma smod_nonneg: "0 \<le> (k::int) \<Longrightarrow> 0 < n \<Longrightarrow> k smod n = k mod n"
  by (auto simp: signed_modulo_int_def sgn_if)

lemma sdiv_nonpos: "(k::int) \<le> 0 \<Longrightarrow> 0 < n \<Longrightarrow> k sdiv n = (k + (n - 1)) div n"
proof -
  assume k: "k \<le> 0" "0 < n"
  have "k sdiv n = - ((- k) div n)" using k by (auto simp: signed_divide_int_def sgn_if)
  also have "\<dots> = (k + (n - 1)) div n"
  proof (rule int_div_pos_eq[symmetric, where r = "n - 1 - (- k) mod n"])
    show "k + (n - 1) = n * - ((- k) div n) + (n - 1 - (- k) mod n)"
      using mult_div_mod_eq[of n "- k"] by (simp add: algebra_simps)
    show "0 \<le> n - 1 - (- k) mod n" using pos_mod_bound[OF k(2), of "- k"] by linarith
    show "n - 1 - (- k) mod n < n" using pos_mod_sign[OF k(2), of "- k"] by linarith
  qed
  finally show ?thesis .
qed

lemma smod_zero_iff: "0 < n \<Longrightarrow> (k::int) smod n = 0 \<longleftrightarrow> n dvd k"
  by (auto simp: signed_modulo_int_def sgn_if dvd_eq_mod_eq_0[symmetric])

lemma smod_wrapped:
  assumes "0 < n"
  shows "(if (k::int) smod n < 0 then k smod n + n else k smod n) = k mod n"
proof (cases "0 \<le> k")
  case True
  then show ?thesis using pos_mod_sign[OF assms, of k] unfolding smod_nonneg[OF True assms] by (simp only: not_less[symmetric] if_False)
next
  case False
  then have s: "k smod n = - ((- k) mod n)" using assms by (simp add: signed_modulo_int_def sgn_if)
  show ?thesis unfolding s using assms pos_mod_bound[OF assms, of k]
    by (auto simp: zmod_zminus1_eq_if)
qed

lemma floor_sdiv: "(k::int) < 0 \<Longrightarrow> 0 < n \<Longrightarrow> (k - (n - 1)) sdiv n = k div n"
  by (subst sdiv_nonpos) simp_all

lemma cast_id:
  "- 128 \<le> k \<Longrightarrow> k < 128 \<Longrightarrow> cast8 k = k" "- 32768 \<le> k \<Longrightarrow> k < 32768 \<Longrightarrow> cast16 k = k"
  "- (2 ^ 31) \<le> k \<Longrightarrow> k < 2 ^ 31 \<Longrightarrow> cast32 k = k" "- (2 ^ 63) \<le> k \<Longrightarrow> k < 2 ^ 63 \<Longrightarrow> cast64 k = k"
  by (simp_all add: cast8_def cast16_def cast32_def cast64_def sint_sbintrunc' signed_take_bit_int_eq_self)

section \<open>Days of a year and of a month\<close>

lemma is_leap_iff: "is_leap_year y \<longleftrightarrow> 4 dvd y \<and> (\<not> 100 dvd y \<or> 400 dvd y)"
  by (simp add: is_leap_year_def smod_zero_iff)

text \<open>The days from the beginning of year 0 to that of year \<open>y\<close>.\<close>

definition year_days :: "int \<Rightarrow> int" where
  "year_days y = 365 * y + (y + 3) div 4 - (y + 99) div 100 + (y + 399) div 400"

definition year_length :: "int \<Rightarrow> int" where
  "year_length y = (if is_leap_year y then 366 else 365)"

lemma div_pred: "0 < n \<Longrightarrow> y div n = (y - 1) div n + of_bool (n dvd (y::int))"
proof -
  assume n: "0 < n"
  define q r where "q = y div n" and "r = y mod n"
  have y: "y = q * n + r" "0 \<le> r" "r < n" using n by (simp_all add: q_def r_def)
  have d: "n dvd y \<longleftrightarrow> r = 0" by (simp add: r_def dvd_eq_mod_eq_0)
  show ?thesis
  proof (cases "r = 0")
    case True
    have "(y - 1) div n = q - 1" by (rule int_div_pos_eq[where r = "n - 1"]) (use y True n in \<open>simp_all add: algebra_simps\<close>)
    then show ?thesis using True d by (simp add: q_def)
  next
    case False
    have "(y - 1) div n = q" by (rule int_div_pos_eq[where r = "r - 1"]) (use y False n in \<open>simp_all add: algebra_simps\<close>)
    then show ?thesis using False d by (simp add: q_def)
  qed
qed

lemma year_days_Suc: "year_days (y + 1) = year_days y + year_length y"
proof -
  have s: "(y + n) div n = (y + (n - 1)) div n + of_bool (n dvd y)" if "0 < n" for n
    using div_pred[OF that, of "y + n"] by (simp add: algebra_simps)
  show ?thesis
    unfolding year_days_def year_length_def is_leap_iff using s[of 4] s[of 100] s[of 400]
    by (auto simp: algebra_simps)
qed

lemma dvd_plus_small: "0 \<le> r \<Longrightarrow> r < n \<Longrightarrow> (n::int) dvd n * k + r \<longleftrightarrow> r = 0"
  by (auto simp: dvd_add_right_iff dest: zdvd_imp_le)

lemma year_days_cycles:
  assumes "0 \<le> b" "b \<le> 3" "0 \<le> c" "c \<le> 24" "0 \<le> w" "w \<le> 3"
  shows "year_days (400 * a + 100 * b + 4 * c + w) = 146097 * a + 36524 * b + 1461 * c + 365 * w
      + (if w = 0 \<and> (c \<noteq> 0 \<or> b = 0) then 0 else 1)"
    and "is_leap_year (400 * a + 100 * b + 4 * c + w) \<longleftrightarrow> w = 0 \<and> (c \<noteq> 0 \<or> b = 0)"
proof -
  let ?y = "400 * a + 100 * b + 4 * c + w"
  have nz: "4 * c + w = 0 \<longleftrightarrow> c = 0 \<and> w = 0" "100 * b + 4 * c + w = 0 \<longleftrightarrow> b = 0 \<and> c = 0 \<and> w = 0"
    using assms by presburger+
  have d4: "(?y + 3) div 4 = 100 * a + 25 * b + c + of_bool (w \<noteq> 0)"
    by (rule int_div_pos_eq[where r = "if w = 0 then 3 else w - 1"]) (use assms in \<open>auto\<close>)
  have d100: "(?y + 99) div 100 = 4 * a + b + of_bool (4 * c + w \<noteq> 0)"
    by (rule int_div_pos_eq[where r = "if 4 * c + w = 0 then 99 else 4 * c + w - 1"]) (use assms in \<open>auto\<close>)
  have d400: "(?y + 399) div 400 = a + of_bool (100 * b + 4 * c + w \<noteq> 0)"
    by (rule int_div_pos_eq[where r = "if 100 * b + 4 * c + w = 0 then 399 else 100 * b + 4 * c + w - 1"]) (use assms in \<open>auto\<close>)
  show "year_days ?y = 146097 * a + 36524 * b + 1461 * c + 365 * w + (if w = 0 \<and> (c \<noteq> 0 \<or> b = 0) then 0 else 1)"
    unfolding year_days_def d4 d100 d400 nz by (cases "w = 0"; cases "c = 0"; cases "b = 0") (simp_all add: algebra_simps)
  have "4 dvd ?y \<longleftrightarrow> w = 0" using dvd_plus_small[of w 4 "100 * a + 25 * b + c"] assms by (simp add: algebra_simps)
  moreover have "100 dvd ?y \<longleftrightarrow> 4 * c + w = 0"
    using dvd_plus_small[of "4 * c + w" 100 "4 * a + b"] assms by (simp add: algebra_simps)
  moreover have "400 dvd ?y \<longleftrightarrow> 100 * b + 4 * c + w = 0"
    using dvd_plus_small[of "100 * b + 4 * c + w" 400 a] assms by (simp add: algebra_simps)
  ultimately show "is_leap_year ?y \<longleftrightarrow> w = 0 \<and> (c \<noteq> 0 \<or> b = 0)"
    unfolding is_leap_iff nz by blast
qed

lemma to_1_year_cycle_val:
  assumes "0 \<le> g" "g < 1461" "0 \<le> b" "b \<le> 3" "0 \<le> c" "c \<le> 24" "c \<noteq> 0 \<or> 366 \<le> g"
  obtains y rest where "to_1_year_cycle (400 * a + 100 * b + 4 * c) g = (y, rest)" "0 \<le> rest" "rest < year_length y"
    "year_days y + rest = 146097 * a + 36524 * b + 1461 * c + g"
proof (cases "g \<ge> 366")
  case False
  then show thesis
    using that[of "400 * a + 100 * b + 4 * c" g] year_days_cycles[of b c 0 a] assms
    by (simp add: to_1_year_cycle_def year_length_def)
next
  case True
  define w where "w = (g - 1) div 365"
  define h where "h = (g - 1) mod 365"
  have h: "g - 1 = 365 * w + h" "0 \<le> h" "h < 365" by (simp_all add: w_def h_def)
  have w: "1 \<le> w" "w \<le> 3" using h assms(2) True by linarith+
  have "to_1_year_cycle (400 * a + 100 * b + 4 * c) g = (400 * a + 100 * b + 4 * c + w, h)"
    using True by (simp add: to_1_year_cycle_def sdiv_nonneg smod_nonneg w_def h_def)
  then show thesis
    using that[of "400 * a + 100 * b + 4 * c + w" h] year_days_cycles[of b c w a] assms w h by (simp add: year_length_def)
qed

lemma to_4_year_cycle_val:
  assumes "0 \<le> f" "f < 36524" "0 \<le> b" "b \<le> 3" "b \<noteq> 0 \<or> 365 \<le> f"
  obtains y rest where "to_4_year_cycle (400 * a + 100 * b) f = (y, rest)" "0 \<le> rest" "rest < year_length y"
    "year_days y + rest = 146097 * a + 36524 * b + f + 1"
proof (cases "f \<ge> 365")
  case False
  then show thesis
    using that[of "400 * a + 100 * b" f] year_days_cycles[of b 0 0 a] assms
    by (simp add: to_4_year_cycle_def year_length_def)
next
  case True
  define c where "c = (f + 1) div 1461"
  define g where "g = (f + 1) mod 1461"
  have g: "f + 1 = 1461 * c + g" "0 \<le> g" "g < 1461" by (simp_all add: c_def g_def)
  have c: "0 \<le> c" "c \<le> 24" using g assms(2) True by linarith+
  have "c \<noteq> 0 \<or> 366 \<le> g" using g True by auto
  note one = to_1_year_cycle_val[OF g(2,3) assms(3,4) c this, of a]
  have "to_4_year_cycle (400 * a + 100 * b) f = to_1_year_cycle (400 * a + 100 * b + 4 * c) g"
    using True assms(1) by (simp add: to_4_year_cycle_def sdiv_nonneg smod_nonneg c_def g_def)
  then show thesis using that one g(1) by (metis (no_types, lifting) add.assoc)
qed

lemma to_100_year_cycle_val:
  assumes "0 \<le> e" "e < 146097"
  obtains y rest where "to_100_year_cycle (400 * a) e = (y, rest)" "0 \<le> rest" "rest < year_length y"
    "year_days y + rest = 146097 * a + e"
proof (cases "e \<ge> 366")
  case False
  then show thesis
    using that[of "400 * a" e] year_days_cycles[of 0 0 0 a] assms by (simp add: to_100_year_cycle_def year_length_def)
next
  case True
  define b where "b = (e - 1) div 36524"
  define f where "f = (e - 1) mod 36524"
  have f: "e - 1 = 36524 * b + f" "0 \<le> f" "f < 36524" by (simp_all add: b_def f_def)
  have b: "0 \<le> b" "b \<le> 3" using f assms True by linarith+
  have "b \<noteq> 0 \<or> 365 \<le> f" using f True by auto
  note four = to_4_year_cycle_val[OF f(2,3) b this, of a]
  have e: "146097 * a + 36524 * b + f + 1 = 146097 * a + e" using f(1) by simp
  have "to_100_year_cycle (400 * a) e = to_4_year_cycle (400 * a + 100 * b) f"
    using True by (simp add: to_100_year_cycle_def sdiv_nonneg smod_nonneg b_def f_def)
  then show thesis using that four unfolding e by metis
qed

text \<open>The cascade of cycles finds the year a day lies in.\<close>

lemma year_of_days_val:
  assumes "- (2 ^ 31) \<le> days + 719528" "days + 719528 < 2 ^ 31"
  obtains y rest where "year_of_days days = (y, rest)" "0 \<le> rest" "rest < year_length y" "year_days y + rest = days + 719528"
proof -
  define D where "D = days + 719528"
  have c: "cast32 (days + 719528) = D" unfolding D_def by (rule cast_id(3)[OF assms])
  have "year_of_days days = to_100_year_cycle (400 * (D div 146097)) (D mod 146097)"
    unfolding year_of_days_def Let_def c cycle_400_def
    using sdiv_nonneg[of D 146097] smod_nonneg[of D 146097] floor_sdiv[of D 146097] smod_wrapped[of 146097 D]
    by (cases "0 \<le> D"; cases "D smod 146097 < 0") simp_all
  then show thesis
    using to_100_year_cycle_val[of "D mod 146097" "D div 146097"] that unfolding D_def[symmetric]
    by (metis mult_div_mod_eq pos_mod_bound pos_mod_sign zero_less_numeral)
qed

lemma year_days_mono: "y \<le> y' \<Longrightarrow> year_days y \<le> year_days y'"
proof (induction y' rule: int_ge_induct)
  case (step y')
  then show ?case using year_days_Suc[of y'] by (simp add: year_length_def split: if_splits)
qed simp

lemma year_days_less: "y < y' \<Longrightarrow> year_days y + year_length y \<le> year_days y'"
  using year_days_mono[of "y + 1" y'] by (simp add: year_days_Suc)

lemma year_unique:
  assumes "year_days y + r = year_days y' + r'" "0 \<le> r" "r < year_length y" "0 \<le> r'" "r' < year_length y'"
  shows "y = y' \<and> r = r'"
proof (cases y y' rule: linorder_cases)
  case less
  then show ?thesis using year_days_less[of y y'] assms by linarith
next
  case greater
  then show ?thesis using year_days_less[of y' y] assms by linarith
qed (use assms in simp)

section \<open>Months\<close>

lemma month_cases:
  assumes "1 \<le> m" "m \<le> (12::int)"
  shows "m = 1 \<or> m = 2 \<or> m = 3 \<or> m = 4 \<or> m = 5 \<or> m = 6 \<or> m = 7 \<or> m = 8 \<or> m = 9 \<or> m = 10 \<or> m = 11 \<or> m = 12"
  using assms by presburger

lemma month_lengths_pos: "k < 12 \<Longrightarrow> 0 \<le> month_lengths l ! k"
proof -
  assume "k < 12"
  then have "month_lengths l ! k \<in> set (month_lengths l)" by (intro nth_mem) (simp add: month_lengths_def)
  then show ?thesis by (auto simp: month_lengths_def split: if_splits)
qed

text \<open>The day of the year of the first of a month, and its length.\<close>

lemma month_tables:
  assumes "1 \<le> m" "m \<le> 12"
  shows "0 \<le> month_starts l ! nat (m - 1)"
    and "month_starts l ! nat (m - 1) + month_lengths l ! nat (m - 1) = month_starts l ! nat m"
    and "month_starts l ! nat m \<le> (if l then 366 else 365)"
    and "month_lengths l ! nat (m - 1) \<le> 31"
proof -
  have "0 \<le> month_starts l ! nat (m - 1)
    \<and> month_starts l ! nat (m - 1) + month_lengths l ! nat (m - 1) = month_starts l ! nat m
    \<and> month_starts l ! nat m \<le> (if l then 366 else 365) \<and> month_lengths l ! nat (m - 1) \<le> 31"
    using month_cases[OF assms] by (elim disjE) (cases l; simp add: month_starts_def month_lengths_def)+
  then show "0 \<le> month_starts l ! nat (m - 1)"
    "month_starts l ! nat (m - 1) + month_lengths l ! nat (m - 1) = month_starts l ! nat m"
    "month_starts l ! nat m \<le> (if l then 366 else 365)" "month_lengths l ! nat (m - 1) \<le> 31" by blast+
qed

text \<open>The search stops at the month: the starts up to it are at most the day, the next is above.\<close>

lemma upper_bound_eq:
  assumes "k \<le> length xs" "\<And>i. i < k \<Longrightarrow> xs ! i \<le> v" "k < length xs \<Longrightarrow> v < xs ! k"
  shows "upper_bound xs v = k"
proof -
  have "takeWhile (\<lambda>x. \<not> v < x) xs = take k xs"
    using assms by (intro takeWhile_eq_take_P_nth) (auto simp: not_less)
  then show ?thesis using assms(1) by (simp add: upper_bound_def)
qed

lemma month_starts_mono: "i \<le> j \<Longrightarrow> j \<le> 12 \<Longrightarrow> month_starts l ! i \<le> month_starts l ! j"
proof (induction j)
  case (Suc j)
  have "month_starts l ! j \<le> month_starts l ! Suc j"
  proof -
    have "0 \<le> month_lengths l ! j" using Suc.prems(2) by (intro month_lengths_pos) simp
    then show ?thesis using month_tables(2)[of "int (Suc j)" l] Suc.prems(2) by (simp add: nat_add_distrib)
  qed
  then show ?case using Suc by (cases "i = Suc j") auto
qed simp

lemma month_found:
  assumes "1 \<le> m" "m \<le> 12" "1 \<le> d" "d \<le> month_lengths l ! nat (m - 1)"
  shows "1 + upper_bound (tl (month_starts l)) (month_starts l ! nat (m - 1) + (d - 1)) = nat m"
proof -
  have n: "nat m = Suc (nat (m - 1))" using assms(1) by simp
  have tl: "tl (month_starts l) ! i = month_starts l ! Suc i" if "i < 12" for i
    using that by (simp add: nth_tl month_starts_def)
  have "upper_bound (tl (month_starts l)) (month_starts l ! nat (m - 1) + (d - 1)) = nat (m - 1)"
  proof (rule upper_bound_eq)
    show "nat (m - 1) \<le> length (tl (month_starts l))" using assms(2) by (simp add: month_starts_def)
    show "tl (month_starts l) ! i \<le> month_starts l ! nat (m - 1) + (d - 1)" if "i < nat (m - 1)" for i
    proof -
      have "nat (m - 1) \<le> 12" "i < 12" using that assms(2) by linarith+
      then show ?thesis using month_starts_mono[of "Suc i" "nat (m - 1)" l] that assms(3) tl[of i] by simp
    qed
    show "month_starts l ! nat (m - 1) + (d - 1) < tl (month_starts l) ! nat (m - 1)"
      using month_tables(2)[OF assms(1,2), of l] assms tl[of "nat (m - 1)"] n by simp
  qed
  then show ?thesis using n by simp
qed

lemma month_exists:
  assumes "0 \<le> rest" "rest < (if l then 366 else 365)"
  obtains m d where "1 \<le> m" "m \<le> 12" "1 \<le> d" "d \<le> month_lengths l ! nat (m - 1)" "rest = month_starts l ! nat (m - 1) + (d - 1)"
proof -
  have "\<exists>m d. 1 \<le> m \<and> m \<le> 12 \<and> 1 \<le> d \<and> d \<le> month_lengths l ! nat (m - 1) \<and> rest = month_starts l ! nat (m - 1) + (d - 1)"
  proof -
    have step: "\<exists>m d. 1 \<le> m \<and> m \<le> int k \<and> 1 \<le> d \<and> d \<le> month_lengths l ! nat (m - 1) \<and> rest = month_starts l ! nat (m - 1) + (d - 1)"
      if "rest < month_starts l ! k" "k \<le> 12" for k
      using that
    proof (induction k)
      case 0
      then show ?case using assms(1) by (simp add: month_starts_def split: if_splits)
    next
      case (Suc k)
      show ?case
      proof (cases "rest < month_starts l ! k")
        case True
        then show ?thesis using Suc by fastforce
      next
        case False
        have "month_starts l ! k + month_lengths l ! k = month_starts l ! Suc k"
          using month_tables(2)[of "int (Suc k)" l] Suc.prems by (simp add: nat_add_distrib)
        then show ?thesis using False Suc.prems
          by (intro exI[of _ "int (Suc k)"] exI[of _ "rest - month_starts l ! k + 1"]) simp
      qed
    qed
    have "rest < month_starts l ! 12" using assms(2) by (simp add: month_starts_def split: if_splits)
    then show ?thesis using step[of 12] by simp
  qed
  then show thesis using that by blast
qed

lemma date_is_valid_iff:
  "date_is_valid y m d \<longleftrightarrow> 1 \<le> m \<and> m \<le> 12 \<and> 1 \<le> d \<and> d \<le> month_lengths (is_leap_year y) ! nat (m - 1)"
  by (auto simp: date_is_valid_def)

text \<open>The day count of the source is that of the calendar.\<close>

lemma to_days_val:
  assumes "date_is_valid y m d"
  shows "to_days y m d = year_days y - 719528 + month_starts (is_leap_year y) ! nat (m - 1) + (d - 1)"
proof -
  have d4: "(y - 1969) div 4 = (y + 3) div 4 - 493" using div_mult_self1[of 4 "y + 3" "- 493"] by simp
  have d100: "(y - 1901) div 100 = (y + 99) div 100 - 20" using div_mult_self1[of 100 "y + 99" "- 20"] by simp
  have d400: "(y - 1601) div 400 = (y + 399) div 400 - 5" using div_mult_self1[of 400 "y + 399" "- 5"] by simp
  have "(if (y - 1970) * 365 \<ge> 0
         then (y - 1970) * 365 + ((y - (1968 + 1)) sdiv 4 - (y - (1900 + 1)) sdiv 100 + (y - (1600 + 1)) sdiv 400)
         else (y - 1970) * 365 + ((y - 1972) sdiv 4 - (y - 2000) sdiv 100 + (y - 2000) sdiv 400)) = year_days y - 719528"
  proof (cases "1970 \<le> y")
    case True
    then show ?thesis using d4 d100 d400 by (simp add: sdiv_nonneg year_days_def)
  next
    case False
    then show ?thesis using d4 d100 d400 by (simp add: sdiv_nonpos year_days_def)
  qed
  then show ?thesis using assms unfolding to_days_def Let_def by simp
qed

section \<open>Dates and day counts\<close>

definition first_day :: int where "first_day = - 12687794"
definition last_day :: int where "last_day = 11248738"

lemma year_days_ends: "year_days (- 32768) - 719528 = first_day" "year_days 32768 - 719528 = last_day"
  by (simp_all add: year_days_def first_day_def last_day_def)

lemma valid_day_bounds:
  assumes "date_is_valid y m d"
  defines "r \<equiv> month_starts (is_leap_year y) ! nat (m - 1) + (d - 1)"
  shows "0 \<le> r" "r < year_length y" "to_days y m d = year_days y - 719528 + r"
proof -
  have v: "1 \<le> m" "m \<le> 12" "1 \<le> d" "d \<le> month_lengths (is_leap_year y) ! nat (m - 1)"
    using assms(1) unfolding date_is_valid_iff by blast+
  note t = month_tables[OF v(1,2), of "is_leap_year y"]
  show "0 \<le> r" using t(1) v(3) by (simp add: r_def)
  show "r < year_length y" using t(2,3) v(4) by (simp add: r_def year_length_def split: if_splits)
  show "to_days y m d = year_days y - 719528 + r" using to_days_val[OF assms(1)] by (simp add: r_def)
qed

lemma to_days_range:
  assumes "date_is_valid y m d" "- 32768 \<le> y" "y < 32768"
  shows "first_day \<le> to_days y m d" "to_days y m d < last_day"
  using valid_day_bounds[OF assms(1)] year_days_mono[OF assms(2)] year_days_less[OF assms(3)] year_days_ends by linarith+

lemma set_from_days_to_days:
  assumes "date_is_valid y m d" "- 32768 \<le> y" "y < 32768"
  shows "set_from_days (to_days y m d) = \<lparr> ymd_year = y, ymd_month = m, ymd_day = d \<rparr>"
proof -
  let ?n = "to_days y m d" and ?r = "month_starts (is_leap_year y) ! nat (m - 1) + (d - 1)"
  have v: "1 \<le> m" "m \<le> 12" "1 \<le> d" "d \<le> month_lengths (is_leap_year y) ! nat (m - 1)"
    using assms(1) unfolding date_is_valid_iff by blast+
  have n: "first_day \<le> ?n" "?n < last_day" using to_days_range[OF assms] .
  then have na: "?n \<noteq> DATE_NA" by (simp add: first_day_def DATE_NA_def)
  have "- (2 ^ 31) \<le> ?n + 719528" "?n + 719528 < 2 ^ 31" using n by (simp_all add: first_day_def last_day_def)
  from year_of_days_val[OF this] obtain y' r' where y': "year_of_days ?n = (y', r')" "0 \<le> r'" "r' < year_length y'"
    "year_days y' + r' = ?n + 719528" by blast
  have "year_days y' + r' = year_days y + ?r" using y'(4) valid_day_bounds(3)[OF assms(1)] by linarith
  then have e: "y' = y" "r' = ?r" using year_unique[of y' r' y ?r] y'(2,3) valid_day_bounds(1,2)[OF assms(1)] by blast+
  have "d \<le> 31" using v(4) month_tables(4)[OF v(1,2), of "is_leap_year y"] by linarith
  then show ?thesis
    unfolding set_from_days_def y'(1)[unfolded e] prod.case Let_def month_found[OF v] using na v assms(2,3)
    by (simp add: nat_diff_distrib cast_id)
qed

lemma to_days_set_from_days:
  assumes "first_day \<le> n" "n < last_day"
  obtains y m d where "set_from_days n = \<lparr> ymd_year = y, ymd_month = m, ymd_day = d \<rparr>" "date_is_valid y m d"
    "- 32768 \<le> y" "y < 32768" "to_days y m d = n"
proof -
  have "- (2 ^ 31) \<le> n + 719528" "n + 719528 < 2 ^ 31" using assms by (simp_all add: first_day_def last_day_def)
  from year_of_days_val[OF this] obtain y r where y: "year_of_days n = (y, r)" "0 \<le> r" "r < year_length y"
    "year_days y + r = n + 719528" by blast
  obtain m d where md: "1 \<le> m" "m \<le> 12" "1 \<le> d" "d \<le> month_lengths (is_leap_year y) ! nat (m - 1)"
    "r = month_starts (is_leap_year y) ! nat (m - 1) + (d - 1)"
    using month_exists[of r "is_leap_year y"] y(2,3) unfolding year_length_def by blast
  then have v: "date_is_valid y m d" by (simp add: date_is_valid_iff)
  have ge: "- 32768 \<le> y"
  proof (rule ccontr)
    assume "\<not> - 32768 \<le> y"
    then show False using year_days_less[of y "- 32768"] y(3,4) assms(1) year_days_ends by linarith
  qed
  have lt: "y < 32768"
  proof (rule ccontr)
    assume "\<not> y < 32768"
    then show False using year_days_mono[of 32768 y] y(2,4) assms(2) year_days_ends by linarith
  qed
  have n: "to_days y m d = n" using valid_day_bounds(3)[OF v] md(5) y(4) by linarith
  show thesis using that[OF _ v ge lt n] set_from_days_to_days[OF v ge lt] n by simp
qed

text \<open>
  C19. The conversions between dates and day counts are inverse to each other: a date with a 16-bit
  year is valid and has the count \<open>n\<close> exactly when \<open>n\<close> is one of the counts from that of January 1,
  -32768 to that of December 31, 32767 and the conversion of \<open>n\<close> gives that date.
\<close>

theorem date_day_count_bijection:
  "(date_is_valid y m d \<and> - 32768 \<le> y \<and> y < 32768 \<and> to_days y m d = n)
    \<longleftrightarrow> (- 12687794 \<le> n \<and> n < 11248738 \<and> set_from_days n = \<lparr> ymd_year = y, ymd_month = m, ymd_day = d \<rparr>)"
proof
  assume "date_is_valid y m d \<and> - 32768 \<le> y \<and> y < 32768 \<and> to_days y m d = n"
  then show "- 12687794 \<le> n \<and> n < 11248738 \<and> set_from_days n = \<lparr> ymd_year = y, ymd_month = m, ymd_day = d \<rparr>"
    using to_days_range[of y m d] set_from_days_to_days[of y m d] by (simp add: first_day_def last_day_def)
next
  assume "- 12687794 \<le> n \<and> n < 11248738 \<and> set_from_days n = \<lparr> ymd_year = y, ymd_month = m, ymd_day = d \<rparr>"
  then show "date_is_valid y m d \<and> - 32768 \<le> y \<and> y < 32768 \<and> to_days y m d = n"
    using to_days_set_from_days[of n] by (auto simp: first_day_def last_day_def)
qed

section \<open>Times and tick counts\<close>

lemma join_divmod:
  assumes "0 \<le> r" "r < (n::int)"
  shows "(q * n + r) div n = q" "(q * n + r) mod n = r"
  using assms by (auto intro: int_div_pos_eq int_mod_pos_eq simp: mult.commute)

lemma time_set_from_ticks_val:
  assumes "0 \<le> k" "k < TICKS_PER_DAY"
  defines "sec \<equiv> k div 10000000"
  shows "time_set_from_ticks old k =
    \<lparr> hmst_hour = sec div 60 div 60, hmst_minute = sec div 60 mod 60, hmst_second = sec mod 60, hmst_tick = k mod 10000000 \<rparr>"
proof -
  have k: "k < 864000000000" using assms(2) by (simp add: TICKS_PER_DAY_def)
  have sec: "0 \<le> sec" "sec < 86400" using assms(1) k unfolding sec_def by linarith+
  define mi where "mi = sec div 60"
  have mi: "0 \<le> mi" "mi < 1440" using sec unfolding mi_def by linarith+
  have h: "0 \<le> mi div 60" "mi div 60 < 24" using mi by linarith+
  have r: "0 \<le> mi mod 60" "mi mod 60 < 60" "0 \<le> sec mod 60" "sec mod 60 < 60" "0 \<le> k mod 10000000" "k mod 10000000 < 10000000"
    by simp_all
  have "time_set_from_ticks old k = \<lparr> hmst_hour = cast8 (mi div 60), hmst_minute = cast8 (mi mod 60),
      hmst_second = cast8 (sec mod 60), hmst_tick = cast32 (k mod 10000000) \<rparr>"
    unfolding time_set_from_ticks_def Let_def using assms(1,2) sec mi
    by (simp only: sdiv_nonneg smod_nonneg sec_def[symmetric] mi_def[symmetric] zero_less_numeral simp_thms if_True)
  also have "\<dots> = \<lparr> hmst_hour = mi div 60, hmst_minute = mi mod 60, hmst_second = sec mod 60, hmst_tick = k mod 10000000 \<rparr>"
  proof -
    have "cast8 (mi div 60) = mi div 60" "cast8 (mi mod 60) = mi mod 60" "cast8 (sec mod 60) = sec mod 60"
      using h r by (intro cast_id; linarith)+
    moreover have "cast32 (k mod 10000000) = k mod 10000000"
    proof (rule cast_id(3))
      show "- (2 ^ 31) \<le> k mod 10000000" by (rule order.trans[OF _ r(5)]) simp
      show "k mod 10000000 < 2 ^ 31" by (rule order.strict_trans[OF r(6)]) simp
    qed
    ultimately show ?thesis by (simp only:)
  qed
  finally show ?thesis unfolding mi_def .
qed

lemma time_ticks_back:
  assumes "0 \<le> k" "k < TICKS_PER_DAY"
    and t: "time_set_from_ticks old k = \<lparr> hmst_hour = h, hmst_minute = m, hmst_second = s, hmst_tick = t \<rparr>"
  shows "time_is_valid h m s t" "s \<noteq> 60" "time_to_ticks h m s t = k"
proof -
  define sec where "sec = k div 10000000"
  define mi where "mi = sec div 60"
  have f: "h = mi div 60" "m = mi mod 60" "s = sec mod 60" "t = k mod 10000000"
    using t time_set_from_ticks_val[OF assms(1,2), of old] by (auto simp: sec_def mi_def)
  have k: "k < 864000000000" using assms by (simp add: TICKS_PER_DAY_def)
  have "0 \<le> sec" "sec < 86400" using assms k unfolding sec_def by linarith+
  then have mi: "0 \<le> mi" "mi < 1440" unfolding mi_def by linarith+
  then have h: "0 \<le> h" "h < 24" unfolding f by linarith+
  have r: "0 \<le> m" "m < 60" "0 \<le> s" "s < 60" "0 \<le> t" "t < 10000000" unfolding f by simp_all
  have "mi = h * 60 + m" "sec = mi * 60 + s" "k = sec * 10000000 + t"
    unfolding f mi_def sec_def by (simp_all only: div_mult_mod_eq)
  then show "time_to_ticks h m s t = k" "time_is_valid h m s t" "s \<noteq> 60"
    using h r by (simp_all add: time_to_ticks_def time_is_valid_def)
qed

text \<open>
  The conversions between times of day and tick counts are inverse to each other on the times
  without a leap second and the tick counts of a day.
\<close>

lemma time_tick_count_bijection:
  "(time_is_valid h m s t \<and> s \<noteq> 60 \<and> time_to_ticks h m s t = k)
    \<longleftrightarrow> (0 \<le> k \<and> k < TICKS_PER_DAY
         \<and> time_set_from_ticks old k = \<lparr> hmst_hour = h, hmst_minute = m, hmst_second = s, hmst_tick = t \<rparr>)"
proof
  assume a: "time_is_valid h m s t \<and> s \<noteq> 60 \<and> time_to_ticks h m s t = k"
  then have v: "0 \<le> h" "h < 24" "0 \<le> m" "m < 60" "0 \<le> s" "s < 60" "0 \<le> t" "t < 10000000"
    unfolding time_is_valid_def by linarith+
  define mi where "mi = h * 60 + m"
  define sec where "sec = mi * 60 + s"
  have k: "k = sec * 10000000 + t" using a by (auto simp: time_to_ticks_def sec_def mi_def)
  have mi: "0 \<le> mi" "mi < 1440" using v unfolding mi_def by linarith+
  then have sec: "0 \<le> sec" "sec < 86400" using v unfolding sec_def by linarith+
  have "k < 864000000000" using sec v unfolding k by linarith
  then have b: "0 \<le> k" "k < TICKS_PER_DAY" using sec v by (simp_all add: k TICKS_PER_DAY_def)
  have e: "k div 10000000 = sec" "k mod 10000000 = t" "sec div 60 = mi" "sec mod 60 = s" "mi div 60 = h" "mi mod 60 = m"
    using join_divmod[OF v(7,8)] join_divmod[OF v(5,6)] join_divmod[OF v(3,4)] unfolding k sec_def mi_def by blast+
  show "0 \<le> k \<and> k < TICKS_PER_DAY
      \<and> time_set_from_ticks old k = \<lparr> hmst_hour = h, hmst_minute = m, hmst_second = s, hmst_tick = t \<rparr>"
    unfolding time_set_from_ticks_val[OF b, of old] e using b by (intro conjI refl)
next
  assume "0 \<le> k \<and> k < TICKS_PER_DAY
      \<and> time_set_from_ticks old k = \<lparr> hmst_hour = h, hmst_minute = m, hmst_second = s, hmst_tick = t \<rparr>"
  then show "time_is_valid h m s t \<and> s \<noteq> 60 \<and> time_to_ticks h m s t = k"
    using time_ticks_back[of k old h m s t] by blast
qed

text \<open>A leap second at the end of the day counts a whole day of ticks, which has no time of day.\<close>

lemma leap_second_is_lost:
  "time_is_valid 23 59 60 0 \<and> time_is_na (time_set_from_ticks old (time_to_ticks 23 59 60 0))"
  by (simp add: time_is_valid_def time_to_ticks_def time_set_from_ticks_def TICKS_PER_DAY_def time_set_to_na_def time_is_na_def)

section \<open>Datetimes and tick counts\<close>

text \<open>
  For every 64-bit tick count but those of the first day of the range, the conversion to a
  datetime gives a valid one, and converting that back gives the count.
\<close>

lemma datetime_ticks_roundtrip:
  assumes "- (2 ^ 63) + TICKS_PER_DAY - 1 \<le> k" and "k < 2 ^ 63"
  shows "datetime_is_valid (datetime_set_from_ticks old k)
    \<and> datetime_to_ticks (datetime_set_from_ticks old k) = k"
proof -
  define n where "n = k div TICKS_PER_DAY"
  define r where "r = k mod TICKS_PER_DAY"
  have tpd: "(0::int) < TICKS_PER_DAY" "TICKS_PER_DAY = 864000000000" by (simp_all add: TICKS_PER_DAY_def)
  have k: "k = n * TICKS_PER_DAY + r" "0 \<le> r" "r < TICKS_PER_DAY" using tpd(1) by (simp_all add: n_def r_def)
  have n: "first_day \<le> n" "n < last_day"
    using assms k unfolding tpd(2) first_day_def last_day_def by simp_all
  have n32: "cast32 n = n" using n by (intro cast_id(3)) (simp_all add: first_day_def last_day_def)
  have days: "(if k \<ge> 0 then cast32 (k sdiv TICKS_PER_DAY)
      else cast32 (cast64 (k - (TICKS_PER_DAY - 1)) sdiv TICKS_PER_DAY)) = n"
  proof (cases "0 \<le> k")
    case True
    then show ?thesis using sdiv_nonneg[OF True tpd(1)] n32 by (simp add: n_def)
  next
    case False
    have "cast64 (k - (TICKS_PER_DAY - 1)) = k - (TICKS_PER_DAY - 1)"
      using assms False tpd by (intro cast_id(4)) simp_all
    then show ?thesis using False floor_sdiv[of k TICKS_PER_DAY] tpd(1) n32 by (simp add: n_def)
  qed
  have rest: "(if k < 0 \<and> k smod TICKS_PER_DAY < 0 then k smod TICKS_PER_DAY + TICKS_PER_DAY else k smod TICKS_PER_DAY) = r"
  proof (cases "0 \<le> k")
    case True
    then show ?thesis using smod_nonneg[OF True tpd(1)] by (simp add: r_def)
  next
    case False
    then show ?thesis using smod_wrapped[OF tpd(1), of k] by (simp add: r_def)
  qed
  have na: "k \<noteq> DATETIME_NA" using assms tpd by (simp add: DATETIME_NA_def)
  obtain y mo d where ymd: "set_from_days n = \<lparr> ymd_year = y, ymd_month = mo, ymd_day = d \<rparr>" "date_is_valid y mo d" "to_days y mo d = n"
    using to_days_set_from_days[OF n] by metis
  obtain h m s t where hms: "time_set_from_ticks (dt_hmst old) r = \<lparr> hmst_hour = h, hmst_minute = m, hmst_second = s, hmst_tick = t \<rparr>"
    using time_set_from_ticks_val[OF k(2,3)] by blast
  then have t: "time_is_valid h m s t" "time_to_ticks h m s t = r"
    using time_ticks_back[OF k(2,3) hms] by blast+
  have set: "datetime_set_from_ticks old k = \<lparr> dt_ymd = set_from_days n, dt_hmst = time_set_from_ticks (dt_hmst old) r \<rparr>"
    unfolding datetime_set_from_ticks_def Let_def days rest using na by simp
  have c: "cast64 (n * TICKS_PER_DAY) = n * TICKS_PER_DAY" "cast64 (n * TICKS_PER_DAY + r) = n * TICKS_PER_DAY + r"
    using assms k tpd by (auto intro!: cast_id(4))
  show ?thesis
    unfolding set datetime_to_ticks_def datetime_is_valid_def ymd_to_days_def hmst_to_ticks_def
    using ymd hms t c k(1) by simp
qed

lemma datetime_ticks_roundtrip_witness:
  "datetime_is_valid (datetime_set_from_ticks (\<lparr> dt_ymd = \<lparr> ymd_year = 0, ymd_month = 1, ymd_day = 1 \<rparr>, dt_hmst = time_set_to_zero \<rparr>) (- 1))
    \<and> datetime_to_ticks (datetime_set_from_ticks (\<lparr> dt_ymd = \<lparr> ymd_year = 0, ymd_month = 1, ymd_day = 1 \<rparr>, dt_hmst = time_set_to_zero \<rparr>) (- 1)) = - 1"
  by (rule datetime_ticks_roundtrip) (simp_all add: TICKS_PER_DAY_def)

text \<open>The tick count of a valid date late in the range of the year field does not fit 64 bits.\<close>

lemma late_datetime_overflows:
  "datetime_is_valid a \<and> datetime_to_ticks a < 0"
  if "a = \<lparr> dt_ymd = \<lparr> ymd_year = 32000, ymd_month = 1, ymd_day = 1 \<rparr>, dt_hmst = time_set_to_zero \<rparr>"
  unfolding that by code_simp

end
