(* ===== verification/Date_Parse.thy ===== *)
theory Date_Parse
  imports Calendar Scan Half_Float "HOL-Library.Monad_Syntax"
begin

text \<open>
  The parsers of dates, times and datetimes: \<^verbatim>\<open>date_parser.cpp\<close>, \<^verbatim>\<open>time_parser.cpp\<close> and
  \<^verbatim>\<open>datetime_parser.cpp\<close> of \<^verbatim>\<open>src/dynd/types\<close>. A parser takes the range from the cursor on
  and gives its output with the rest of the range, or nothing when it returns \<^verbatim>\<open>false\<close> with the
  cursor where it was. Those that resolve a two digit year can throw, too; \<open>rawtime\<close> is the clock
  they read. The local variables \<open>minute\<close> and \<open>second\<close> that one of the parsers leaves without a value
  are arguments of it.
\<close>

section \<open>Results of a parser that may throw\<close>

type_synonym 'a throwing_scan = "string \<Rightarrow> date_error + ('a \<times> string) option"

definition and_then :: "'e + 'a option \<Rightarrow> ('a \<Rightarrow> 'e + 'b option) \<Rightarrow> 'e + 'b option" where
  "and_then r f = (case r of Inl e \<Rightarrow> Inl e | Inr None \<Rightarrow> Inr None | Inr (Some a) \<Rightarrow> f a)"

definition or_else :: "'e + 'a option \<Rightarrow> 'e + 'a option \<Rightarrow> 'e + 'a option" where
  "or_else r r' = (case r of Inl e \<Rightarrow> Inl e | Inr (Some a) \<Rightarrow> Inr (Some a) | Inr None \<Rightarrow> r')"

definition next_is_digit :: "string \<Rightarrow> bool" where
  "next_is_digit s = (case s of c # _ \<Rightarrow> is_digit c | [] \<Rightarrow> False)"

text \<open>An optional token: the cursor moves past it when it is there.\<close>

definition optional_token :: "unit scan \<Rightarrow> string \<Rightarrow> string" where
  "optional_token p s = (case p s of Some (_, rest) \<Rightarrow> rest | None \<Rightarrow> s)"

section \<open>Names of months and weekdays\<close>

definition named_month_table :: "(string \<times> int) list" where
  "named_month_table =
     [(''apr'', 4 + 12), (''april'', 4), (''aug'', 8 + 12), (''august'', 8), (''dec'', 12 + 12), (''december'', 12),
      (''feb'', 2 + 12), (''february'', 2), (''jan'', 1 + 12), (''january'', 1), (''jul'', 7 + 12), (''july'', 7),
      (''jun'', 6 + 12), (''june'', 6), (''mar'', 3 + 12), (''march'', 3), (''may'', 5 + 12), (''nov'', 11 + 12),
      (''november'', 11), (''oct'', 10 + 12), (''october'', 10), (''sep'', 9 + 12), (''sept'', 9 + 12), (''september'', 9)]"

definition parse_str_month_no_ws :: "int scan" where
  "parse_str_month_no_ws s = do {
     (out_month, s) \<leftarrow> parse_ci_alpha_str_named_value_no_ws named_month_table s;
     Some (if out_month > 12 then out_month - 12 else out_month, s) }"

definition parse_str_month_punct_no_ws :: "int scan" where
  "parse_str_month_punct_no_ws s = do {
     (out_month, s) \<leftarrow> parse_ci_alpha_str_named_value_no_ws named_month_table s;
     if out_month > 12 then Some (out_month - 12, optional_token (parse_token_no_ws ''.'') s) else Some (out_month, s) }"

definition named_weekday_table :: "(string \<times> int) list" where
  "named_weekday_table =
     [(''fri'', 4), (''friday'', 4), (''mon'', 0), (''monday'', 0), (''sat'', 5), (''saturday'', 5), (''sun'', 6),
      (''sunday'', 6), (''thu'', 3), (''thursday'', 3), (''tue'', 1), (''tuesday'', 1), (''wed'', 2), (''wednesday'', 2)]"

definition parse_str_weekday_no_ws :: "int scan" where
  "parse_str_weekday_no_ws = parse_ci_alpha_str_named_value_no_ws named_weekday_table"

section \<open>Dates\<close>

definition parse_md :: "string \<Rightarrow> (int \<times> int) scan" where
  "parse_md sep s = do {
     (_, s) \<leftarrow> parse_token_no_ws sep s;
     (out_month, s) \<leftarrow> parse_1or2digit_int_no_ws s;
     (_, s) \<leftarrow> parse_token_no_ws sep s;
     (out_day, s) \<leftarrow> parse_1or2digit_int_no_ws s;
     if next_is_digit s then None else Some ((out_month, out_day), s) }"

definition parse_md_str_month :: "string \<Rightarrow> (int \<times> int) scan" where
  "parse_md_str_month sep s = do {
     (_, s) \<leftarrow> parse_token_no_ws sep s;
     (out_month, s) \<leftarrow> parse_str_month_no_ws s;
     (_, s) \<leftarrow> parse_token_no_ws sep s;
     (out_day, s) \<leftarrow> parse_1or2digit_int_no_ws s;
     if next_is_digit s then None else Some ((out_month, out_day), s) }"

text \<open>The end of every date parser: the date is validated, and then stored in the narrow fields.\<close>

definition store_date :: "int \<Rightarrow> int \<Rightarrow> int \<Rightarrow> string \<Rightarrow> (date_ymd \<times> string) option" where
  "store_date y m d s =
     (if \<not> date_is_valid y m d then None
      else Some (\<lparr> ymd_year = cast16 y, ymd_month = cast8 m, ymd_day = cast8 d \<rparr>, s))"

datatype date_parse_order = date_parse_no_ambig | date_parse_ymd | date_parse_mdy | date_parse_dmy

definition parse_ymd_sep_date :: "int \<Rightarrow> string \<Rightarrow> date_parse_order \<Rightarrow> int \<Rightarrow> date_ymd throwing_scan" where
  "parse_ymd_sep_date rawtime sep ambig century_window s =
     and_then
       (case parse_4digit_int_no_ws s of
          Some (y, s) \<Rightarrow> Inr (Some (y, s))
        | None \<Rightarrow>
            if century_window \<noteq> 0 \<and> ambig = date_parse_ymd
            then (case parse_2digit_int_no_ws s of
                    None \<Rightarrow> Inr None
                  | Some (y, s) \<Rightarrow> map_sum id (\<lambda>y. Some (y, s)) (resolve_2digit_year rawtime y century_window))
            else Inr None)
       (\<lambda>(y, s). case (case parse_md sep s of Some r \<Rightarrow> Some r | None \<Rightarrow> parse_md_str_month sep s) of
                    None \<Rightarrow> Inr None
                  | Some ((m, d), s) \<Rightarrow> Inr (store_date y m d s))"

text \<open>A year at the end of a date: four digits, or two if they are allowed, and no digit after them.\<close>

definition parse_year_at_end :: "int \<Rightarrow> bool \<Rightarrow> int \<Rightarrow> int throwing_scan" where
  "parse_year_at_end rawtime two_digits century_window s =
     (case parse_4digit_int_no_ws s of
        None \<Rightarrow>
          if two_digits
          then (case parse_2digit_int_no_ws s of
                  None \<Rightarrow> Inr None
                | Some (y, s) \<Rightarrow>
                    if next_is_digit s then Inr None
                    else map_sum id (\<lambda>y. Some (y, s)) (resolve_2digit_year rawtime y century_window))
          else Inr None
      | Some (y, s) \<Rightarrow> if next_is_digit s then Inr None else Inr (Some (y, s)))"

definition parse_mdy_ambig_sep_date :: "int \<Rightarrow> string \<Rightarrow> int \<Rightarrow> date_ymd throwing_scan" where
  "parse_mdy_ambig_sep_date rawtime sep century_window s =
     (case do { (m, s) \<leftarrow> parse_1or2digit_int_no_ws s; (_, s) \<leftarrow> parse_token_no_ws sep s;
                (d, s) \<leftarrow> parse_1or2digit_int_no_ws s; (_, s) \<leftarrow> parse_token_no_ws sep s; Some (m, d, s) } of
        None \<Rightarrow> Inr None
      | Some (m, d, s) \<Rightarrow>
          and_then (parse_year_at_end rawtime (century_window \<noteq> 0) century_window s)
            (\<lambda>(y, s). Inr (store_date y m d s)))"

definition parse_dmy_ambig_sep_date :: "int \<Rightarrow> string \<Rightarrow> int \<Rightarrow> date_ymd throwing_scan" where
  "parse_dmy_ambig_sep_date rawtime sep century_window s =
     (case do { (d, s) \<leftarrow> parse_1or2digit_int_no_ws s; (_, s) \<leftarrow> parse_token_no_ws sep s;
                (m, s) \<leftarrow> parse_1or2digit_int_no_ws s; (_, s) \<leftarrow> parse_token_no_ws sep s; Some (m, d, s) } of
        None \<Rightarrow> Inr None
      | Some (m, d, s) \<Rightarrow>
          and_then (parse_year_at_end rawtime (century_window \<noteq> 0) century_window s)
            (\<lambda>(y, s). Inr (store_date y m d s)))"

definition year_last :: "date_parse_order \<Rightarrow> bool" where
  "year_last ambig \<longleftrightarrow> ambig = date_parse_dmy \<or> ambig = date_parse_mdy"

definition parse_dmy_str_month_sep_date ::
  "int \<Rightarrow> string \<Rightarrow> date_parse_order \<Rightarrow> int \<Rightarrow> date_ymd throwing_scan" where
  "parse_dmy_str_month_sep_date rawtime sep ambig century_window s =
     (case do { (d, s) \<leftarrow> parse_1or2digit_int_no_ws s; (_, s) \<leftarrow> parse_token_no_ws sep s;
                (m, s) \<leftarrow> parse_str_month_no_ws s; (_, s) \<leftarrow> parse_token_no_ws sep s; Some (m, d, s) } of
        None \<Rightarrow> Inr None
      | Some (m, d, s) \<Rightarrow>
          and_then (parse_year_at_end rawtime (century_window \<noteq> 0 \<and> year_last ambig) century_window s)
            (\<lambda>(y, s). Inr (store_date y m d s)))"

definition parse_dmy_str_month_ws_date :: "int \<Rightarrow> date_parse_order \<Rightarrow> int \<Rightarrow> date_ymd throwing_scan" where
  "parse_dmy_str_month_ws_date rawtime ambig century_window s =
     (case do { (d, s) \<leftarrow> parse_1or2digit_int_no_ws s;
                (m, s) \<leftarrow> parse_str_month_no_ws (skip_whitespace s); Some (m, d, skip_whitespace s) } of
        None \<Rightarrow> Inr None
      | Some (m, d, s) \<Rightarrow>
          and_then (parse_year_at_end rawtime (century_window \<noteq> 0 \<and> year_last ambig) century_window s)
            (\<lambda>(y, s). Inr (store_date y m d s)))"

definition parse_iso8601_dashes_date :: "date_ymd scan" where
  "parse_iso8601_dashes_date s = do {
     (y, s) \<leftarrow> (case parse_token_no_ws ''-'' s of
                  Some (_, s) \<Rightarrow> do { (y, s) \<leftarrow> parse_6digit_int_no_ws s; Some (- y, s) }
                | None \<Rightarrow>
                    (case parse_token_no_ws ''+'' s of
                       Some (_, s) \<Rightarrow> parse_6digit_int_no_ws s
                     | None \<Rightarrow> parse_4digit_int_no_ws s));
     ((m, d), s) \<leftarrow> parse_md ''-'' s;
     store_date y m d s }"

definition parse_iso8601_nodashes_date :: "date_ymd scan" where
  "parse_iso8601_nodashes_date s = do {
     (y, s) \<leftarrow> parse_4digit_int_no_ws s;
     (m, s) \<leftarrow> parse_2digit_int_no_ws s;
     (d, s) \<leftarrow> parse_2digit_int_no_ws s;
     if next_is_digit s then None else store_date y m d s }"

definition parse_mdy_long_format_date :: "int \<Rightarrow> int \<Rightarrow> date_ymd throwing_scan" where
  "parse_mdy_long_format_date rawtime century_window s =
     (case do { (m, s) \<leftarrow> parse_str_month_punct_no_ws s; (_, s) \<leftarrow> skip_required_whitespace s;
                (d, s) \<leftarrow> parse_1or2digit_int_no_ws s;
                Some (m, d, skip_whitespace (optional_token (parse_token '','') s)) } of
        None \<Rightarrow> Inr None
      | Some (m, d, s) \<Rightarrow>
          and_then (parse_year_at_end rawtime (century_window \<noteq> 0) century_window s)
            (\<lambda>(y, s). Inr (store_date y m d s)))"

text \<open>The alternatives of a date in their order.\<close>

definition parse_date_alternatives :: "int \<Rightarrow> date_parse_order \<Rightarrow> int \<Rightarrow> date_ymd throwing_scan" where
  "parse_date_alternatives rawtime ambig century_window s =
     or_else (Inr (parse_iso8601_dashes_date s))
     (or_else (Inr (parse_iso8601_nodashes_date s))
     (or_else (parse_ymd_sep_date rawtime ''/'' ambig century_window s)
     (or_else (parse_ymd_sep_date rawtime ''-'' ambig century_window s)
     (or_else (parse_ymd_sep_date rawtime ''.'' ambig century_window s)
     (or_else (parse_dmy_str_month_sep_date rawtime ''/'' ambig century_window s)
     (or_else (parse_dmy_str_month_sep_date rawtime ''-'' ambig century_window s)
     (or_else (parse_dmy_str_month_sep_date rawtime ''.'' ambig century_window s)
     (or_else (parse_dmy_str_month_ws_date rawtime ambig century_window s)
     (or_else (parse_mdy_long_format_date rawtime century_window s)
     (if ambig = date_parse_mdy
      then or_else (parse_mdy_ambig_sep_date rawtime ''/'' century_window s)
          (or_else (parse_mdy_ambig_sep_date rawtime ''-'' century_window s)
                   (parse_mdy_ambig_sep_date rawtime ''.'' century_window s))
      else if ambig = date_parse_dmy
      then or_else (parse_dmy_ambig_sep_date rawtime ''/'' century_window s)
          (or_else (parse_dmy_ambig_sep_date rawtime ''-'' century_window s)
                   (parse_dmy_ambig_sep_date rawtime ''.'' century_window s))
      else Inr None))))))))))"

definition parse_date :: "int \<Rightarrow> date_parse_order \<Rightarrow> int \<Rightarrow> date_ymd throwing_scan" where
  "parse_date rawtime ambig century_window s =
     (let (weekday, s) = (case parse_str_weekday_no_ws s of
                            Some (w, s) \<Rightarrow> (w, skip_whitespace (optional_token (parse_token '','') s))
                          | None \<Rightarrow> (- 1, s))
      in and_then (parse_date_alternatives rawtime ambig century_window s)
           (\<lambda>(ymd, s). if weekday \<ge> 0 \<and> get_weekday ymd \<noteq> weekday then Inr None else Inr (Some (ymd, s))))"

section \<open>A midnight time behind a date\<close>

definition skip_timezone :: "string \<Rightarrow> string" where
  "skip_timezone s0 =
     (let s = skip_whitespace s0
      in case parse_token_no_ws ''Z'' s of
           Some (_, s) \<Rightarrow> s
         | None \<Rightarrow>
             (case parse_token_no_ws ''GMT'' s of
                Some (_, s) \<Rightarrow> s
              | None \<Rightarrow>
                  (case (case parse_token_no_ws ''+'' s of Some r \<Rightarrow> Some r | None \<Rightarrow> parse_token_no_ws ''-'' s) of
                     None \<Rightarrow> s
                   | Some (_, s) \<Rightarrow>
                       (case parse_4digit_int_no_ws s of
                          Some (_, s) \<Rightarrow> s
                        | None \<Rightarrow>
                            (case parse_2digit_int_no_ws s of
                               None \<Rightarrow> s
                             | Some (_, s) \<Rightarrow>
                                 (case parse_token_no_ws '':'' s of
                                    None \<Rightarrow> s
                                  | Some (_, t) \<Rightarrow>
                                      (case parse_2digit_int_no_ws t of Some (_, t) \<Rightarrow> t | None \<Rightarrow> s)))))))"

definition skip_midnight_time :: "string \<Rightarrow> string" where
  "skip_midnight_time s =
     (case parse_token_no_ws ''00'' s of
        None \<Rightarrow> s
      | Some (_, s) \<Rightarrow>
          (case parse_token_no_ws '':00'' s of
             None \<Rightarrow> skip_timezone s
           | Some (_, s) \<Rightarrow>
               (case parse_token_no_ws '':00'' s of
                  None \<Rightarrow> skip_timezone s
                | Some (_, s) \<Rightarrow>
                    (case parse_token_no_ws ''.0'' s of
                       None \<Rightarrow> skip_timezone s
                     | Some (_, s) \<Rightarrow> skip_timezone (dropWhile (\<lambda>c. c = CHR ''0'') s)))))"

definition string_to_date ::
  "int \<Rightarrow> string \<Rightarrow> date_parse_order \<Rightarrow> int \<Rightarrow> assign_error_mode \<Rightarrow> date_error + date_ymd option" where
  "string_to_date rawtime s ambig century_window errmode =
     and_then (parse_date rawtime ambig century_window (skip_whitespace s))
       (\<lambda>(ymd, s).
          if errmode = assign_error_nocheck then Inr (Some ymd)
          else (let s = (case parse_token_no_ws ''T'' s of
                           Some (_, s) \<Rightarrow> skip_midnight_time s
                         | None \<Rightarrow>
                             (case skip_required_whitespace s of Some (_, s) \<Rightarrow> skip_midnight_time s | None \<Rightarrow> s))
                in if skip_whitespace s = [] then Inr (Some ymd) else Inr None))"

section \<open>Times\<close>

text \<open>\<^verbatim>\<open>isalpha\<close> of the C locale is \<open>is_alpha\<close>. A time zone is the text of it.\<close>

definition parse_timezone :: "string scan" where
  "parse_timezone s0 =
     (let tz_begin = skip_whitespace s0
      in case tz_begin of
           [] \<Rightarrow> None
         | c # s \<Rightarrow>
             if c = CHR ''+'' \<or> c = CHR ''-''
             then (if length s < 2 \<or> \<not> is_digit (s ! 0) \<or> \<not> is_digit (s ! 1) then None
                   else (let s = drop 2 s
                         in if s = [] \<or> \<not> (hd s = CHR '':'' \<or> is_digit (hd s))
                            then Some (matched tz_begin s, s)
                            else (let s = (if hd s = CHR '':'' then tl s else s)
                                  in if length s < 2 \<or> \<not> is_digit (s ! 0) \<or> \<not> is_digit (s ! 1) then None
                                     else (let s = drop 2 s
                                           in if next_is_digit s then None else Some (matched tz_begin s, s)))))
             else if is_alpha c
             then (let s = dropWhile (\<lambda>d. is_alpha d \<or> d = CHR ''/'') s in Some (matched tz_begin s, s))
             else None)"

text \<open>
  The am/pm suffix: the hour it makes and the rest of the range; an hour it does not fit becomes \<open>- 1\<close>,
  and then the cursor stays.
\<close>

definition any_token :: "string list \<Rightarrow> unit scan" where
  "any_token tokens s = foldr (\<lambda>t r. case parse_token t s of Some x \<Rightarrow> Some x | None \<Rightarrow> r) tokens None"

definition parse_time_ampm :: "string \<Rightarrow> int \<Rightarrow> int \<times> string" where
  "parse_time_ampm s0 hour =
     (let s = skip_whitespace s0
      in case any_token [''AM'', ''am'', ''A.M.'', ''a.m.'', ''a''] s of
           Some (_, rest) \<Rightarrow>
             if hour < 1 \<or> hour > 12 then (- 1, s0) else (if hour = 12 then 0 else hour, rest)
         | None \<Rightarrow>
             (case any_token [''PM'', ''pm'', ''P.M.'', ''p.m.'', ''p''] s of
                Some (_, rest) \<Rightarrow>
                  if hour < 1 \<or> hour > 12 then (- 1, s0) else (if hour < 12 then hour + 12 else hour, rest)
              | None \<Rightarrow> (hour, s0)))"

definition parse_dot_or_colon :: "unit scan" where
  "parse_dot_or_colon s =
     (case parse_token_no_ws ''.'' s of Some r \<Rightarrow> Some r | None \<Rightarrow> parse_token_no_ws '':'' s)"

definition finish_time :: "int \<Rightarrow> int \<Rightarrow> int \<Rightarrow> int \<Rightarrow> string \<Rightarrow> (time_hmst \<times> string) option" where
  "finish_time hour minute second tick s =
     (case parse_time_ampm s hour of
        (hour, s) \<Rightarrow>
          if time_is_valid hour minute second tick
          then Some (\<lparr> hmst_hour = cast8 hour, hmst_minute = cast8 minute, hmst_second = cast8 second,
                       hmst_tick = cast32 tick \<rparr>, s)
          else None)"

text \<open>The digits behind the decimal point: seven count, missing ones are zeros, further ones are dropped.\<close>

primrec more_tick_digits :: "nat \<Rightarrow> int \<Rightarrow> string \<Rightarrow> int \<times> string" where
  "more_tick_digits 0 tick s = (tick, dropWhile is_digit s)"
| "more_tick_digits (Suc n) tick s =
     (case s of
        c # s' \<Rightarrow> if is_digit c then more_tick_digits n (tick * 10 + digit_val c) s' else more_tick_digits n (tick * 10) s
      | [] \<Rightarrow> more_tick_digits n (tick * 10) s)"

definition parse_flex_time :: "time_hmst scan" where
  "parse_flex_time s = do {
     (hour, s) \<leftarrow> parse_1or2digit_int_no_ws s;
     (_, s) \<leftarrow> parse_dot_or_colon s;
     (minute, s) \<leftarrow> parse_2digit_int_no_ws s;
     (case parse_dot_or_colon s of
        None \<Rightarrow> finish_time hour minute 0 0 s
      | Some (_, s) \<Rightarrow> do {
          (second, s) \<leftarrow> parse_2digit_int_no_ws s;
          (case parse_dot_or_colon s of
             None \<Rightarrow> finish_time hour minute second 0 s
           | Some (_, s) \<Rightarrow>
               (case s of
                  [] \<Rightarrow> None
                | c # s \<Rightarrow>
                    if \<not> is_digit c then None
                    else (case more_tick_digits 6 (digit_val c) s of
                            (tick, s) \<Rightarrow> finish_time hour minute second tick s))) }) }"

definition parse_time_no_tz :: "time_hmst scan" where
  "parse_time_no_tz = parse_flex_time"

definition parse_time :: "(time_hmst \<times> string option) scan" where
  "parse_time s = do {
     (hmst, s) \<leftarrow> parse_time_no_tz s;
     (case parse_timezone s of
        Some (tz, s) \<Rightarrow> Some ((hmst, Some tz), s)
      | None \<Rightarrow> Some ((hmst, None), s)) }"

definition string_to_time :: "string \<Rightarrow> (time_hmst \<times> string option) option" where
  "string_to_time s = do {
     (r, s) \<leftarrow> parse_time (skip_whitespace s);
     if skip_whitespace s = [] then Some r else None }"

section \<open>Datetimes\<close>

text \<open>\<open>Fri Dec 19 15:10:11 1997\<close> and \<open>Fri 19 Dec 15:10:11 1997\<close>\<close>

definition parse_postgres_datetime :: "datetime_struct scan" where
  "parse_postgres_datetime s = do {
     (weekday, s) \<leftarrow> parse_str_weekday_no_ws s;
     (_, s) \<leftarrow> skip_required_whitespace s;
     ((month, day), s) \<leftarrow>
       (case parse_1or2digit_int_no_ws s of
          Some (day, s) \<Rightarrow> do {
            (_, s) \<leftarrow> skip_required_whitespace s;
            (month, s) \<leftarrow> parse_str_month_no_ws s;
            Some ((month, day), s) }
        | None \<Rightarrow> do {
            (month, s) \<leftarrow> parse_str_month_no_ws s;
            (_, s) \<leftarrow> skip_required_whitespace s;
            (day, s) \<leftarrow> parse_1or2digit_int_no_ws s;
            Some ((month, day), s) });
     (_, s) \<leftarrow> skip_required_whitespace s;
     (hmst, s) \<leftarrow> parse_time_no_tz s;
     (_, s) \<leftarrow> skip_required_whitespace s;
     (y, s) \<leftarrow> parse_4digit_int_no_ws s;
     (ymd, s) \<leftarrow> store_date y month day s;
     if get_weekday ymd \<noteq> weekday then None else Some (\<lparr> dt_ymd = ymd, dt_hmst = hmst \<rparr>, s) }"

text \<open>
  \<open>19971219151011\<close>. When the hour is missing the source leaves \<open>minute\<close> and \<open>second\<close> without a value,
  when the minutes are missing \<open>second\<close>: \<open>minute0\<close> and \<open>second0\<close> are what the memory holds.
\<close>

definition parse_iso8601_nodashes_datetime :: "int \<Rightarrow> int \<Rightarrow> datetime_struct scan" where
  "parse_iso8601_nodashes_datetime minute0 second0 s = do {
     (y, s) \<leftarrow> parse_4digit_int_no_ws s;
     (m, s) \<leftarrow> parse_2digit_int_no_ws s;
     (d, s) \<leftarrow> parse_2digit_int_no_ws s;
     if \<not> date_is_valid y m d then None
     else (let (hour, is_done, s) = (case parse_2digit_int_no_ws s of Some (h, s) \<Rightarrow> (h, False, s) | None \<Rightarrow> (0, True, s));
               (minute, is_done, s) = (if is_done then (minute0, True, s)
                                       else case parse_2digit_int_no_ws s of Some (v, s) \<Rightarrow> (v, False, s) | None \<Rightarrow> (0, True, s));
               (second, is_done, s) = (if is_done then (second0, True, s)
                                       else case parse_2digit_int_no_ws s of Some (v, s) \<Rightarrow> (v, False, s) | None \<Rightarrow> (0, True, s));
               (is_done, s) = (case parse_token_no_ws ''.'' s of Some (_, s) \<Rightarrow> (is_done, s) | None \<Rightarrow> (True, s));
               (tick, s) = (if \<not> is_done \<and> next_is_digit s then more_tick_digits 6 (digit_val (hd s)) (tl s) else (0, s))
           in if \<not> time_is_valid hour minute second tick then None
              else Some (\<lparr> dt_ymd = \<lparr> ymd_year = cast16 y, ymd_month = cast8 m, ymd_day = cast8 d \<rparr>,
                           dt_hmst = \<lparr> hmst_hour = cast8 hour, hmst_minute = cast8 minute, hmst_second = cast8 second,
                                       hmst_tick = cast32 tick \<rparr> \<rparr>, s)) }"

text \<open>An ISO date with only an hour behind it, tried when the time does not parse.\<close>

definition parse_dashes_date_hour :: "datetime_struct scan" where
  "parse_dashes_date_hour s = do {
     (ymd, s) \<leftarrow> parse_iso8601_dashes_date s;
     (_, s) \<leftarrow> (case parse_token_no_ws ''T'' s of Some r \<Rightarrow> Some r | None \<Rightarrow> skip_required_whitespace s);
     (hour, s) \<leftarrow> parse_2digit_int_no_ws s;
     if next_is_digit s then None
     else if time_is_valid hour 0 0 0
     then Some (\<lparr> dt_ymd = ymd, dt_hmst = \<lparr> hmst_hour = cast8 hour, hmst_minute = 0, hmst_second = 0, hmst_tick = 0 \<rparr> \<rparr>, s)
     else None }"

definition parse_date_time_datetime ::
  "int \<Rightarrow> date_parse_order \<Rightarrow> int \<Rightarrow> (datetime_struct \<times> string option) throwing_scan" where
  "parse_date_time_datetime rawtime ambig century_window saved_begin =
     and_then (parse_date rawtime ambig century_window saved_begin)
       (\<lambda>(ymd, s).
          let date_only = (\<lambda>s. Inr (Some ((\<lparr> dt_ymd = ymd, dt_hmst = time_set_to_zero \<rparr>, None), s)));
              with_time = (\<lambda>s. Inr (case parse_time s of
                                      Some ((hmst, tz), s) \<Rightarrow> Some ((\<lparr> dt_ymd = ymd, dt_hmst = hmst \<rparr>, tz), s)
                                    | None \<Rightarrow> map_option (\<lambda>(dt, s). ((dt, None), s)) (parse_dashes_date_hour saved_begin)))
          in case parse_token ''T'' s of
               Some (_, s) \<Rightarrow> with_time (skip_whitespace s)
             | None \<Rightarrow>
                 (case parse_token_no_ws '':'' s of
                    Some (_, s) \<Rightarrow> with_time s
                  | None \<Rightarrow>
                      (case skip_required_whitespace s of
                         None \<Rightarrow> date_only s
                       | Some (_, s) \<Rightarrow> if s = [] then date_only s else with_time s)))"

definition parse_datetime ::
  "int \<Rightarrow> int \<Rightarrow> int \<Rightarrow> date_parse_order \<Rightarrow> int \<Rightarrow> (datetime_struct \<times> string option) throwing_scan" where
  "parse_datetime minute0 second0 rawtime ambig century_window s =
     or_else (parse_date_time_datetime rawtime ambig century_window s)
     (or_else (Inr (map_option (\<lambda>(dt, s). ((dt, None), s)) (parse_postgres_datetime s)))
              (Inr (map_option (\<lambda>(dt, s). ((dt, None), s)) (parse_iso8601_nodashes_datetime minute0 second0 s))))"

definition string_to_datetime ::
  "int \<Rightarrow> int \<Rightarrow> int \<Rightarrow> string \<Rightarrow> date_parse_order \<Rightarrow> int \<Rightarrow> assign_error_mode
     \<Rightarrow> date_error + (datetime_struct \<times> string option) option" where
  "string_to_datetime minute0 second0 rawtime s ambig century_window errmode =
     and_then (parse_datetime minute0 second0 rawtime ambig century_window (skip_whitespace s))
       (\<lambda>(r, s). if skip_whitespace s = [] \<or> errmode = assign_error_nocheck then Inr (Some r) else Inr None)"

section \<open>The methods \<^verbatim>\<open>set_from_str\<close>\<close>

text \<open>They throw when the text does not parse; the escaped text of the message is not modelled.\<close>

datatype from_str_error = Date_Error date_error | unable_to_parse string

definition date_set_from_str ::
  "int \<Rightarrow> string \<Rightarrow> date_parse_order \<Rightarrow> int \<Rightarrow> assign_error_mode \<Rightarrow> from_str_error + date_ymd" where
  "date_set_from_str rawtime s ambig century_window errmode =
     (case string_to_date rawtime s ambig century_window errmode of
        Inl e \<Rightarrow> Inl (Date_Error e)
      | Inr None \<Rightarrow> Inl (unable_to_parse s)
      | Inr (Some ymd) \<Rightarrow> Inr ymd)"

definition time_set_from_str :: "string \<Rightarrow> from_str_error + (time_hmst \<times> string option)" where
  "time_set_from_str s = (case string_to_time s of None \<Rightarrow> Inl (unable_to_parse s) | Some r \<Rightarrow> Inr r)"

definition datetime_set_from_str ::
  "int \<Rightarrow> int \<Rightarrow> int \<Rightarrow> string \<Rightarrow> date_parse_order \<Rightarrow> int \<Rightarrow> assign_error_mode
     \<Rightarrow> from_str_error + (datetime_struct \<times> string option)" where
  "datetime_set_from_str minute0 second0 rawtime s ambig century_window errmode =
     (case string_to_datetime minute0 second0 rawtime s ambig century_window errmode of
        Inl e \<Rightarrow> Inl (Date_Error e)
      | Inr None \<Rightarrow> Inl (unable_to_parse s)
      | Inr (Some r) \<Rightarrow> Inr r)"

section \<open>Printed digits read back\<close>

lemma plus_zero_char_digit:
  assumes "0 \<le> k" "k \<le> 9"
  shows "is_digit (plus_zero_char k)" "digit_val (plus_zero_char k) = k"
proof -
  have "k \<in> {0, 1, 2, 3, 4, 5, 6, 7, 8, 9}" using assms by simp presburger
  then have "is_digit (plus_zero_char k) \<and> digit_val (plus_zero_char k) = k"
    by (elim insertE emptyE) (simp only:, code_simp)+
  then show "is_digit (plus_zero_char k)" "digit_val (plus_zero_char k) = k" by blast+
qed

lemma digit_range: "(k::int) mod 10 \<le> 9" "0 \<le> k mod 10"
  by presburger+

lemma split_digit:
  assumes "0 < (n::int)"
  shows "v div (10 * n) * 10 + v div n mod 10 = v div n"
proof -
  have "v div (n * 10) = v div n div 10" using assms by (intro zdiv_zmult2_eq) simp
  then show ?thesis by (simp add: mult.commute)
qed

lemma two_digits_back:
  assumes "0 \<le> v" "v \<le> 99"
  shows "parse_2digit_int_no_ws (plus_zero_char (v sdiv 10) # plus_zero_char (v smod 10) # r) = Some (v, r)"
    and "parse_1or2digit_int_no_ws (plus_zero_char (v sdiv 10) # plus_zero_char (v smod 10) # r) = Some (v, r)"
proof -
  have d: "0 \<le> v div 10" "v div 10 \<le> 9" using assms by linarith+
  show "parse_2digit_int_no_ws (plus_zero_char (v sdiv 10) # plus_zero_char (v smod 10) # r) = Some (v, r)"
    "parse_1or2digit_int_no_ws (plus_zero_char (v sdiv 10) # plus_zero_char (v smod 10) # r) = Some (v, r)"
    using assms(1) d by (simp_all add: sdiv_nonneg smod_nonneg parse_2digit_int_no_ws_def parse_1or2digit_int_no_ws_def
        plus_zero_char_digit digit_range)
qed

lemma four_digits_back:
  assumes "0 \<le> v" "v \<le> 9999"
  shows "parse_4digit_int_no_ws (plus_zero_char (v sdiv 1000) # plus_zero_char (v sdiv 100 smod 10)
           # plus_zero_char (v sdiv 10 smod 10) # plus_zero_char (v smod 10) # r) = Some (v, r)"
proof -
  have d: "0 \<le> v div 1000" "v div 1000 \<le> 9" "0 \<le> v div 100" "0 \<le> v div 10" using assms by linarith+
  have "((v div 1000 * 10 + v div 100 mod 10) * 10 + v div 10 mod 10) * 10 + v mod 10 = v"
    using split_digit[of 100 v] split_digit[of 10 v] split_digit[of 1 v] by simp
  moreover have "v sdiv 1000 = v div 1000" "v sdiv 100 smod 10 = v div 100 mod 10" "v sdiv 10 smod 10 = v div 10 mod 10"
    "v smod 10 = v mod 10"
    using assms(1) d by (simp_all add: sdiv_nonneg smod_nonneg)
  ultimately show ?thesis
    using plus_zero_char_digit[OF d(1,2)] plus_zero_char_digit[OF digit_range(2,1)]
    by (simp only: parse_4digit_int_no_ws_def list.case simp_thms if_True)
qed

lemma six_digits_back:
  assumes "0 \<le> v" "v \<le> 999999"
  shows "parse_6digit_int_no_ws (plus_zero_char (v sdiv 100000) # plus_zero_char (v sdiv 10000 smod 10)
           # plus_zero_char (v sdiv 1000 smod 10) # plus_zero_char (v sdiv 100 smod 10)
           # plus_zero_char (v sdiv 10 smod 10) # plus_zero_char (v smod 10) # r) = Some (v, r)"
proof -
  have d: "0 \<le> v div 100000" "v div 100000 \<le> 9" "0 \<le> v div 10000" "0 \<le> v div 1000" "0 \<le> v div 100" "0 \<le> v div 10"
    using assms by linarith+
  have "((((v div 100000 * 10 + v div 10000 mod 10) * 10 + v div 1000 mod 10) * 10 + v div 100 mod 10) * 10
          + v div 10 mod 10) * 10 + v mod 10 = v"
    using split_digit[of 10000 v] split_digit[of 1000 v] split_digit[of 100 v] split_digit[of 10 v] split_digit[of 1 v] by simp
  moreover have "v sdiv 100000 = v div 100000" "v sdiv 10000 smod 10 = v div 10000 mod 10" "v sdiv 1000 smod 10 = v div 1000 mod 10"
    "v sdiv 100 smod 10 = v div 100 mod 10" "v sdiv 10 smod 10 = v div 10 mod 10" "v smod 10 = v mod 10"
    using assms(1) d by (simp_all add: sdiv_nonneg smod_nonneg)
  ultimately show ?thesis
    using plus_zero_char_digit[OF d(1,2)] plus_zero_char_digit[OF digit_range(2,1)]
    by (simp only: parse_6digit_int_no_ws_def list.case simp_thms if_True)
qed

section \<open>Printed dates read back\<close>

lemma char_token: "parse_token_no_ws [c] (x # s) = (if x = c then Some ((), s) else None)"
  "parse_token_no_ws [c] [] = None"
  by (auto simp: parse_token_no_ws_def)

lemma no_digit: "\<not> is_digit (CHR ''-'')" "\<not> is_digit (CHR ''+'')" "\<not> is_digit (CHR ''T'')" "\<not> is_digit (CHR '':'')"
  "\<not> is_digit (CHR ''.'')"
  by code_simp+

lemma digit_is_no_alpha: "is_digit c \<Longrightarrow> \<not> is_alpha c"
proof -
  assume "is_digit c"
  then have c: "c \<le> CHR ''9''" by (simp add: is_digit_def)
  have "CHR ''9'' < CHR ''A''" "CHR ''9'' < CHR ''a''" by code_simp+
  then show "\<not> is_alpha c" using c unfolding is_alpha_def by (meson leD order.strict_trans1)
qed

lemma digit_is_no_space: "is_digit c \<Longrightarrow> \<not> is_space c"
proof -
  assume "is_digit c"
  then have c: "CHR ''0'' \<le> c" by (simp add: is_digit_def)
  have "CHR 0x0D < CHR ''0''" "CHR '' '' < CHR ''0''" by code_simp+
  then show "\<not> is_space c" using c unfolding is_space_def by (meson leD order.strict_trans2)
qed

lemma plus_zero_char_neq:
  assumes "0 \<le> k" "k \<le> 9" "\<not> is_digit c"
  shows "plus_zero_char k \<noteq> c"
  using plus_zero_char_digit(1)[OF assms(1,2)] assms(3) by metis

lemma md_back:
  assumes "1 \<le> m" "m \<le> 12" "1 \<le> d" "d \<le> 31" "\<not> next_is_digit r"
  shows "parse_md ''-'' (CHR ''-'' # plus_zero_char (m sdiv 10) # plus_zero_char (m smod 10)
           # CHR ''-'' # plus_zero_char (d sdiv 10) # plus_zero_char (d smod 10) # r) = Some ((m, d), r)"
  using assms two_digits_back(2)[of m] two_digits_back(2)[of d] by (simp add: parse_md_def char_token)

lemma valid_bounds:
  assumes "date_is_valid y m d"
  shows "1 \<le> m" "m \<le> 12" "1 \<le> d" "d \<le> 31"
  using assms month_tables(4)[of m "is_leap_year y"] unfolding date_is_valid_iff by linarith+

lemma store_date_id:
  assumes "date_is_valid y m d" "- 32768 \<le> y" "y < 32768"
  shows "store_date y m d r = Some (\<lparr> ymd_year = y, ymd_month = m, ymd_day = d \<rparr>, r)"
proof -
  have "cast8 m = m" "cast8 d = d" "cast16 y = y" using assms valid_bounds[OF assms(1)] by (simp_all add: cast_id)
  then show ?thesis using assms(1) by (simp add: store_date_def)
qed

lemma dashes_date_back:
  assumes v: "date_is_valid y m d" and y: "- 32768 \<le> y" "y < 32768" and r: "\<not> next_is_digit r"
  shows "parse_iso8601_dashes_date (date_to_str y m d @ r) = Some (\<lparr> ymd_year = y, ymd_month = m, ymd_day = d \<rparr>, r)"
proof -
  note md = md_back[OF valid_bounds[OF v] r] and st = store_date_id[OF v y]
  define t where "t = CHR ''-'' # plus_zero_char (m sdiv 10) # plus_zero_char (m smod 10)
           # CHR ''-'' # plus_zero_char (d sdiv 10) # plus_zero_char (d smod 10) # r"
  have md: "parse_md ''-'' t = Some ((m, d), r)" using md unfolding t_def .
  consider "1 \<le> y" "y \<le> 9999" | "y = 0 \<or> 9999 < y" | "y < 0" by linarith
  then show ?thesis
  proof cases
    case 1
    then have e: "date_to_str y m d @ r = plus_zero_char (y sdiv 1000) # plus_zero_char (y sdiv 100 smod 10)
        # plus_zero_char (y sdiv 10 smod 10) # plus_zero_char (y smod 10) # t"
      using v by (simp add: date_to_str_def Let_def t_def)
    have "y sdiv 1000 = y div 1000" "0 \<le> y div 1000" "y div 1000 \<le> 9" using 1 by (simp add: sdiv_nonneg, linarith+)
    then have "plus_zero_char (y sdiv 1000) \<noteq> CHR ''-''" "plus_zero_char (y sdiv 1000) \<noteq> CHR ''+''"
      by (simp_all add: plus_zero_char_neq no_digit)
    then show ?thesis
      using 1 four_digits_back[of y] md st unfolding parse_iso8601_dashes_date_def e by (simp add: char_token)
  next
    case 2
    then have e: "date_to_str y m d @ r = CHR ''+'' # plus_zero_char (y sdiv 100000) # plus_zero_char (y sdiv 10000 smod 10)
        # plus_zero_char (y sdiv 1000 smod 10) # plus_zero_char (y sdiv 100 smod 10)
        # plus_zero_char (y sdiv 10 smod 10) # plus_zero_char (y smod 10) # t"
      using v by (auto simp: date_to_str_def Let_def t_def)
    have "0 \<le> y" using 2 by auto
    then show ?thesis
      using y six_digits_back[of y] md st unfolding parse_iso8601_dashes_date_def e by (simp add: char_token)
  next
    case 3
    then have e: "date_to_str y m d @ r = CHR ''-'' # plus_zero_char ((- y) sdiv 100000) # plus_zero_char ((- y) sdiv 10000 smod 10)
        # plus_zero_char ((- y) sdiv 1000 smod 10) # plus_zero_char ((- y) sdiv 100 smod 10)
        # plus_zero_char ((- y) sdiv 10 smod 10) # plus_zero_char ((- y) smod 10) # t"
      using v by (simp add: date_to_str_def Let_def t_def)
    show ?thesis
      using 3 y six_digits_back[of "- y"] md st unfolding parse_iso8601_dashes_date_def e by (simp add: char_token)
  qed
qed

lemma date_text_starts:
  assumes "date_is_valid y m d" "- 32768 \<le> y" "y < 32768"
  shows "\<exists>c s. date_to_str y m d = c # s \<and> \<not> is_alpha c \<and> \<not> is_space c"
proof -
  have sign: "\<not> is_alpha (CHR ''+'') \<and> \<not> is_space (CHR ''+'')" "\<not> is_alpha (CHR ''-'') \<and> \<not> is_space (CHR ''-'')" by code_simp+
  show ?thesis
  proof (cases "1 \<le> y \<and> y \<le> 9999")
    case True
    have "y sdiv 1000 = y div 1000" "0 \<le> y div 1000" "y div 1000 \<le> 9" using True by (simp add: sdiv_nonneg, linarith+)
    then have "is_digit (plus_zero_char (y sdiv 1000))" by (simp add: plus_zero_char_digit)
    then show ?thesis using True assms(1) by (auto simp: date_to_str_def Let_def dest: digit_is_no_alpha digit_is_no_space)
  next
    case False
    have "hd (date_to_str y m d) = (if 0 \<le> y then CHR ''+'' else CHR ''-'')" "date_to_str y m d \<noteq> []"
      using False assms(1) by (auto simp: date_to_str_def Let_def)
    then show ?thesis using sign by (cases "date_to_str y m d") (auto split: if_splits)
  qed
qed

lemma skip_whitespace_stop: "\<not> is_space c \<Longrightarrow> skip_whitespace (c # s) = c # s" "skip_whitespace [] = []"
  by (simp_all add: skip_whitespace_def)

lemma no_weekday: "\<not> is_alpha c \<Longrightarrow> parse_str_weekday_no_ws (c # s) = None"
  by (simp add: parse_str_weekday_no_ws_def parse_ci_alpha_str_named_value_no_ws_def parse_alpha_name_no_ws_def)

lemma parse_date_back:
  assumes "date_is_valid y m d" "- 32768 \<le> y" "y < 32768" "\<not> next_is_digit r"
  shows "parse_date rawtime ambig century_window (skip_whitespace (date_to_str y m d @ r))
    = Inr (Some (\<lparr> ymd_year = y, ymd_month = m, ymd_day = d \<rparr>, r))"
proof -
  obtain c s where c: "date_to_str y m d = c # s" "\<not> is_alpha c" "\<not> is_space c"
    using date_text_starts[OF assms(1-3)] by blast
  have "parse_date_alternatives rawtime ambig century_window (c # s @ r)
      = Inr (Some (\<lparr> ymd_year = y, ymd_month = m, ymd_day = d \<rparr>, r))"
    using dashes_date_back[OF assms] c(1) by (simp add: parse_date_alternatives_def or_else_def)
  then show ?thesis
    using c by (simp add: parse_date_def skip_whitespace_stop no_weekday and_then_def)
qed

text \<open>
  The text of a valid date with a 16-bit year is parsed as that date, whatever the clock, the
  order of ambiguous dates, the century window and the error mode.
\<close>

lemma date_text_roundtrip:
  assumes "date_is_valid y m d" "- 32768 \<le> y" "y < 32768"
  shows "date_set_from_str rawtime (date_to_str y m d) ambig century_window errmode
    = Inr \<lparr> ymd_year = y, ymd_month = m, ymd_day = d \<rparr>"
  using parse_date_back[OF assms, of "[]"]
  by (simp add: date_set_from_str_def string_to_date_def and_then_def next_is_digit_def parse_token_no_ws_def
      skip_required_whitespace_def skip_whitespace_stop Let_def)

lemma date_text_roundtrip_witness:
  "date_to_str (- 44) 3 15 = ''-000044-03-15''
    \<and> date_set_from_str 0 (date_to_str (- 44) 3 15) date_parse_mdy 70 assign_error_default
      = Inr \<lparr> ymd_year = - 44, ymd_month = 3, ymd_day = 15 \<rparr>"
  by (intro conjI date_text_roundtrip) code_simp+

section \<open>Printed times and datetimes read back\<close>

lemma tick_digits_zero [simp]: "tick_digits 0 divisor = []"
  by (subst tick_digits.simps) simp

lemma tick_digits_back:
  assumes "0 \<le> t" "t < 10 ^ n"
  shows "more_tick_digits n a (tick_digits t (10 ^ n div 10)) = (a * 10 ^ n + t, [])"
  using assms
proof (induction n arbitrary: a t)
  case 0
  then have "t = 0" by simp
  then show ?case by simp
next
  case (Suc n)
  define q where "q = t div 10 ^ n"
  have e: "(10::int) ^ Suc n div 10 = 10 ^ n" "(0::int) < 10 ^ n" by simp_all
  have IH: "more_tick_digits n (a * 10 + q) (tick_digits (t mod 10 ^ n) (10 ^ n div 10)) = ((a * 10 + q) * 10 ^ n + t mod 10 ^ n, [])"
    using e(2) by (intro Suc.IH) simp_all
  have val: "(a * 10 + q) * 10 ^ n + t mod 10 ^ n = a * 10 ^ Suc n + t"
    by (simp only: q_def distrib_right power_Suc mult.assoc add.assoc div_mult_mod_eq)
  show ?case
  proof (cases "t = 0")
    case True
    then show ?thesis using Suc.IH[of 0 "a * 10"] by simp
  next
    case False
    have q: "0 \<le> q" "q \<le> 9"
      using Suc.prems e(2) int_div_less[of "10 ^ n" t 10] by (simp_all add: q_def pos_imp_zdiv_nonneg_iff)
    have "tick_digits t (10 ^ n) = plus_zero_char q # tick_digits (t mod 10 ^ n) (10 ^ n div 10)"
      using False Suc.prems e(2) by (subst tick_digits.simps) (simp add: sdiv_nonneg smod_nonneg q_def)
    then show ?thesis using IH val plus_zero_char_digit[OF q] by (simp add: e(1))
  qed
qed

lemma fraction_back:
  assumes "0 < t" "t < 10000000"
  shows "\<exists>c s. tick_digits t 1000000 = c # s \<and> is_digit c \<and> more_tick_digits 6 (digit_val c) s = (t, [])"
proof -
  define q where "q = t div 1000000"
  have q: "0 \<le> q" "q \<le> 9" using assms unfolding q_def by linarith+
  have "tick_digits t 1000000 = plus_zero_char q # tick_digits (t mod 1000000) 100000"
    using assms by (subst tick_digits.simps) (simp add: sdiv_nonneg smod_nonneg q_def)
  moreover have "more_tick_digits 6 q (tick_digits (t mod 1000000) 100000) = (t, [])"
    using tick_digits_back[of "t mod 1000000" 6 q] by (simp add: q_def)
  ultimately show ?thesis using plus_zero_char_digit[OF q] by auto
qed

lemma ampm_end: "parse_time_ampm [] hour = (hour, [])"
  by (simp add: parse_time_ampm_def any_token_def parse_token_def parse_token_no_ws_def skip_whitespace_def)

lemma time_bounds:
  assumes "time_is_valid h m s t"
  shows "0 \<le> h" "h \<le> 99" "0 \<le> m" "m \<le> 99" "0 \<le> s" "s \<le> 99" "0 \<le> t" "t < 10000000"
  using assms unfolding time_is_valid_def by linarith+

lemma finish_time_back:
  assumes "time_is_valid h m s t"
  shows "finish_time h m s t [] = Some (\<lparr> hmst_hour = h, hmst_minute = m, hmst_second = s, hmst_tick = t \<rparr>, [])"
proof -
  have "cast8 h = h" "cast8 m = m" "cast8 s = s" "cast32 t = t"
    using time_bounds[OF assms] by (simp_all add: cast_id)
  then show ?thesis using assms by (simp add: finish_time_def ampm_end)
qed

lemma flex_time_back:
  assumes v: "time_is_valid h m s t"
  shows "parse_flex_time (time_to_str h m s t)
    = Some (\<lparr> hmst_hour = h, hmst_minute = m, hmst_second = s, hmst_tick = t \<rparr>, [])"
proof -
  note b = time_bounds[OF v]
  have pt: "parse_dot_or_colon (CHR '':'' # u) = Some ((), u)" "parse_dot_or_colon (CHR ''.'' # u) = Some ((), u)"
    "parse_dot_or_colon [] = None" for u
    by (simp_all add: parse_dot_or_colon_def char_token)
  note d = two_digits_back(2)[OF b(1,2)] two_digits_back(1)[OF b(3,4)] two_digits_back(1)[OF b(5,6)]
  consider "s = 0" "t = 0" | "s \<noteq> 0" "t = 0" | "0 < t" using b by linarith
  then show ?thesis
  proof cases
    case 1
    then show ?thesis using v d by (simp add: time_to_str_def parse_flex_time_def pt finish_time_back)
  next
    case 2
    then show ?thesis using v d by (simp add: time_to_str_def parse_flex_time_def pt finish_time_back)
  next
    case 3
    obtain c u where "tick_digits t 1000000 = c # u" "is_digit c" "more_tick_digits 6 (digit_val c) u = (t, [])"
      using fraction_back[OF 3 b(8)] by blast
    then show ?thesis using 3 v d by (simp add: time_to_str_def parse_flex_time_def pt finish_time_back)
  qed
qed

lemma time_text_starts:
  assumes v: "time_is_valid h m s t"
  shows "\<exists>c u. time_to_str h m s t = c # u \<and> \<not> is_space c"
proof -
  have "h sdiv 10 = h div 10" "0 \<le> h div 10" "h div 10 \<le> 9"
    using time_bounds[OF v] by (simp add: sdiv_nonneg, linarith+)
  then have "\<not> is_space (plus_zero_char (h sdiv 10))" by (simp add: digit_is_no_space plus_zero_char_digit)
  then show ?thesis using v by (simp add: time_to_str_def)
qed

lemma parse_time_back:
  assumes v: "time_is_valid h m s t"
  shows "parse_time (skip_whitespace (time_to_str h m s t))
    = Some ((\<lparr> hmst_hour = h, hmst_minute = m, hmst_second = s, hmst_tick = t \<rparr>, None), [])"
proof -
  obtain c u where "time_to_str h m s t = c # u" "\<not> is_space c" using time_text_starts[OF v] by blast
  then have "skip_whitespace (time_to_str h m s t) = time_to_str h m s t" by (simp add: skip_whitespace_stop)
  then show ?thesis
    using flex_time_back[OF v] by (simp add: parse_time_def parse_time_no_tz_def parse_timezone_def skip_whitespace_stop)
qed

text \<open>
  The text of a valid time, a leap second included, is parsed as that time, without a time zone.
\<close>

lemma time_text_roundtrip:
  assumes "time_is_valid h m s t"
  shows "time_set_from_str (time_to_str h m s t)
    = Inr (\<lparr> hmst_hour = h, hmst_minute = m, hmst_second = s, hmst_tick = t \<rparr>, None)"
  using parse_time_back[OF assms] by (simp add: time_set_from_str_def string_to_time_def skip_whitespace_stop)

theorem time_text_roundtrip_witness:
  "time_to_str 23 59 60 1230000 = ''23:59:60.123''
    \<and> time_set_from_str (time_to_str 23 59 60 1230000)
      = Inr (\<lparr> hmst_hour = 23, hmst_minute = 59, hmst_second = 60, hmst_tick = 1230000 \<rparr>, None)"
  by (intro conjI time_text_roundtrip) code_simp+

text \<open>
  C10. The text of a valid datetime is parsed as that datetime, whatever the clock, the order of
  ambiguous dates, the century window, the error mode and the uninitialised locals.
\<close>

theorem datetime_text_roundtrip:
  assumes "datetime_is_valid a" "- 32768 \<le> ymd_year (dt_ymd a)" "ymd_year (dt_ymd a) < 32768"
  shows "datetime_set_from_str minute0 second0 rawtime (datetime_to_str a) ambig century_window errmode = Inr (a, None)"
proof -
  obtain y mo d where d: "dt_ymd a = \<lparr> ymd_year = y, ymd_month = mo, ymd_day = d \<rparr>" by (cases "dt_ymd a")
  obtain h m s t where t: "dt_hmst a = \<lparr> hmst_hour = h, hmst_minute = m, hmst_second = s, hmst_tick = t \<rparr>" by (cases "dt_hmst a")
  have v: "date_is_valid y mo d" "time_is_valid h m s t" using assms(1) by (simp_all add: datetime_is_valid_def d t)
  have n: "\<not> next_is_digit (CHR ''T'' # time_to_str h m s t)" by (simp add: next_is_digit_def no_digit)
  have e: "datetime_to_str a = date_to_str y mo d @ CHR ''T'' # time_to_str h m s t"
    using assms(1) by (simp add: datetime_to_str_def d t)
  have sp: "\<not> is_space (CHR ''T'')" by code_simp
  obtain c u where c: "date_to_str y mo d = c # u" "\<not> is_space c"
    using date_text_starts[of y mo d] v(1) assms(2,3) by (auto simp: d)
  have sk: "skip_whitespace (datetime_to_str a) = datetime_to_str a" unfolding e c(1) append_Cons by (rule skip_whitespace_stop(1)[OF c(2)])
  have "parse_date rawtime ambig century_window (datetime_to_str a) = Inr (Some (dt_ymd a, CHR ''T'' # time_to_str h m s t))"
    using parse_date_back[OF v(1) _ _ n, of rawtime ambig century_window] assms(2,3) sk unfolding e by (simp add: d)
  then have "parse_datetime minute0 second0 rawtime ambig century_window (datetime_to_str a) = Inr (Some ((a, None), []))"
    using parse_time_back[OF v(2)]
    by (simp add: parse_datetime_def or_else_def parse_date_time_datetime_def and_then_def parse_token_def skip_whitespace_stop sp
        char_token t[symmetric])
  then show ?thesis
    by (simp add: datetime_set_from_str_def string_to_datetime_def and_then_def sk skip_whitespace_stop)
qed

theorem datetime_text_roundtrip_witness:
  "datetime_set_from_str 0 0 0 (datetime_to_str (datetime_set_from_ticks
      \<lparr> dt_ymd = \<lparr> ymd_year = 0, ymd_month = 1, ymd_day = 1 \<rparr>, dt_hmst = time_set_to_zero \<rparr> (- 12345)))
      date_parse_ymd 70 assign_error_default
    = Inr (datetime_set_from_ticks
      \<lparr> dt_ymd = \<lparr> ymd_year = 0, ymd_month = 1, ymd_day = 1 \<rparr>, dt_hmst = time_set_to_zero \<rparr> (- 12345), None)"
  by (rule datetime_text_roundtrip) code_simp+

section \<open>What a parser accepts is valid\<close>

text \<open>
  A stored date is a valid one up to the narrowing of its year; the only exception is that of a
  century window that is neither a sliding nor a fixed one.
\<close>

definition stored_date :: "date_ymd \<Rightarrow> bool" where
  "stored_date ymd \<longleftrightarrow> (\<exists>y. date_is_valid y (ymd_month ymd) (ymd_day ymd) \<and> ymd_year ymd = cast16 y)"

definition valid_hmst :: "time_hmst \<Rightarrow> bool" where
  "valid_hmst t \<longleftrightarrow> time_is_valid (hmst_hour t) (hmst_minute t) (hmst_second t) (hmst_tick t)"

definition bad_window :: "int \<Rightarrow> date_error \<Rightarrow> bool" where
  "bad_window century_window e \<longleftrightarrow> e = invalid_century_window century_window
     \<and> (century_window < 0 \<or> 100 \<le> century_window \<and> century_window < 1000)"

definition date_result :: "int \<Rightarrow> ('a \<Rightarrow> bool) \<Rightarrow> date_error + 'a option \<Rightarrow> bool" where
  "date_result century_window P r =
     (case r of Inl e \<Rightarrow> bad_window century_window e | Inr None \<Rightarrow> True | Inr (Some a) \<Rightarrow> P a)"

named_theorems date_results "results of the parsers that may throw"

lemma date_result_simps [simp]:
  "date_result cw P (Inl e) = bad_window cw e" "date_result cw P (Inr None)" "date_result cw P (Inr (Some a)) = P a"
  by (simp_all add: date_result_def)

lemma date_result_or_else [date_results]:
  "date_result cw P r \<Longrightarrow> date_result cw P r' \<Longrightarrow> date_result cw P (or_else r r')"
  by (auto simp: or_else_def date_result_def split: sum.splits option.splits)

lemma date_result_and_then:
  "date_result cw Q r \<Longrightarrow> (\<And>a. Q a \<Longrightarrow> date_result cw P (f a)) \<Longrightarrow> date_result cw P (and_then r f)"
  by (auto simp: and_then_def date_result_def[of cw Q r] split: sum.splits option.splits)

lemma store_date_sound:
  assumes "store_date y m d s = Some (ymd, r)"
  shows "stored_date ymd"
proof -
  have v: "date_is_valid y m d" and ymd: "ymd = \<lparr> ymd_year = cast16 y, ymd_month = cast8 m, ymd_day = cast8 d \<rparr>"
    using assms by (auto simp: store_date_def split: if_splits)
  have "cast8 m = m" "cast8 d = d" using valid_bounds[OF v] by (simp_all add: cast_id)
  then show ?thesis using v by (auto simp: stored_date_def ymd)
qed

lemma date_result_store [date_results]: "date_result cw (\<lambda>(ymd, _). stored_date ymd) (Inr (store_date y m d s))"
  by (cases "store_date y m d s") (auto dest: store_date_sound)

lemma date_result_resolve:
  "cw \<noteq> 0 \<Longrightarrow> date_result cw (\<lambda>_. True) (map_sum id (\<lambda>y. Some (y, s)) (resolve_2digit_year rawtime y cw))"
  by (auto simp: resolve_2digit_year_def bad_window_def)

lemma date_result_year: "(two \<Longrightarrow> cw \<noteq> 0) \<Longrightarrow> date_result cw (\<lambda>_. True) (parse_year_at_end rawtime two cw s)"
  by (auto simp: parse_year_at_end_def date_result_resolve split: option.splits)

lemma parse_date_branches [date_results]:
  "date_result cw (\<lambda>(ymd, _). stored_date ymd) (parse_ymd_sep_date rawtime sep ambig cw s)"
  "date_result cw (\<lambda>(ymd, _). stored_date ymd) (parse_mdy_ambig_sep_date rawtime sep cw s)"
  "date_result cw (\<lambda>(ymd, _). stored_date ymd) (parse_dmy_ambig_sep_date rawtime sep cw s)"
  "date_result cw (\<lambda>(ymd, _). stored_date ymd) (parse_dmy_str_month_sep_date rawtime sep ambig cw s)"
  "date_result cw (\<lambda>(ymd, _). stored_date ymd) (parse_dmy_str_month_ws_date rawtime ambig cw s)"
  "date_result cw (\<lambda>(ymd, _). stored_date ymd) (parse_mdy_long_format_date rawtime cw s)"
  unfolding parse_ymd_sep_date_def parse_mdy_ambig_sep_date_def parse_dmy_ambig_sep_date_def
    parse_dmy_str_month_sep_date_def parse_dmy_str_month_ws_date_def parse_mdy_long_format_date_def
  by (auto intro!: date_result_and_then[where Q = "\<lambda>_. True"] date_result_store date_result_year
      simp: date_result_resolve split: option.splits prod.splits)

lemma parse_iso_dates:
  "parse_iso8601_dashes_date s = Some (ymd, r) \<Longrightarrow> stored_date ymd"
  "parse_iso8601_nodashes_date s = Some (ymd, r) \<Longrightarrow> stored_date ymd"
  unfolding parse_iso8601_dashes_date_def parse_iso8601_nodashes_date_def
  by (auto simp: Option.bind_eq_Some_conv split: if_splits dest: store_date_sound)

lemma date_result_iso [date_results]:
  "date_result cw (\<lambda>(ymd, _). stored_date ymd) (Inr (parse_iso8601_dashes_date s))"
  "date_result cw (\<lambda>(ymd, _). stored_date ymd) (Inr (parse_iso8601_nodashes_date s))"
  by (auto simp: date_result_def dest: parse_iso_dates split: option.splits)

lemma date_result_alternatives:
  "date_result cw (\<lambda>(ymd, _). stored_date ymd) (parse_date_alternatives rawtime ambig cw s)"
  unfolding parse_date_alternatives_def by (auto intro!: date_results)

lemma date_result_date: "date_result cw (\<lambda>(ymd, _). stored_date ymd) (parse_date rawtime ambig cw s)"
  unfolding parse_date_def Let_def
  by (auto intro!: date_result_and_then[OF date_result_alternatives] split: option.splits prod.splits)

text \<open>The same for a parser that does not throw.\<close>

definition accepts :: "('a \<Rightarrow> bool) \<Rightarrow> ('a \<times> string) option \<Rightarrow> bool" where
  "accepts P r \<longleftrightarrow> (case r of None \<Rightarrow> True | Some (a, _) \<Rightarrow> P a)"

lemma accepts_simps [simp]: "accepts P None" "accepts P (Some (a, s)) = P a"
  by (simp_all add: accepts_def)

lemma accepts_bind: "(\<And>a. r = Some a \<Longrightarrow> accepts P (f a)) \<Longrightarrow> accepts P (r \<bind> f)"
  by (cases r) simp_all

lemma accepts_Let: "(\<And>x. accepts P (f x)) \<Longrightarrow> accepts P (Let v f)"
  by (simp add: Let_def)

lemma accepts_case: "(\<And>a b. accepts P (f a b)) \<Longrightarrow> accepts P (case x of (a, b) \<Rightarrow> f a b)"
  by (cases x) simp

lemma finish_time_sound:
  assumes "finish_time h m s t u = Some (hmst, r)"
  shows "valid_hmst hmst"
proof -
  obtain h' u' where p: "parse_time_ampm u h = (h', u')" by fastforce
  then have v: "time_is_valid h' m s t"
    and hmst: "hmst = \<lparr> hmst_hour = cast8 h', hmst_minute = cast8 m, hmst_second = cast8 s, hmst_tick = cast32 t \<rparr>"
    using assms by (auto simp: finish_time_def split: if_splits)
  have "cast8 h' = h'" "cast8 m = m" "cast8 s = s" "cast32 t = t" using time_bounds[OF v] by (simp_all add: cast_id)
  then show ?thesis using v by (simp add: valid_hmst_def hmst)
qed

lemma accepts_finish_time: "accepts valid_hmst (finish_time h m s t u)"
  by (auto simp: accepts_def dest: finish_time_sound split: option.splits)

lemma accepts_flex_time: "accepts valid_hmst (parse_flex_time s)"
  unfolding parse_flex_time_def
  by (auto intro!: accepts_bind accepts_finish_time split: option.splits list.splits if_splits prod.splits)

lemma accepts_time: "accepts (\<lambda>(hmst, _). valid_hmst hmst) (parse_time s)"
  using accepts_flex_time[of s] unfolding parse_time_def parse_time_no_tz_def
  by (auto intro!: accepts_bind split: option.splits)

lemma accepts_dashes_date: "accepts stored_date (parse_iso8601_dashes_date s)"
  by (auto simp: accepts_def dest: parse_iso_dates split: option.splits)

definition stored_datetime :: "datetime_struct \<Rightarrow> bool" where
  "stored_datetime dt \<longleftrightarrow> stored_date (dt_ymd dt) \<and> valid_hmst (dt_hmst dt)"

lemma accepts_dashes_date_hour: "accepts stored_datetime (parse_dashes_date_hour s)"
proof -
  have "valid_hmst \<lparr> hmst_hour = cast8 h, hmst_minute = 0, hmst_second = 0, hmst_tick = 0 \<rparr>" if v: "time_is_valid h 0 0 0" for h
  proof -
    have "cast8 h = h" using time_bounds[OF v] by (simp add: cast_id)
    then show ?thesis using v by (simp add: valid_hmst_def)
  qed
  then show ?thesis
    using accepts_dashes_date[of s] unfolding parse_dashes_date_hour_def
    by (auto intro!: accepts_bind simp: stored_datetime_def split: if_splits prod.splits)
qed

lemma accepts_postgres: "accepts stored_datetime (parse_postgres_datetime s)"
proof -
  have "valid_hmst hmst" if "parse_time_no_tz u = Some (hmst, r)" for u hmst r
    using that accepts_flex_time[of u] by (simp add: parse_time_no_tz_def)
  then show ?thesis
    unfolding parse_postgres_datetime_def
    by (auto intro!: accepts_bind simp: stored_datetime_def split: if_splits prod.splits dest: store_date_sound)
qed

lemma accepts_nodashes_datetime: "accepts stored_datetime (parse_iso8601_nodashes_datetime minute0 second0 s)"
proof -
  have "stored_datetime \<lparr> dt_ymd = \<lparr> ymd_year = cast16 y, ymd_month = cast8 m, ymd_day = cast8 d \<rparr>,
      dt_hmst = \<lparr> hmst_hour = cast8 h, hmst_minute = cast8 mi, hmst_second = cast8 se, hmst_tick = cast32 t \<rparr> \<rparr>"
    if v: "date_is_valid y m d" "time_is_valid h mi se t" for y m d h mi se t
  proof -
    have "cast8 m = m" "cast8 d = d" using valid_bounds[OF v(1)] by (simp_all add: cast_id)
    moreover have "cast8 h = h" "cast8 mi = mi" "cast8 se = se" "cast32 t = t" using time_bounds[OF v(2)] by (simp_all add: cast_id)
    ultimately show ?thesis using v by (auto simp: stored_datetime_def stored_date_def valid_hmst_def)
  qed
  then show ?thesis
    unfolding parse_iso8601_nodashes_datetime_def
    by (auto intro!: accepts_bind accepts_Let accepts_case)
qed

lemma date_result_datetime:
  "date_result cw (\<lambda>((dt, _), _). stored_datetime dt) (parse_datetime minute0 second0 rawtime ambig cw s)"
proof -
  have m: "date_result cw (\<lambda>((dt, _), _). stored_datetime dt) (Inr (map_option (\<lambda>(dt, s). ((dt, None), s)) r))"
    if "accepts stored_datetime r" for r
    using that by (cases r) auto
  have z: "valid_hmst time_set_to_zero" by (simp add: valid_hmst_def time_set_to_zero_def time_is_valid_def)
  define W :: "date_ymd \<Rightarrow> string \<Rightarrow> date_error + ((datetime_struct \<times> string option) \<times> string) option"
    where "W ymd u = Inr (case parse_time u of
              Some ((hmst, tz), s) \<Rightarrow> Some ((\<lparr> dt_ymd = ymd, dt_hmst = hmst \<rparr>, tz), s)
            | None \<Rightarrow> map_option (\<lambda>(dt, s). ((dt, None), s)) (parse_dashes_date_hour s))" for ymd u
  have t: "date_result cw (\<lambda>((dt, _), _). stored_datetime dt)
      (Inr (case parse_time u of
              Some ((hmst, tz), s) \<Rightarrow> Some ((\<lparr> dt_ymd = ymd, dt_hmst = hmst \<rparr>, tz), s)
            | None \<Rightarrow> map_option (\<lambda>(dt, s). ((dt, None), s)) (parse_dashes_date_hour s)))"
    if "stored_date ymd" for ymd u
    using that accepts_time[of u] m[OF accepts_dashes_date_hour] by (auto simp: stored_datetime_def split: option.splits)
  then have tW: "stored_date ymd \<Longrightarrow> date_result cw (\<lambda>((dt, _), _). stored_datetime dt) (W ymd u)" for ymd u
    unfolding W_def .
  have "date_result cw (\<lambda>((dt, _), _). stored_datetime dt) (parse_date_time_datetime rawtime ambig cw s)"
    unfolding parse_date_time_datetime_def Let_def W_def[symmetric]
    by (rule date_result_and_then[OF date_result_date])
      (auto simp: z stored_datetime_def[of "\<lparr> dt_ymd = _, dt_hmst = time_set_to_zero \<rparr>"] intro!: tW split: option.splits)
  then show ?thesis
    unfolding parse_datetime_def by (intro date_result_or_else m accepts_postgres accepts_nodashes_datetime)
qed

text \<open>
  C28. The parsers of dates and datetimes throw only for a century window that is neither zero nor one of the two
  kinds of windows, and what they accept is a valid time of day and a valid date, up to the
  narrowing of its year to 16 bits.
\<close>

theorem parsed_datetime_is_valid:
  "(case string_to_date rawtime s ambig century_window errmode of
      Inl e \<Rightarrow> bad_window century_window e | Inr None \<Rightarrow> True | Inr (Some ymd) \<Rightarrow> stored_date ymd)
   \<and> (case string_to_datetime minute0 second0 rawtime s ambig century_window errmode of
      Inl e \<Rightarrow> bad_window century_window e
    | Inr None \<Rightarrow> True
    | Inr (Some (dt, tz)) \<Rightarrow> stored_date (dt_ymd dt) \<and> valid_hmst (dt_hmst dt))"
proof
  have "date_result century_window stored_date (string_to_date rawtime s ambig century_window errmode)"
    unfolding string_to_date_def Let_def
    by (rule date_result_and_then[OF date_result_date]) auto
  then show "case string_to_date rawtime s ambig century_window errmode of
      Inl e \<Rightarrow> bad_window century_window e | Inr None \<Rightarrow> True | Inr (Some ymd) \<Rightarrow> stored_date ymd"
    by (simp add: date_result_def)
next
  have "date_result century_window (\<lambda>(dt, _). stored_datetime dt)
      (string_to_datetime minute0 second0 rawtime s ambig century_window errmode)"
    unfolding string_to_datetime_def
    by (rule date_result_and_then[OF date_result_datetime]) auto
  then show "case string_to_datetime minute0 second0 rawtime s ambig century_window errmode of
      Inl e \<Rightarrow> bad_window century_window e
    | Inr None \<Rightarrow> True
    | Inr (Some (dt, tz)) \<Rightarrow> stored_date (dt_ymd dt) \<and> valid_hmst (dt_hmst dt)"
    by (auto simp: date_result_def stored_datetime_def split: sum.splits option.splits)
qed

text \<open>A six digit year that the field does not hold is accepted, and the stored date is not the one of the text.\<close>

lemma wide_year_is_narrowed:
  "string_to_date rawtime ''+033036-02-29'' ambig century_window errmode
    = Inr (Some \<lparr> ymd_year = - 32500, ymd_month = 2, ymd_day = 29 \<rparr>)
   \<and> \<not> date_is_valid (- 32500) 2 29"
proof -
  have "parse_iso8601_dashes_date ''+033036-02-29'' = Some (\<lparr> ymd_year = - 32500, ymd_month = 2, ymd_day = 29 \<rparr>, [])"
    "\<not> is_space (CHR ''+'')" "\<not> is_alpha (CHR ''+'')" "\<not> date_is_valid (- 32500) 2 29"
    by code_simp+
  then show ?thesis
    by (simp add: string_to_date_def parse_date_def parse_date_alternatives_def or_else_def and_then_def no_weekday
        skip_whitespace_stop parse_token_no_ws_def skip_required_whitespace_def)
qed

text \<open>Without its seconds the compact datetime takes them from uninitialised memory.\<close>

lemma compact_datetime_reads_garbage:
  "parse_iso8601_nodashes_datetime minute0 59 ''1997121915''
    \<noteq> parse_iso8601_nodashes_datetime minute0 0 ''1997121915''"
  by code_simp

end
