(* ===== verification/Ref_Count.thy ===== *)
theory Ref_Count
  imports Prelude "HOL-Library.Multiset"
begin

text \<open>
  Reference counted memory blocks and the smart pointer \<^verbatim>\<open>memory_block_ptr\<close> of
  \<^verbatim>\<open>include/dynd/memblock/memory_block.hpp\<close>. The state holds the count of every block that has
  not been freed, the log of the freed blocks and the smart pointer objects with their target, which may
  be null. A reference can also be owned by a raw pointer: a new block starts with one, and
  \<^verbatim>\<open>release\<close> makes one. An operation that touches a freed block is undefined behaviour, the value
  \<open>None\<close>. The counts are unbounded; the 32-bit counter of the source would need \<open>2 ^ 31\<close> owners to
  differ.
\<close>

section \<open>Counts\<close>

type_synonym block = nat
type_synonym ptr_name = nat

record ptr_state =
  use_count :: "block \<Rightarrow> int option"
  freed :: "block list"
  ptrs :: "ptr_name \<Rightarrow> block option option"
  raws :: "block multiset"

definition memory_block_incref :: "block \<Rightarrow> ptr_state \<Rightarrow> ptr_state option" where
  "memory_block_incref b st =
     (case use_count st b of None \<Rightarrow> None | Some c \<Rightarrow> Some (st\<lparr>use_count := (use_count st)(b \<mapsto> c + 1)\<rparr>))"

definition memory_block_decref :: "block \<Rightarrow> ptr_state \<Rightarrow> ptr_state option" where
  "memory_block_decref b st =
     (case use_count st b of
        None \<Rightarrow> None
      | Some c \<Rightarrow>
          if c - 1 = 0 then Some (st\<lparr>use_count := (use_count st)(b := None), freed := freed st @ [b]\<rparr>)
          else Some (st\<lparr>use_count := (use_count st)(b \<mapsto> c - 1)\<rparr>))"

text \<open>The constructor of \<^verbatim>\<open>memory_block_data\<close>: a new block starts with a count of one, held by a raw pointer.\<close>

definition new_block :: "block \<Rightarrow> ptr_state \<Rightarrow> ptr_state" where
  "new_block b st = st\<lparr>use_count := (use_count st)(b \<mapsto> 1), raws := add_mset b (raws st)\<rparr>"

section \<open>Smart pointers\<close>

definition set_ptr :: "ptr_name \<Rightarrow> block option \<Rightarrow> ptr_state \<Rightarrow> ptr_state" where
  "set_ptr v target st = st\<lparr>ptrs := (ptrs st)(v \<mapsto> target)\<rparr>"

definition incref_if :: "block option \<Rightarrow> ptr_state \<Rightarrow> ptr_state option" where
  "incref_if target st = (case target of None \<Rightarrow> Some st | Some b \<Rightarrow> memory_block_incref b st)"

definition decref_if :: "block option \<Rightarrow> ptr_state \<Rightarrow> ptr_state option" where
  "decref_if target st = (case target of None \<Rightarrow> Some st | Some b \<Rightarrow> memory_block_decref b st)"

definition ptr_default :: "ptr_name \<Rightarrow> ptr_state \<Rightarrow> ptr_state option" where
  "ptr_default v st = Some (set_ptr v None st)"

text \<open>The constructor from a raw pointer; without \<open>add_ref\<close> it takes over the reference of the raw pointer.\<close>

definition ptr_from_raw :: "ptr_name \<Rightarrow> block option \<Rightarrow> bool \<Rightarrow> ptr_state \<Rightarrow> ptr_state option" where
  "ptr_from_raw v memblock add_ref st =
     (let st = set_ptr v memblock st
      in case memblock of
           None \<Rightarrow> Some st
         | Some b \<Rightarrow> if add_ref then memory_block_incref b st else Some (st\<lparr>raws := raws st - {#b#}\<rparr>))"

definition ptr_copy :: "ptr_name \<Rightarrow> ptr_name \<Rightarrow> ptr_state \<Rightarrow> ptr_state option" where
  "ptr_copy v w st =
     (case ptrs st w of
        None \<Rightarrow> None
      | Some target \<Rightarrow> incref_if target (set_ptr v target st))"

definition ptr_move :: "ptr_name \<Rightarrow> ptr_name \<Rightarrow> ptr_state \<Rightarrow> ptr_state option" where
  "ptr_move v w st =
     (case ptrs st w of
        None \<Rightarrow> None
      | Some target \<Rightarrow> Some (set_ptr w None (set_ptr v target st)))"

definition ptr_destroy :: "ptr_name \<Rightarrow> ptr_state \<Rightarrow> ptr_state option" where
  "ptr_destroy v st =
     (case ptrs st v of
        None \<Rightarrow> None
      | Some target \<Rightarrow> decref_if target (st\<lparr>ptrs := (ptrs st)(v := None)\<rparr>))"

definition ptr_assign :: "ptr_name \<Rightarrow> ptr_name \<Rightarrow> ptr_state \<Rightarrow> ptr_state option" where
  "ptr_assign v w st =
     (case ptrs st v of
        None \<Rightarrow> None
      | Some old \<Rightarrow>
          (case decref_if old st of
             None \<Rightarrow> None
           | Some st \<Rightarrow>
               (case ptrs st w of
                  None \<Rightarrow> None
                | Some target \<Rightarrow> incref_if target (set_ptr v target st))))"

definition ptr_move_assign :: "ptr_name \<Rightarrow> ptr_name \<Rightarrow> ptr_state \<Rightarrow> ptr_state option" where
  "ptr_move_assign v w st =
     (case ptrs st v of
        None \<Rightarrow> None
      | Some old \<Rightarrow>
          (case decref_if old st of
             None \<Rightarrow> None
           | Some st \<Rightarrow>
               (case ptrs st w of
                  None \<Rightarrow> None
                | Some target \<Rightarrow> Some (set_ptr w None (set_ptr v target st)))))"

definition ptr_assign_raw :: "ptr_name \<Rightarrow> block option \<Rightarrow> ptr_state \<Rightarrow> ptr_state option" where
  "ptr_assign_raw v rhs st =
     (case ptrs st v of
        None \<Rightarrow> None
      | Some old \<Rightarrow>
          (case decref_if old st of
             None \<Rightarrow> None
           | Some st \<Rightarrow> incref_if rhs (set_ptr v rhs st)))"

definition ptr_release :: "ptr_name \<Rightarrow> ptr_state \<Rightarrow> (block option \<times> ptr_state) option" where
  "ptr_release v st =
     (case ptrs st v of
        None \<Rightarrow> None
      | Some target \<Rightarrow>
          (let st = set_ptr v None st
           in Some (target, case target of None \<Rightarrow> st | Some b \<Rightarrow> st\<lparr>raws := add_mset b (raws st)\<rparr>)))"

definition ptr_swap :: "ptr_name \<Rightarrow> ptr_name \<Rightarrow> ptr_state \<Rightarrow> ptr_state option" where
  "ptr_swap v w st =
     (case (ptrs st v, ptrs st w) of
        (Some a, Some b) \<Rightarrow> Some (set_ptr w a (set_ptr v b st))
      | _ \<Rightarrow> None)"

definition ptr_unique :: "ptr_name \<Rightarrow> ptr_state \<Rightarrow> bool option" where
  "ptr_unique v st =
     (case ptrs st v of
        Some (Some b) \<Rightarrow> (case use_count st b of None \<Rightarrow> None | Some c \<Rightarrow> Some (c \<le> 1))
      | _ \<Rightarrow> None)"

definition ptr_equal :: "ptr_name \<Rightarrow> ptr_name \<Rightarrow> ptr_state \<Rightarrow> bool option" where
  "ptr_equal v w st = (case (ptrs st v, ptrs st w) of (Some a, Some b) \<Rightarrow> Some (a = b) | _ \<Rightarrow> None)"

section \<open>Programs over smart pointers\<close>

datatype ptr_op =
    New_Block block | Raw_Decref block
  | Default ptr_name | From_Raw ptr_name "block option" bool
  | Copy ptr_name ptr_name | Move ptr_name ptr_name | Destroy ptr_name
  | Assign ptr_name ptr_name | Move_Assign ptr_name ptr_name | Assign_Raw ptr_name "block option"
  | Release ptr_name | Swap ptr_name ptr_name

text \<open>
  What a correct client does: it constructs objects that do not exist yet, uses existing ones, gives away
  only raw references it holds and names only blocks that are alive; new blocks are fresh memory.
  Assigning a pointer to itself is excluded when it is the only owner, and a raw assignment when the
  pointer is the only owner of the block it is assigned.
\<close>

definition op_allowed :: "ptr_state \<Rightarrow> ptr_op \<Rightarrow> bool" where
  "op_allowed st q \<longleftrightarrow>
     (case q of
        New_Block b \<Rightarrow> use_count st b = None \<and> b \<notin> set (freed st)
      | Raw_Decref b \<Rightarrow> b \<in># raws st
      | Default v \<Rightarrow> ptrs st v = None
      | From_Raw v t add_ref \<Rightarrow>
          ptrs st v = None
          \<and> (case t of None \<Rightarrow> True | Some b \<Rightarrow> (if add_ref then use_count st b \<noteq> None else b \<in># raws st))
      | Copy v w \<Rightarrow> ptrs st v = None \<and> ptrs st w \<noteq> None
      | Move v w \<Rightarrow> ptrs st v = None \<and> ptrs st w \<noteq> None
      | Destroy v \<Rightarrow> ptrs st v \<noteq> None
      | Assign v w \<Rightarrow> ptrs st v \<noteq> None \<and> ptrs st w \<noteq> None \<and> (v = w \<longrightarrow> ptr_unique v st \<noteq> Some True)
      | Move_Assign v w \<Rightarrow> ptrs st v \<noteq> None \<and> ptrs st w \<noteq> None
      | Assign_Raw v t \<Rightarrow>
          ptrs st v \<noteq> None
          \<and> (case t of None \<Rightarrow> True
             | Some b \<Rightarrow> use_count st b \<noteq> None \<and> (ptrs st v = Some (Some b) \<longrightarrow> ptr_unique v st \<noteq> Some True))
      | Release v \<Rightarrow> ptrs st v \<noteq> None
      | Swap v w \<Rightarrow> ptrs st v \<noteq> None \<and> ptrs st w \<noteq> None)"

definition run_op :: "ptr_op \<Rightarrow> ptr_state \<Rightarrow> ptr_state option" where
  "run_op q st =
     (case q of
        New_Block b \<Rightarrow> Some (new_block b st)
      | Raw_Decref b \<Rightarrow> memory_block_decref b (st\<lparr>raws := raws st - {#b#}\<rparr>)
      | Default v \<Rightarrow> ptr_default v st
      | From_Raw v t add_ref \<Rightarrow> ptr_from_raw v t add_ref st
      | Copy v w \<Rightarrow> ptr_copy v w st
      | Move v w \<Rightarrow> ptr_move v w st
      | Destroy v \<Rightarrow> ptr_destroy v st
      | Assign v w \<Rightarrow> ptr_assign v w st
      | Move_Assign v w \<Rightarrow> ptr_move_assign v w st
      | Assign_Raw v t \<Rightarrow> ptr_assign_raw v t st
      | Release v \<Rightarrow> map_option snd (ptr_release v st)
      | Swap v w \<Rightarrow> ptr_swap v w st)"

definition empty_state :: ptr_state where
  "empty_state = \<lparr> use_count = (\<lambda>_. None), freed = [], ptrs = (\<lambda>_. None), raws = {#} \<rparr>"

inductive reachable :: "ptr_state \<Rightarrow> bool" where
  reachable_start: "reachable empty_state"
| reachable_step: "reachable st \<Longrightarrow> op_allowed st q \<Longrightarrow> run_op q st = Some st' \<Longrightarrow> reachable st'"

section \<open>The invariant: a count is the number of owners\<close>

definition holders :: "block \<Rightarrow> (ptr_name \<Rightarrow> block option option) \<Rightarrow> nat" where
  "holders b m = card {v. m v = Some (Some b)}"

definition owners :: "block \<Rightarrow> ptr_state \<Rightarrow> nat" where
  "owners b st = holders b (ptrs st) + count (raws st) b"

text \<open>A state is counted up to the reference changes \<open>d\<close> of blocks that are still to come.\<close>

definition count_ok :: "int option \<Rightarrow> int \<Rightarrow> bool" where
  "count_ok u n \<longleftrightarrow> (case u of None \<Rightarrow> n = 0 | Some c \<Rightarrow> c = n \<and> 0 < n)"

definition counted :: "(block \<Rightarrow> int) \<Rightarrow> ptr_state \<Rightarrow> bool" where
  "counted d st \<longleftrightarrow> finite (dom (ptrs st)) \<and> distinct (freed st)
     \<and> (\<forall>b. b \<in> set (freed st) \<longrightarrow> use_count st b = None)
     \<and> (\<forall>b. count_ok (use_count st b) (int (owners b st) + d b))"

lemma holders_upd:
  assumes "finite (dom m)"
  shows "int (holders b (m(v := t))) = int (holders b m) - of_bool (m v = Some (Some b)) + of_bool (t = Some (Some b))"
proof -
  let ?A = "{u. u \<noteq> v \<and> m u = Some (Some b)}"
  have fin: "finite ?A" using assms by (rule finite_subset[rotated]) auto
  have "{u. m u = Some (Some b)} = (if m v = Some (Some b) then insert v ?A else ?A)" by auto
  moreover have "{u. (m(v := t)) u = Some (Some b)} = (if t = Some (Some b) then insert v ?A else ?A)" by auto
  moreover have "v \<notin> ?A" by simp
  ultimately show ?thesis unfolding holders_def using fin by simp
qed

definition refs_to :: "block option \<Rightarrow> block \<Rightarrow> int" where
  "refs_to t b = of_bool (t = Some b)"

lemma refs_to_simps [simp]: "refs_to None b = 0" "refs_to (Some a) b = of_bool (a = b)"
  by (simp_all add: refs_to_def)

named_theorems counting "how the operations keep the counts"

lemma counted_cong: "counted d st \<Longrightarrow> d = d' \<Longrightarrow> counted d' st"
  by simp

lemma counted_set_ptr [counting]:
  assumes "counted d st"
  shows "counted (\<lambda>b. d b + of_bool (ptrs st v = Some (Some b)) - refs_to t b) (set_ptr v t st)"
proof -
  have fin: "finite (dom (ptrs st))" using assms by (simp add: counted_def)
  have own: "int (owners b (set_ptr v t st)) + (d b + of_bool (ptrs st v = Some (Some b)) - refs_to t b) = int (owners b st) + d b" for b
    using holders_upd[OF fin, of b v "Some t"] by (simp add: owners_def set_ptr_def refs_to_def)
  show ?thesis
    using assms fin unfolding counted_def own by (simp add: set_ptr_def)
qed

lemma counted_drop_ptr:
  assumes "counted d st"
  shows "counted (\<lambda>b. d b + of_bool (ptrs st v = Some (Some b))) (st\<lparr>ptrs := (ptrs st)(v := None)\<rparr>)"
proof -
  have fin: "finite (dom (ptrs st))" using assms by (simp add: counted_def)
  have own: "int (owners b (st\<lparr>ptrs := (ptrs st)(v := None)\<rparr>)) + (d b + of_bool (ptrs st v = Some (Some b))) = int (owners b st) + d b" for b
    using holders_upd[OF fin, of b v None] by (simp add: owners_def)
  show ?thesis
    using assms fin unfolding counted_def own by simp
qed

lemma counted_raws:
  assumes "counted d st"
  shows "counted (\<lambda>b. d b + int (count (raws st) b) - int (count r b)) (st\<lparr>raws := r\<rparr>)"
proof -
  have own: "int (owners b (st\<lparr>raws := r\<rparr>)) + (d b + int (count (raws st) b) - int (count r b)) = int (owners b st) + d b" for b
    by (simp add: owners_def)
  show ?thesis using assms unfolding counted_def own by simp
qed

lemma counted_use_count:
  assumes "counted d st" "b \<notin> set (freed st)" "count_ok u (int (owners b st) + d b + k)"
    "f = freed st \<or> f = freed st @ [b] \<and> u = None"
  shows "counted (\<lambda>x. d x + (if b = x then k else 0)) (st\<lparr>use_count := (use_count st)(b := u), freed := f\<rparr>)"
proof -
  have own: "owners x (st\<lparr>use_count := (use_count st)(b := u), freed := f\<rparr>) = owners x st" for x
    by (simp add: owners_def)
  have c: "count_ok (((use_count st)(b := u)) x) (int (owners x st) + (d x + (if b = x then k else 0)))" for x
    using assms(1,3) by (cases "x = b") (simp_all add: counted_def add.assoc)
  show ?thesis
    using assms(1,2,4) c unfolding counted_def own by auto
qed

lemma counted_live:
  assumes "counted d st" "use_count st b = Some c"
  shows "b \<notin> set (freed st)" "c = int (owners b st) + d b" "0 < c"
proof -
  have "count_ok (Some c) (int (owners b st) + d b)" using assms unfolding counted_def by metis
  then show "c = int (owners b st) + d b" "0 < c" by (simp_all add: count_ok_def)
  show "b \<notin> set (freed st)" using assms by (auto simp: counted_def)
qed

lemma counted_incref:
  assumes "counted d st" "use_count st b \<noteq> None"
  shows "\<exists>st'. memory_block_incref b st = Some st' \<and> counted (\<lambda>x. d x + of_bool (b = x)) st' \<and> ptrs st' = ptrs st \<and> raws st' = raws st"
proof -
  obtain c where c: "use_count st b = Some c" using assms(2) by blast
  note l = counted_live[OF assms(1) c]
  have "counted (\<lambda>x. d x + (if b = x then 1 else 0)) (st\<lparr>use_count := (use_count st)(b := Some (c + 1)), freed := freed st\<rparr>)"
    using l by (intro counted_use_count[OF assms(1)]) (simp_all add: count_ok_def)
  then show ?thesis using c by (simp add: memory_block_incref_def of_bool_def)
qed

lemma counted_decref:
  assumes "counted d st" "use_count st b \<noteq> None"
  shows "\<exists>st'. memory_block_decref b st = Some st' \<and> counted (\<lambda>x. d x - of_bool (b = x)) st' \<and> ptrs st' = ptrs st \<and> raws st' = raws st"
proof -
  obtain c where c: "use_count st b = Some c" using assms(2) by blast
  note l = counted_live[OF assms(1) c]
  have e: "d x + (if b = x then - 1 else 0) = d x - of_bool (b = x)" for x by simp
  show ?thesis
  proof (cases "c = 1")
    case True
    have "counted (\<lambda>x. d x + (if b = x then - 1 else 0)) (st\<lparr>use_count := (use_count st)(b := None), freed := freed st @ [b]\<rparr>)"
      using l True by (intro counted_use_count[OF assms(1)]) (simp_all add: count_ok_def)
    then show ?thesis using c True unfolding e by (simp add: memory_block_decref_def)
  next
    case False
    have "counted (\<lambda>x. d x + (if b = x then - 1 else 0)) (st\<lparr>use_count := (use_count st)(b := Some (c - 1)), freed := freed st\<rparr>)"
      using l False by (intro counted_use_count[OF assms(1)]) (simp_all add: count_ok_def)
    then show ?thesis using c False unfolding e by (simp add: memory_block_decref_def)
  qed
qed

lemma owned_is_live:
  assumes "counted d st" "0 < int (owners b st) + d b"
  shows "use_count st b \<noteq> None"
proof -
  have "count_ok (use_count st b) (int (owners b st) + d b)" using assms(1) by (simp add: counted_def)
  then show ?thesis using assms(2) by (auto simp: count_ok_def split: option.splits)
qed

lemma owned_by_ptr:
  assumes "counted d st" "ptrs st v = Some (Some b)"
  shows "0 < owners b st"
proof -
  have "finite (dom (ptrs st))" using assms(1) by (simp add: counted_def)
  then have "finite {u. ptrs st u = Some (Some b)}" by (rule finite_subset[rotated]) auto
  then have "0 < holders b (ptrs st)" using assms(2) by (auto simp: holders_def card_gt_0_iff)
  then show ?thesis by (simp add: owners_def)
qed

lemma owned_by_two:
  assumes "counted d st" "ptrs st v = Some (Some b)" "ptrs st w = Some (Some b)" "v \<noteq> w"
  shows "1 < owners b st"
proof -
  have fin: "finite (dom (ptrs st))" using assms(1) by (simp add: counted_def)
  then have "finite {u. ptrs st u = Some (Some b)}" by (rule finite_subset[rotated]) auto
  then have "card {v, w} \<le> card {u. ptrs st u = Some (Some b)}" using assms(2,3) by (intro card_mono) auto
  then show ?thesis using assms(4) by (simp add: owners_def holders_def)
qed

lemma counted_incref_if:
  assumes "counted d st" "\<And>b. t = Some b \<Longrightarrow> use_count st b \<noteq> None"
  shows "\<exists>st'. incref_if t st = Some st' \<and> counted (\<lambda>x. d x + refs_to t x) st' \<and> ptrs st' = ptrs st \<and> raws st' = raws st"
  using assms counted_incref[OF assms(1)] by (cases t) (simp_all add: incref_if_def)

lemma counted_decref_if:
  assumes "counted d st" "\<And>b. t = Some b \<Longrightarrow> use_count st b \<noteq> None"
  shows "\<exists>st'. decref_if t st = Some st' \<and> counted (\<lambda>x. d x - refs_to t x) st' \<and> ptrs st' = ptrs st \<and> raws st' = raws st"
  using assms counted_decref[OF assms(1)] by (cases t) (simp_all add: decref_if_def)

text \<open>The common step of the assignments: the old target is released, then the new one is stored and retained.\<close>

lemma counted_reassign:
  assumes c: "counted (\<lambda>_. 0) st" and v: "ptrs st v = Some old"
    and t: "\<And>b. t = Some b \<Longrightarrow> use_count st b \<noteq> None \<and> (old = Some b \<longrightarrow> 1 < owners b st)"
  shows "\<exists>st1 st'. decref_if old st = Some st1 \<and> ptrs st1 = ptrs st \<and> raws st1 = raws st
    \<and> incref_if t (set_ptr v t st1) = Some st' \<and> counted (\<lambda>_. 0) st'"
proof -
  have "use_count st b \<noteq> None" if "old = Some b" for b
    using owned_is_live[OF c, of b] owned_by_ptr[OF c, of v b] v that by simp
  then obtain st1 where st1: "decref_if old st = Some st1" "counted (\<lambda>x. 0 - refs_to old x) st1" "ptrs st1 = ptrs st" "raws st1 = raws st"
    using counted_decref_if[OF c, of old] by blast
  have o: "owners b st1 = owners b st" for b using st1 by (simp add: owners_def)
  have set: "counted (\<lambda>x. 0 - refs_to t x) (set_ptr v t st1)"
    by (rule counted_cong[OF counted_set_ptr[OF st1(2)]]) (auto simp: st1(3) v refs_to_def)
  have "use_count (set_ptr v t st1) b \<noteq> None" if "t = Some b" for b
  proof -
    have "0 < int (owners b st)" if "old \<noteq> Some b"
      using owned_is_live[OF c, of b] counted_live(2,3)[OF c] t[OF \<open>t = Some b\<close>] by fastforce
    then have "0 < int (owners b st1) + (0 - refs_to old b)"
      using t[OF that] o by (cases "old = Some b") (auto simp: refs_to_def)
    then show ?thesis using owned_is_live[OF st1(2)] by (simp add: set_ptr_def)
  qed
  then obtain st' where "incref_if t (set_ptr v t st1) = Some st'" "counted (\<lambda>x. (0 - refs_to t x) + refs_to t x) st'"
    using counted_incref_if[OF set] by blast
  then show ?thesis using st1 by auto
qed

lemma ptr_target_live:
  assumes "counted (\<lambda>_. 0) st" "ptrs st v = Some (Some b)"
  shows "use_count st b \<noteq> None"
  using owned_is_live[OF assms(1)] owned_by_ptr[OF assms] by simp

lemma raw_live:
  assumes "counted (\<lambda>_. 0) st" "b \<in># raws st"
  shows "use_count st b \<noteq> None"
proof -
  have "0 < count (raws st) b" using assms(2) by (rule count_greater_zero_iff[THEN iffD2])
  then have "0 < owners b st" by (simp add: owners_def)
  then show ?thesis using owned_is_live[OF assms(1), of b] by simp
qed

lemma not_unique:
  assumes "counted (\<lambda>_. 0) st" "ptrs st v = Some (Some b)" "ptr_unique v st \<noteq> Some True"
  shows "1 < owners b st"
proof -
  obtain c where c: "use_count st b = Some c" using ptr_target_live[OF assms(1,2)] by blast
  then have "1 < c" using assms(2,3) by (auto simp: ptr_unique_def)
  then show ?thesis using counted_live(2)[OF assms(1) c] by simp
qed

lemma remove_one_raw: "b \<in># r \<Longrightarrow> int (count r x) - int (count (r - {#b#}) x) = of_bool (b = x)"
  by (auto dest!: multi_member_split)

text \<open>Every allowed operation is defined and keeps the counts.\<close>

lemma ptr_op_keeps_counts:
  assumes c: "counted (\<lambda>_. 0) st" and a: "op_allowed st q"
  shows "\<exists>st'. run_op q st = Some st' \<and> counted (\<lambda>_. 0) st'"
proof (cases q)
  case (New_Block b)
  then have n: "use_count st b = None" "b \<notin> set (freed st)" using a by (simp_all add: op_allowed_def)
  have "count_ok None (int (owners b st) + 0)" using c n by (metis counted_def)
  then have o: "owners b st = 0" by (simp add: count_ok_def)
  have "counted (\<lambda>x. 0 + (if b = x then 1 else 0)) (st\<lparr>use_count := (use_count st)(b := Some 1), freed := freed st\<rparr>)"
    using n o by (intro counted_use_count[OF c]) (simp_all add: count_ok_def)
  from counted_raws[OF this, of "add_mset b (raws st)"]
  have "counted (\<lambda>_. 0) (st\<lparr>use_count := (use_count st)(b := Some 1), freed := freed st, raws := add_mset b (raws st)\<rparr>)"
    by (rule counted_cong) auto
  then have "counted (\<lambda>_. 0) (new_block b st)" by (simp add: new_block_def)
  then show ?thesis by (simp add: New_Block run_op_def)
next
  case (Raw_Decref b)
  then have b: "b \<in># raws st" using a by (simp add: op_allowed_def)
  have "counted (\<lambda>x. of_bool (b = x)) (st\<lparr>raws := raws st - {#b#}\<rparr>)"
    by (rule counted_cong[OF counted_raws[OF c]]) (simp only: remove_one_raw[OF b] add_0)
  then show ?thesis
    using counted_decref[of _ "st\<lparr>raws := raws st - {#b#}\<rparr>" b] raw_live[OF c b] by (fastforce simp: Raw_Decref run_op_def)
next
  case (Default v)
  then show ?thesis using counted_set_ptr[OF c, of v None] a by (simp add: op_allowed_def run_op_def ptr_default_def)
next
  case (From_Raw v t add_ref)
  then have v: "ptrs st v = None" using a by (simp add: op_allowed_def)
  have s: "counted (\<lambda>b. 0 - refs_to t b) (set_ptr v t st)"
    by (rule counted_cong[OF counted_set_ptr[OF c]]) (simp add: v)
  show ?thesis
  proof (cases t)
    case None
    then show ?thesis using s From_Raw by (simp add: run_op_def ptr_from_raw_def)
  next
    case (Some b)
    show ?thesis
    proof (cases add_ref)
      case True
      then have "use_count (set_ptr v t st) b \<noteq> None" using a From_Raw Some by (simp add: op_allowed_def set_ptr_def)
      from counted_incref[OF s this] show ?thesis using Some True From_Raw by (auto simp: run_op_def ptr_from_raw_def)
    next
      case False
      then have b: "b \<in># raws st" using a From_Raw Some by (simp add: op_allowed_def)
      have "raws (set_ptr v t st) = raws st" by (simp add: set_ptr_def)
      then have "counted (\<lambda>_. 0) ((set_ptr v t st)\<lparr>raws := raws st - {#b#}\<rparr>)"
        using remove_one_raw[OF b] Some by (intro counted_cong[OF counted_raws[OF s]]) (auto simp: algebra_simps)
      then show ?thesis using Some False From_Raw \<open>raws (set_ptr v t st) = raws st\<close> by (simp add: run_op_def ptr_from_raw_def)
    qed
  qed
next
  case (Copy v w)
  then obtain t where t: "ptrs st v = None" "ptrs st w = Some t" using a by (auto simp: op_allowed_def)
  have s: "counted (\<lambda>b. 0 - refs_to t b) (set_ptr v t st)"
    by (rule counted_cong[OF counted_set_ptr[OF c]]) (simp add: t)
  have "use_count (set_ptr v t st) b \<noteq> None" if "t = Some b" for b
    using ptr_target_live[OF c, of w b] t that by (simp add: set_ptr_def)
  from counted_incref_if[OF s, of t, OF this] show ?thesis using t Copy by (auto simp: run_op_def ptr_copy_def)
next
  case (Move v w)
  then obtain t where t: "ptrs st v = None" "ptrs st w = Some t" using a by (auto simp: op_allowed_def)
  then have "v \<noteq> w" by auto
  have "counted (\<lambda>b. 0) (set_ptr w None (set_ptr v t st))"
    by (rule counted_cong[OF counted_set_ptr[OF counted_set_ptr[OF c]]])
      (use t \<open>v \<noteq> w\<close> in \<open>auto simp: set_ptr_def refs_to_def\<close>)
  then show ?thesis using t Move by (simp add: run_op_def ptr_move_def)
next
  case (Destroy v)
  then obtain t where t: "ptrs st v = Some t" using a by (auto simp: op_allowed_def)
  let ?st = "st\<lparr>ptrs := (ptrs st)(v := None)\<rparr>"
  have s: "counted (refs_to t) ?st"
    by (rule counted_cong[OF counted_drop_ptr[OF c]]) (auto simp: t refs_to_def)
  have "use_count ?st b \<noteq> None" if "t = Some b" for b
    using ptr_target_live[OF c, of v b] t that by simp
  from counted_decref_if[OF s, of t, OF this] show ?thesis using t Destroy by (auto simp: run_op_def ptr_destroy_def)
next
  case (Assign v w)
  then obtain old t where t: "ptrs st v = Some old" "ptrs st w = Some t" using a by (auto simp: op_allowed_def)
  have "use_count st b \<noteq> None \<and> (old = Some b \<longrightarrow> 1 < owners b st)" if "t = Some b" for b
    using ptr_target_live[OF c, of w b] t that a Assign owned_by_two[OF c, of v b w] not_unique[OF c, of v b]
    by (auto simp: op_allowed_def)
  then show ?thesis using counted_reassign[OF c t(1), of t] t Assign by (auto simp: run_op_def ptr_assign_def)
next
  case (Move_Assign v w)
  then obtain old t where t: "ptrs st v = Some old" "ptrs st w = Some t" using a by (auto simp: op_allowed_def)
  have "use_count st b \<noteq> None" if "old = Some b" for b
    using ptr_target_live[OF c, of v b] t that by simp
  then obtain st1 where st1: "decref_if old st = Some st1" "counted (\<lambda>x. 0 - refs_to old x) st1" "ptrs st1 = ptrs st"
    using counted_decref_if[OF c, of old] by blast
  have "counted (\<lambda>b. 0) (set_ptr w None (set_ptr v t st1))"
    by (rule counted_cong[OF counted_set_ptr[OF counted_set_ptr[OF st1(2)]]])
      (use t st1(3) in \<open>auto simp: set_ptr_def refs_to_def\<close>)
  then show ?thesis using t st1 Move_Assign by (simp add: run_op_def ptr_move_assign_def)
next
  case (Assign_Raw v t)
  then obtain old where o: "ptrs st v = Some old" using a by (auto simp: op_allowed_def)
  have "use_count st b \<noteq> None \<and> (old = Some b \<longrightarrow> 1 < owners b st)" if "t = Some b" for b
    using that a o Assign_Raw not_unique[OF c, of v b] by (auto simp: op_allowed_def)
  then show ?thesis using counted_reassign[OF c o, of t] o Assign_Raw by (auto simp: run_op_def ptr_assign_raw_def)
next
  case (Release v)
  then obtain t where t: "ptrs st v = Some t" using a by (auto simp: op_allowed_def)
  have s: "counted (refs_to t) (set_ptr v None st)"
    by (rule counted_cong[OF counted_set_ptr[OF c]]) (auto simp: t refs_to_def)
  have r: "raws (set_ptr v None st) = raws st" by (simp add: set_ptr_def)
  have "counted (\<lambda>_. 0) ((set_ptr v None st)\<lparr>raws := add_mset b (raws st)\<rparr>)" if "t = Some b" for b
    by (rule counted_cong[OF counted_raws[OF s]]) (auto simp: r that)
  moreover have "counted (\<lambda>_. 0) (set_ptr v None st)" if "t = None"
    using counted_cong[OF s, of "\<lambda>_. 0"] that by (simp add: fun_eq_iff)
  ultimately show ?thesis using t r Release by (cases t) (simp_all add: run_op_def ptr_release_def Let_def)
next
  case (Swap v w)
  then obtain t u where t: "ptrs st v = Some t" "ptrs st w = Some u" using a by (auto simp: op_allowed_def)
  have "counted (\<lambda>b. 0) (set_ptr w t (set_ptr v u st))"
    by (rule counted_cong[OF counted_set_ptr[OF counted_set_ptr[OF c]]])
      (use t in \<open>auto simp: set_ptr_def refs_to_def\<close>)
  then show ?thesis using t Swap by (simp add: run_op_def ptr_swap_def)
qed

lemma counted_empty: "counted (\<lambda>_. 0) empty_state"
  by (simp add: counted_def empty_state_def owners_def holders_def count_ok_def)

lemma reachable_counted: "reachable st \<Longrightarrow> counted (\<lambda>_. 0) st"
proof (induction rule: reachable.induct)
  case reachable_start
  show ?case by (rule counted_empty)
next
  case (reachable_step st q st')
  then show ?case using ptr_op_keeps_counts by fastforce
qed

text \<open>
  C3. In every state a program over smart pointers reaches, each block has a count, which is then the
  number of its owners, exactly as long as it has an owner; it is freed at most once, and never
  touched afterwards: every allowed operation is defined.
\<close>

theorem counts_are_owners:
  assumes "reachable st"
  shows "use_count st b = (if owners b st = 0 then None else Some (int (owners b st)))
    \<and> distinct (freed st)
    \<and> (b \<in> set (freed st) \<longrightarrow> owners b st = 0)
    \<and> (op_allowed st q \<longrightarrow> run_op q st \<noteq> None)"
proof -
  note c = reachable_counted[OF assms]
  have "count_ok (use_count st b) (int (owners b st))" using c by (simp add: counted_def)
  then have "use_count st b = (if owners b st = 0 then None else Some (int (owners b st)))"
    by (auto simp: count_ok_def split: option.splits)
  moreover have "distinct (freed st)" "b \<in> set (freed st) \<longrightarrow> use_count st b = None" using c by (simp_all add: counted_def)
  ultimately show ?thesis using ptr_op_keeps_counts[OF c, of q] by (auto split: if_splits)
qed

definition two_pointers :: ptr_state where
  "two_pointers = the (run_op (Copy 1 0) (the (run_op (From_Raw 0 (Some 7) False) (the (run_op (New_Block 7) empty_state)))))"

lemma reachable_two_pointers: "reachable two_pointers"
proof -
  have 1: "reachable (new_block 7 empty_state)"
    by (rule reachable_step[OF reachable_start, of "New_Block 7"]) (simp_all add: op_allowed_def run_op_def empty_state_def)
  define s2 where "s2 = the (ptr_from_raw 0 (Some 7) False (new_block 7 empty_state))"
  have s2: "ptr_from_raw 0 (Some 7) False (new_block 7 empty_state) = Some s2" by (simp add: s2_def ptr_from_raw_def Let_def)
  have 2: "reachable s2"
    by (rule reachable_step[OF 1, of "From_Raw 0 (Some 7) False"])
      (simp_all only: run_op_def ptr_op.case s2, simp add: op_allowed_def new_block_def empty_state_def)
  have "op_allowed s2 (Copy 1 0)" by (simp add: op_allowed_def s2_def ptr_from_raw_def set_ptr_def new_block_def empty_state_def)
  moreover have "run_op (Copy 1 0) s2 = Some (the (run_op (Copy 1 0) s2))"
    by (simp add: s2_def run_op_def ptr_copy_def ptr_from_raw_def set_ptr_def new_block_def empty_state_def incref_if_def memory_block_incref_def)
  ultimately show ?thesis using reachable_step[OF 2] by (simp add: two_pointers_def run_op_def s2)
qed

theorem counts_are_owners_witness:
  "use_count two_pointers 7 = (if owners 7 two_pointers = 0 then None else Some (int (owners 7 two_pointers)))
    \<and> distinct (freed two_pointers)
    \<and> run_op (Assign 1 1) two_pointers \<noteq> None"
proof -
  have "op_allowed two_pointers (Assign 1 1)"
    by (simp add: op_allowed_def two_pointers_def run_op_def ptr_copy_def ptr_from_raw_def set_ptr_def new_block_def empty_state_def
        incref_if_def memory_block_incref_def ptr_unique_def)
  then show ?thesis using counts_are_owners[OF reachable_two_pointers, of 7 "Assign 1 1"] by blast
qed

text \<open>
  C29. When the last owner of a block is a smart pointer, destroying the pointer frees the block in that
  step; while there is another owner it stays alive.
\<close>

theorem last_owner_frees:
  assumes r: "reachable st" and v: "ptrs st v = Some (Some b)"
  shows "\<exists>st'. ptr_destroy v st = Some st'
    \<and> (if owners b st = 1 then b \<in> set (freed st') else use_count st' b = Some (int (owners b st) - 1))"
proof -
  note c = reachable_counted[OF r]
  obtain n where n: "use_count st b = Some n" using ptr_target_live[OF c v] by blast
  then show ?thesis
    using v counted_live(2)[OF c n] by (auto simp: ptr_destroy_def decref_if_def memory_block_decref_def)
qed

theorem last_owner_frees_witness:
  "\<exists>st'. ptr_destroy 1 two_pointers = Some st'
    \<and> (if owners 7 two_pointers = 1 then 7 \<in> set (freed st') else use_count st' 7 = Some (int (owners 7 two_pointers) - 1))"
  by (rule last_owner_frees[OF reachable_two_pointers])
    (simp add: two_pointers_def run_op_def ptr_copy_def ptr_from_raw_def set_ptr_def new_block_def empty_state_def
      incref_if_def memory_block_incref_def)

text \<open>
  The assignment releases the old target before it retains the new one: assigning the only owner of a
  block to itself touches the freed block.
\<close>

lemma self_assignment_touches_freed_block:
  assumes "reachable st" "ptrs st v = Some (Some b)" "owners b st = 1"
  shows "ptr_assign v v st = None"
proof -
  note c = reachable_counted[OF assms(1)]
  obtain n where n: "use_count st b = Some n" using ptr_target_live[OF c assms(2)] by blast
  then have "n = 1" using counted_live(2)[OF c n] assms(3) by simp
  then show ?thesis
    using assms(2) n by (simp add: ptr_assign_def decref_if_def memory_block_decref_def incref_if_def memory_block_incref_def set_ptr_def)
qed

end
