(* ===== verification/Pod_Blocks.thy ===== *)
theory Pod_Blocks
  imports Prelude
begin

text \<open>
  The growing memory blocks for plain data: \<^verbatim>\<open>src/dynd/memblock/pod_memory_block.cpp\<close>,
  \<^verbatim>\<open>zeroinit_memory_block.cpp\<close> and their common interface \<^verbatim>\<open>memory_block_pod_allocator_api\<close>.
  The state is the block together with the heap of the process: its live \<^verbatim>\<open>malloc\<close> blocks, address and
  size, and its bytes. Addresses are integers, without the wrap-around at the end of the address
  space. \<^verbatim>\<open>malloc\<close> itself is a parameter that picks an address, or fails, and \<open>malloc_ok\<close> states what C
  promises of it on the platforms of the library. An operation gives its result or its exception, and
  the state at the end in either case; freeing an address that is not live is undefined behaviour,
  the value \<open>None\<close>.
\<close>

section \<open>Heap and block\<close>

type_synonym malloc_fn = "(int \<times> int) list \<Rightarrow> int \<Rightarrow> int option"

definition malloc_ok :: "malloc_fn \<Rightarrow> bool" where
  "malloc_ok mal \<longleftrightarrow>
     (\<forall>blocks n p. mal blocks n = Some p \<longrightarrow>
        0 < p \<and> 16 dvd p \<and> 0 \<le> n \<and> (\<forall>(q, s) \<in> set blocks. p + max 1 n \<le> q \<or> q + max 1 s \<le> p))"

record pod_memory_block =
  live :: "(int \<times> int) list"
  mem :: "int \<Rightarrow> u8"
  total_allocated_capacity :: int
  memory_handles :: "int list"
  memory_begin :: int
  memory_current :: int
  memory_end :: int

datatype alloc_error = bad_alloc | not_most_recent

definition heap_free :: "int \<Rightarrow> pod_memory_block \<Rightarrow> pod_memory_block option" where
  "heap_free p st =
     (if p = 0 then Some st
      else if p \<in> fst ` set (live st) then Some (st\<lparr>live := filter (\<lambda>(q, _). q \<noteq> p) (live st)\<rparr>)
      else None)"

fun free_all :: "int list \<Rightarrow> pod_memory_block \<Rightarrow> pod_memory_block option" where
  "free_all [] st = Some st"
| "free_all (p # ps) st = (case heap_free p st of None \<Rightarrow> None | Some st \<Rightarrow> free_all ps st)"

definition memset0 :: "int \<Rightarrow> int \<Rightarrow> pod_memory_block \<Rightarrow> pod_memory_block" where
  "memset0 p n st = st\<lparr>mem := (\<lambda>a. if p \<le> a \<and> a < p + n then 0 else mem st a)\<rparr>"

definition memcpy :: "int \<Rightarrow> int \<Rightarrow> int \<Rightarrow> pod_memory_block \<Rightarrow> pod_memory_block" where
  "memcpy dst src n st = st\<lparr>mem := (\<lambda>a. if dst \<le> a \<and> a < dst + n then mem st (src + (a - dst)) else mem st a)\<rparr>"

section \<open>The plain block\<close>

type_synonym 'a alloc_result = "(alloc_error + 'a) \<times> pod_memory_block"

definition append_memory :: "malloc_fn \<Rightarrow> int \<Rightarrow> pod_memory_block \<Rightarrow> unit alloc_result" where
  "append_memory mal capacity_bytes st =
     (case mal (live st) capacity_bytes of
        None \<Rightarrow> (Inl bad_alloc, st\<lparr>memory_begin := 0\<rparr>)
      | Some p \<Rightarrow>
          (Inr (), st\<lparr>live := (p, capacity_bytes) # live st, memory_handles := memory_handles st @ [p],
                      memory_begin := p, memory_current := p, memory_end := p + capacity_bytes,
                      total_allocated_capacity := total_allocated_capacity st + capacity_bytes\<rparr>))"

definition make_pod_memory_block ::
  "malloc_fn \<Rightarrow> int \<Rightarrow> (int \<times> int) list \<Rightarrow> (int \<Rightarrow> u8) \<Rightarrow> unit alloc_result" where
  "make_pod_memory_block mal initial_capacity_bytes blocks bytes =
     append_memory mal initial_capacity_bytes
       \<lparr> live = blocks, mem = bytes, total_allocated_capacity = 0, memory_handles = [],
         memory_begin = 0, memory_current = 0, memory_end = 0 \<rparr>"

definition free_pod_memory_block :: "pod_memory_block \<Rightarrow> pod_memory_block option" where
  "free_pod_memory_block st = free_all (memory_handles st) st"

definition align_up :: "int \<Rightarrow> int \<Rightarrow> int" where
  "align_up a alignment = (a + alignment - 1) AND NOT (alignment - 1)"

definition pod_allocate :: "malloc_fn \<Rightarrow> int \<Rightarrow> int \<Rightarrow> pod_memory_block \<Rightarrow> (int \<times> int) alloc_result" where
  "pod_allocate mal size_bytes alignment st =
     (let out_begin = align_up (memory_current st) alignment;
          out_end = out_begin + size_bytes
      in if out_end > memory_end st
         then (let st = st\<lparr>total_allocated_capacity := total_allocated_capacity st - (memory_end st - memory_current st)\<rparr>
               in case append_memory mal (max (total_allocated_capacity st) size_bytes) st of
                    (Inl e, st) \<Rightarrow> (Inl e, st)
                  | (Inr _, st) \<Rightarrow>
                      (let out_begin = memory_begin st; out_end = out_begin + size_bytes
                       in (Inr (out_begin, out_end), st\<lparr>memory_current := out_end\<rparr>)))
         else (Inr (out_begin, out_end), st\<lparr>memory_current := out_end\<rparr>))"

definition pod_resize :: "malloc_fn \<Rightarrow> int \<Rightarrow> int \<times> int \<Rightarrow> pod_memory_block \<Rightarrow> (int \<times> int) alloc_result" where
  "pod_resize mal size_bytes r st =
     (case r of
        (inout_begin, inout_end) \<Rightarrow>
          if inout_end \<noteq> memory_current st then (Inl not_most_recent, st)
          else if inout_begin + size_bytes \<le> memory_end st
          then (Inr (inout_begin, inout_begin + size_bytes), st\<lparr>memory_current := inout_begin + size_bytes\<rparr>)
          else (case append_memory mal (max (total_allocated_capacity st) size_bytes) st of
                  (Inl e, st) \<Rightarrow> (Inl e, st)
                | (Inr _, st) \<Rightarrow>
                    (let st = memcpy (memory_begin st) inout_begin (inout_end - inout_begin) st;
                         new_end = memory_begin st + size_bytes
                     in (Inr (memory_begin st, new_end),
                         st\<lparr>memory_current := new_end,
                            total_allocated_capacity := total_allocated_capacity st - (inout_end - inout_begin)\<rparr>))))"

definition pod_finalize :: "pod_memory_block \<Rightarrow> pod_memory_block" where
  "pod_finalize st =
     (let st = (if memory_current st < memory_end st
                then st\<lparr>total_allocated_capacity := total_allocated_capacity st - (memory_end st - memory_current st)\<rparr>
                else st)
      in st\<lparr>memory_begin := 0, memory_current := 0, memory_end := 0\<rparr>)"

text \<open>Only the last chunk is kept.\<close>

definition pod_reset :: "pod_memory_block \<Rightarrow> pod_memory_block option" where
  "pod_reset st =
     (case (if length (memory_handles st) > 1
            then map_option (\<lambda>st. st\<lparr>memory_handles := [last (memory_handles st)]\<rparr>)
                   (free_all (butlast (memory_handles st)) st)
            else Some st) of
        None \<Rightarrow> None
      | Some st \<Rightarrow> Some (st\<lparr>memory_current := memory_begin st,
                             total_allocated_capacity := memory_end st - memory_begin st\<rparr>))"

section \<open>The zero-initialising block\<close>

text \<open>
  \<^verbatim>\<open>zeroinit_memory_block\<close> repeats the struct, the growing, the construction, the finalisation and the reset of the plain
  block; it differs in \<^verbatim>\<open>allocate\<close> and \<^verbatim>\<open>resize\<close>, which fill new memory with zeros.
\<close>

definition make_zeroinit_memory_block ::
  "malloc_fn \<Rightarrow> int \<Rightarrow> (int \<times> int) list \<Rightarrow> (int \<Rightarrow> u8) \<Rightarrow> unit alloc_result" where
  "make_zeroinit_memory_block mal initial_capacity_bytes blocks bytes =
     append_memory mal initial_capacity_bytes
       \<lparr> live = blocks, mem = bytes, total_allocated_capacity = 0, memory_handles = [],
         memory_begin = 0, memory_current = 0, memory_end = 0 \<rparr>"

definition zeroinit_allocate :: "malloc_fn \<Rightarrow> int \<Rightarrow> int \<Rightarrow> pod_memory_block \<Rightarrow> (int \<times> int) alloc_result" where
  "zeroinit_allocate mal size_bytes alignment st =
     (let out_begin = align_up (memory_current st) alignment;
          out_end = out_begin + size_bytes
      in if out_end > memory_end st
         then (let st = st\<lparr>total_allocated_capacity := total_allocated_capacity st - (memory_end st - memory_current st)\<rparr>
               in case append_memory mal (max (total_allocated_capacity st) size_bytes) st of
                    (Inl e, st) \<Rightarrow> (Inl e, st)
                  | (Inr _, st) \<Rightarrow>
                      (let out_begin = memory_begin st; out_end = out_begin + size_bytes
                       in (Inr (out_begin, out_end), memset0 out_begin (out_end - out_begin) (st\<lparr>memory_current := out_end\<rparr>))))
         else (Inr (out_begin, out_end), memset0 out_begin (out_end - out_begin) (st\<lparr>memory_current := out_end\<rparr>)))"

definition zeroinit_resize :: "malloc_fn \<Rightarrow> int \<Rightarrow> int \<times> int \<Rightarrow> pod_memory_block \<Rightarrow> (int \<times> int) alloc_result" where
  "zeroinit_resize mal size_bytes r st =
     (case r of
        (inout_begin, inout_end) \<Rightarrow>
          if inout_end \<noteq> memory_current st then (Inl not_most_recent, st)
          else if inout_begin + size_bytes \<le> memory_end st
          then (let new_end = inout_begin + size_bytes; st = st\<lparr>memory_current := new_end\<rparr>
                in (Inr (inout_begin, new_end),
                    if new_end > inout_end then memset0 inout_end (new_end - inout_end) st else st))
          else (let old_size_bytes = inout_end - inout_begin
                in case append_memory mal (max (total_allocated_capacity st) size_bytes) st of
                     (Inl e, st) \<Rightarrow> (Inl e, st)
                   | (Inr _, st) \<Rightarrow>
                       (let st = memcpy (memory_begin st) inout_begin old_size_bytes st;
                            new_end = memory_begin st + size_bytes;
                            st = memset0 (memory_begin st + old_size_bytes) (size_bytes - old_size_bytes)
                                   (st\<lparr>memory_current := new_end\<rparr>)
                        in (Inr (memory_begin st, new_end),
                            st\<lparr>total_allocated_capacity := total_allocated_capacity st - old_size_bytes\<rparr>))))"

definition zeroinit_finalize :: "pod_memory_block \<Rightarrow> pod_memory_block" where
  "zeroinit_finalize st = pod_finalize st"

definition zeroinit_reset :: "pod_memory_block \<Rightarrow> pod_memory_block option" where
  "zeroinit_reset st = pod_reset st"

section \<open>The interface\<close>

record memory_block_pod_allocator_api =
  api_allocate :: "int \<Rightarrow> int \<Rightarrow> pod_memory_block \<Rightarrow> (int \<times> int) alloc_result"
  api_resize :: "int \<Rightarrow> int \<times> int \<Rightarrow> pod_memory_block \<Rightarrow> (int \<times> int) alloc_result"
  api_finalize :: "pod_memory_block \<Rightarrow> pod_memory_block"
  api_reset :: "pod_memory_block \<Rightarrow> pod_memory_block option"

datatype memory_block_type = array_memory_block_type | external_memory_block_type | fixed_size_pod_memory_block_type
  | pod_memory_block_type | zeroinit_memory_block_type | objectarray_memory_block_type
  | executable_memory_block_type | memmap_memory_block_type

definition memory_block_type_name :: "memory_block_type \<Rightarrow> string" where
  "memory_block_type_name mbt =
     (case mbt of
        external_memory_block_type \<Rightarrow> ''external''
      | fixed_size_pod_memory_block_type \<Rightarrow> ''fixed_size_pod''
      | pod_memory_block_type \<Rightarrow> ''pod''
      | zeroinit_memory_block_type \<Rightarrow> ''zeroinit''
      | objectarray_memory_block_type \<Rightarrow> ''objectarray''
      | executable_memory_block_type \<Rightarrow> ''executable''
      | array_memory_block_type \<Rightarrow> ''array''
      | memmap_memory_block_type \<Rightarrow> ''memmap'')"

definition pod_api :: "malloc_fn \<Rightarrow> memory_block_pod_allocator_api" where
  "pod_api mal = \<lparr> api_allocate = pod_allocate mal, api_resize = pod_resize mal,
                   api_finalize = pod_finalize, api_reset = pod_reset \<rparr>"

definition zeroinit_api :: "malloc_fn \<Rightarrow> memory_block_pod_allocator_api" where
  "zeroinit_api mal = \<lparr> api_allocate = zeroinit_allocate mal, api_resize = zeroinit_resize mal,
                        api_finalize = zeroinit_finalize, api_reset = zeroinit_reset \<rparr>"

definition get_memory_block_pod_allocator_api ::
  "malloc_fn \<Rightarrow> memory_block_type \<Rightarrow> string + memory_block_pod_allocator_api" where
  "get_memory_block_pod_allocator_api mal mbt =
     (case mbt of
        external_memory_block_type \<Rightarrow> Inl ''Cannot get a POD allocator API from an external_memory_block''
      | fixed_size_pod_memory_block_type \<Rightarrow> Inl ''Cannot get a POD allocator API from an fixed_size_pod_memory_block''
      | pod_memory_block_type \<Rightarrow> Inr (pod_api mal)
      | zeroinit_memory_block_type \<Rightarrow> Inr (zeroinit_api mal)
      | objectarray_memory_block_type \<Rightarrow> Inl ''Cannot get a POD allocator API from an objectarray_memory_block''
      | executable_memory_block_type \<Rightarrow> Inl ''Cannot get a POD allocator API from an executable_memory_block''
      | memmap_memory_block_type \<Rightarrow> Inl ''Cannot get a POD allocator API from a memmap_memory_block''
      | array_memory_block_type \<Rightarrow> Inl ''unknown memory block type'')"

section \<open>Buffers and free space\<close>

text \<open>The bytes of a range, the bytes of the chunks of a block and those it has still to give.\<close>

definition rbytes :: "int \<times> int \<Rightarrow> int set" where
  "rbytes r = {fst r..<snd r}"

definition owned :: "pod_memory_block \<Rightarrow> int set" where
  "owned st = {a. \<exists>(p, n)\<in>set (live st). p \<in> set (memory_handles st) \<and> p \<le> a \<and> a < p + n}"

definition zone :: "pod_memory_block \<Rightarrow> int set" where
  "zone st = {memory_current st..<memory_end st}"

definition chunks_ok :: "pod_memory_block \<Rightarrow> bool" where
  "chunks_ok st \<longleftrightarrow> distinct (map fst (live st)) \<and> distinct (memory_handles st) \<and> memory_handles st \<noteq> []
     \<and> set (memory_handles st) \<subseteq> fst ` set (live st) \<and> 0 \<notin> set (memory_handles st)
     \<and> memory_current st \<le> memory_end st
     \<and> (memory_begin st \<noteq> 0 \<longrightarrow> memory_begin st = last (memory_handles st)
          \<and> (memory_begin st, memory_end st - memory_begin st) \<in> set (live st) \<and> memory_begin st \<le> memory_end st)"

definition space_ok :: "int set \<Rightarrow> int set \<Rightarrow> (int \<times> int) list \<Rightarrow> bool" where
  "space_ok own z rs \<longleftrightarrow> z \<subseteq> own
     \<and> (\<forall>i<length rs. fst (rs ! i) \<le> snd (rs ! i) \<and> rbytes (rs ! i) \<subseteq> own \<and> rbytes (rs ! i) \<inter> z = {}
          \<and> (\<forall>j<length rs. i \<noteq> j \<longrightarrow> rbytes (rs ! i) \<inter> rbytes (rs ! j) = {}))"

definition good :: "pod_memory_block \<Rightarrow> (int \<times> int) list \<Rightarrow> bool" where
  "good st rs \<longleftrightarrow> chunks_ok st \<and> space_ok (owned st) (zone st) rs"

lemma spaceI:
  assumes "z \<subseteq> own"
    "\<And>i. i < length rs \<Longrightarrow> fst (rs ! i) \<le> snd (rs ! i)"
    "\<And>i. i < length rs \<Longrightarrow> rbytes (rs ! i) \<subseteq> own"
    "\<And>i. i < length rs \<Longrightarrow> rbytes (rs ! i) \<inter> z = {}"
    "\<And>i j. i < length rs \<Longrightarrow> j < length rs \<Longrightarrow> i \<noteq> j \<Longrightarrow> rbytes (rs ! i) \<inter> rbytes (rs ! j) = {}"
  shows "space_ok own z rs"
  using assms unfolding space_ok_def by (intro conjI allI impI) assumption+

lemma spaceD:
  assumes "space_ok own z rs"
  shows "z \<subseteq> own"
    "i < length rs \<Longrightarrow> fst (rs ! i) \<le> snd (rs ! i)"
    "i < length rs \<Longrightarrow> rbytes (rs ! i) \<subseteq> own"
    "i < length rs \<Longrightarrow> rbytes (rs ! i) \<inter> z = {}"
    "i < length rs \<Longrightarrow> j < length rs \<Longrightarrow> i \<noteq> j \<Longrightarrow> rbytes (rs ! i) \<inter> rbytes (rs ! j) = {}"
  using assms unfolding space_ok_def by blast+

lemma space_replace:
  assumes s: "space_ok own z rs" and i: "i < length rs" and b: "b \<le> e" and n: "{b..<e} \<subseteq> z \<union> rbytes (rs ! i)"
    and z: "z' \<subseteq> z \<union> rbytes (rs ! i)" "{b..<e} \<inter> z' = {}"
  shows "space_ok own z' (rs[i := (b, e)])"
proof (rule spaceI)
  note f = spaceD[OF s]
  have new: "rbytes (rs[i := (b, e)] ! j) = (if j = i then {b..<e} else rbytes (rs ! j))" if "j < length rs" for j
    using that by (simp add: rbytes_def)
  have zi: "z \<union> rbytes (rs ! i) \<subseteq> own" using f(1) f(3)[OF i] by blast
  then show "z' \<subseteq> own" using z(1) by blast
  fix j assume "j < length (rs[i := (b, e)])"
  then have j: "j < length rs" by simp
  have d: "rbytes (rs ! j) \<inter> (z \<union> rbytes (rs ! i)) = {}" if "j \<noteq> i"
    using f(4)[OF j] f(5)[OF j i that] by blast
  show "fst (rs[i := (b, e)] ! j) \<le> snd (rs[i := (b, e)] ! j)" using f(2)[OF j] b j by (cases "j = i") simp_all
  show "rbytes (rs[i := (b, e)] ! j) \<subseteq> own" using new[OF j] f(3)[OF j] n zi by (cases "j = i") auto
  show "rbytes (rs[i := (b, e)] ! j) \<inter> z' = {}"
  proof (cases "j = i")
    case True
    then show ?thesis using new[OF j] z(2) by simp
  next
    case False
    then have "rbytes (rs ! j) \<inter> z' = {}" using d z(1) by blast
    then show ?thesis using new[OF j] False by simp
  qed
  fix k assume "k < length (rs[i := (b, e)])" and jk: "j \<noteq> k"
  then have k: "k < length rs" by simp
  have dk: "rbytes (rs ! k) \<inter> (z \<union> rbytes (rs ! i)) = {}" if "k \<noteq> i"
    using f(4)[OF k] f(5)[OF k i that] by blast
  show "rbytes (rs[i := (b, e)] ! j) \<inter> rbytes (rs[i := (b, e)] ! k) = {}"
  proof (cases "j = i \<or> k = i")
    case True
    have "rbytes (rs ! k) \<inter> {b..<e} = {}" if "k \<noteq> i" using dk[OF that] n by blast
    moreover have "rbytes (rs ! j) \<inter> {b..<e} = {}" if "j \<noteq> i" using d[OF that] n by blast
    ultimately show ?thesis using new[OF j] new[OF k] True jk by (auto simp: Int_commute)
  next
    case False
    then show ?thesis using new[OF j] new[OF k] f(5)[OF j k jk] by simp
  qed
qed

lemma space_take:
  assumes s: "space_ok own z rs" and b: "b \<le> e" "{b..<e} \<subseteq> z" "z' \<subseteq> z" "{b..<e} \<inter> z' = {}"
  shows "space_ok own z' (rs @ [(b, e)])"
proof -
  note f = spaceD[OF s]
  have new: "rbytes ((rs @ [(b, b)]) ! j) = (if j < length rs then rbytes (rs ! j) else {})" if "j < Suc (length rs)" for j
    using that by (auto simp: nth_append rbytes_def less_Suc_eq)
  have "space_ok own z (rs @ [(b, b)])"
  proof (rule spaceI)
    show "z \<subseteq> own" by (rule f(1))
    fix i assume "i < length (rs @ [(b, b)])"
    then have i: "i < Suc (length rs)" by simp
    show "fst ((rs @ [(b, b)]) ! i) \<le> snd ((rs @ [(b, b)]) ! i)"
      using f(2)[of i] i by (cases "i < length rs") (simp_all add: nth_append less_Suc_eq)
    show "rbytes ((rs @ [(b, b)]) ! i) \<subseteq> own" "rbytes ((rs @ [(b, b)]) ! i) \<inter> z = {}"
      using new[OF i] f(3,4)[of i] by (cases "i < length rs"; simp)+
    fix j assume "j < length (rs @ [(b, b)])" and ij: "i \<noteq> j"
    then have j: "j < Suc (length rs)" by simp
    show "rbytes ((rs @ [(b, b)]) ! i) \<inter> rbytes ((rs @ [(b, b)]) ! j) = {}"
      using new[OF i] new[OF j] f(5)[of i j] ij by (cases "i < length rs"; cases "j < length rs") simp_all
  qed
  then have "space_ok own z' ((rs @ [(b, b)])[length rs := (b, e)])"
    using b by (intro space_replace[where z = z]) auto
  then show ?thesis by simp
qed

lemma space_grow:
  assumes s: "space_ok own z rs" and o: "own \<subseteq> own'" "z' \<subseteq> own'" "z' \<inter> own = {}"
  shows "space_ok own' z' rs"
proof (rule spaceI)
  note f = spaceD[OF s]
  show "z' \<subseteq> own'" by (rule o(2))
  fix i assume i: "i < length rs"
  show "fst (rs ! i) \<le> snd (rs ! i)" "rbytes (rs ! i) \<subseteq> own'" "rbytes (rs ! i) \<inter> z' = {}"
    using f(2,3)[OF i] o by blast+
  show "rbytes (rs ! i) \<inter> rbytes (rs ! j) = {}" if "j < length rs" "i \<noteq> j" for j
    by (rule f(5)[OF i that])
qed

lemma space_none: "z \<subseteq> own \<Longrightarrow> space_ok own z []"
  by (simp add: space_ok_def)

lemma space_less: "space_ok own z rs \<Longrightarrow> z' \<subseteq> z \<Longrightarrow> space_ok own z' rs"
  unfolding space_ok_def by blast

section \<open>Growing\<close>

lemma owned_less: "live st' = live st \<Longrightarrow> memory_handles st' = memory_handles st \<Longrightarrow> owned st' = owned st"
  by (simp add: owned_def)

lemma append_memory_good:
  assumes g: "good st rs" and mal: "malloc_ok mal" and p: "mal (live st) n = Some p"
    and k: "0 \<le> k" "k \<le> n"
    and st': "live st' = (p, n) # live st" "memory_handles st' = memory_handles st @ [p]"
      "memory_begin st' = p" "memory_current st' = p + k" "memory_end st' = p + n"
  shows "chunks_ok st' \<and> {p..<p + n} \<inter> owned st = {} \<and> p > 0 \<and> 16 dvd p"
    and "space_ok (owned st') (zone st') (rs @ [(p, p + k)])"
    and "i < length rs \<Longrightarrow> space_ok (owned st') (zone st') (rs[i := (p, p + k)])"
proof -
  have c: "chunks_ok st" and sp: "space_ok (owned st) (zone st) rs" using g by (simp_all add: good_def)
  have pp: "0 < p" "16 dvd p" "\<And>q s. (q, s) \<in> set (live st) \<Longrightarrow> p + max 1 n \<le> q \<or> q + max 1 s \<le> p"
    using mal p unfolding malloc_ok_def by fastforce+
  have fresh: "p \<notin> fst ` set (live st)" using pp(3) by fastforce
  have disj: "{p..<p + n} \<inter> owned st = {}" using pp(3) by (fastforce simp: owned_def)
  have own: "owned st' = owned st \<union> {p..<p + n}"
  proof -
    have "(p, b) \<notin> set (live st)" for b using fresh by force
    then show ?thesis unfolding owned_def st' by fastforce
  qed
  show "chunks_ok st' \<and> {p..<p + n} \<inter> owned st = {} \<and> p > 0 \<and> 16 dvd p"
    using c fresh pp(1,2) disj k by (auto simp: chunks_ok_def st')
  have z: "zone st' = {p + k..<p + n}" by (simp add: zone_def st')
  have all: "space_ok (owned st') {p..<p + n} rs"
    using space_grow[OF sp _ _ disj] by (simp add: own)
  show "space_ok (owned st') (zone st') (rs @ [(p, p + k)])"
    using k by (intro space_take[OF all]) (auto simp: z)
  show "space_ok (owned st') (zone st') (rs[i := (p, p + k)])" if i: "i < length rs"
    using k i by (intro space_replace[OF all]) (auto simp: z)
qed

section \<open>The contract of the interface\<close>

lemma and_not_mask: "(x :: int) AND NOT (mask k) = x div 2 ^ k * 2 ^ k"
proof -
  have "x AND NOT (mask k) = push_bit k (drop_bit k x)"
    by (rule bit_eqI) (auto simp: bit_simps)
  then show ?thesis by (simp add: push_bit_eq_mult drop_bit_eq_div)
qed

definition alignments :: "int set" where
  "alignments = {1, 2, 4, 8, 16}"

lemma align_up_ok:
  assumes "al \<in> alignments"
  shows "a \<le> align_up a al" "al dvd align_up a al" "al dvd 16"
proof -
  have "al = 2 ^ 0 \<or> al = 2 ^ 1 \<or> al = 2 ^ 2 \<or> al = 2 ^ 3 \<or> al = 2 ^ 4" using assms by (auto simp: alignments_def)
  then obtain k where k: "al = 2 ^ k" by metis
  have e: "align_up a al = (a + al - 1) div al * al"
    unfolding align_up_def k(1) mask_eq_exp_minus_1[symmetric] by (rule and_not_mask)
  have pos: "0 < al" by (simp add: k)
  have "(a + al - 1) div al * al = a + al - 1 - (a + al - 1) mod al" by (simp add: minus_mod_eq_div_mult)
  then show "a \<le> align_up a al" using pos_mod_bound[OF pos, of "a + al - 1"] unfolding e by linarith
  show "al dvd align_up a al" unfolding e by simp
  show "al dvd 16" using assms by (auto simp: alignments_def)
qed

text \<open>
  What a client of the interface relies on: buffers never overlap, and keep their bytes; the heap blocks
  of others stay as they are.
\<close>

definition others :: "pod_memory_block \<Rightarrow> (int \<times> int) list" where
  "others st = filter (\<lambda>(q, _). q \<notin> set (memory_handles st)) (live st)"

locale pod_allocator =
  fixes api :: "malloc_fn \<Rightarrow> memory_block_pod_allocator_api" and zero :: bool
  assumes allocate_fails: "good st rs \<Longrightarrow> malloc_ok mal \<Longrightarrow> api_allocate (api mal) n al st = (Inl e, st') \<Longrightarrow>
      good st' rs \<and> mem st' = mem st \<and> others st' = others st"
    and allocate_gives: "good st rs \<Longrightarrow> malloc_ok mal \<Longrightarrow> 0 \<le> n \<Longrightarrow> al \<in> alignments \<Longrightarrow>
      api_allocate (api mal) n al st = (Inr r, st') \<Longrightarrow>
      good st' (rs @ [r]) \<and> others st' = others st \<and> snd r = fst r + n \<and> al dvd fst r
      \<and> (\<forall>a. a \<notin> rbytes r \<longrightarrow> mem st' a = mem st a) \<and> (zero \<longrightarrow> (\<forall>a\<in>rbytes r. mem st' a = 0))"
    and resize_fails: "good st rs \<Longrightarrow> malloc_ok mal \<Longrightarrow> api_resize (api mal) n r st = (Inl e, st') \<Longrightarrow>
      good st' rs \<and> mem st' = mem st \<and> others st' = others st"
    and resize_gives: "good st rs \<Longrightarrow> malloc_ok mal \<Longrightarrow> i < length rs \<Longrightarrow> 0 \<le> n \<Longrightarrow>
      api_resize (api mal) n (rs ! i) st = (Inr r, st') \<Longrightarrow>
      good st' (rs[i := r]) \<and> others st' = others st \<and> snd r = fst r + n
      \<and> (\<forall>a. a \<notin> rbytes r \<longrightarrow> mem st' a = mem st a)
      \<and> (\<forall>k. 0 \<le> k \<and> k < n \<and> k < snd (rs ! i) - fst (rs ! i) \<longrightarrow> mem st' (fst r + k) = mem st (fst (rs ! i) + k))
      \<and> (zero \<longrightarrow> (\<forall>k. snd (rs ! i) - fst (rs ! i) \<le> k \<and> k < n \<longrightarrow> mem st' (fst r + k) = 0))"
    and finalize_keeps: "good st rs \<Longrightarrow>
      good (api_finalize (api mal) st) rs \<and> mem (api_finalize (api mal) st) = mem st \<and> others (api_finalize (api mal) st) = others st"
    and reset_drops: "good st rs \<Longrightarrow> memory_begin st \<noteq> 0 \<or> memory_end st = 0 \<Longrightarrow>
      \<exists>st'. api_reset (api mal) st = Some st' \<and> good st' [] \<and> others st' = others st"

section \<open>The plain block keeps the contract\<close>

lemma good_insensitive [simp]:
  "good (st\<lparr>total_allocated_capacity := c\<rparr>) rs = good st rs" "good (st\<lparr>mem := m\<rparr>) rs = good st rs"
  by (simp_all add: good_def chunks_ok_def owned_def zone_def)

lemma good_failed: "good st rs \<Longrightarrow> good (st\<lparr>memory_begin := 0\<rparr>) rs"
  by (simp add: good_def chunks_ok_def owned_def zone_def)

lemma append_memory_cases:
  obtains "mal (live st) n = None" "append_memory mal n st = (Inl bad_alloc, st\<lparr>memory_begin := 0\<rparr>)"
  | p where "mal (live st) n = Some p"
    "append_memory mal n st = (Inr (), st\<lparr>live := (p, n) # live st, memory_handles := memory_handles st @ [p],
                      memory_begin := p, memory_current := p, memory_end := p + n,
                      total_allocated_capacity := total_allocated_capacity st + n\<rparr>)"
  by (cases "mal (live st) n") (simp_all add: append_memory_def)

lemma good_take:
  assumes g: "good st rs" and b: "memory_current st \<le> b" "b \<le> e" "e \<le> memory_end st"
  shows "good (st\<lparr>memory_current := e\<rparr>) (rs @ [(b, e)])"
proof -
  have "space_ok (owned st) {e..<memory_end st} (rs @ [(b, e)])"
    using g b unfolding good_def zone_def by (intro space_take[where z = "{memory_current st..<memory_end st}"]) auto
  then show ?thesis using g b by (simp add: good_def chunks_ok_def owned_def zone_def)
qed

lemma good_extend:
  assumes g: "good st rs" and i: "i < length rs" "rs ! i = (b, memory_current st)" and e: "b \<le> e" "e \<le> memory_end st"
  shows "good (st\<lparr>memory_current := e\<rparr>) (rs[i := (b, e)])"
proof -
  have "b \<le> memory_current st" using g i spaceD(2)[of "owned st" "zone st" rs i] by (simp add: good_def)
  then have "space_ok (owned st) {e..<memory_end st} (rs[i := (b, e)])"
    using g i e unfolding good_def zone_def
    by (intro space_replace[where z = "{memory_current st..<memory_end st}"]) (auto simp: rbytes_def)
  then show ?thesis using g e by (simp add: good_def chunks_ok_def owned_def zone_def)
qed

lemma good_append:
  assumes g: "good st rs" and mal: "malloc_ok mal" and p: "mal (live st) n = Some p" and k: "0 \<le> k" "k \<le> n"
    and st': "live st' = (p, n) # live st" "memory_handles st' = memory_handles st @ [p]"
      "memory_begin st' = p" "memory_current st' = p + k" "memory_end st' = p + n"
  shows "good st' (rs @ [(p, p + k)])" "i < length rs \<Longrightarrow> good st' (rs[i := (p, p + k)])"
    "16 dvd p" "{p..<p + n} \<inter> owned st = {}"
  using append_memory_good[OF g mal p k st'] by (simp_all add: good_def)

lemma pod_allocate_cases:
  assumes g: "good st rs" and mal: "malloc_ok mal"
  obtains (fail) st' where "pod_allocate mal n al st = (Inl bad_alloc, st')" "zeroinit_allocate mal n al st = (Inl bad_alloc, st')"
      "good st' rs" "mem st' = mem st"
  | (give) b st' where "pod_allocate mal n al st = (Inr (b, b + n), st')"
      "zeroinit_allocate mal n al st = (Inr (b, b + n), memset0 b n st')" "mem st' = mem st"
      "0 \<le> n \<Longrightarrow> al \<in> alignments \<Longrightarrow> good st' (rs @ [(b, b + n)]) \<and> al dvd b"
proof (cases "align_up (memory_current st) al + n > memory_end st")
  case False
  show ?thesis
  proof (rule give)
    show "pod_allocate mal n al st = (Inr (align_up (memory_current st) al, align_up (memory_current st) al + n),
        st\<lparr>memory_current := align_up (memory_current st) al + n\<rparr>)"
      using False by (simp add: pod_allocate_def Let_def)
    show "zeroinit_allocate mal n al st = (Inr (align_up (memory_current st) al, align_up (memory_current st) al + n),
        memset0 (align_up (memory_current st) al) n (st\<lparr>memory_current := align_up (memory_current st) al + n\<rparr>))"
      using False by (simp add: zeroinit_allocate_def Let_def)
    show "mem (st\<lparr>memory_current := align_up (memory_current st) al + n\<rparr>) = mem st" by simp
    assume "0 \<le> n" "al \<in> alignments"
    then show "good (st\<lparr>memory_current := align_up (memory_current st) al + n\<rparr>)
        (rs @ [(align_up (memory_current st) al, align_up (memory_current st) al + n)]) \<and> al dvd align_up (memory_current st) al"
      using good_take[OF g] align_up_ok(1,2)[of al "memory_current st"] False by simp
  qed
next
  case True
  let ?st = "st\<lparr>total_allocated_capacity := total_allocated_capacity st - (memory_end st - memory_current st)\<rparr>"
  let ?cap = "max (total_allocated_capacity ?st) n"
  have g': "good ?st rs" using g by simp
  show ?thesis
  proof (cases rule: append_memory_cases[of mal ?st ?cap])
    case 1
    then show ?thesis using True good_failed[OF g']
      by (intro fail[of "?st\<lparr>memory_begin := 0\<rparr>"]) (simp_all add: pod_allocate_def zeroinit_allocate_def Let_def)
  next
    case (2 p)
    let ?st1 = "?st\<lparr>live := (p, ?cap) # live ?st, memory_handles := memory_handles ?st @ [p],
                      memory_begin := p, memory_current := p, memory_end := p + ?cap,
                      total_allocated_capacity := total_allocated_capacity ?st + ?cap\<rparr>"
    have cap: "n \<le> ?cap" by simp
    show ?thesis
    proof (rule give)
      show "pod_allocate mal n al st = (Inr (p, p + n), ?st1\<lparr>memory_current := p + n\<rparr>)"
        "zeroinit_allocate mal n al st = (Inr (p, p + n), memset0 p n (?st1\<lparr>memory_current := p + n\<rparr>))"
        using True 2(2) by (simp_all add: pod_allocate_def zeroinit_allocate_def Let_def)
      show "mem (?st1\<lparr>memory_current := p + n\<rparr>) = mem st" by simp
      assume n: "0 \<le> n" and al: "al \<in> alignments"
      have "good (?st1\<lparr>memory_current := p + n\<rparr>) (rs @ [(p, p + n)])"
        by (rule good_append(1)[OF g' mal 2(1) n cap]) simp_all
      moreover have "16 dvd p"
        by (rule good_append(3)[OF g' mal 2(1) n cap, of "?st1\<lparr>memory_current := p + n\<rparr>"]) simp_all
      ultimately show "good (?st1\<lparr>memory_current := p + n\<rparr>) (rs @ [(p, p + n)]) \<and> al dvd p"
        using align_up_ok(3)[OF al] dvd_trans by blast
    qed
  qed
qed

lemma fill_updates [simp]:
  "(memcpy d s n st)\<lparr>memory_current := c\<rparr> = memcpy d s n (st\<lparr>memory_current := c\<rparr>)"
  "(memcpy d s n st)\<lparr>total_allocated_capacity := c\<rparr> = memcpy d s n (st\<lparr>total_allocated_capacity := c\<rparr>)"
  "(memset0 d n st)\<lparr>memory_current := c\<rparr> = memset0 d n (st\<lparr>memory_current := c\<rparr>)"
  "(memset0 d n st)\<lparr>total_allocated_capacity := c\<rparr> = memset0 d n (st\<lparr>total_allocated_capacity := c\<rparr>)"
  unfolding memcpy_def memset0_def by (rule pod_memory_block.equality; simp cong: if_cong)+

lemma fill_simps [simp]:
  "memory_begin (memcpy d s n st) = memory_begin st" "memory_begin (memset0 d n st) = memory_begin st"
  "total_allocated_capacity (memcpy d s n st) = total_allocated_capacity st"
  "total_allocated_capacity (memset0 d n st) = total_allocated_capacity st"
  by (simp_all add: memcpy_def memset0_def)

lemma pod_resize_cases:
  assumes g: "good st rs" and mal: "malloc_ok mal"
  obtains (fail) e st' where "pod_resize mal n (b, e0) st = (Inl e, st')" "zeroinit_resize mal n (b, e0) st = (Inl e, st')"
      "good st' rs" "mem st' = mem st"
  | (fits) st' where "pod_resize mal n (b, e0) st = (Inr (b, b + n), st')"
      "zeroinit_resize mal n (b, e0) st = (Inr (b, b + n), if b + n > e0 then memset0 e0 (b + n - e0) st' else st')"
      "mem st' = mem st"
      "\<And>i. 0 \<le> n \<Longrightarrow> i < length rs \<Longrightarrow> rs ! i = (b, e0) \<Longrightarrow> good st' (rs[i := (b, b + n)])"
  | (moved) p st' where "pod_resize mal n (b, e0) st = (Inr (p, p + n), memcpy p b (e0 - b) st')"
      "zeroinit_resize mal n (b, e0) st
         = (Inr (p, p + n), memset0 (p + (e0 - b)) (n - (e0 - b)) (memcpy p b (e0 - b) st'))"
      "mem st' = mem st" "\<And>i. i < length rs \<Longrightarrow> rs ! i = (b, e0) \<Longrightarrow> e0 - b < n"
      "\<And>i. i < length rs \<Longrightarrow> rs ! i = (b, e0) \<Longrightarrow> {p..<p + n} \<inter> {b..<e0} = {}"
      "\<And>i. 0 \<le> n \<Longrightarrow> i < length rs \<Longrightarrow> rs ! i = (b, e0) \<Longrightarrow> good st' (rs[i := (p, p + n)])"
proof (cases "e0 = memory_current st")
  case False
  then show ?thesis using g by (intro fail[of not_most_recent st]) (simp_all add: pod_resize_def zeroinit_resize_def)
next
  case e0: True
  show ?thesis
  proof (cases "b + n \<le> memory_end st")
    case True
    show ?thesis
    proof (rule fits)
      show "pod_resize mal n (b, e0) st = (Inr (b, b + n), st\<lparr>memory_current := b + n\<rparr>)"
        "zeroinit_resize mal n (b, e0) st
          = (Inr (b, b + n), if b + n > e0 then memset0 e0 (b + n - e0) (st\<lparr>memory_current := b + n\<rparr>) else st\<lparr>memory_current := b + n\<rparr>)"
        using True e0 by (simp_all add: pod_resize_def zeroinit_resize_def Let_def)
      show "mem (st\<lparr>memory_current := b + n\<rparr>) = mem st" by simp
      show "good (st\<lparr>memory_current := b + n\<rparr>) (rs[i := (b, b + n)])" if "0 \<le> n" "i < length rs" "rs ! i = (b, e0)" for i
        using good_extend[OF g that(2), of b "b + n"] that True e0 by simp
    qed
  next
    case False
    let ?cap = "max (total_allocated_capacity st) n"
    have small: "e0 - b < n" using False g e0 by (simp add: good_def chunks_ok_def)
    show ?thesis
    proof (cases rule: append_memory_cases[of mal st ?cap])
      case 1
      then show ?thesis using False e0 good_failed[OF g]
        by (intro fail[of bad_alloc "st\<lparr>memory_begin := 0\<rparr>"]) (simp_all add: pod_resize_def zeroinit_resize_def Let_def)
    next
      case (2 p)
      let ?st1 = "st\<lparr>live := (p, ?cap) # live st, memory_handles := memory_handles st @ [p],
                      memory_begin := p, memory_current := p, memory_end := p + ?cap,
                      total_allocated_capacity := total_allocated_capacity st + ?cap\<rparr>"
      let ?st2 = "?st1\<lparr>memory_current := p + n, total_allocated_capacity := total_allocated_capacity ?st1 - (e0 - b)\<rparr>"
      have cap: "n \<le> ?cap" by simp
      show ?thesis
      proof (rule moved)
        show "pod_resize mal n (b, e0) st = (Inr (p, p + n), memcpy p b (e0 - b) ?st2)"
          using False e0 2(2) by (simp add: pod_resize_def Let_def)
        show "zeroinit_resize mal n (b, e0) st = (Inr (p, p + n), memset0 (p + (e0 - b)) (n - (e0 - b)) (memcpy p b (e0 - b) ?st2))"
          using False e0 2(2) by (simp add: zeroinit_resize_def Let_def)
        show "mem ?st2 = mem st" by simp
        fix i assume i: "i < length rs" "rs ! i = (b, e0)"
        show "e0 - b < n" by (rule small)
        show "good ?st2 (rs[i := (p, p + n)])" if n: "0 \<le> n"
          by (rule good_append(2)[OF g mal 2(1) n cap _ _ _ _ _ i(1)]) simp_all
        have "b \<le> e0" using spaceD(2)[of "owned st" "zone st" rs i] g i by (simp add: good_def)
        then have n: "0 \<le> n" using small by simp
        have "{p..<p + ?cap} \<inter> owned st = {}"
          by (rule good_append(4)[OF g mal 2(1) n cap, of ?st2]) simp_all
        moreover have "{b..<e0} \<subseteq> owned st" using spaceD(3)[of "owned st" "zone st" rs i] g i by (simp add: good_def rbytes_def)
        moreover have "{p..<p + n} \<subseteq> {p..<p + ?cap}" by auto
        ultimately show "{p..<p + n} \<inter> {b..<e0} = {}" by blast
      qed
    qed
  qed
qed

lemma others_insensitive [simp]:
  "others (st\<lparr>total_allocated_capacity := c\<rparr>) = others st" "others (st\<lparr>mem := m\<rparr>) = others st"
  "others (st\<lparr>memory_begin := a\<rparr>) = others st" "others (st\<lparr>memory_current := a\<rparr>) = others st"
  "others (st\<lparr>memory_end := a\<rparr>) = others st"
  by (simp_all add: others_def)

lemma fill_insensitive [simp]:
  "good (memcpy d s n st) rs = good st rs" "good (memset0 d n st) rs = good st rs"
  "others (memcpy d s n st) = others st" "others (memset0 d n st) = others st"
  by (simp_all add: memcpy_def memset0_def)

lemma append_memory_others:
  assumes "malloc_ok mal"
  shows "others (snd (append_memory mal n st)) = others st"
proof (cases rule: append_memory_cases[of mal st n])
  case 1
  then show ?thesis by simp
next
  case (2 p)
  have "(p, b) \<notin> set (live st)" for b using assms 2(1) unfolding malloc_ok_def by fastforce
  then show ?thesis using 2(2) by (auto simp: others_def intro!: filter_cong)
qed

lemma append_memory_others':
  "malloc_ok mal \<Longrightarrow> append_memory mal n st = (r, st') \<Longrightarrow> others st' = others st"
  using append_memory_others[of mal n st] by simp

lemma pod_allocate_others:
  "malloc_ok mal \<Longrightarrow> pod_allocate mal n al st = (r, st') \<Longrightarrow> others st' = others st"
  "malloc_ok mal \<Longrightarrow> zeroinit_allocate mal n al st = (r, st') \<Longrightarrow> others st' = others st"
  by (auto simp: pod_allocate_def zeroinit_allocate_def Let_def dest: append_memory_others' split: prod.splits sum.splits if_splits)

lemma pod_resize_others:
  "malloc_ok mal \<Longrightarrow> pod_resize mal n v st = (r, st') \<Longrightarrow> others st' = others st"
  "malloc_ok mal \<Longrightarrow> zeroinit_resize mal n v st = (r, st') \<Longrightarrow> others st' = others st"
  by (auto simp: pod_resize_def zeroinit_resize_def Let_def dest: append_memory_others' split: prod.splits sum.splits if_splits)

lemma free_all_live:
  assumes "distinct ps" "set ps \<subseteq> fst ` set (live st)" "0 \<notin> set ps"
  shows "free_all ps st = Some (st\<lparr>live := filter (\<lambda>(q, _). q \<notin> set ps) (live st)\<rparr>)"
  using assms
proof (induction ps arbitrary: st)
  case Nil
  then show ?case by simp
next
  case (Cons p ps)
  let ?st = "st\<lparr>live := filter (\<lambda>(q, _). q \<noteq> p) (live st)\<rparr>"
  have "heap_free p st = Some ?st" using Cons.prems by (auto simp: heap_free_def)
  moreover have "set ps \<subseteq> fst ` set (live ?st)" using Cons.prems by force
  ultimately show ?case using Cons.IH[of ?st] Cons.prems by (simp add: case_prod_unfold conj_commute)
qed

lemma finalize_good:
  assumes "good st rs"
  shows "good (pod_finalize st) rs" "mem (pod_finalize st) = mem st" "others (pod_finalize st) = others st"
proof -
  have "space_ok (owned st) {} rs" using assms by (auto simp: good_def intro: space_less)
  then show "good (pod_finalize st) rs" using assms by (simp add: good_def chunks_ok_def owned_def zone_def pod_finalize_def Let_def)
  show "mem (pod_finalize st) = mem st" "others (pod_finalize st) = others st" by (simp_all add: pod_finalize_def Let_def)
qed

lemma reset_good:
  assumes g: "good st rs" and b: "memory_begin st \<noteq> 0 \<or> memory_end st = 0"
  shows "\<exists>st'. pod_reset st = Some st' \<and> good st' [] \<and> others st' = others st"
proof -
  have c: "chunks_ok st" using g by (simp add: good_def)
  define hs where "hs = butlast (memory_handles st)"
  define h where "h = last (memory_handles st)"
  have hs: "memory_handles st = hs @ [h]" using c by (simp add: hs_def h_def chunks_ok_def)
  let ?live = "filter (\<lambda>(q, _). q \<notin> set hs) (live st)"
  let ?st = "st\<lparr>live := ?live, memory_handles := [h], memory_current := memory_begin st,
       total_allocated_capacity := memory_end st - memory_begin st\<rparr>"
  have "distinct hs" "set hs \<subseteq> fst ` set (live st)" "0 \<notin> set hs" "h \<notin> set hs"
    using c unfolding chunks_ok_def hs by simp_all
  then have "free_all hs st = Some (st\<lparr>live := ?live\<rparr>)" by (intro free_all_live)
  then have "pod_reset st = Some ?st"
  proof (cases "hs = []")
    case True
    have "live st = ?live" by (simp add: True)
    then show ?thesis by (simp add: pod_reset_def hs True) 
  qed (simp add: pod_reset_def hs)
  moreover have "chunks_ok ?st"
    using c b \<open>h \<notin> set hs\<close> unfolding chunks_ok_def hs
    by (auto simp: distinct_map_filter image_iff case_prod_unfold)
  moreover have "zone ?st \<subseteq> owned ?st"
  proof (cases "memory_begin st = 0")
    case False
    then have "(h, memory_end st - h) \<in> set (live st)" "memory_begin st = h" using c by (auto simp: chunks_ok_def hs)
    then show ?thesis using \<open>h \<notin> set hs\<close> by (force simp: zone_def owned_def)
  qed (use b in \<open>simp add: zone_def\<close>)
  moreover have "others ?st = others st"
    by (simp add: others_def hs case_prod_unfold conj_commute)
  ultimately show ?thesis by (auto simp: good_def space_none)
qed

text \<open>Both blocks provide the interface.\<close>

lemma memset_range: "\<forall>a. a \<notin> rbytes (b, b + n) \<longrightarrow> mem (memset0 b n st) a = mem st a"
  "a \<in> rbytes (b, b + n) \<Longrightarrow> mem (memset0 b n st) a = 0"
  by (auto simp: memset0_def rbytes_def)

interpretation plain: pod_allocator pod_api False
proof
  fix st st' :: pod_memory_block and rs mal n al r v i e
  assume g: "good st rs"
  show "good (api_finalize (pod_api mal) st) rs \<and> mem (api_finalize (pod_api mal) st) = mem st
      \<and> others (api_finalize (pod_api mal) st) = others st"
    using finalize_good[OF g] by (simp add: pod_api_def)
  show "\<exists>st'. api_reset (pod_api mal) st = Some st' \<and> good st' [] \<and> others st' = others st"
    if "memory_begin st \<noteq> 0 \<or> memory_end st = 0"
    using reset_good[OF g that] by (simp add: pod_api_def)
  assume m: "malloc_ok mal"
  show "good st' rs \<and> mem st' = mem st \<and> others st' = others st" if "api_allocate (pod_api mal) n al st = (Inl e, st')"
    using that pod_allocate_others(1)[OF m] by (cases rule: pod_allocate_cases[OF g m, of n al]) (auto simp: pod_api_def)
  show "good st' (rs @ [r]) \<and> others st' = others st \<and> snd r = fst r + n \<and> al dvd fst r
      \<and> (\<forall>a. a \<notin> rbytes r \<longrightarrow> mem st' a = mem st a) \<and> (False \<longrightarrow> (\<forall>a\<in>rbytes r. mem st' a = 0))"
    if "0 \<le> n" "al \<in> alignments" "api_allocate (pod_api mal) n al st = (Inr r, st')"
    using that pod_allocate_others(1)[OF m] by (cases rule: pod_allocate_cases[OF g m, of n al]) (auto simp: pod_api_def)
  show "good st' rs \<and> mem st' = mem st \<and> others st' = others st" if "api_resize (pod_api mal) n v st = (Inl e, st')"
    using that pod_resize_others(1)[OF m] by (cases v, cases rule: pod_resize_cases[OF g m, of n "fst v" "snd v"]) (auto simp: pod_api_def)
  show "good st' (rs[i := r]) \<and> others st' = others st \<and> snd r = fst r + n
      \<and> (\<forall>a. a \<notin> rbytes r \<longrightarrow> mem st' a = mem st a)
      \<and> (\<forall>k. 0 \<le> k \<and> k < n \<and> k < snd (rs ! i) - fst (rs ! i) \<longrightarrow> mem st' (fst r + k) = mem st (fst (rs ! i) + k))
      \<and> (False \<longrightarrow> (\<forall>k. snd (rs ! i) - fst (rs ! i) \<le> k \<and> k < n \<longrightarrow> mem st' (fst r + k) = 0))"
    if i: "i < length rs" and n: "0 \<le> n" and res: "api_resize (pod_api mal) n (rs ! i) st = (Inr r, st')"
  proof -
    obtain b e0 where v: "rs ! i = (b, e0)" by fastforce
    have o: "others st' = others st" using res pod_resize_others(1)[OF m] by (simp add: pod_api_def)
    show ?thesis
    proof (cases rule: pod_resize_cases[OF g m, of n b e0])
      case (1 e st1)
      then show ?thesis using res v by (simp add: pod_api_def)
    next
      case (2 st1)
      then show ?thesis using res v o i n by (auto simp: pod_api_def)
    next
      case (3 p st1)
      show ?thesis using res v o 3(1-3) 3(4)[OF i v] 3(6)[OF n i v] by (auto simp: pod_api_def memcpy_def rbytes_def)
    qed
  qed
qed

interpretation zeroed: pod_allocator zeroinit_api True
proof
  fix st st' :: pod_memory_block and rs mal n al r v i e
  assume g: "good st rs"
  show "good (api_finalize (zeroinit_api mal) st) rs \<and> mem (api_finalize (zeroinit_api mal) st) = mem st
      \<and> others (api_finalize (zeroinit_api mal) st) = others st"
    using finalize_good[OF g] by (simp add: zeroinit_api_def zeroinit_finalize_def)
  show "\<exists>st'. api_reset (zeroinit_api mal) st = Some st' \<and> good st' [] \<and> others st' = others st"
    if "memory_begin st \<noteq> 0 \<or> memory_end st = 0"
    using reset_good[OF g that] by (simp add: zeroinit_api_def zeroinit_reset_def)
  assume m: "malloc_ok mal"
  show "good st' rs \<and> mem st' = mem st \<and> others st' = others st" if "api_allocate (zeroinit_api mal) n al st = (Inl e, st')"
    using that pod_allocate_others(2)[OF m] by (cases rule: pod_allocate_cases[OF g m, of n al]) (auto simp: zeroinit_api_def)
  show "good st' (rs @ [r]) \<and> others st' = others st \<and> snd r = fst r + n \<and> al dvd fst r
      \<and> (\<forall>a. a \<notin> rbytes r \<longrightarrow> mem st' a = mem st a) \<and> (True \<longrightarrow> (\<forall>a\<in>rbytes r. mem st' a = 0))"
    if "0 \<le> n" "al \<in> alignments" "api_allocate (zeroinit_api mal) n al st = (Inr r, st')"
    using that pod_allocate_others(2)[OF m] memset_range
    by (cases rule: pod_allocate_cases[OF g m, of n al]) (auto simp: zeroinit_api_def)
  show "good st' rs \<and> mem st' = mem st \<and> others st' = others st" if "api_resize (zeroinit_api mal) n v st = (Inl e, st')"
    using that pod_resize_others(2)[OF m] by (cases v, cases rule: pod_resize_cases[OF g m, of n "fst v" "snd v"]) (auto simp: zeroinit_api_def)
  show "good st' (rs[i := r]) \<and> others st' = others st \<and> snd r = fst r + n
      \<and> (\<forall>a. a \<notin> rbytes r \<longrightarrow> mem st' a = mem st a)
      \<and> (\<forall>k. 0 \<le> k \<and> k < n \<and> k < snd (rs ! i) - fst (rs ! i) \<longrightarrow> mem st' (fst r + k) = mem st (fst (rs ! i) + k))
      \<and> (True \<longrightarrow> (\<forall>k. snd (rs ! i) - fst (rs ! i) \<le> k \<and> k < n \<longrightarrow> mem st' (fst r + k) = 0))"
    if i: "i < length rs" and n: "0 \<le> n" and res: "api_resize (zeroinit_api mal) n (rs ! i) st = (Inr r, st')"
  proof -
    obtain b e0 where v: "rs ! i = (b, e0)" by fastforce
    have be: "b \<le> e0" using spaceD(2)[of "owned st" "zone st" rs i] g i v by (simp add: good_def)
    have o: "others st' = others st" using res pod_resize_others(2)[OF m] by (simp add: zeroinit_api_def)
    show ?thesis
    proof (cases rule: pod_resize_cases[OF g m, of n b e0])
      case (1 e st1)
      then show ?thesis using res v by (simp add: zeroinit_api_def)
    next
      case (2 st1)
      then show ?thesis using res v o i n be by (auto simp: zeroinit_api_def memset0_def rbytes_def split: if_splits)
    next
      case (3 p st1)
      show ?thesis using res v o 3(1-3) 3(4)[OF i v] 3(6)[OF n i v] be by (auto simp: zeroinit_api_def memcpy_def memset0_def rbytes_def)
    qed
  qed
qed

section \<open>Clients\<close>

text \<open>
  A client holds the buffers it was given, in the order of their allocation; an exception leaves them as they
  are. It resets a block only when its last growth did not fail.
\<close>

datatype client_op = Alloc_Buf int int | Resize_Buf nat int | Write_Buf nat int u8 | Finalize_Block | Reset_Block

type_synonym client_state = "pod_memory_block \<times> (int \<times> int) list"

definition client_ok :: "client_op \<Rightarrow> client_state \<Rightarrow> bool" where
  "client_ok q s \<longleftrightarrow>
     (case q of
        Alloc_Buf n al \<Rightarrow> 0 \<le> n \<and> al \<in> alignments
      | Resize_Buf i n \<Rightarrow> i < length (snd s) \<and> 0 \<le> n
      | Write_Buf i k x \<Rightarrow> i < length (snd s) \<and> 0 \<le> k \<and> k < snd (snd s ! i) - fst (snd s ! i)
      | Finalize_Block \<Rightarrow> True
      | Reset_Block \<Rightarrow> memory_begin (fst s) \<noteq> 0 \<or> memory_end (fst s) = 0)"

definition client_run :: "memory_block_pod_allocator_api \<Rightarrow> client_op \<Rightarrow> client_state \<Rightarrow> client_state option" where
  "client_run api q s =
     (case s of (st, rs) \<Rightarrow>
        (case q of
           Alloc_Buf n al \<Rightarrow>
             (case api_allocate api n al st of (Inl e, st) \<Rightarrow> Some (st, rs) | (Inr r, st) \<Rightarrow> Some (st, rs @ [r]))
         | Resize_Buf i n \<Rightarrow>
             (case api_resize api n (rs ! i) st of (Inl e, st) \<Rightarrow> Some (st, rs) | (Inr r, st) \<Rightarrow> Some (st, rs[i := r]))
         | Write_Buf i k x \<Rightarrow> Some (st\<lparr>mem := (mem st)(fst (rs ! i) + k := x)\<rparr>, rs)
         | Finalize_Block \<Rightarrow> Some (api_finalize api st, rs)
         | Reset_Block \<Rightarrow> map_option (\<lambda>st. (st, [])) (api_reset api st)))"

inductive pod_reachable :: "malloc_fn \<Rightarrow> memory_block_type \<Rightarrow> (int \<times> int) list \<Rightarrow> client_state \<Rightarrow> bool" where
  pod_start: "make_pod_memory_block mal n blocks bytes = (Inr (), st)
    \<Longrightarrow> pod_reachable mal pod_memory_block_type blocks (st, [])"
| zeroinit_start: "make_zeroinit_memory_block mal n blocks bytes = (Inr (), st)
    \<Longrightarrow> pod_reachable mal zeroinit_memory_block_type blocks (st, [])"
| pod_step: "pod_reachable mal mbt blocks s \<Longrightarrow> client_ok q s \<Longrightarrow> get_memory_block_pod_allocator_api mal mbt = Inr api
    \<Longrightarrow> client_run api q s = Some s' \<Longrightarrow> pod_reachable mal mbt blocks s'"

text \<open>
  The specification: a list of independent byte arrays. An operation that can fail may leave them
  alone; new bytes are zero for the zero-initialising block.
\<close>

definition buf :: "pod_memory_block \<Rightarrow> int \<times> int \<Rightarrow> u8 list" where
  "buf st r = map (\<lambda>k. mem st (fst r + int k)) [0..<nat (snd r - fst r)]"

definition bufs :: "client_state \<Rightarrow> u8 list list" where
  "bufs s = map (buf (fst s)) (snd s)"

definition buffers_step :: "bool \<Rightarrow> client_op \<Rightarrow> u8 list list \<Rightarrow> u8 list list \<Rightarrow> bool" where
  "buffers_step zero q bs bs' \<longleftrightarrow>
     (case q of
        Alloc_Buf n al \<Rightarrow>
          bs' = bs \<or> (\<exists>x. bs' = bs @ [x] \<and> length x = nat n \<and> (zero \<longrightarrow> x = replicate (nat n) 0))
      | Resize_Buf i n \<Rightarrow>
          bs' = bs \<or> (\<exists>x. bs' = bs[i := x] \<and> length x = nat n \<and> take (length (bs ! i)) x = take (nat n) (bs ! i)
                        \<and> (zero \<longrightarrow> drop (length (bs ! i)) x = replicate (nat n - length (bs ! i)) 0))
      | Write_Buf i k x \<Rightarrow> bs' = bs[i := (bs ! i)[nat k := x]]
      | Finalize_Block \<Rightarrow> bs' = bs
      | Reset_Block \<Rightarrow> bs' = [])"

lemma buf_cong: "(\<And>a. a \<in> rbytes r \<Longrightarrow> mem st' a = mem st a) \<Longrightarrow> buf st' r = buf st r"
  by (auto simp: buf_def rbytes_def)

lemma length_buf [simp]: "length (buf st r) = nat (snd r - fst r)"
  by (simp add: buf_def)

lemma nth_buf [simp]: "k < nat (snd r - fst r) \<Longrightarrow> buf st r ! k = mem st (fst r + int k)"
  by (simp add: buf_def)

lemma good_disjoint:
  assumes "good st rs" "i < length rs" "j < length rs" "i \<noteq> j"
  shows "rbytes (rs ! i) \<inter> rbytes (rs ! j) = {}"
  using assms(1) by (intro spaceD(5)[of "owned st" "zone st" rs, OF _ assms(2-4)]) (simp add: good_def)

lemma bufs_add:
  assumes "good st' (rs @ [r])" "\<forall>a. a \<notin> rbytes r \<longrightarrow> mem st' a = mem st a"
  shows "bufs (st', rs @ [r]) = bufs (st, rs) @ [buf st' r]"
proof -
  have "buf st' (rs ! j) = buf st (rs ! j)" if "j < length rs" for j
    using good_disjoint[OF assms(1), of j "length rs"] that assms(2) by (intro buf_cong) (auto simp: nth_append)
  then have "buf st' v = buf st v" if "v \<in> set rs" for v using that by (metis in_set_conv_nth)
  then show ?thesis by (simp add: bufs_def)
qed

lemma bufs_update:
  assumes "good st' (rs[i := r])" "i < length rs" "\<forall>a. a \<notin> rbytes r \<longrightarrow> mem st' a = mem st a"
  shows "bufs (st', rs[i := r]) = (bufs (st, rs))[i := buf st' r]"
proof (rule nth_equalityI)
  fix j assume "j < length (bufs (st', rs[i := r]))"
  then have j: "j < length rs" by (simp add: bufs_def)
  show "bufs (st', rs[i := r]) ! j = (bufs (st, rs))[i := buf st' r] ! j"
  proof (cases "j = i")
    case True
    then show ?thesis using j by (simp add: bufs_def)
  next
    case False
    then have "buf st' (rs ! j) = buf st (rs ! j)"
      using good_disjoint[OF assms(1), of j i] j assms(2,3) by (intro buf_cong) auto
    then show ?thesis using j False by (simp add: bufs_def)
  qed
qed (simp add: bufs_def)

lemma buf_zero: "(\<forall>a\<in>rbytes r. mem st a = 0) \<Longrightarrow> buf st r = replicate (nat (snd r - fst r)) 0"
  by (rule nth_equalityI) (auto simp: rbytes_def)

lemma bufs_write:
  assumes g: "good st rs" and i: "i < length rs" "0 \<le> k" "k < snd (rs ! i) - fst (rs ! i)"
  shows "bufs (st\<lparr>mem := (mem st)(fst (rs ! i) + k := x)\<rparr>, rs) = (bufs (st, rs))[i := (bufs (st, rs) ! i)[nat k := x]]"
proof -
  let ?st = "st\<lparr>mem := (mem st)(fst (rs ! i) + k := x)\<rparr>"
  have "fst (rs ! i) + k \<in> rbytes (rs ! i)" using i by (simp add: rbytes_def)
  then have "\<forall>a. a \<notin> rbytes (rs ! i) \<longrightarrow> mem ?st a = mem st a" by auto
  then have "bufs (?st, rs[i := rs ! i]) = (bufs (st, rs))[i := buf ?st (rs ! i)]"
    using g i by (intro bufs_update) simp_all
  moreover have "buf ?st (rs ! i) = (bufs (st, rs) ! i)[nat k := x]"
    using i by (intro nth_equalityI) (auto simp: bufs_def nth_list_update)
  ultimately show ?thesis by simp
qed

context pod_allocator
begin

lemma client_step:
  assumes g: "good st rs" and m: "malloc_ok mal" and c: "client_ok q (st, rs)"
  shows "\<exists>st' rs'. client_run (api mal) q (st, rs) = Some (st', rs') \<and> good st' rs' \<and> others st' = others st
    \<and> buffers_step zero q (bufs (st, rs)) (bufs (st', rs'))"
proof (cases q)
  case (Alloc_Buf n al)
  obtain res st' where r: "api_allocate (api mal) n al st = (res, st')" by fastforce
  show ?thesis
  proof (cases res)
    case (Inl e)
    then show ?thesis using allocate_fails[OF g m] r Alloc_Buf by (auto simp: client_run_def buffers_step_def bufs_def buf_def)
  next
    case (Inr v)
    note l = allocate_gives[OF g m _ _ r[unfolded Inr]]
    then show ?thesis using c r Alloc_Buf Inr bufs_add[of st' rs v st]
      by (auto simp: client_ok_def client_run_def buffers_step_def buf_zero)
  qed
next
  case (Resize_Buf i n)
  obtain res st' where r: "api_resize (api mal) n (rs ! i) st = (res, st')" by fastforce
  have i: "i < length rs" "0 \<le> n" using c Resize_Buf by (simp_all add: client_ok_def)
  show ?thesis
  proof (cases res)
    case (Inl e)
    then show ?thesis using resize_fails[OF g m] r Resize_Buf by (auto simp: client_run_def buffers_step_def bufs_def buf_def)
  next
    case (Inr v)
    have l: "good st' (rs[i := v])" "others st' = others st" "snd v = fst v + n" "\<forall>a. a \<notin> rbytes v \<longrightarrow> mem st' a = mem st a"
      "\<forall>k. 0 \<le> k \<and> k < n \<and> k < snd (rs ! i) - fst (rs ! i) \<longrightarrow> mem st' (fst v + k) = mem st (fst (rs ! i) + k)"
      "zero \<longrightarrow> (\<forall>k. snd (rs ! i) - fst (rs ! i) \<le> k \<and> k < n \<longrightarrow> mem st' (fst v + k) = 0)"
      using resize_gives[OF g m i r[unfolded Inr]] by blast+
    have "take (nat (snd (rs ! i) - fst (rs ! i))) (buf st' v) = take (nat n) (buf st (rs ! i))"
    proof (rule nth_equalityI)
      fix k assume "k < length (take (nat (snd (rs ! i) - fst (rs ! i))) (buf st' v))"
      then have k: "k < nat (snd (rs ! i) - fst (rs ! i))" "k < nat n" using l(3) by simp_all
      then have "mem st' (fst v + int k) = mem st (fst (rs ! i) + int k)" using l(5)[rule_format, of "int k"] by linarith
      then show "take (nat (snd (rs ! i) - fst (rs ! i))) (buf st' v) ! k = take (nat n) (buf st (rs ! i)) ! k"
        using k l(3) by simp
    qed (use l(3) in simp)
    moreover have "drop (nat (snd (rs ! i) - fst (rs ! i))) (buf st' v) = replicate (nat n - nat (snd (rs ! i) - fst (rs ! i))) 0" if zero
      using l(3,6) that spaceD(2)[of "owned st" "zone st" rs i] g i by (intro nth_equalityI) (auto simp: good_def)
    ultimately show ?thesis
      using l i r Resize_Buf Inr bufs_update[OF l(1) i(1) l(4)] by (auto simp: client_run_def buffers_step_def bufs_def)
  qed
next
  case (Write_Buf i k x)
  then have i: "i < length rs" "0 \<le> k" "k < snd (rs ! i) - fst (rs ! i)" using c by (simp_all add: client_ok_def)
  then show ?thesis using Write_Buf g bufs_write[OF g i, of x] by (simp add: client_run_def buffers_step_def)
next
  case Finalize_Block
  then show ?thesis using finalize_keeps[OF g] by (simp add: client_run_def buffers_step_def bufs_def buf_def)
next
  case Reset_Block
  then show ?thesis using reset_drops[OF g, of mal] c by (auto simp: client_ok_def client_run_def buffers_step_def bufs_def)
qed

end

lemma start_good:
  assumes "malloc_ok mal" "distinct (map fst blocks)" "make_pod_memory_block mal n blocks bytes = (Inr (), st)"
  shows "good st []" "others st = blocks"
proof -
  let ?st = "\<lparr> live = blocks, mem = bytes, total_allocated_capacity = 0, memory_handles = [],
         memory_begin = 0, memory_current = 0, memory_end = 0 \<rparr>"
  show "others st = blocks"
    using append_memory_others'[OF assms(1) assms(3)[unfolded make_pod_memory_block_def]] by (simp add: others_def)
  show "good st []"
  proof (cases rule: append_memory_cases[of mal ?st n])
    case 1
    then show ?thesis using assms(3) by (simp add: make_pod_memory_block_def)
  next
    case (2 p)
    then have "0 < p" "0 \<le> n" "\<And>s. (p, s) \<notin> set blocks" using assms(1) unfolding malloc_ok_def by fastforce+
    then show ?thesis using 2(2) assms(2,3)
      by (auto simp: make_pod_memory_block_def good_def chunks_ok_def zone_def owned_def intro!: space_none)
  qed
qed

section \<open>Every run\<close>

lemma pod_api_choice:
  "get_memory_block_pod_allocator_api mal pod_memory_block_type = Inr (pod_api mal)"
  "get_memory_block_pod_allocator_api mal zeroinit_memory_block_type = Inr (zeroinit_api mal)"
  by (simp_all add: get_memory_block_pod_allocator_api_def)

inductive_cases pod_reachable_cases: "pod_reachable mal mbt blocks s"

lemma reachable_type:
  "pod_reachable mal mbt blocks s \<Longrightarrow> mbt = pod_memory_block_type \<or> mbt = zeroinit_memory_block_type"
  by (induction rule: pod_reachable.induct) auto

lemma reachable_step_ok:
  assumes g: "good st rs" and m: "malloc_ok mal" and c: "client_ok q (st, rs)"
    and t: "mbt = pod_memory_block_type \<or> mbt = zeroinit_memory_block_type"
  shows "\<exists>api st' rs'. get_memory_block_pod_allocator_api mal mbt = Inr api \<and> client_run api q (st, rs) = Some (st', rs')
    \<and> good st' rs' \<and> others st' = others st
    \<and> buffers_step (mbt = zeroinit_memory_block_type) q (bufs (st, rs)) (bufs (st', rs'))"
  using t plain.client_step[OF g m c] zeroed.client_step[OF g m c] by (auto simp: pod_api_choice)

lemma reachable_good:
  assumes "pod_reachable mal mbt blocks s"
  shows "malloc_ok mal \<Longrightarrow> distinct (map fst blocks) \<Longrightarrow> good (fst s) (snd s) \<and> others (fst s) = blocks"
  using assms
proof (induction rule: pod_reachable.induct)
  case (pod_start mal n blocks bytes st)
  then show ?case using start_good[of mal blocks n bytes st] by simp
next
  case (zeroinit_start mal n blocks bytes st)
  then show ?case
    using start_good[of mal blocks n bytes st] by (simp add: make_zeroinit_memory_block_def make_pod_memory_block_def)
next
  case (pod_step mal mbt blocks s q api s')
  obtain st rs where s: "s = (st, rs)" by fastforce
  show ?case
    using reachable_step_ok[of st rs mal q mbt] pod_step reachable_type[OF pod_step(1)] by (fastforce simp: s)
qed

lemma free_block_ok:
  assumes "good st rs"
  shows "\<exists>st'. free_pod_memory_block st = Some st' \<and> live st' = others st"
  using assms free_all_live[of "memory_handles st" st]
  by (simp add: free_pod_memory_block_def good_def chunks_ok_def others_def)

text \<open>An allocator of the kind the properties assume: the next address above all blocks.\<close>

definition bump_malloc :: malloc_fn where
  "bump_malloc blocks n =
     (if n < 0 then None
      else Some ((foldr (\<lambda>(q, s) top. max top (q + max 1 s)) blocks 1 + 15) div 16 * 16))"

lemma bump_top: "1 \<le> foldr (\<lambda>(q, s) top. max top (q + max 1 s)) blocks (1::int)"
  "(q, s) \<in> set blocks \<Longrightarrow> q + max 1 s \<le> foldr (\<lambda>(q, s) top. max top (q + max 1 s)) blocks (1::int)"
  by (induction blocks) auto

lemma bump_malloc_ok: "malloc_ok bump_malloc"
  unfolding malloc_ok_def
proof (intro allI impI)
  fix blocks and n p :: int
  assume a: "bump_malloc blocks n = Some p"
  define t where "t = foldr (\<lambda>(q, s) top. max top (q + max 1 s)) blocks (1::int)"
  have p: "p = (t + 15) div 16 * 16" "0 \<le> n" using a by (auto simp: bump_malloc_def t_def split: if_splits)
  then have "t \<le> p" by presburger
  then show "0 < p \<and> 16 dvd p \<and> 0 \<le> n \<and> (\<forall>(q, s)\<in>set blocks. p + max 1 n \<le> q \<or> q + max 1 s \<le> p)"
    using bump_top(1)[of blocks, folded t_def] bump_top(2)[of _ _ blocks, folded t_def] p by (fastforce intro: order.trans)
qed

text \<open>
  C30. Whatever a client does with a block: its buffers lie in the chunks of the block and never
  overlap, no chunk is freed twice, and freeing the block gives back to the heap exactly what the block
  took from it.
\<close>

theorem pod_buffers_are_separate:
  assumes "malloc_ok mal" "distinct (map fst blocks)" "pod_reachable mal mbt blocks (st, rs)"
  shows "(i < length rs \<longrightarrow> fst (rs ! i) \<le> snd (rs ! i) \<and> rbytes (rs ! i) \<subseteq> owned st)
    \<and> (i < length rs \<and> j < length rs \<and> i \<noteq> j \<longrightarrow> rbytes (rs ! i) \<inter> rbytes (rs ! j) = {})
    \<and> (\<exists>st'. free_pod_memory_block st = Some st' \<and> live st' = blocks)"
proof -
  have g: "good st rs" "others st = blocks" using reachable_good[OF assms(3,1,2)] by simp_all
  then have s: "space_ok (owned st) (zone st) rs" by (simp add: good_def)
  show ?thesis using spaceD(2,3)[OF s, of i] spaceD(5)[OF s, of i j] free_block_ok[OF g(1)] g(2) by blast
qed

definition after :: "client_op list \<Rightarrow> client_state \<Rightarrow> client_state" where
  "after qs s = fold (\<lambda>q s. the (client_run (pod_api bump_malloc) q s)) qs s"

definition first_block :: client_state where
  "first_block = (snd (make_pod_memory_block bump_malloc 16 [(16, 100)] (\<lambda>_. 7)), [])"

lemma reachable_first_block: "pod_reachable bump_malloc pod_memory_block_type [(16, 100)] first_block"
proof -
  have "make_pod_memory_block bump_malloc 16 [(16, 100)] (\<lambda>_. 7) = (Inr (), fst first_block)"
    by (simp add: first_block_def make_pod_memory_block_def append_memory_def bump_malloc_def)
  from pod_start[OF this] show ?thesis by (simp add: first_block_def)
qed

lemma reachable_after:
  "pod_reachable bump_malloc pod_memory_block_type blocks s \<Longrightarrow> client_ok q s \<Longrightarrow> client_run (pod_api bump_malloc) q s \<noteq> None
    \<Longrightarrow> pod_reachable bump_malloc pod_memory_block_type blocks (after [q] s)"
  by (auto simp: after_def intro: pod_step pod_api_choice)

lemma two_buffers:
  "pod_reachable bump_malloc pod_memory_block_type [(16, 100)] (after [Alloc_Buf 40 16] (after [Alloc_Buf 10 1] first_block))"
  by (intro reachable_after reachable_first_block) code_simp+

theorem pod_buffers_are_separate_witness:
  "let s = after [Alloc_Buf 40 16] (after [Alloc_Buf 10 1] first_block); st = fst s; rs = snd s
   in rs = [(128, 138), (144, 184)]
    \<and> (1 < length rs \<longrightarrow> fst (rs ! 1) \<le> snd (rs ! 1) \<and> rbytes (rs ! 1) \<subseteq> owned st)
    \<and> (1 < length rs \<and> 0 < length rs \<and> 1 \<noteq> (0::nat) \<longrightarrow> rbytes (rs ! 1) \<inter> rbytes (rs ! 0) = {})
    \<and> (\<exists>st'. free_pod_memory_block st = Some st' \<and> live st' = [(16, 100)])"
  unfolding Let_def
proof (rule conjI)
  show "snd (after [Alloc_Buf 40 16] (after [Alloc_Buf 10 1] first_block)) = [(128, 138), (144, 184)]" by code_simp
qed (rule pod_buffers_are_separate[OF bump_malloc_ok]; use two_buffers in simp)

text \<open>When the heap gives memory, an allocation does not fail.\<close>

definition never_full :: "malloc_fn \<Rightarrow> bool" where
  "never_full mal \<longleftrightarrow> (\<forall>blocks n. 0 \<le> n \<longrightarrow> mal blocks n \<noteq> None)"

lemma append_memory_succeeds:
  assumes "never_full mal" "0 \<le> n"
  shows "\<exists>st'. append_memory mal n st = (Inr (), st')"
proof -
  have "mal (live st) n \<noteq> None" using assms unfolding never_full_def by blast
  then show ?thesis by (auto simp: append_memory_def)
qed

lemma allocate_succeeds:
  assumes "never_full mal" "0 \<le> n"
  shows "\<exists>r st'. pod_allocate mal n al st = (Inr r, st')" "\<exists>r st'. zeroinit_allocate mal n al st = (Inr r, st')"
proof -
  let ?st = "st\<lparr>total_allocated_capacity := total_allocated_capacity st - (memory_end st - memory_current st)\<rparr>"
  obtain st1 where "append_memory mal (max (total_allocated_capacity ?st) n) ?st = (Inr (), st1)"
    using append_memory_succeeds[OF assms(1) order.trans[OF assms(2) max.cobounded2]] by blast
  then show "\<exists>r st'. pod_allocate mal n al st = (Inr r, st')" "\<exists>r st'. zeroinit_allocate mal n al st = (Inr r, st')"
    by (simp_all add: pod_allocate_def zeroinit_allocate_def Let_def)
qed

text \<open>
  C2. Seen through its buffers, a block behaves like a list of independent byte arrays: an allocation adds an
  array, of zeros for the zero-initialising block, and fails only when the heap does; a resize
  keeps the bytes that fit and fills up with zeros there; a write changes one byte of one array; a
  reset drops them all.
\<close>

theorem pod_block_refines_buffers:
  assumes "malloc_ok mal" "distinct (map fst blocks)" "pod_reachable mal mbt blocks s" "client_ok q s"
  shows "\<exists>api s'. get_memory_block_pod_allocator_api mal mbt = Inr api \<and> client_run api q s = Some s'
    \<and> buffers_step (mbt = zeroinit_memory_block_type) q (bufs s) (bufs s')
    \<and> (never_full mal \<longrightarrow> (\<forall>n al. q = Alloc_Buf n al \<longrightarrow> length (bufs s') = Suc (length (bufs s))))"
proof -
  obtain st rs where s: "s = (st, rs)" by fastforce
  have g: "good st rs" using reachable_good[OF assms(3,1,2)] by (simp add: s)
  have t: "mbt = pod_memory_block_type \<or> mbt = zeroinit_memory_block_type" by (rule reachable_type[OF assms(3)])
  obtain api st' rs' where step: "get_memory_block_pod_allocator_api mal mbt = Inr api" "client_run api q (st, rs) = Some (st', rs')"
    "buffers_step (mbt = zeroinit_memory_block_type) q (bufs (st, rs)) (bufs (st', rs'))"
    using reachable_step_ok[OF g assms(1) _ t, of q] assms(4) by (auto simp: s)
  have "length rs' = Suc (length rs)" if m: "never_full mal" and q: "q = Alloc_Buf n al" for n al
  proof -
    have n: "0 \<le> n" using assms(4) by (simp add: s q client_ok_def)
    obtain r st1 where "api_allocate api n al st = (Inr r, st1)"
      using t allocate_succeeds[OF m n, of al st] step(1) by (auto simp: pod_api_choice pod_api_def zeroinit_api_def)
    then show ?thesis using step(2) by (auto simp: client_run_def q)
  qed
  then show ?thesis using step by (auto simp: s bufs_def)
qed

theorem pod_block_refines_buffers_witness:
  "\<exists>api s'. get_memory_block_pod_allocator_api bump_malloc pod_memory_block_type = Inr api
    \<and> client_run api (Resize_Buf 1 50) (after [Alloc_Buf 40 16] (after [Alloc_Buf 10 1] first_block)) = Some s'
    \<and> buffers_step (pod_memory_block_type = zeroinit_memory_block_type) (Resize_Buf 1 50)
        (bufs (after [Alloc_Buf 40 16] (after [Alloc_Buf 10 1] first_block))) (bufs s')
    \<and> (never_full bump_malloc \<longrightarrow> (\<forall>n al. Resize_Buf 1 50 = Alloc_Buf n al \<longrightarrow>
        length (bufs s') = Suc (length (bufs (after [Alloc_Buf 40 16] (after [Alloc_Buf 10 1] first_block))))))"
  by (rule pod_block_refines_buffers[OF bump_malloc_ok _ two_buffers]) code_simp+

text \<open>
  A growth that fails leaves a null begin in the block. A reset then makes the block give out memory from the
  null address on.
\<close>

lemma reset_after_failure_gives_null:
  assumes "0 < memory_end st" "length (memory_handles st) = 1" "mal (live st) (max (total_allocated_capacity st) 1000) = None"
    "snd (append_memory mal (max (total_allocated_capacity st) 1000) st) = st1" "pod_reset st1 = Some st2" "8 \<le> memory_end st"
  shows "fst (pod_allocate mal 8 1 st2) = Inr (0, 8)"
  using assms by (auto simp: append_memory_def pod_reset_def pod_allocate_def align_up_def Let_def)

end
