(* ===== verification/Object_Blocks.thy ===== *)
theory Object_Blocks
  imports Pod_Blocks
begin

text \<open>
  The memory block for arrays of objects with destructors,
  \<^verbatim>\<open>src/dynd/memblock/objectarray_memory_block.cpp\<close>. The state is the block with the heap, the log of
  the destructor calls, each the address of an element, and the type of the elements, of which only
  the flag \<^verbatim>\<open>type_flag_zeroinit\<close> is read. A \<^verbatim>\<open>memset\<close> of a negative size, which C turns into a huge one, and
  the other undefined behaviour are \<open>None\<close>. Counts are unbounded integers.
\<close>

record memory_chunk =
  chunk_memory :: int
  used_count :: int
  capacity_count :: int

record objectarray_memory_block =
  oa_live :: "(int \<times> int) list"
  oa_mem :: "int \<Rightarrow> u8"
  oa_destructed :: "int list"
  oa_zeroinit :: bool
  oa_stride :: int
  oa_total_allocated_count :: int
  oa_finalized :: bool
  oa_handles :: "memory_chunk list"

datatype oa_error = oa_bad_alloc | not_zeroinit | no_destructor

type_synonym 'a oa_result = "(oa_error + 'a) \<times> objectarray_memory_block"

definition oa_append_memory :: "malloc_fn \<Rightarrow> int \<Rightarrow> objectarray_memory_block \<Rightarrow> unit oa_result" where
  "oa_append_memory mal count st =
     (case mal (oa_live st) (oa_stride st * count) of
        None \<Rightarrow> (Inl oa_bad_alloc, st)
      | Some p \<Rightarrow>
          (Inr (), st\<lparr>oa_live := (p, oa_stride st * count) # oa_live st,
                      oa_handles := oa_handles st @ [\<lparr> chunk_memory = p, used_count = 0, capacity_count = count \<rparr>],
                      oa_total_allocated_count := oa_total_allocated_count st + count\<rparr>))"

definition make_objectarray_memory_block ::
  "malloc_fn \<Rightarrow> bool \<Rightarrow> bool \<Rightarrow> int \<Rightarrow> int \<Rightarrow> (int \<times> int) list \<Rightarrow> (int \<Rightarrow> u8) \<Rightarrow> unit oa_result" where
  "make_objectarray_memory_block mal has_destructor zeroinit stride initial_count blocks bytes =
     (let st = \<lparr> oa_live = blocks, oa_mem = bytes, oa_destructed = [], oa_zeroinit = zeroinit, oa_stride = stride,
                 oa_total_allocated_count = 0, oa_finalized = False, oa_handles = [] \<rparr>
      in if \<not> has_destructor then (Inl no_destructor, st) else oa_append_memory mal initial_count st)"

definition oa_memset0 :: "int \<Rightarrow> int \<Rightarrow> objectarray_memory_block \<Rightarrow> objectarray_memory_block option" where
  "oa_memset0 p n st =
     (if n < 0 then None else Some (st\<lparr>oa_mem := (\<lambda>a. if p \<le> a \<and> a < p + n then 0 else oa_mem st a)\<rparr>))"

definition data_destruct_strided :: "int \<Rightarrow> int \<Rightarrow> objectarray_memory_block \<Rightarrow> objectarray_memory_block" where
  "data_destruct_strided p count st =
     st\<lparr>oa_destructed := oa_destructed st @ map (\<lambda>k. p + oa_stride st * int k) [0..<nat count]\<rparr>"

definition oa_free :: "int \<Rightarrow> objectarray_memory_block \<Rightarrow> objectarray_memory_block option" where
  "oa_free p st =
     (if p \<in> fst ` set (oa_live st) then Some (st\<lparr>oa_live := filter (\<lambda>(q, _). q \<noteq> p) (oa_live st)\<rparr>) else None)"

text \<open>Destructing the elements of a chunk and freeing its memory.\<close>

definition drop_chunk :: "memory_chunk \<Rightarrow> objectarray_memory_block \<Rightarrow> objectarray_memory_block option" where
  "drop_chunk mc st = oa_free (chunk_memory mc) (data_destruct_strided (chunk_memory mc) (used_count mc) st)"

fun drop_chunks :: "memory_chunk list \<Rightarrow> objectarray_memory_block \<Rightarrow> objectarray_memory_block option" where
  "drop_chunks [] st = Some st"
| "drop_chunks (mc # mcs) st = (case drop_chunk mc st of None \<Rightarrow> None | Some st \<Rightarrow> drop_chunks mcs st)"

definition free_objectarray_memory_block :: "objectarray_memory_block \<Rightarrow> objectarray_memory_block option" where
  "free_objectarray_memory_block st = drop_chunks (oa_handles st) st"

definition set_last_used :: "int \<Rightarrow> objectarray_memory_block \<Rightarrow> objectarray_memory_block" where
  "set_last_used n st =
     st\<lparr>oa_handles := butlast (oa_handles st) @ [(last (oa_handles st))\<lparr>used_count := n\<rparr>]\<rparr>"

definition oa_allocate :: "malloc_fn \<Rightarrow> int \<Rightarrow> objectarray_memory_block \<Rightarrow> (int oa_result) option" where
  "oa_allocate mal count st =
     (let mc = last (oa_handles st);
          (r, st) = (if capacity_count mc - used_count mc < count
                     then oa_append_memory mal (max (oa_total_allocated_count st) count) st
                     else (Inr (), st))
      in case r of
           Inl e \<Rightarrow> Some (Inl e, st)
         | Inr _ \<Rightarrow>
             (let mc = last (oa_handles st);
                  result = chunk_memory mc + oa_stride st * used_count mc;
                  st = set_last_used (used_count mc + count) st
              in if oa_zeroinit st
                 then map_option (\<lambda>st. (Inr result, st)) (oa_memset0 result (oa_stride st * count) st)
                 else Some (Inl not_zeroinit, st)))"

text \<open>The end of a resize: what the source takes for the new elements is set to zero.\<close>

definition oa_zero_new :: "int \<Rightarrow> int \<Rightarrow> int \<Rightarrow> objectarray_memory_block \<Rightarrow> (int oa_result) option" where
  "oa_zero_new count previous_count result st =
     (if oa_zeroinit st
      then map_option (\<lambda>st. (Inr result, st))
             (oa_memset0 (chunk_memory (last (oa_handles st)) + oa_stride st * previous_count)
                (oa_stride st * (count - previous_count)) st)
      else Some (Inl not_zeroinit, st))"

definition oa_resize :: "malloc_fn \<Rightarrow> int \<Rightarrow> int \<Rightarrow> objectarray_memory_block \<Rightarrow> (int oa_result) option" where
  "oa_resize mal previous_allocated count st =
     (let mc = last (oa_handles st);
          previous_index = (previous_allocated - chunk_memory mc) div oa_stride st;
          previous_count = used_count mc - previous_index
      in if capacity_count mc - previous_index < count
         then (case oa_append_memory mal (max (oa_total_allocated_count st) count) st of
                 (Inl e, st) \<Rightarrow> Some (Inl e, st)
               | (Inr _, st) \<Rightarrow>
                   (let old = butlast (oa_handles st); new_mc = last (oa_handles st)
                    in case (if previous_count > 0
                             then (let shrunk = butlast old @ [(last old)\<lparr>used_count := used_count (last old) - previous_count\<rparr>];
                                       st = st\<lparr>oa_handles := shrunk @ [new_mc],
                                               oa_mem := (\<lambda>a. if chunk_memory new_mc \<le> a \<and> a < chunk_memory new_mc + previous_count
                                                              then oa_mem st (previous_allocated + (a - chunk_memory new_mc))
                                                              else oa_mem st a)\<rparr>
                                   in if previous_allocated = chunk_memory (last old)
                                      then map_option (\<lambda>st. st\<lparr>oa_handles := butlast old @ [new_mc]\<rparr>)
                                             (oa_free (chunk_memory (last old)) st)
                                      else Some st)
                             else Some st) of
                         None \<Rightarrow> None
                       | Some st \<Rightarrow>
                           oa_zero_new count previous_count (chunk_memory (last (oa_handles st))) (set_last_used count st)))
         else oa_zero_new count previous_count previous_allocated
                (if count \<ge> previous_count
                 then set_last_used (used_count mc + (count - previous_count)) st
                 else set_last_used (used_count mc - (previous_count - count))
                        (data_destruct_strided (previous_allocated + oa_stride st * count) (previous_count - count) st)))"

definition oa_finalize :: "objectarray_memory_block \<Rightarrow> objectarray_memory_block" where
  "oa_finalize st = st\<lparr>oa_finalized := True\<rparr>"

definition oa_reset :: "objectarray_memory_block \<Rightarrow> objectarray_memory_block option" where
  "oa_reset st =
     (if length (oa_handles st) > 1
      then (case drop_chunks (butlast (oa_handles st)) st of
              None \<Rightarrow> None
            | Some st \<Rightarrow>
                (let mc = last (oa_handles st)
                 in Some ((data_destruct_strided (chunk_memory mc) (used_count mc) st)\<lparr>oa_handles := [mc\<lparr>used_count := 0\<rparr>]\<rparr>)))
      else Some st)"

definition get_memory_block_objectarray_allocator_api :: "memory_block_type \<Rightarrow> string option" where
  "get_memory_block_objectarray_allocator_api mbt =
     (case mbt of
        external_memory_block_type \<Rightarrow> Some ''Cannot get an objectarray allocator API from an external_memory_block''
      | fixed_size_pod_memory_block_type \<Rightarrow> Some ''Cannot get an objectarray allocator API from an fixed_size_pod_memory_block''
      | pod_memory_block_type \<Rightarrow> Some ''Cannot get an objectarray allocator API from a pod_memory_block''
      | zeroinit_memory_block_type \<Rightarrow> Some ''Cannot get an objectarray allocator API from a zeroinit_memory_block''
      | objectarray_memory_block_type \<Rightarrow> None
      | executable_memory_block_type \<Rightarrow> Some ''Cannot get an objectarray allocator API from an executable_memory_block''
      | memmap_memory_block_type \<Rightarrow> Some ''Cannot get an objectarray allocator API from a memmap_memory_block''
      | array_memory_block_type \<Rightarrow> Some ''unknown memory block type'')"

section \<open>Arrays of objects are not kept intact\<close>

definition oa_start :: objectarray_memory_block where
  "oa_start = snd (make_objectarray_memory_block bump_malloc True True 8 4 [] (\<lambda>_. 255))"

text \<open>
  A block with room for four elements of eight bytes: an array of two at 16 and one of one at 32, all bytes
  of the three elements set to 1, the bytes behind them still as the heap gave them.
\<close>

definition oa_filled :: objectarray_memory_block where
  "oa_filled = (let st = snd (the (oa_allocate bump_malloc 1 (snd (the (oa_allocate bump_malloc 2 oa_start)))))
                in st\<lparr>oa_mem := (\<lambda>a. if 16 \<le> a \<and> a < 40 then 1 else 255)\<rparr>)"

text \<open>
  Resizing the last array of objects damages memory. In place, the zeros for the new elements are
  written relative to the chunk instead of the array: an element of another array is erased and the new
  element is not. When the array moves, as many bytes are copied as it has elements. Shrinking
  calls \<^verbatim>\<open>memset\<close> with a negative size. And a reset of a block with one chunk destructs nothing and keeps
  its elements in use.
\<close>

lemma objectarray_resize_damages:
  "(case oa_resize bump_malloc 32 2 oa_filled of
      Some (Inr r, st) \<Rightarrow> r = 32 \<and> map (oa_mem oa_filled) [16, 24, 32, 40] = [1, 1, 1, 255] \<and> map (oa_mem st) [16, 24, 32, 40] = [1, 0, 1, 255]
    | _ \<Rightarrow> False)
   \<and> (case oa_resize bump_malloc 32 4 oa_filled of
      Some (Inr r, st) \<Rightarrow> r = 48 \<and> map (oa_mem oa_filled) [32, 33, 39] = [1, 1, 1] \<and> map (oa_mem st) [48, 49, 55] = [1, 255, 255]
    | _ \<Rightarrow> False)
   \<and> oa_resize bump_malloc 32 0 oa_filled = None
   \<and> oa_reset oa_filled = Some oa_filled"
proof (intro conjI)
  show "oa_reset oa_filled = Some oa_filled"
  proof -
    have "length (oa_handles oa_filled) = 1" by code_simp
    then show ?thesis by (simp add: oa_reset_def)
  qed
qed code_simp+

end
