(* ===== verification/Shape.thy ===== *)
theory Shape
  imports Calendar "HOL-Library.Multiset"
begin

text \<open>
  Shapes, strides and indices: \<^verbatim>\<open>src/dynd/shape_tools.cpp\<close>, \<^verbatim>\<open>include/dynd/shape_tools.hpp\<close> and
  \<^verbatim>\<open>include/dynd/irange.hpp\<close>. A shape or a stride vector is the list of its entries. An \<^verbatim>\<open>intptr_t\<close> is an
  integer; where its 64-bit arithmetic can overflow on sensible inputs it is cast (signed overflow is undefined in C; the
  cast is the wrap-around of the machine). The type that an indexing error describes is represented by its axis and
  its shape.
\<close>

section \<open>Broadcasting\<close>

datatype shape_error = broadcast_error "int list" "int list" | broadcast_inputs_error "int list list"

definition shape_can_broadcast :: "int list \<Rightarrow> int list \<Rightarrow> bool" where
  "shape_can_broadcast dst_shape src_shape \<longleftrightarrow>
     (if length dst_shape \<ge> length src_shape
      then list_all2 (\<lambda>s d. \<not> (s \<noteq> 1 \<and> s \<noteq> d)) src_shape (drop (length dst_shape - length src_shape) dst_shape)
      else False)"

fun broadcast_loop :: "shape_error \<Rightarrow> int list \<Rightarrow> int list \<Rightarrow> int list \<Rightarrow> shape_error + int list" where
  "broadcast_loop e (d # dst_shape) (s # src_shape) (st # src_strides) =
     (if s = 1 then map_sum id (Cons 0) (broadcast_loop e dst_shape src_shape src_strides)
      else if s = d then map_sum id (Cons st) (broadcast_loop e dst_shape src_shape src_strides)
      else Inl e)"
| "broadcast_loop e _ _ _ = Inr []"

definition broadcast_to_shape :: "int list \<Rightarrow> int list \<Rightarrow> int list \<Rightarrow> shape_error + int list" where
  "broadcast_to_shape dst_shape src_shape src_strides =
     (if length src_shape > length dst_shape then Inl (broadcast_error dst_shape src_shape)
      else (let dimdelta = length dst_shape - length src_shape
            in map_sum id (append (replicate dimdelta 0))
                 (broadcast_loop (broadcast_error dst_shape src_shape) (drop dimdelta dst_shape) src_shape src_strides)))"

text \<open>One step of the broadcast of several inputs: a negative size is that of a variable sized dimension.\<close>

definition combine_size :: "int \<Rightarrow> int \<Rightarrow> int option" where
  "combine_size itershape_size size_k =
     (if itershape_size = 1 then Some size_k
      else if size_k < 0 then (if itershape_size > 0 then Some (- itershape_size) else Some (- 1))
      else if itershape_size \<ge> 0 then (if size_k \<noteq> 1 \<and> itershape_size \<noteq> size_k then None else Some itershape_size)
      else if itershape_size = - 1 \<and> size_k > 0 then Some (- size_k)
      else if size_k > 1 \<and> itershape_size \<noteq> - size_k then None
      else Some itershape_size)"

fun combine_sizes :: "int list \<Rightarrow> int list \<Rightarrow> int list option" where
  "combine_sizes (h # shape) (n # input) =
     (case combine_size h n of None \<Rightarrow> None | Some k \<Rightarrow> map_option (Cons k) (combine_sizes shape input))"
| "combine_sizes _ _ = Some []"

definition combine_input :: "int list \<Rightarrow> int list \<Rightarrow> int list option" where
  "combine_input shape input =
     (let dimdelta = length shape - length input
      in map_option (append (take dimdelta shape)) (combine_sizes (drop dimdelta shape) input))"

fun combine_inputs :: "int list \<Rightarrow> int list list \<Rightarrow> int list option" where
  "combine_inputs shape [] = Some shape"
| "combine_inputs shape (input # inputs) =
     (case combine_input shape input of None \<Rightarrow> None | Some shape \<Rightarrow> combine_inputs shape inputs)"

definition broadcast_ndim :: "int list list \<Rightarrow> nat" where
  "broadcast_ndim inputs = fold (\<lambda>input undim. if length input > undim then length input else undim) inputs (length (hd inputs))"

text \<open>The inputs are represented by their shapes; the axis permutation is always that of C order.\<close>

definition broadcast_input_shapes :: "int list list \<Rightarrow> shape_error + int list \<times> nat list" where
  "broadcast_input_shapes inputs =
     (let undim = broadcast_ndim inputs
      in case combine_inputs (replicate undim 1) inputs of
           None \<Rightarrow> Inl (broadcast_inputs_error inputs)
         | Some shape \<Rightarrow> Inr (shape, map (\<lambda>i. undim - i - 1) [0..<undim]))"

text \<open>The exception shows the shape as far as it has been updated.\<close>

fun incremental_loop :: "int list \<Rightarrow> int list \<Rightarrow> int list \<Rightarrow> int list + int list" where
  "incremental_loop acc (out_i # out_shape) (shape_i # shape) =
     (if shape_i \<noteq> 1
      then (if shape_i = - 1 then incremental_loop (acc @ [if out_i = 1 then - 1 else out_i]) out_shape shape
            else if out_i = 1 \<or> out_i = - 1 then incremental_loop (acc @ [shape_i]) out_shape shape
            else if shape_i \<noteq> out_i then Inl (acc @ out_i # out_shape)
            else incremental_loop (acc @ [out_i]) out_shape shape)
      else incremental_loop (acc @ [out_i]) out_shape shape)"
| "incremental_loop acc out_shape _ = Inr (acc @ out_shape)"

definition incremental_broadcast :: "int list \<Rightarrow> int list \<Rightarrow> shape_error + int list" where
  "incremental_broadcast out_shape shape =
     (if length out_shape < length shape then Inl (broadcast_error out_shape shape)
      else (let n = length out_shape - length shape
            in map_sum (\<lambda>out. broadcast_error out shape) id (incremental_loop (take n out_shape) (drop n out_shape) shape)))"

section \<open>Axis orders\<close>

text \<open>\<^verbatim>\<open>std::sort\<close> may order axes with equal strides in any way; the model keeps their order.\<close>

definition strides_to_axis_perm :: "int list \<Rightarrow> nat list" where
  "strides_to_axis_perm strides =
     (case map abs strides of
        [] \<Rightarrow> []
      | [_] \<Rightarrow> [0]
      | [a0, a1] \<Rightarrow> (if a0 \<ge> a1 then [1, 0] else [0, 1])
      | [a0, a1, a2] \<Rightarrow>
          (if a0 \<ge> a1
           then (if a1 \<ge> a2 then [2, 1, 0] else if a0 \<ge> a2 then [1, 2, 0] else [1, 0, 2])
           else (if a1 \<ge> a2 then (if a0 \<ge> a2 then [2, 0, 1] else [0, 2, 1]) else [0, 1, 2]))
      | abs_strides \<Rightarrow> sort_key (\<lambda>i. abs_strides ! i) (rev [0..<length strides]))"

definition axis_perm_to_strides :: "nat list \<Rightarrow> int list \<Rightarrow> int \<Rightarrow> int list \<Rightarrow> int list" where
  "axis_perm_to_strides axis_perm shape element_size out_strides =
     fst (fold (\<lambda>i_perm (out_strides, element_size).
            (let dim_size = shape ! i_perm;
                 out_strides = out_strides[i_perm := (if dim_size > 1 then element_size else 0)];
                 out_strides = out_strides[i_perm := dim_size]
             in (out_strides, element_size * dim_size))) axis_perm (out_strides, element_size))"

text \<open>
  The comparison of two axes: the value of \<open>ambiguous\<close> and, when it is false, of \<open>lessthan\<close>.
\<close>

fun compare_strides :: "nat \<Rightarrow> nat \<Rightarrow> int list list \<Rightarrow> bool \<Rightarrow> bool \<Rightarrow> bool \<times> bool" where
  "compare_strides i j [] ambiguous lessthan = (ambiguous, lessthan)"
| "compare_strides i j (op # operstrides) ambiguous lessthan =
     (if op ! i \<noteq> 0 \<and> op ! j \<noteq> 0
      then (if \<bar>op ! i\<bar> \<le> \<bar>op ! j\<bar> then (False, True)
            else if ambiguous then compare_strides i j operstrides False False
            else compare_strides i j operstrides ambiguous lessthan)
      else compare_strides i j operstrides ambiguous lessthan)"

text \<open>The position at which the insertion sort puts \<open>perm_i0\<close>, searching from \<open>i1\<close> down.\<close>

fun insert_position :: "int list list \<Rightarrow> nat list \<Rightarrow> nat \<Rightarrow> nat \<Rightarrow> nat \<Rightarrow> nat" where
  "insert_position operstrides axis_perm perm_i0 0 ipos = ipos"
| "insert_position operstrides axis_perm perm_i0 (Suc i1) ipos =
     (case compare_strides (axis_perm ! i1) perm_i0 operstrides True False of
        (ambiguous, lessthan) \<Rightarrow>
          if \<not> ambiguous
          then (if \<not> lessthan then insert_position operstrides axis_perm perm_i0 i1 i1 else ipos)
          else insert_position operstrides axis_perm perm_i0 i1 ipos)"

definition insert_axis :: "int list list \<Rightarrow> nat \<Rightarrow> nat list \<Rightarrow> nat list" where
  "insert_axis operstrides i0 axis_perm =
     (let ipos = insert_position operstrides axis_perm (axis_perm ! i0) i0 i0
      in if ipos \<noteq> i0
         then take ipos axis_perm @ (axis_perm ! i0) # take (i0 - ipos) (drop ipos axis_perm) @ drop (Suc i0) axis_perm
         else axis_perm)"

definition multistrides_to_axis_perm :: "nat \<Rightarrow> int list list \<Rightarrow> nat list" where
  "multistrides_to_axis_perm ndim operstrides =
     (if ndim = 0 then []
      else if ndim = 1 then [0]
      else if ndim = 2
      then (case compare_strides 0 1 operstrides True False of
              (ambiguous, lessthan) \<Rightarrow> if ambiguous \<or> \<not> lessthan then [1, 0] else [0, 1])
      else fold (insert_axis operstrides) [1..<ndim] (map (\<lambda>i. ndim - i - 1) [0..<ndim]))"

definition is_valid_perm :: "int list \<Rightarrow> bool" where
  "is_valid_perm perm =
     (let n = int (length perm)
      in fst (fold (\<lambda>v (ok, flags).
                if ok \<and> v \<ge> 0 \<and> v < n \<and> \<not> flags ! nat v then (True, flags[nat v := True]) else (False, flags))
              perm (True, replicate (length perm) False)))"

fun strides_are_f_contiguous :: "int \<Rightarrow> int list \<Rightarrow> int list \<Rightarrow> bool" where
  "strides_are_f_contiguous element_size (n # shape) (st # strides) =
     (if n \<noteq> 1 \<and> st \<noteq> element_size then False else strides_are_f_contiguous (element_size * n) shape strides)"
| "strides_are_f_contiguous element_size _ _ = True"

definition strides_are_c_contiguous :: "int \<Rightarrow> int list \<Rightarrow> int list \<Rightarrow> bool" where
  "strides_are_c_contiguous element_size shape strides = strides_are_f_contiguous element_size (rev shape) (rev strides)"

fun print_dims :: "int list \<Rightarrow> string" where
  "print_dims [] = ''''"
| "print_dims [n] = (if n \<ge> 0 then decimal (nat n) else ''var'')"
| "print_dims (n # shape) = (if n \<ge> 0 then decimal (nat n) else ''var'') @ '', '' @ print_dims shape"

definition print_shape :: "int list \<Rightarrow> string" where
  "print_shape shape = ''('' @ print_dims shape @ '')''"

section \<open>Index ranges\<close>

definition INTPTR_MIN :: int where
  "INTPTR_MIN = - (2 ^ 63)"

definition INTPTR_MAX :: int where
  "INTPTR_MAX = 2 ^ 63 - 1"

record irange =
  ir_start :: int
  ir_finish :: int
  ir_step :: int

definition irange_full :: irange where
  "irange_full = \<lparr> ir_start = INTPTR_MIN, ir_finish = INTPTR_MAX, ir_step = 1 \<rparr>"

definition irange_index :: "int \<Rightarrow> irange" where
  "irange_index idx = \<lparr> ir_start = idx, ir_finish = idx, ir_step = 0 \<rparr>"

definition irange_is_nop :: "irange \<Rightarrow> bool" where
  "irange_is_nop r \<longleftrightarrow> ir_start r = INTPTR_MIN \<and> ir_finish r = INTPTR_MAX \<and> ir_step r = 1"

definition irange_by :: "irange \<Rightarrow> int \<Rightarrow> irange" where
  "irange_by r step = r\<lparr>ir_step := step\<rparr>"

definition irange_less :: "irange \<Rightarrow> int \<Rightarrow> irange" where
  "irange_less r finish = r\<lparr>ir_finish := finish\<rparr>"

definition irange_less_equal :: "irange \<Rightarrow> int \<Rightarrow> irange" where
  "irange_less_equal r last_index = r\<lparr>ir_finish := (if last_index \<noteq> - 1 then cast64 (last_index + 1) else INTPTR_MAX)\<rparr>"

definition irange_greater :: "irange \<Rightarrow> int \<Rightarrow> irange" where
  "irange_greater r finish = r\<lparr>ir_finish := finish\<rparr>"

definition irange_greater_equal :: "irange \<Rightarrow> int \<Rightarrow> irange" where
  "irange_greater_equal r last_index = r\<lparr>ir_finish := (if last_index \<noteq> 0 then cast64 (last_index - 1) else INTPTR_MAX)\<rparr>"

text \<open>The operators with the range on their right: a bound below, strict or not, and a bound above.\<close>

definition less_irange :: "int \<Rightarrow> irange \<Rightarrow> irange" where
  "less_irange start_minus_one r = r\<lparr>ir_start := cast64 (start_minus_one + 1)\<rparr>"

definition less_equal_irange :: "int \<Rightarrow> irange \<Rightarrow> irange" where
  "less_equal_irange start r = r\<lparr>ir_start := start\<rparr>"

definition greater_irange :: "int \<Rightarrow> irange \<Rightarrow> irange" where
  "greater_irange start_plus_one r = r\<lparr>ir_start := cast64 (start_plus_one - 1)\<rparr>"

definition greater_equal_irange :: "int \<Rightarrow> irange \<Rightarrow> irange" where
  "greater_equal_irange start r = r\<lparr>ir_start := start\<rparr>"

section \<open>Indexing\<close>

text \<open>The exceptions describe the dimension alone, or the axis of the shape of a type.\<close>

datatype where_bad = In_Dimension int | In_Axis int "int list"

datatype index_error = index_out_of_bounds int where_bad | irange_out_of_bounds irange where_bad

definition describe :: "(int \<times> int list) option \<Rightarrow> int \<Rightarrow> where_bad" where
  "describe error_tp dimension_size =
     (case error_tp of Some (axis, shape) \<Rightarrow> In_Axis axis shape | None \<Rightarrow> In_Dimension dimension_size)"

definition apply_single_index :: "int \<Rightarrow> int \<Rightarrow> int list option \<Rightarrow> index_error + int" where
  "apply_single_index i0 dimension_size error_shape =
     (let bad = index_out_of_bounds i0 (describe (map_option (Pair 0) error_shape) dimension_size)
      in if i0 \<ge> 0 then (if i0 < dimension_size then Inr i0 else Inl bad)
         else if i0 \<ge> - dimension_size then Inr (i0 + dimension_size)
         else Inl bad)"

record resolved_index =
  out_remove_dimension :: bool
  out_start_index :: int
  out_index_stride :: int
  out_dimension_size :: int

definition range_result :: "int \<Rightarrow> int \<Rightarrow> int \<Rightarrow> resolved_index" where
  "range_result start step n =
     \<lparr> out_remove_dimension = False, out_start_index = start, out_index_stride = step, out_dimension_size = n \<rparr>"

definition empty_slice :: resolved_index where
  "empty_slice = range_result 0 1 0"

definition apply_positive_step :: "irange \<Rightarrow> int \<Rightarrow> index_error \<Rightarrow> index_error + resolved_index" where
  "apply_positive_step r dimension_size bad =
     (let step = ir_step r
      in case (if ir_start r \<ge> 0 then (if ir_start r < dimension_size then Some (ir_start r) else None)
               else if ir_start r \<ge> - dimension_size then Some (ir_start r + dimension_size)
               else Some 0) of
           None \<Rightarrow> Inl bad
         | Some start \<Rightarrow>
             (case (if ir_finish r \<ge> 0 then Some (if ir_finish r \<le> dimension_size then ir_finish r else dimension_size)
                    else if ir_finish r \<ge> - dimension_size then Some (ir_finish r + dimension_size)
                    else None) of
                None \<Rightarrow> Inl bad
              | Some finish \<Rightarrow>
                  (let n = finish - start
                   in if n > 0
                      then (if step = 1 then Inr (range_result start 1 n)
                            else Inr (range_result start step (cast64 (cast64 (n + step) - 1) sdiv step)))
                      else Inr empty_slice)))"

definition apply_negative_step :: "irange \<Rightarrow> int \<Rightarrow> index_error \<Rightarrow> index_error + resolved_index" where
  "apply_negative_step r dimension_size bad =
     (let step = ir_step r
      in case (if ir_start r \<ge> 0 then (if ir_start r < dimension_size then Some (ir_start r) else None)
               else if ir_start r \<ge> - dimension_size then Some (ir_start r + dimension_size)
               else if ir_start r = INTPTR_MIN then Some (dimension_size - 1)
               else None) of
           None \<Rightarrow> Inl bad
         | Some start \<Rightarrow>
             (case (if ir_finish r \<ge> 0
                    then (if ir_finish r < dimension_size then Some (ir_finish r)
                          else if ir_finish r = INTPTR_MAX then Some (- 1)
                          else None)
                    else if ir_finish r \<ge> - dimension_size then Some (ir_finish r + dimension_size)
                    else Some (- 1)) of
                None \<Rightarrow> Inl bad
              | Some finish \<Rightarrow>
                  (let n = start - finish
                   in if n > 0
                      then (if step = - 1 then Inr (range_result start (- 1) n)
                            else Inr (range_result start step (cast64 (cast64 (n + cast64 (- step)) - 1) sdiv cast64 (- step))))
                      else Inr empty_slice)))"

definition apply_single_linear_index ::
  "irange \<Rightarrow> int \<Rightarrow> (int \<times> int list) option \<Rightarrow> index_error + resolved_index" where
  "apply_single_linear_index irnge dimension_size error_tp =
     (if ir_step irnge = 0
      then (let idx = ir_start irnge; bad = index_out_of_bounds idx (describe error_tp dimension_size);
                one = (\<lambda>k. Inr \<lparr> out_remove_dimension = True, out_start_index = k, out_index_stride = 1, out_dimension_size = 1 \<rparr>)
            in if idx \<ge> 0 then (if idx < dimension_size then one idx else Inl bad)
               else if idx \<ge> - dimension_size then one (idx + dimension_size)
               else Inl bad)
      else (let bad = irange_out_of_bounds irnge (describe error_tp dimension_size)
            in if ir_step irnge > 0 then apply_positive_step irnge dimension_size bad
               else apply_negative_step irnge dimension_size bad))"

section \<open>Which indices a range selects\<close>

text \<open>
  The reference: a single index, counted from the end when it is negative, or the indices from the start on by
  the step, up to the end of the range; the bounds are counted from the end when they are negative and cut
  off at the end of the dimension on the side that lies in the direction of the step.
\<close>

definition slice_first :: "irange \<Rightarrow> int \<Rightarrow> int" where
  "slice_first r n =
     (if ir_step r > 0 then (if ir_start r < 0 then max 0 (ir_start r + n) else ir_start r)
      else if ir_start r = INTPTR_MIN then n - 1
      else if ir_start r < 0 then ir_start r + n else ir_start r)"

definition slice_end :: "irange \<Rightarrow> int \<Rightarrow> int" where
  "slice_end r n =
     (if ir_step r > 0 then (if ir_finish r < 0 then ir_finish r + n else min (ir_finish r) n)
      else if ir_finish r = INTPTR_MAX then - 1
      else if ir_finish r < 0 then max (- 1) (ir_finish r + n) else ir_finish r)"

definition selected :: "irange \<Rightarrow> int \<Rightarrow> int set option" where
  "selected r n =
     (if ir_step r = 0
      then (if - n \<le> ir_start r \<and> ir_start r < n then Some {ir_start r mod n} else None)
      else if ir_step r > 0
      then (if ir_start r \<ge> n \<or> ir_finish r < - n then None
            else Some {x. slice_first r n \<le> x \<and> x < slice_end r n \<and> ir_step r dvd x - slice_first r n})
      else (if ir_start r \<ge> n \<or> ir_start r < - n \<and> ir_start r \<noteq> INTPTR_MIN
               \<or> ir_finish r \<ge> n \<and> ir_finish r \<noteq> INTPTR_MAX then None
            else Some {x. slice_end r n < x \<and> x \<le> slice_first r n \<and> ir_step r dvd x - slice_first r n}))"

definition indices :: "resolved_index \<Rightarrow> int list" where
  "indices q = map (\<lambda>k. out_start_index q + out_index_stride q * int k) [0..<nat (out_dimension_size q)]"

lemma count_steps:
  assumes "0 < s" "0 < (m :: int)"
  shows "int k < (m + s - 1) div s \<longleftrightarrow> s * int k < m"
proof -
  define q where "q = (m + s - 1) div s"
  have q: "q * s \<le> m + s - 1" "m + s - 1 < q * s + s"
    using div_mult_mod_eq[of "m + s - 1" s] pos_mod_bound[OF assms(1), of "m + s - 1"] pos_mod_sign[OF assms(1), of "m + s - 1"]
    unfolding q_def by linarith+
  have "int k < q \<longleftrightarrow> s * int k < m"
  proof
    assume "int k < q"
    then have "(int k + 1) * s \<le> q * s" using assms(1) by (intro mult_right_mono) simp_all
    then show "s * int k < m" using q(1) by (simp add: algebra_simps)
  next
    assume *: "s * int k < m"
    show "int k < q"
    proof (rule ccontr)
      assume "\<not> int k < q"
      then have "q * s \<le> int k * s" using assms(1) by (intro mult_right_mono) simp_all
      then show False using q(2) * by (simp add: mult.commute)
    qed
  qed
  then show ?thesis by (simp add: q_def)
qed

lemma stepping_up:
  assumes "0 < s" "0 < (m :: int)"
  shows "(\<lambda>k. a + s * int k) ` {k. int k < (m + s - 1) div s} = {x. a \<le> x \<and> x < a + m \<and> s dvd x - a}"
proof (intro set_eqI iffI)
  fix x assume "x \<in> {x. a \<le> x \<and> x < a + m \<and> s dvd x - a}"
  then obtain j where j: "x - a = s * j" "0 \<le> x - a" "x < a + m" by (auto simp: dvd_def)
  then have "0 \<le> j" using assms(1) by (simp add: zero_le_mult_iff)
  then have "x = a + s * int (nat j)" "int (nat j) < (m + s - 1) div s"
    using j count_steps[OF assms, of "nat j"] by simp_all
  then show "x \<in> (\<lambda>k. a + s * int k) ` {k. int k < (m + s - 1) div s}" by blast
qed (use assms count_steps[OF assms] in auto)

lemma stepping_down:
  assumes "0 < s" "0 < (m :: int)"
  shows "(\<lambda>k. a + (- s) * int k) ` {k. int k < (m + s - 1) div s} = {x. a - m < x \<and> x \<le> a \<and> - s dvd x - a}"
proof (intro set_eqI iffI)
  fix x assume "x \<in> {x. a - m < x \<and> x \<le> a \<and> - s dvd x - a}"
  then obtain j where j: "x - a = - s * j" "x \<le> a" "a - m < x" unfolding dvd_def by blast
  then have e: "a - x = s * j" by simp
  then have "0 \<le> j" using j(2) assms(1) by (metis diff_ge_0_iff_ge zero_le_mult_iff not_less_iff_gr_or_eq leD)
  moreover have "s * j < m" using e j(3) by linarith
  ultimately have "x = a + (- s) * int (nat j)" "int (nat j) < (m + s - 1) div s"
    using e count_steps[OF assms, of "nat j"] by simp_all
  then show "x \<in> (\<lambda>k. a + (- s) * int k) ` {k. int k < (m + s - 1) div s}" by blast
next
  fix x assume "x \<in> (\<lambda>k. a + (- s) * int k) ` {k. int k < (m + s - 1) div s}"
  then obtain k where k: "x = a + (- s) * int k" "s * int k < m" using count_steps[OF assms] by blast
  have "0 \<le> s * int k" using assms(1) by simp
  moreover have "x - a = - s * int k" using k(1) by simp
  then have "- s dvd x - a" by (rule dvdI)
  ultimately show "x \<in> {x. a - m < x \<and> x \<le> a \<and> - s dvd x - a}" using k by simp
qed

lemma set_indices: "set (indices q) = (\<lambda>k. out_start_index q + out_index_stride q * int k) ` {k. int k < out_dimension_size q}"
proof -
  have "{0..<nat (out_dimension_size q)} = {k. int k < out_dimension_size q}" by auto
  then show ?thesis by (simp add: indices_def)
qed

lemma steps_cast:
  assumes "0 < s" "0 < m" "m + s < 2 ^ 63"
  shows "cast64 (cast64 (m + s) - 1) sdiv s = (m + s - 1) div s"
proof -
  have "cast64 (m + s) = m + s" "cast64 (m + s - 1) = m + s - 1" using assms by (simp_all add: cast_id)
  then show ?thesis using assms by (simp add: sdiv_nonneg)
qed

lemma range_result_indices:
  assumes "0 < s" "0 < m"
  shows "set (indices (range_result a s ((m + s - 1) div s))) = {x. a \<le> x \<and> x < a + m \<and> s dvd x - a}"
    and "set (indices (range_result a (- s) ((m + s - 1) div s))) = {x. a - m < x \<and> x \<le> a \<and> - s dvd x - a}"
    and "set (indices (range_result a 1 m)) = {x. a \<le> x \<and> x < a + m}"
    and "set (indices (range_result a (- 1) m)) = {x. a - m < x \<and> x \<le> a}"
  using stepping_up[OF assms, of a] stepping_down[OF assms, of a] stepping_up[of 1 m a] stepping_down[of 1 m a] assms(2)
  unfolding set_indices by (simp_all add: range_result_def)

lemma empty_indices: "set (indices empty_slice) = {}"
  by (simp add: indices_def empty_slice_def range_result_def)

definition slice_of :: "int \<Rightarrow> int \<Rightarrow> int \<Rightarrow> resolved_index" where
  "slice_of first step m =
     (if m > 0
      then (if \<bar>step\<bar> = 1 then range_result first step m
            else range_result first step (cast64 (cast64 (m + \<bar>step\<bar>) - 1) sdiv \<bar>step\<bar>))
      else empty_slice)"

lemma positive_step_form:
  assumes "0 < ir_step r" "0 \<le> n"
  shows "apply_positive_step r n bad =
    (if ir_start r \<ge> n \<or> ir_finish r < - n then Inl bad
     else Inr (slice_of (slice_first r n) (ir_step r) (slice_end r n - slice_first r n)))"
proof -
  have start: "(if ir_start r \<ge> 0 then (if ir_start r < n then Some (ir_start r) else None)
      else if ir_start r \<ge> - n then Some (ir_start r + n) else Some 0) = (if ir_start r \<ge> n then None else Some (slice_first r n))"
    using assms by (auto simp: slice_first_def)
  have fin: "(if ir_finish r \<ge> 0 then Some (if ir_finish r \<le> n then ir_finish r else n)
      else if ir_finish r \<ge> - n then Some (ir_finish r + n) else None) = (if ir_finish r < - n then None else Some (slice_end r n))"
    using assms by (auto simp: slice_end_def)
  show ?thesis
    unfolding apply_positive_step_def Let_def start fin slice_of_def using assms(1) by auto
qed

lemma negative_step_form:
  assumes "ir_step r < 0" "- (2 ^ 63) < ir_step r" "0 \<le> n" "n < 2 ^ 63"
  shows "apply_negative_step r n bad =
    (if ir_start r \<ge> n \<or> ir_start r < - n \<and> ir_start r \<noteq> INTPTR_MIN \<or> ir_finish r \<ge> n \<and> ir_finish r \<noteq> INTPTR_MAX then Inl bad
     else Inr (slice_of (slice_first r n) (ir_step r) (slice_first r n - slice_end r n)))"
proof -
  have c: "cast64 (- ir_step r) = - ir_step r" using assms by (intro cast_id) simp_all
  have start: "(if ir_start r \<ge> 0 then (if ir_start r < n then Some (ir_start r) else None)
      else if ir_start r \<ge> - n then Some (ir_start r + n)
      else if ir_start r = INTPTR_MIN then Some (n - 1) else None)
    = (if ir_start r \<ge> n \<or> ir_start r < - n \<and> ir_start r \<noteq> INTPTR_MIN then None else Some (slice_first r n))"
    using assms by (auto simp: slice_first_def INTPTR_MIN_def)
  have fin: "(if ir_finish r \<ge> 0
       then (if ir_finish r < n then Some (ir_finish r) else if ir_finish r = INTPTR_MAX then Some (- 1) else None)
       else if ir_finish r \<ge> - n then Some (ir_finish r + n) else Some (- 1))
    = (if ir_finish r \<ge> n \<and> ir_finish r \<noteq> INTPTR_MAX then None else Some (slice_end r n))"
    using assms by (auto simp: slice_end_def INTPTR_MAX_def)
  show ?thesis
    unfolding apply_negative_step_def Let_def start fin slice_of_def c using assms(1) by auto
qed

lemma slice_of_up:
  assumes "0 < s" "a \<ge> 0" "b \<le> n" "n + s < 2 ^ 63"
  shows "set (indices (slice_of a s (b - a))) = {x. a \<le> x \<and> x < b \<and> s dvd x - a}"
    "0 \<le> out_dimension_size (slice_of a s (b - a))" "\<not> out_remove_dimension (slice_of a s (b - a))"
proof -
  have c: "0 < b - a \<Longrightarrow> cast64 (cast64 (b - a + s) - 1) sdiv s = (b - a + s - 1) div s" using assms by (intro steps_cast) simp_all
  show "set (indices (slice_of a s (b - a))) = {x. a \<le> x \<and> x < b \<and> s dvd x - a}"
    using range_result_indices(1,3)[OF assms(1), of "b - a" a] c assms(1)
    by (auto simp: slice_of_def empty_indices)
  show "0 \<le> out_dimension_size (slice_of a s (b - a))" "\<not> out_remove_dimension (slice_of a s (b - a))"
    using c assms(1) by (auto simp: slice_of_def range_result_def empty_slice_def pos_imp_zdiv_nonneg_iff)
qed

lemma slice_of_down:
  assumes "s < 0" "a < n" "- 1 \<le> b" "n - s < 2 ^ 63"
  shows "set (indices (slice_of a s (a - b))) = {x. b < x \<and> x \<le> a \<and> s dvd x - a}"
    "0 \<le> out_dimension_size (slice_of a s (a - b))" "\<not> out_remove_dimension (slice_of a s (a - b))"
proof -
  have c: "0 < a - b \<Longrightarrow> cast64 (cast64 (a - b + - s) - 1) sdiv - s = (a - b + - s - 1) div - s" using assms by (intro steps_cast) simp_all
  show "set (indices (slice_of a s (a - b))) = {x. b < x \<and> x \<le> a \<and> s dvd x - a}"
    using range_result_indices(2,4)[of "- s" "a - b" a] c assms(1)
    by (auto simp: slice_of_def empty_indices)
  show "0 \<le> out_dimension_size (slice_of a s (a - b))" "\<not> out_remove_dimension (slice_of a s (a - b))"
    using c assms(1) by (auto simp: slice_of_def range_result_def empty_slice_def pos_imp_zdiv_nonneg_iff)
qed

lemma selected_in_bounds:
  assumes "0 \<le> n" "selected r n = Some X" "x \<in> X"
  shows "0 \<le> x \<and> x < n"
proof -
  consider "ir_step r = 0" | "0 < ir_step r" | "ir_step r < 0" by linarith
  then show ?thesis
  proof cases
    case 1
    then show ?thesis using assms by (auto simp: selected_def split: if_splits)
  next
    case 2
    then have "ir_start r < n" "slice_first r n \<le> x" "x < slice_end r n" using assms(2,3) by (auto simp: selected_def split: if_splits)
    then show ?thesis using 2 assms(1) by (auto simp: slice_first_def slice_end_def split: if_splits)
  next
    case 3
    then have "ir_start r < n" "x \<le> slice_first r n" "slice_end r n < x" "ir_finish r < n \<or> ir_finish r = INTPTR_MAX"
      using assms(2,3) by (auto simp: selected_def split: if_splits)
    then show ?thesis using 3 assms(1) by (auto simp: slice_first_def slice_end_def split: if_splits)
  qed
qed



text \<open>
  A step close to the limit of 64 bits loses the selected element, or makes the size negative.
\<close>

lemma huge_step_overflows:
  "apply_single_linear_index \<lparr> ir_start = 0, ir_finish = 10, ir_step = INTPTR_MAX \<rparr> 10 None
    = Inr (range_result 0 INTPTR_MAX 0)"
  "apply_single_linear_index \<lparr> ir_start = 0, ir_finish = 2, ir_step = INTPTR_MAX \<rparr> 2 None
    = Inr (range_result 0 INTPTR_MAX (- 1))"
  "selected \<lparr> ir_start = 0, ir_finish = 10, ir_step = INTPTR_MAX \<rparr> 10 = Some {0}"
  "selected \<lparr> ir_start = 0, ir_finish = 2, ir_step = INTPTR_MAX \<rparr> 2 = Some {0}"
proof -
  have d: "x = 0" if "0 \<le> x" "x < 10" "INTPTR_MAX dvd x" for x
    using zdvd_imp_le[OF that(3)] that(1,2) by (fastforce simp: INTPTR_MAX_def)
  show "selected \<lparr> ir_start = 0, ir_finish = 10, ir_step = INTPTR_MAX \<rparr> 10 = Some {0}"
    "selected \<lparr> ir_start = 0, ir_finish = 2, ir_step = INTPTR_MAX \<rparr> 2 = Some {0}"
    using d by (auto simp: selected_def slice_first_def slice_end_def) (simp_all add: INTPTR_MAX_def)
qed code_simp+

section \<open>What broadcasting means\<close>

text \<open>The entry of a shape counted from its last axis, one beyond its first.\<close>

definition from_last :: "int list \<Rightarrow> nat \<Rightarrow> int" where
  "from_last s k = (if k < length s then s ! (length s - 1 - k) else 1)"

text \<open>The offset of an element, and the index of the source element that a destination index stands for.\<close>

definition offset :: "int list \<Rightarrow> int list \<Rightarrow> int" where
  "offset strides idx = sum_list (map2 (*) strides idx)"

definition inside :: "int list \<Rightarrow> int list \<Rightarrow> bool" where
  "inside idx shape \<longleftrightarrow> list_all2 (\<lambda>i n. 0 \<le> i \<and> i < n) idx shape"

definition source_index :: "int list \<Rightarrow> int list \<Rightarrow> int list" where
  "source_index src_shape idx = map2 (\<lambda>s i. if s = 1 then 0 else i) src_shape (drop (length idx - length src_shape) idx)"

lemma broadcast_loop_error: "broadcast_loop e dst src strides = Inl e' \<Longrightarrow> e' = e"
  by (induction e dst src strides rule: broadcast_loop.induct) (auto split: if_splits simp: map_sum_def split: sum.splits)

lemma broadcast_loop_iff:
  assumes "length dst = length src" "length src = length strides"
  shows "(\<exists>out. broadcast_loop e dst src strides = Inr out) \<longleftrightarrow> list_all2 (\<lambda>s d. \<not> (s \<noteq> 1 \<and> s \<noteq> d)) src dst"
  using assms
proof (induction dst src strides rule: list_induct3)
  case (Cons d dst s src st strides)
  then show ?case by (cases "broadcast_loop e dst src strides") auto
qed simp

lemma broadcast_loop_ok:
  assumes "length dst = length src" "length src = length strides"
    and "broadcast_loop e dst src strides = Inr out" "inside idx dst"
  shows "length out = length dst \<and> offset out idx = offset strides (map2 (\<lambda>s i. if s = 1 then 0 else i) src idx)
    \<and> inside (map2 (\<lambda>s i. if s = 1 then 0 else i) src idx) src"
  using assms
proof (induction dst src strides arbitrary: out idx rule: list_induct3)
  case Nil
  then show ?case by (simp add: inside_def offset_def)
next
  case (Cons d dst s src st strides)
  obtain i ks where idx: "idx = i # ks" "0 \<le> i" "i < d" "inside ks dst"
    using Cons.prems(2) by (auto simp: inside_def list_all2_Cons2)
  obtain o' where o': "broadcast_loop e dst src strides = Inr o'" "out = (if s = 1 then 0 else st) # o'" "s = 1 \<or> s = d"
    using Cons.prems(1) by (cases "broadcast_loop e dst src strides") (auto split: if_splits)
  show ?case using Cons.IH[OF o'(1) idx(4)] o' idx by (auto simp: inside_def offset_def)
qed

lemma broadcast_loop_length:
  assumes "length dst = length src" "length src = length strides" "broadcast_loop e dst src strides = Inr out"
  shows "length out = length dst"
  using assms
proof (induction dst src strides arbitrary: out rule: list_induct3)
  case (Cons d dst s src st strides)
  then show ?case by (cases "broadcast_loop e dst src strides") (auto split: if_splits)
qed simp

lemma length_inside: "inside idx shape \<Longrightarrow> length idx = length shape"
  by (auto simp: inside_def dest: list_all2_lengthD)

lemma inside_drop: "inside idx shape \<Longrightarrow> inside (drop n idx) (drop n shape)"
  by (simp add: inside_def list_all2_dropI)

lemma offset_zeros:
  assumes "n \<le> length idx"
  shows "offset (replicate n 0 @ out) idx = offset out (drop n idx)"
  using assms
proof (induction n arbitrary: idx)
  case (Suc n)
  then obtain i ks where "idx = i # ks" by (cases idx) auto
  then show ?case using Suc by (simp add: offset_def)
qed simp

text \<open>
  C31. Broadcasting strides succeeds exactly when the source shape can be broadcast to the destination
  shape. The strides it gives have the destination's length, and at every index inside the destination shape
  they lead to the source element at that index, counted from the last axis, with the axes of size one not moved along;
  that is always an element of the source.
\<close>

theorem broadcast_reads_source:
  assumes "length src_strides = length src_shape"
  shows "case broadcast_to_shape dst_shape src_shape src_strides of
      Inl e \<Rightarrow> \<not> shape_can_broadcast dst_shape src_shape \<and> e = broadcast_error dst_shape src_shape
    | Inr out_strides \<Rightarrow> shape_can_broadcast dst_shape src_shape \<and> length out_strides = length dst_shape
        \<and> (\<forall>idx. inside idx dst_shape \<longrightarrow> inside (source_index src_shape idx) src_shape
             \<and> offset out_strides idx = offset src_strides (source_index src_shape idx))"
proof (cases "length src_shape \<le> length dst_shape")
  case False
  then show ?thesis by (simp add: broadcast_to_shape_def shape_can_broadcast_def)
next
  case True
  define n where "n = length dst_shape - length src_shape"
  let ?e = "broadcast_error dst_shape src_shape"
  have l: "length (drop n dst_shape) = length src_shape" "length src_shape = length src_strides" using True assms by (simp_all add: n_def)
  have can: "shape_can_broadcast dst_shape src_shape \<longleftrightarrow> (\<exists>out. broadcast_loop ?e (drop n dst_shape) src_shape src_strides = Inr out)"
    using broadcast_loop_iff[OF l, of ?e] True by (simp add: shape_can_broadcast_def n_def)
  show ?thesis
  proof (cases "broadcast_loop ?e (drop n dst_shape) src_shape src_strides")
    case (Inl e)
    then show ?thesis using can broadcast_loop_error[OF Inl] True by (simp add: broadcast_to_shape_def n_def[symmetric])
  next
    case (Inr out)
    have "inside (source_index src_shape idx) src_shape \<and> offset (replicate n 0 @ out) idx = offset src_strides (source_index src_shape idx)"
      if "inside idx dst_shape" for idx
      using broadcast_loop_ok[OF l Inr inside_drop[OF that]] offset_zeros[of n idx out] length_inside[OF that] True
      by (simp add: source_index_def n_def)
    moreover have "length out = length (drop n dst_shape)"
      by (rule broadcast_loop_length[OF l Inr])
    moreover have "n \<le> length dst_shape" by (simp add: n_def)
    ultimately show ?thesis using Inr can True by (simp add: broadcast_to_shape_def n_def[symmetric])
  qed
qed

theorem broadcast_reads_source_witness:
  "case broadcast_to_shape [2, 3, 4] [3, 1] [8, 100] of
      Inl e \<Rightarrow> \<not> shape_can_broadcast [2, 3, 4] [3, 1] \<and> e = broadcast_error [2, 3, 4] [3, 1]
    | Inr out_strides \<Rightarrow> shape_can_broadcast [2, 3, 4] [3, 1] \<and> length out_strides = length [2, 3, 4 :: int]
        \<and> (\<forall>idx. inside idx [2, 3, 4] \<longrightarrow> inside (source_index [3, 1] idx) [3, 1]
             \<and> offset out_strides idx = offset [8, 100] (source_index [3, 1] idx))"
  by (rule broadcast_reads_source) simp

section \<open>The common shape of several inputs\<close>

lemma can_broadcast_iff:
  "shape_can_broadcast dst src \<longleftrightarrow> length src \<le> length dst \<and> (\<forall>k. from_last src k = 1 \<or> from_last src k = from_last dst k)"
proof (cases "length src \<le> length dst")
  case True
  have nth: "drop (length dst - length src) dst ! i = dst ! (length dst - length src + i)" for i
    using True by simp
  have "(\<forall>i<length src. src ! i = 1 \<or> src ! i = dst ! (length dst - length src + i))
      \<longleftrightarrow> (\<forall>k<length src. from_last src k = 1 \<or> from_last src k = from_last dst k)" (is "?A \<longleftrightarrow> ?B")
  proof
    assume a: ?A
    show ?B
    proof (intro allI impI)
      fix k assume k: "k < length src"
      then have "length dst - length src + (length src - 1 - k) = length dst - 1 - k" using True by simp
      then show "from_last src k = 1 \<or> from_last src k = from_last dst k"
        using a[rule_format, of "length src - 1 - k"] k True by (simp add: from_last_def)
    qed
  next
    assume b: ?B
    show ?A
    proof (intro allI impI)
      fix i assume i: "i < length src"
      then have e: "length src - 1 - (length src - 1 - i) = i"
        "length dst - 1 - (length src - 1 - i) = length dst - length src + i" "length src - 1 - i < length src" using True by simp_all
      then show "src ! i = 1 \<or> src ! i = dst ! (length dst - length src + i)"
        using b[rule_format, of "length src - 1 - i"] i True by (simp add: from_last_def)
    qed
  qed
  also have "?B \<longleftrightarrow> (\<forall>k. from_last src k = 1 \<or> from_last src k = from_last dst k)" by (auto simp: from_last_def)
  finally show ?thesis
    using True nth by (simp add: shape_can_broadcast_def list_all2_conv_all_nth)
qed (simp add: shape_can_broadcast_def)

definition fixed_shape :: "int list \<Rightarrow> bool" where
  "fixed_shape s \<longleftrightarrow> list_all (\<lambda>n. 0 \<le> n) s"

lemma combine_size_fixed:
  "0 \<le> h \<Longrightarrow> 0 \<le> n \<Longrightarrow> combine_size h n = (if h = 1 then Some n else if n = 1 \<or> n = h then Some h else None)"
  by (auto simp: combine_size_def)

lemma combine_sizes_fixed:
  assumes "length s = length t" "fixed_shape s" "fixed_shape t"
  shows "case combine_sizes s t of
      None \<Rightarrow> \<exists>i<length s. s ! i \<noteq> 1 \<and> t ! i \<noteq> 1 \<and> s ! i \<noteq> t ! i
    | Some u \<Rightarrow> length u = length s \<and> fixed_shape u
        \<and> (\<forall>i<length s. u ! i = (if s ! i = 1 then t ! i else s ! i) \<and> (t ! i = 1 \<or> t ! i = u ! i))"
  using assms
proof (induction s t rule: list_induct2)
  case Nil
  then show ?case by simp
next
  case (Cons h s n t)
  note step = combine_size_fixed[of h n]
  show ?case
  proof (cases "combine_size h n")
    case None
    then show ?thesis using Cons.prems step by (auto simp: fixed_shape_def split: if_splits intro!: exI[of _ 0])
  next
    case (Some k)
    have IH: "case combine_sizes s t of
      None \<Rightarrow> \<exists>i<length s. s ! i \<noteq> 1 \<and> t ! i \<noteq> 1 \<and> s ! i \<noteq> t ! i
    | Some u \<Rightarrow> length u = length s \<and> fixed_shape u
        \<and> (\<forall>i<length s. u ! i = (if s ! i = 1 then t ! i else s ! i) \<and> (t ! i = 1 \<or> t ! i = u ! i))"
      using Cons by (simp add: fixed_shape_def)
    show ?thesis
    proof (cases "combine_sizes s t")
      case None
      then obtain i where "i < length s" "s ! i \<noteq> 1 \<and> t ! i \<noteq> 1 \<and> s ! i \<noteq> t ! i" using IH by auto
      then show ?thesis using None Some by (auto intro!: exI[of _ "Suc i"])
    next
      case u: (Some u)
      then have "0 \<le> k" "k = (if h = 1 then n else h)" "n = 1 \<or> n = k"
        using Some step Cons.prems by (auto simp: fixed_shape_def split: if_splits)
      then show ?thesis using u Some IH by (auto simp: fixed_shape_def nth_Cons split: nat.splits)
    qed
  qed
qed

lemma from_last_append: "from_last (xs @ ys) k = (if k < length ys then from_last ys k else from_last xs (k - length ys))"
proof (cases "k < length ys")
  case True
  then have e: "length (xs @ ys) - 1 - k = length xs + (length ys - 1 - k)" by simp
  show ?thesis using True unfolding from_last_def e nth_append_length_plus by simp
next
  case False
  then have "length xs + length ys - 1 - k = length xs - 1 - (k - length ys)" by simp
  then show ?thesis using False by (auto simp: from_last_def nth_append)
qed

lemma from_last_short: "length s \<le> k \<Longrightarrow> from_last s k = 1"
  by (simp add: from_last_def)

lemma combine_input_fixed:
  assumes "length input \<le> length shape" "fixed_shape shape" "fixed_shape input"
  shows "case combine_input shape input of
      None \<Rightarrow> \<exists>k. from_last shape k \<noteq> 1 \<and> from_last input k \<noteq> 1 \<and> from_last shape k \<noteq> from_last input k
    | Some u \<Rightarrow> length u = length shape \<and> fixed_shape u
        \<and> (\<forall>k. from_last u k = (if from_last shape k = 1 then from_last input k else from_last shape k)
             \<and> (from_last input k = 1 \<or> from_last input k = from_last u k))"
proof -
  define n where "n = length shape - length input"
  define a where "a = take n shape"
  define b where "b = drop n shape"
  have ab: "shape = a @ b" "length b = length input" "fixed_shape a" "fixed_shape b" "a = take n shape" "b = drop n shape"
    using assms(1,2) append_take_drop_id[of n shape]
    by (auto simp: a_def b_def n_def fixed_shape_def list_all_iff dest: in_set_takeD in_set_dropD)
  have fl: "from_last shape k = (if k < length input then from_last b k else from_last a (k - length input))" for k
    using from_last_append[of a b k] ab(1,2) by simp
  have c: "combine_input shape input = map_option (append a) (combine_sizes b input)"
    by (simp add: combine_input_def Let_def n_def[symmetric] a_def b_def)
  note cs = combine_sizes_fixed[OF ab(2,4) assms(3)]
  have nth: "from_last s k = s ! (length s - 1 - k)" if "k < length s" for s k using that by (simp add: from_last_def)
  show ?thesis
  proof (cases "combine_sizes b input")
    case None
    then obtain i where i: "i < length b" "b ! i \<noteq> 1" "input ! i \<noteq> 1" "b ! i \<noteq> input ! i" using cs by auto
    let ?k = "length b - 1 - i"
    have "length b - 1 - ?k = i" "?k < length b" using i(1) by simp_all
    then have e: "from_last shape ?k = b ! i" "from_last input ?k = input ! i"
      using fl[of ?k] nth[of ?k b] nth[of ?k input] ab(2) by simp_all
    have "\<exists>k. from_last shape k \<noteq> 1 \<and> from_last input k \<noteq> 1 \<and> from_last shape k \<noteq> from_last input k"
      using i(2-4) unfolding e[symmetric] by blast
    then show ?thesis using c None by simp
  next
    case (Some u)
    then have u: "length u = length b" "fixed_shape u"
      "\<And>i. i < length b \<Longrightarrow> u ! i = (if b ! i = 1 then input ! i else b ! i) \<and> (input ! i = 1 \<or> input ! i = u ! i)"
      using cs by auto
    have spec: "from_last (a @ u) k = (if from_last shape k = 1 then from_last input k else from_last shape k)
        \<and> (from_last input k = 1 \<or> from_last input k = from_last (a @ u) k)" for k
    proof (cases "k < length input")
      case True
      define j where "j = length input - 1 - k"
      have "j < length b" using True ab(2) by (simp add: j_def)
      moreover have "from_last shape k = b ! j" "from_last (a @ u) k = u ! j" "from_last input k = input ! j"
        using True fl[of k] nth[of k u] nth[of k b] nth[of k input] from_last_append[of a u k] u(1) ab(2)
        by (simp_all add: j_def)
      ultimately show ?thesis using u(3)[of j] by metis
    next
      case False
      then show ?thesis using fl[of k] from_last_append[of a u k] u(1) ab(2) from_last_short[of input k] by simp
    qed
    have l: "length (a @ u) = length shape" "fixed_shape (a @ u)"
      using u(1,2) ab(1,2,3) by (simp_all add: fixed_shape_def)
    have e: "combine_input shape input = Some (a @ u)" using c Some by simp
    show ?thesis unfolding e option.case
      by (intro conjI allI l spec[THEN conjunct1] spec[THEN conjunct2])
  qed
qed

lemma can_trans: "shape_can_broadcast a b \<Longrightarrow> shape_can_broadcast b c \<Longrightarrow> shape_can_broadcast a c"
  unfolding can_broadcast_iff by (metis order.trans)

lemma combine_inputs_fixed:
  assumes "fixed_shape shape" "\<forall>i\<in>set inputs. fixed_shape i \<and> length i \<le> length shape"
  shows "case combine_inputs shape inputs of
      None \<Rightarrow> \<not> (\<exists>dst. shape_can_broadcast dst shape \<and> (\<forall>i\<in>set inputs. shape_can_broadcast dst i))
    | Some u \<Rightarrow> shape_can_broadcast u shape \<and> length u = length shape \<and> (\<forall>i\<in>set inputs. shape_can_broadcast u i)
        \<and> (\<forall>dst. shape_can_broadcast dst shape \<longrightarrow> (\<forall>i\<in>set inputs. shape_can_broadcast dst i) \<longrightarrow> shape_can_broadcast dst u)"
  using assms
proof (induction shape inputs rule: combine_inputs.induct)
  case (1 shape)
  then show ?case by (simp add: can_broadcast_iff)
next
  case (2 shape input inputs)
  note step = combine_input_fixed[of input shape]
  show ?case
  proof (cases "combine_input shape input")
    case None
    then obtain k where k: "from_last shape k \<noteq> 1" "from_last input k \<noteq> 1" "from_last shape k \<noteq> from_last input k"
      using step 2 by auto
    then have "\<not> (shape_can_broadcast dst shape \<and> shape_can_broadcast dst input)" for dst
      unfolding can_broadcast_iff by metis
    then show ?thesis using None by auto
  next
    case (Some u)
    then have u: "length u = length shape" "fixed_shape u"
      "\<And>k. from_last u k = (if from_last shape k = 1 then from_last input k else from_last shape k)"
      "\<And>k. from_last input k = 1 \<or> from_last input k = from_last u k"
      using step 2 by auto
    have can: "shape_can_broadcast u shape" "shape_can_broadcast u input"
      using u 2 unfolding can_broadcast_iff by auto
    have least: "shape_can_broadcast dst u" if "shape_can_broadcast dst shape" "shape_can_broadcast dst input" for dst
      using that u(1) unfolding can_broadcast_iff u(3) by metis
    have iff: "shape_can_broadcast dst u \<longleftrightarrow> shape_can_broadcast dst shape \<and> shape_can_broadcast dst input" for dst
      using least can can_trans by blast
    have "\<forall>i\<in>set inputs. fixed_shape i \<and> length i \<le> length u" using "2.prems"(2) u(1) by simp
    then have IH: "case combine_inputs u inputs of
      None \<Rightarrow> \<not> (\<exists>dst. shape_can_broadcast dst u \<and> (\<forall>i\<in>set inputs. shape_can_broadcast dst i))
    | Some v \<Rightarrow> shape_can_broadcast v u \<and> length v = length u \<and> (\<forall>i\<in>set inputs. shape_can_broadcast v i)
        \<and> (\<forall>dst. shape_can_broadcast dst u \<longrightarrow> (\<forall>i\<in>set inputs. shape_can_broadcast dst i) \<longrightarrow> shape_can_broadcast dst v)"
      using "2.IH"[OF Some u(2)] by blast
    then show ?thesis using Some u(1) unfolding iff by (auto split: option.splits)
  qed
qed

lemma broadcast_ndim_bounds:
  assumes "inputs \<noteq> []"
  shows "\<forall>i\<in>set inputs. length i \<le> broadcast_ndim inputs" "\<exists>i\<in>set inputs. length i = broadcast_ndim inputs"
proof -
  let ?f = "\<lambda>input undim. if length input > undim then length input else undim"
  have ge: "k \<le> fold ?f xs k \<and> (\<forall>i\<in>set xs. length i \<le> fold ?f xs k)" for xs :: "int list list" and k
  proof (induction xs arbitrary: k)
    case (Cons x xs)
    have "k \<le> ?f x k" "length x \<le> ?f x k" by simp_all
    then show ?case using Cons[of "?f x k"] by fastforce
  qed simp
  have in': "fold ?f xs k = k \<or> (\<exists>i\<in>set xs. length i = fold ?f xs k)" for xs :: "int list list" and k
  proof (induction xs arbitrary: k)
    case (Cons x xs)
    have "?f x k = k \<or> ?f x k = length x" by simp
    then show ?case using Cons[of "?f x k"] by fastforce
  qed simp
  show "\<forall>i\<in>set inputs. length i \<le> broadcast_ndim inputs" using ge by (simp add: broadcast_ndim_def)
  show "\<exists>i\<in>set inputs. length i = broadcast_ndim inputs"
    using in'[of inputs "length (hd inputs)"] assms hd_in_set[OF assms] by (auto simp: broadcast_ndim_def)
qed



section \<open>The order of the axes\<close>

lemma insort_key_agree: "\<forall>y\<in>set (x # ys). f y = g y \<Longrightarrow> insort_key f x ys = insort_key g x ys"
  by (induction ys) auto

lemma sort_key_agree: "\<forall>x\<in>set xs. f x = g x \<Longrightarrow> sort_key f xs = sort_key g xs"
  by (induction xs) (auto intro!: insort_key_agree)

text \<open>The model of \<^verbatim>\<open>strides_to_axis_perm\<close> in all its cases is a stable sort of the axes in C order.\<close>

lemma strides_to_axis_perm_sort:
  "strides_to_axis_perm strides = sort_key (\<lambda>i. \<bar>strides ! i\<bar>) (rev [0..<length strides])"
proof -
  consider "strides = []" | a where "strides = [a]" | a b where "strides = [a, b]" | a b c where "strides = [a, b, c]"
    | a b c d s where "strides = a # b # c # d # s"
    by (metis list.exhaust)
  then show ?thesis
  proof cases
    case (5 a b c d s)
    have "sort_key (\<lambda>i. map abs strides ! i) (rev [0..<length strides]) = sort_key (\<lambda>i. \<bar>strides ! i\<bar>) (rev [0..<length strides])"
      by (rule sort_key_agree) simp
    then show ?thesis using 5 by (simp only: strides_to_axis_perm_def list.map list.case)
  qed (simp_all add: strides_to_axis_perm_def upt_rec)
qed

text \<open>One comparison, for one operand whose strides are not zero; and the position it leads to.\<close>

lemma compare_one:
  "strides ! i \<noteq> 0 \<Longrightarrow> strides ! j \<noteq> 0 \<Longrightarrow> compare_strides i j [strides] True False = (False, \<bar>strides ! i\<bar> \<le> \<bar>strides ! j\<bar>)"
  by simp

lemma insert_position_one:
  assumes "m \<le> length axis_perm" "\<forall>i\<in>set axis_perm. strides ! i \<noteq> 0" "strides ! x \<noteq> 0"
    and "insert_position [strides] axis_perm x m m = p"
  shows "p \<le> m \<and> (\<forall>k. p \<le> k \<longrightarrow> k < m \<longrightarrow> \<bar>strides ! x\<bar> < \<bar>strides ! (axis_perm ! k)\<bar>)
    \<and> (p = 0 \<or> \<bar>strides ! (axis_perm ! (p - 1))\<bar> \<le> \<bar>strides ! x\<bar>)"
  using assms
proof (induction m)
  case (Suc m)
  have c: "compare_strides (axis_perm ! m) x [strides] True False
      = (False, \<bar>strides ! (axis_perm ! m)\<bar> \<le> \<bar>strides ! x\<bar>)"
    using Suc.prems by (intro compare_one) auto
  show ?case
  proof (cases "\<bar>strides ! (axis_perm ! m)\<bar> \<le> \<bar>strides ! x\<bar>")
    case True
    then have "p = Suc m" using Suc.prems(4) unfolding insert_position.simps c by simp
    then show ?thesis using True by simp
  next
    case False
    then have "insert_position [strides] axis_perm x m m = p" using Suc.prems(4) unfolding insert_position.simps c by simp
    then show ?thesis using Suc False by (fastforce simp: less_Suc_eq)
  qed
qed simp

lemma insert_position_le: "ipos \<le> i0 \<Longrightarrow> i1 \<le> i0 \<Longrightarrow> insert_position ops axis_perm x i1 ipos \<le> i0"
  by (induction ops axis_perm x i1 ipos rule: insert_position.induct) (auto split: prod.splits)

lemma insert_axis_move:
  assumes "i0 < length xs"
  shows "\<exists>p\<le>i0. p = insert_position ops xs (xs ! i0) i0 i0
    \<and> insert_axis ops i0 xs = take p xs @ xs ! i0 # take (i0 - p) (drop p xs) @ drop (Suc i0) xs"
proof -
  define p where "p = insert_position ops xs (xs ! i0) i0 i0"
  have "p \<le> i0" unfolding p_def by (rule insert_position_le) simp_all
  moreover have "xs = take i0 xs @ xs ! i0 # drop (Suc i0) xs" using assms by (rule id_take_nth_drop)
  ultimately show ?thesis by (auto simp: insert_axis_def Let_def p_def[symmetric])
qed

lemma insert_axis_mset:
  assumes "i0 < length xs"
  shows "mset (insert_axis ops i0 xs) = mset xs"
proof -
  obtain p where p: "p \<le> i0" "insert_axis ops i0 xs = take p xs @ xs ! i0 # take (i0 - p) (drop p xs) @ drop (Suc i0) xs"
    using insert_axis_move[OF assms] by blast
  have "take p xs @ take (i0 - p) (drop p xs) = take i0 xs"
    using p(1) take_add[of p "i0 - p" xs] by simp
  then have "mset (take p xs) + mset (take (i0 - p) (drop p xs)) = mset (take i0 xs)" by (metis mset_append)
  then show ?thesis using id_take_nth_drop[OF assms] unfolding p(2)
    by (metis add.assoc add_mset_add_single mset.simps(2) mset_append union_mset_add_mset_left union_mset_add_mset_right)
qed

lemma insert_axis_sorted:
  assumes "i0 < length xs" "\<forall>i\<in>set xs. strides ! i \<noteq> 0" "sorted (map (\<lambda>i. \<bar>strides ! i\<bar>) (take i0 xs))"
  shows "sorted (map (\<lambda>i. \<bar>strides ! i\<bar>) (take (Suc i0) (insert_axis [strides] i0 xs)))"
proof -
  let ?key = "\<lambda>i. \<bar>strides ! i\<bar>"
  obtain p where p: "p \<le> i0" "p = insert_position [strides] xs (xs ! i0) i0 i0"
    "insert_axis [strides] i0 xs = take p xs @ xs ! i0 # take (i0 - p) (drop p xs) @ drop (Suc i0) xs"
    using insert_axis_move[OF assms(1)] by blast
  let ?a = "take p xs" and ?b = "take (i0 - p) (drop p xs)"
  have ab: "take i0 xs = ?a @ ?b" using p(1) take_add[of p "i0 - p" xs] by simp
  have pos: "\<forall>k. p \<le> k \<longrightarrow> k < i0 \<longrightarrow> ?key (xs ! i0) < ?key (xs ! k)" "p = 0 \<or> ?key (xs ! (p - 1)) \<le> ?key (xs ! i0)"
    using insert_position_one[of i0 xs strides "xs ! i0" p] assms(1,2) p(2) by auto
  have s: "sorted (map ?key ?a)" "sorted (map ?key ?b)" "\<forall>x\<in>set ?a. \<forall>y\<in>set ?b. ?key x \<le> ?key y"
    using assms(3) unfolding ab by (auto simp: sorted_append)
  have low: "\<forall>x\<in>set ?a. ?key x \<le> ?key (xs ! i0)"
  proof
    fix x assume "x \<in> set ?a"
    then obtain k where k: "k < p" "x = xs ! k" using p(1) assms(1) by (auto simp: in_set_conv_nth)
    have "map ?key ?a ! k \<le> map ?key ?a ! (p - 1)"
      using s(1) k(1) p(1) assms(1) by (intro sorted_nth_mono) auto
    then show "?key x \<le> ?key (xs ! i0)" using k pos(2) p(1) assms(1) by auto
  qed
  have high: "\<forall>y\<in>set ?b. ?key (xs ! i0) \<le> ?key y"
  proof
    fix y assume "y \<in> set ?b"
    then obtain k where "k < i0 - p" "y = xs ! (p + k)" using assms(1) by (auto simp: in_set_conv_nth)
    then show "?key (xs ! i0) \<le> ?key y" using pos(1)[rule_format, of "p + k"] by (simp add: less_imp_le)
  qed
  have "take (Suc i0) (insert_axis [strides] i0 xs) = ?a @ xs ! i0 # ?b"
    unfolding p(3) using p(1) assms(1) by (auto simp: min_def Suc_diff_le)
  then show ?thesis using s low high by (auto simp: sorted_append)
qed

text \<open>The insertion sort after the axes \<open>1\<close> to \<open>m - 1\<close> of its outer loop.\<close>

definition insertions :: "int list list \<Rightarrow> nat \<Rightarrow> nat \<Rightarrow> nat list" where
  "insertions ops n m = fold (insert_axis ops) [1..<m] (rev [0..<n])"

lemma reversed_axes: "map (\<lambda>i. n - i - 1) [0..<n] = rev [0..<n]"
  by (rule nth_equalityI) (simp_all add: rev_nth)

lemma insertions_mset:
  "m \<le> n \<Longrightarrow> mset (insertions ops n m) = mset [0..<n]"
proof (induction m)
  case 0
  then show ?case by (simp add: insertions_def)
next
  case (Suc m)
  show ?case
  proof (cases "m = 0")
    case True
    then show ?thesis by (simp add: insertions_def)
  next
    case False
    have IH: "mset (insertions ops n m) = mset [0..<n]" using Suc by simp
    have "length (insertions ops n m) = n" using mset_eq_length[OF IH] by simp
    then have "mset (insert_axis ops m (insertions ops n m)) = mset [0..<n]"
      using Suc.prems insert_axis_mset[of m "insertions ops n m" ops] IH by simp
    moreover have "insertions ops n (Suc m) = insert_axis ops m (insertions ops n m)"
      using False by (simp add: insertions_def)
    ultimately show ?thesis by simp
  qed
qed

lemma insertions_sorted:
  assumes "\<forall>s\<in>set strides. s \<noteq> 0" "m \<le> length strides"
  shows "sorted (map (\<lambda>i. \<bar>strides ! i\<bar>) (take m (insertions [strides] (length strides) m)))"
  using assms(2)
proof (induction m)
  case (Suc m)
  show ?case
  proof (cases "m = 0")
    case True
    then show ?thesis using Suc.prems by (cases "insertions [strides] (length strides) (Suc 0)") auto
  next
    case False
    let ?xs = "insertions [strides] (length strides) m"
    have ms: "mset ?xs = mset [0..<length strides]" using insertions_mset[of m] Suc.prems by simp
    have "set ?xs = {0..<length strides}" "length ?xs = length strides"
      using mset_eq_setD[OF ms] mset_eq_length[OF ms] by simp_all
    then have "sorted (map (\<lambda>i. \<bar>strides ! i\<bar>) (take (Suc m) (insert_axis [strides] m ?xs)))"
      using Suc assms(1) by (intro insert_axis_sorted) auto
    then show ?thesis using False by (simp add: insertions_def)
  qed
qed simp

lemma multistrides_insertions:
  "2 < n \<Longrightarrow> multistrides_to_axis_perm n ops = insertions ops n n"
  unfolding multistrides_to_axis_perm_def insertions_def reversed_axes by simp

lemma multistrides_mset: "mset (multistrides_to_axis_perm n ops) = mset [0..<n]"
proof -
  consider "n = 0" | "n = 1" | "n = 2" | "2 < n" by linarith
  then show ?thesis
  proof cases
    case 3
    have "[0..<2] = [0, 1]" by (simp add: upt_rec)
    then show ?thesis using 3 by (simp add: multistrides_to_axis_perm_def add_mset_commute split: prod.split)
  next
    case 4
    then show ?thesis by (simp only: multistrides_insertions insertions_mset order_refl)
  qed (simp_all add: multistrides_to_axis_perm_def)
qed

lemma multistrides_sorted:
  assumes "\<forall>s\<in>set strides. s \<noteq> 0"
  shows "sorted (map (\<lambda>i. \<bar>strides ! i\<bar>) (multistrides_to_axis_perm (length strides) [strides]))"
proof -
  consider "strides = []" | a where "strides = [a]" | a b where "strides = [a, b]" | "2 < length strides"
    by (cases strides rule: remdups_adj.cases) (auto simp: Suc_lessI)
  then show ?thesis
  proof cases
    case 4
    let ?xs = "insertions [strides] (length strides) (length strides)"
    have "length ?xs = length strides"
      using mset_eq_length[OF insertions_mset[of "length strides" "length strides" "[strides]"]] by simp
    then show ?thesis using insertions_sorted[OF assms order_refl] 4 by (simp add: multistrides_insertions)
  qed (use assms in \<open>auto simp: multistrides_to_axis_perm_def\<close>)
qed

text \<open>
  The axis order of one stride vector is a permutation of the axes that sorts them by the absolute
  value of their strides; the order of several operands is a permutation of the axes, too, and for one operand without
  zero strides it is sorted in the same way.
\<close>

lemma axis_orders_sort_the_strides:
  "mset (strides_to_axis_perm strides) = mset [0..<length strides]
   \<and> sorted (map (\<lambda>i. \<bar>strides ! i\<bar>) (strides_to_axis_perm strides))
   \<and> mset (multistrides_to_axis_perm ndim operstrides) = mset [0..<ndim]
   \<and> (0 \<notin> set strides \<longrightarrow> sorted (map (\<lambda>i. \<bar>strides ! i\<bar>) (multistrides_to_axis_perm (length strides) [strides])))"
  using multistrides_sorted[of strides] by (auto simp: strides_to_axis_perm_sort multistrides_mset)

lemma axis_orders_sort_the_strides_witness:
  "sorted (map (\<lambda>i. \<bar>[8, - 32, 2, 16 :: int] ! i\<bar>) (multistrides_to_axis_perm (length [8, - 32, 2, 16 :: int]) [[8, - 32, 2, 16]]))"
  using axis_orders_sort_the_strides[of "[8, - 32, 2, 16]" 0 "[]"] by simp

text \<open>
  The function that is to invert an axis order overwrites each stride with the size of its dimension, so that its result
  is the shape and does not depend on the order.
\<close>

lemma axis_perm_to_strides_loop:
  assumes "\<And>out e i. f i (out, e) = (out[i := shape ! i], e * shape ! i)" "k < length out"
  shows "length (fst (fold f perm (out, e))) = length out
    \<and> fst (fold f perm (out, e)) ! k = (if k \<in> set perm then shape ! k else out ! k)"
  using assms(2)
proof (induction perm arbitrary: out e)
  case (Cons i perm)
  then show ?case using Cons.IH[of "out[i := shape ! i]" "e * shape ! i"] by (simp add: assms(1) nth_list_update)
qed simp

lemma axis_perm_to_strides_is_shape:
  assumes "mset axis_perm = mset [0..<length shape]" "length out_strides = length shape"
  shows "axis_perm_to_strides axis_perm shape element_size out_strides = shape"
proof (cases "shape = []")
  case True
  then show ?thesis using assms by (simp add: axis_perm_to_strides_def)
next
  case False
  have s: "set axis_perm = {0..<length shape}" using mset_eq_setD[OF assms(1)] by simp
  have loop: "k < length out_strides \<Longrightarrow> length (fst (fold f axis_perm (out_strides, element_size))) = length out_strides
    \<and> fst (fold f axis_perm (out_strides, element_size)) ! k = (if k \<in> set axis_perm then shape ! k else out_strides ! k)"
    if "\<And>out e i. f i (out, e) = (out[i := shape ! i], e * shape ! i)" for f k
    by (rule axis_perm_to_strides_loop[OF that])
  have len: "length (axis_perm_to_strides axis_perm shape element_size out_strides) = length shape"
    unfolding axis_perm_to_strides_def Let_def by (rule trans[OF conjunct1[OF loop[of _ 0]]]) (use assms(2) False in auto)
  have nth: "axis_perm_to_strides axis_perm shape element_size out_strides ! k = shape ! k" if "k < length shape" for k
    unfolding axis_perm_to_strides_def Let_def by (rule trans[OF conjunct2[OF loop[of _ k]]]) (use that s assms(2) in auto)
  show ?thesis by (rule nth_equalityI) (simp_all add: len nth)
qed

end
