(* ===== verification/Date_Adapter.thy ===== *)
theory Date_Adapter
  imports Date_Parse Number_Parse
begin

text \<open>
  The adapters of \<^verbatim>\<open>src/dynd/kernels/date_adapter_kernels.cpp\<close> and \<^verbatim>\<open>datetime_adapter_kernels.cpp\<close>: the text
  of a unit and an epoch, such as \<open>days since 2001-1-1\<close>, and the functions it stands for between numbers and
  dates. A function to adapt with is a value of \<open>adapter\<close>; calling it is \<open>run_adapter\<close>, the method \<^verbatim>\<open>single\<close> of
  its kernel. Numbers are integers in the range of their C++ type; the sums and products of the kernels, which overflow
  without check, are cast to it.
\<close>

section \<open>The text of an adapter\<close>

text \<open>The tokens between the unit and the epoch, and the whitespace around them.\<close>

definition parse_since :: "string \<Rightarrow> string option" where
  "parse_since s = do {
     (_, s) \<leftarrow> skip_required_whitespace s;
     (_, s) \<leftarrow> (case parse_token ''since'' s of Some r \<Rightarrow> Some r | None \<Rightarrow>
               (case parse_token ''after'' s of Some r \<Rightarrow> Some r | None \<Rightarrow>
               (case parse_token ''from'' s of Some r \<Rightarrow> Some r | None \<Rightarrow>
               (case parse_token ''ref'' s of Some r \<Rightarrow> Some r | None \<Rightarrow> parse_token ''@'' s))));
     (_, s) \<leftarrow> skip_required_whitespace s;
     Some s }"

text \<open>A year alone is its first day.\<close>

definition parse_year_epoch :: "string \<Rightarrow> (date_ymd \<times> string) option" where
  "parse_year_epoch s =
     (case parse_4digit_int_no_ws s of
        None \<Rightarrow> None
      | Some (year, s) \<Rightarrow> Some (\<lparr> ymd_year = cast16 year, ymd_month = 1, ymd_day = 1 \<rparr>, s))"

definition parse_days_since :: "int \<Rightarrow> string \<Rightarrow> date_error + int option" where
  "parse_days_since rawtime s =
     (case do { (_, s) \<leftarrow> parse_token ''days'' s; parse_since s } of
        None \<Rightarrow> Inr None
      | Some s \<Rightarrow>
          and_then (or_else (parse_date rawtime date_parse_no_ambig 0 s) (Inr (parse_year_epoch s)))
            (\<lambda>(epoch, s). Inr (if skip_whitespace s = [] then Some (ymd_to_days epoch) else None)))"

text \<open>The unit of a datetime: its factor and its divisor in ticks of 100 nanoseconds.\<close>

definition parse_unit :: "string \<Rightarrow> ((int \<times> int) \<times> string) option" where
  "parse_unit s =
     (case parse_token ''hours'' s of Some (_, s) \<Rightarrow> Some ((60 * 60 * 10000000, 1), s) | None \<Rightarrow>
     (case parse_token ''minutes'' s of Some (_, s) \<Rightarrow> Some ((60 * 10000000, 1), s) | None \<Rightarrow>
     (case parse_token ''seconds'' s of Some (_, s) \<Rightarrow> Some ((10000000, 1), s) | None \<Rightarrow>
     (case parse_token ''milliseconds'' s of Some (_, s) \<Rightarrow> Some ((10000, 1), s) | None \<Rightarrow>
     (case parse_token ''microseconds'' s of Some (_, s) \<Rightarrow> Some ((10, 1), s) | None \<Rightarrow>
     (case parse_token ''nanoseconds'' s of Some (_, s) \<Rightarrow> Some ((1, 100), s) | None \<Rightarrow> None))))))"

definition utc_or_none :: "string option \<Rightarrow> bool" where
  "utc_or_none tz \<longleftrightarrow>
     (case tz of None \<Rightarrow> True
      | Some tz \<Rightarrow> tz = [] \<or> compare_range_to_literal tz ''UTC'' \<or> compare_range_to_literal tz ''GMT'')"

definition parse_datetime_epoch ::
  "int \<Rightarrow> int \<Rightarrow> int \<Rightarrow> (datetime_struct \<times> string option) throwing_scan" where
  "parse_datetime_epoch minute0 second0 rawtime s =
     (let at_midnight = map_option (\<lambda>(ymd, s). ((\<lparr> dt_ymd = ymd, dt_hmst = time_set_to_zero \<rparr>, None), s))
      in or_else (parse_datetime minute0 second0 rawtime date_parse_no_ambig 0 s)
        (or_else (map_sum id at_midnight (parse_date rawtime date_parse_no_ambig 0 s))
                 (Inr (at_midnight (parse_year_epoch s)))))"

definition parse_datetime_since :: "int \<Rightarrow> int \<Rightarrow> int \<Rightarrow> string \<Rightarrow> date_error + (int \<times> int \<times> int) option" where
  "parse_datetime_since minute0 second0 rawtime s =
     (case do { (unit, s) \<leftarrow> parse_unit s; s \<leftarrow> parse_since s; Some (unit, s) } of
        None \<Rightarrow> Inr None
      | Some ((factor, divisor), s) \<Rightarrow>
          and_then (parse_datetime_epoch minute0 second0 rawtime s)
            (\<lambda>((epoch, tz), s).
               Inr (if \<not> utc_or_none tz then None
                    else if skip_whitespace s = [] then Some (datetime_to_ticks epoch, factor, divisor)
                    else None)))"

section \<open>The functions\<close>

text \<open>The width of the source and of the destination come first.\<close>

datatype adapter =
  int_offset nat nat int
| int_multiply_and_offset int int
| int_offset_and_divide int int

definition int_min :: "nat \<Rightarrow> int" where
  "int_min w = - (2 ^ (w - 1))"

definition cast_int :: "nat \<Rightarrow> int \<Rightarrow> int" where
  "cast_int w k = signed_take_bit (w - 1) k"

definition floordiv :: "int \<Rightarrow> int \<Rightarrow> int" where
  "floordiv a b = (a - (if a < 0 then b - 1 else 0)) sdiv b"

definition run_adapter :: "adapter \<Rightarrow> int \<Rightarrow> int" where
  "run_adapter ad value =
     (case ad of
        int_offset src_width dst_width offset \<Rightarrow>
          (if value \<noteq> int_min src_width
           then cast_int dst_width (cast_int dst_width value + offset) else int_min dst_width)
      | int_multiply_and_offset factor offset \<Rightarrow>
          (if value \<noteq> int_min 64 then cast64 (cast64 (factor * value) + offset) else int_min 64)
      | int_offset_and_divide offset divisor \<Rightarrow>
          (if value \<noteq> int_min 64 then floordiv (cast64 (value + offset)) divisor else int_min 64))"

text \<open>
  \<open>Some (forward, reverse)\<close>: the function that reads numbers as dates and the one that writes dates as numbers.
\<close>

definition make_date_adapter_arrfunc :: "int \<Rightarrow> type_id \<Rightarrow> string \<Rightarrow> date_error + (adapter \<times> adapter) option" where
  "make_date_adapter_arrfunc rawtime operand_id op =
     and_then (parse_days_since rawtime op)
       (\<lambda>epoch_date.
          Inr (if operand_id = int32_type_id
               then Some (int_offset 32 32 epoch_date, int_offset 32 32 (cast32 (- epoch_date)))
               else if operand_id = int64_type_id
               then Some (int_offset 64 32 epoch_date, int_offset 32 64 (cast32 (- epoch_date)))
               else None))"

definition make_datetime_adapter_arrfunc ::
  "int \<Rightarrow> int \<Rightarrow> int \<Rightarrow> type_id \<Rightarrow> string \<Rightarrow> date_error + (adapter \<times> adapter) option" where
  "make_datetime_adapter_arrfunc minute0 second0 rawtime operand_id op =
     and_then (parse_datetime_since minute0 second0 rawtime op)
       (\<lambda>(epoch_datetime, unit_factor, unit_divisor).
          Inr (if operand_id = int64_type_id
               then (if unit_divisor > 1
                     then Some (int_offset_and_divide (cast64 (epoch_datetime * unit_divisor)) unit_divisor,
                                int_multiply_and_offset unit_divisor (cast64 (cast64 (- epoch_datetime) * unit_divisor)))
                     else Some (int_multiply_and_offset unit_factor epoch_datetime,
                                int_offset_and_divide (cast64 (- epoch_datetime)) unit_factor))
               else None))"

section \<open>The two directions are inverse\<close>

lemma cast_int_id: "0 < w \<Longrightarrow> - (2 ^ (w - 1)) \<le> k \<Longrightarrow> k < 2 ^ (w - 1) \<Longrightarrow> cast_int w k = k"
  unfolding cast_int_def by (simp add: signed_take_bit_int_eq_self)

lemma cast_int_add: "cast_int w (cast_int w j + k) = cast_int w (j + k)"
  unfolding cast_int_def
  by (metis signed_take_bit_add signed_take_bit_signed_take_bit min.idem)

lemma cast32_cast_int: "cast32 k = cast_int 32 k"
  unfolding cast32_def cast_int_def by (simp add: sint_uint uint_word_of_int_eq signed_take_bit_take_bit)

lemma cast64_cast_int: "cast64 k = cast_int 64 k"
  unfolding cast64_def cast_int_def by (simp add: sint_uint uint_word_of_int_eq signed_take_bit_take_bit)

lemma make_date_adapter_cases:
  assumes "make_date_adapter_arrfunc rawtime tid op = Inr (Some (f, g))"
  obtains e where "parse_days_since rawtime op = Inr (Some e)"
    "(tid = int32_type_id \<and> f = int_offset 32 32 e \<and> g = int_offset 32 32 (cast32 (- e)))
     \<or> (tid = int64_type_id \<and> f = int_offset 64 32 e \<and> g = int_offset 32 64 (cast32 (- e)))"
  using assms unfolding make_date_adapter_arrfunc_def and_then_def
  by (auto split: sum.splits option.splits if_splits)

lemma int_offset_forward:
  assumes "v \<noteq> int_min w" "- (2 ^ 31) \<le> v + e" "v + e < 2 ^ 31"
  shows "run_adapter (int_offset w 32 e) v = v + e"
  using assms cast_int_id[of 32 "v + e"] by (simp add: run_adapter_def cast_int_add)

lemma int_offset_reverse:
  assumes "w = 32 \<or> w = 64" "d \<noteq> - (2 ^ 31)" "- (2 ^ 31) < d - v" "d - v \<le> 2 ^ 31"
    "- (2 ^ 31) \<le> d" "d < 2 ^ 31" "int_min w \<le> v" "v < - int_min w"
  shows "run_adapter (int_offset 32 w (cast32 (- (d - v)))) d = v"
proof -
  have c: "cast32 (- (d - v)) = v - d"
    using cast_int_id[of 32 "v - d"] assms(3,4) by (simp add: cast32_cast_int)
  have "cast_int w d = d" "cast_int w v = v"
    using assms by (auto intro!: cast_int_id simp: int_min_def)
  then show ?thesis
    using assms(2) unfolding run_adapter_def c by (simp add: int_min_def)
qed

text \<open>
  C32. A date adapter such as "days since 2001-1-1" reads a number of days as the date that many days after the epoch
  and writes the date back as the same number, in both widths, as long as the date fits in 32 bits; the missing value
  of the number type, its smallest value, becomes the missing date and comes back.
\<close>

theorem date_adapter_inverse:
  assumes "make_date_adapter_arrfunc rawtime tid op = Inr (Some (f, g))"
    and "parse_days_since rawtime op = Inr (Some e)" and "- (2 ^ 31) < e" "e < 2 ^ 31"
    and "w = (if tid = int32_type_id then 32 else 64)"
  shows "(\<forall>v. int_min w < v \<and> v < - int_min w \<and> DATE_NA < v + e \<and> v + e < - DATE_NA \<longrightarrow>
            run_adapter f v = v + e \<and> run_adapter g (v + e) = v)
         \<and> run_adapter f (int_min w) = DATE_NA \<and> run_adapter g DATE_NA = int_min w"
proof -
  obtain e' where e': "parse_days_since rawtime op = Inr (Some e')"
    and c: "(tid = int32_type_id \<and> f = int_offset 32 32 e' \<and> g = int_offset 32 32 (cast32 (- e')))
     \<or> (tid = int64_type_id \<and> f = int_offset 64 32 e' \<and> g = int_offset 32 64 (cast32 (- e')))"
    using make_date_adapter_cases[OF assms(1)] by blast
  have [simp]: "e' = e" using e' assms(2) by simp
  have fg: "f = int_offset w 32 e" "g = int_offset 32 w (cast32 (- e))" and w: "w = 32 \<or> w = 64"
    using c assms(5) by (auto split: if_splits)
  have "run_adapter f v = v + e \<and> run_adapter g (v + e) = v"
    if "int_min w < v" "v < - int_min w" "DATE_NA < v + e" "v + e < - DATE_NA" for v
  proof
    show "run_adapter f v = v + e"
      unfolding fg using that w by (intro int_offset_forward) (auto simp: DATE_NA_def)
    show "run_adapter g (v + e) = v"
      using int_offset_reverse[OF w, of "v + e" v] that assms(3,4) unfolding fg by (simp add: DATE_NA_def)
  qed
  moreover have "run_adapter f (int_min w) = DATE_NA" "run_adapter g DATE_NA = int_min w"
    unfolding fg run_adapter_def by (simp_all add: DATE_NA_def int_min_def)
  ultimately show ?thesis by blast
qed

lemma days_since_2001:
  "parse_days_since 0 ''days since 2001-1-1'' = Inr (Some 11323)"
  "make_date_adapter_arrfunc 0 int64_type_id ''days since 2001-1-1''
     = Inr (Some (int_offset 64 32 11323, int_offset 32 64 (- 11323)))"
  by code_simp+

lemma date_adapter_inverse_witness:
  "run_adapter (int_offset 64 32 11323) (- 9223372036854775808) = DATE_NA
   \<and> run_adapter (int_offset 64 32 11323) 31 = 11354 \<and> run_adapter (int_offset 32 64 (- 11323)) 11354 = 31"
  using date_adapter_inverse[OF days_since_2001(2,1), of 64] by (auto simp: int_min_def DATE_NA_def dest: spec[of _ 31])

end
