(* ===== verification/Types.thy ===== *)
theory Types
  imports Date_Adapter String_Kernels
begin

text \<open>
  The types of \<^verbatim>\<open>src/dynd/types\<close> as values: the class of a type is a constructor, its members are the
  arguments. A builtin type is its type id; the uninitialised one is the null type. Names are the strings of their
  bytes, the empty name of an ellipsis stands for none, and the pattern of a \<^verbatim>\<open>type_type\<close> is null when it has
  none. The virtual functions on which construction, printing and matching rely are functions of the value: kind,
  size, alignment and the flags. Sizes are those of a platform with 64-bit pointers.
\<close>

section \<open>Types\<close>

datatype type_kind_t =
  bool_kind | uint_kind | sint_kind | real_kind | complex_kind | void_kind | char_kind | string_kind | bytes_kind
| datetime_kind | type_kind | dim_kind | struct_kind | tuple_kind | dynamic_kind | expr_kind | option_kind
| memory_kind | function_kind | kind_kind | pattern_kind | custom_kind

datatype datetime_tz = tz_abstract | tz_utc

datatype ndt =
  builtin_type type_id
| void_pointer_type
| pointer_type ndt
| bytes_type int
| fixed_bytes_type int int
| char_type string_encoding
| string_type string_encoding
| fixed_string_type int string_encoding
| date_type
| time_type datetime_tz
| datetime_type datetime_tz
| json_type
| fixed_dim_type int ndt
| var_dim_type ndt
| struct_type "string list" "ndt list" bool
| tuple_type "ndt list" bool
| c_contiguous_type ndt
| option_type ndt
| ndarrayarg_type
| kind_sym_type type_kind_t
| int_kind_sym_type
| any_sym_type
| adapt_type ndt ndt string
| byteswap_type ndt ndt
| view_type ndt ndt
| type_type ndt
| arrfunc_type "ndt list" bool "string list" "ndt list" bool ndt
| typevar_type string
| typevar_dim_type string ndt
| typevar_constructed_type string ndt
| pow_dimsym_type ndt string ndt
| ellipsis_dim_type string ndt
| dim_fragment_type "int list"
| fixed_dim_kind_type ndt
| categorical_kind_type
| fixed_bytes_kind_type
| fixed_string_kind_type

abbreviation null_type :: ndt where
  "null_type \<equiv> builtin_type uninitialized_type_id"

abbreviation void_type :: ndt where
  "void_type \<equiv> builtin_type void_type_id"

fun is_builtin :: "ndt \<Rightarrow> bool" where
  "is_builtin (builtin_type _) = True"
| "is_builtin _ = False"

fun get_type_id :: "ndt \<Rightarrow> type_id" where
  "get_type_id (builtin_type tid) = tid"
| "get_type_id void_pointer_type = void_pointer_type_id"
| "get_type_id (pointer_type _) = pointer_type_id"
| "get_type_id (bytes_type _) = bytes_type_id"
| "get_type_id (fixed_bytes_type _ _) = fixed_bytes_type_id"
| "get_type_id (char_type _) = char_type_id"
| "get_type_id (string_type _) = string_type_id"
| "get_type_id (fixed_string_type _ _) = fixed_string_type_id"
| "get_type_id date_type = date_type_id"
| "get_type_id (time_type _) = time_type_id"
| "get_type_id (datetime_type _) = datetime_type_id"
| "get_type_id json_type = json_type_id"
| "get_type_id (fixed_dim_type _ _) = fixed_dim_type_id"
| "get_type_id (var_dim_type _) = var_dim_type_id"
| "get_type_id (struct_type _ _ _) = struct_type_id"
| "get_type_id (tuple_type _ _) = tuple_type_id"
| "get_type_id (c_contiguous_type _) = c_contiguous_type_id"
| "get_type_id (option_type _) = option_type_id"
| "get_type_id ndarrayarg_type = ndarrayarg_type_id"
| "get_type_id (kind_sym_type _) = kind_sym_type_id"
| "get_type_id int_kind_sym_type = int_sym_type_id"
| "get_type_id any_sym_type = any_sym_type_id"
| "get_type_id (adapt_type _ _ _) = adapt_type_id"
| "get_type_id (byteswap_type _ _) = byteswap_type_id"
| "get_type_id (view_type _ _) = view_type_id"
| "get_type_id (type_type _) = type_type_id"
| "get_type_id (arrfunc_type _ _ _ _ _ _) = arrfunc_type_id"
| "get_type_id (typevar_type _) = typevar_type_id"
| "get_type_id (typevar_dim_type _ _) = typevar_dim_type_id"
| "get_type_id (typevar_constructed_type _ _) = typevar_constructed_type_id"
| "get_type_id (pow_dimsym_type _ _ _) = pow_dimsym_type_id"
| "get_type_id (ellipsis_dim_type _ _) = ellipsis_dim_type_id"
| "get_type_id (dim_fragment_type _) = dim_fragment_type_id"
| "get_type_id (fixed_dim_kind_type _) = fixed_dim_type_id"
| "get_type_id categorical_kind_type = categorical_type_id"
| "get_type_id fixed_bytes_kind_type = fixed_bytes_type_id"
| "get_type_id fixed_string_kind_type = fixed_string_type_id"

text \<open>The tables of the builtin types.\<close>

fun builtin_kind :: "type_id \<Rightarrow> type_kind_t" where
  "builtin_kind tid =
     (if tid = bool_type_id then bool_kind
      else if tid \<in> {int8_type_id, int16_type_id, int32_type_id, int64_type_id, int128_type_id} then sint_kind
      else if tid \<in> {uint8_type_id, uint16_type_id, uint32_type_id, uint64_type_id, uint128_type_id} then uint_kind
      else if tid \<in> {float16_type_id, float32_type_id, float64_type_id, float128_type_id} then real_kind
      else if tid \<in> {complex_float32_type_id, complex_float64_type_id} then complex_kind
      else void_kind)"

fun builtin_data_size :: "type_id \<Rightarrow> int" where
  "builtin_data_size tid =
     (if tid \<in> {bool_type_id, int8_type_id, uint8_type_id} then 1
      else if tid \<in> {int16_type_id, uint16_type_id, float16_type_id} then 2
      else if tid \<in> {int32_type_id, uint32_type_id, float32_type_id} then 4
      else if tid \<in> {int64_type_id, uint64_type_id, float64_type_id, complex_float32_type_id} then 8
      else if tid \<in> {int128_type_id, uint128_type_id, float128_type_id, complex_float64_type_id} then 16
      else 0)"

fun builtin_data_alignment :: "type_id \<Rightarrow> int" where
  "builtin_data_alignment tid =
     (if tid \<in> {int16_type_id, uint16_type_id, float16_type_id} then 2
      else if tid \<in> {int32_type_id, uint32_type_id, float32_type_id, complex_float32_type_id} then 4
      else if tid \<in> {int64_type_id, uint64_type_id, float64_type_id, int128_type_id, uint128_type_id, float128_type_id,
                   complex_float64_type_id} then 8
      else 1)"

fun get_kind :: "ndt \<Rightarrow> type_kind_t" where
  "get_kind (builtin_type tid) = builtin_kind tid"
| "get_kind void_pointer_type = void_kind"
| "get_kind (pointer_type _) = expr_kind"
| "get_kind (bytes_type _) = bytes_kind"
| "get_kind (fixed_bytes_type _ _) = bytes_kind"
| "get_kind (char_type _) = char_kind"
| "get_kind (string_type _) = string_kind"
| "get_kind (fixed_string_type _ _) = string_kind"
| "get_kind date_type = datetime_kind"
| "get_kind (time_type _) = datetime_kind"
| "get_kind (datetime_type _) = datetime_kind"
| "get_kind json_type = dynamic_kind"
| "get_kind (fixed_dim_type _ _) = dim_kind"
| "get_kind (var_dim_type _) = dim_kind"
| "get_kind (struct_type _ _ variadic) = (if variadic then kind_kind else struct_kind)"
| "get_kind (tuple_type _ variadic) = (if variadic then kind_kind else tuple_kind)"
| "get_kind (c_contiguous_type _) = kind_kind"
| "get_kind (option_type _) = option_kind"
| "get_kind ndarrayarg_type = dynamic_kind"
| "get_kind (kind_sym_type _) = kind_kind"
| "get_kind int_kind_sym_type = kind_kind"
| "get_kind any_sym_type = kind_kind"
| "get_kind (adapt_type _ _ _) = expr_kind"
| "get_kind (byteswap_type _ _) = expr_kind"
| "get_kind (view_type _ _) = expr_kind"
| "get_kind (type_type _) = type_kind"
| "get_kind (arrfunc_type _ _ _ _ _ _) = function_kind"
| "get_kind (typevar_type _) = pattern_kind"
| "get_kind (typevar_dim_type _ _) = pattern_kind"
| "get_kind (typevar_constructed_type _ _) = pattern_kind"
| "get_kind (pow_dimsym_type _ _ _) = pattern_kind"
| "get_kind (ellipsis_dim_type _ _) = pattern_kind"
| "get_kind (dim_fragment_type _) = dim_kind"
| "get_kind (fixed_dim_kind_type _) = kind_kind"
| "get_kind categorical_kind_type = kind_kind"
| "get_kind fixed_bytes_kind_type = kind_kind"
| "get_kind fixed_string_kind_type = kind_kind"

section \<open>Virtual functions\<close>

fun is_dim :: "ndt \<Rightarrow> bool" where
  "is_dim (fixed_dim_type _ _) = True"
| "is_dim (var_dim_type _) = True"
| "is_dim (typevar_dim_type _ _) = True"
| "is_dim (pow_dimsym_type _ _ _) = True"
| "is_dim (ellipsis_dim_type _ _) = True"
| "is_dim (dim_fragment_type _) = True"
| "is_dim (fixed_dim_kind_type _) = True"
| "is_dim _ = False"

text \<open>\<^verbatim>\<open>base_dim_type::get_element_type\<close>, for dimension types only.\<close>

fun get_element_type :: "ndt \<Rightarrow> ndt" where
  "get_element_type (fixed_dim_type _ t) = t"
| "get_element_type (var_dim_type t) = t"
| "get_element_type (typevar_dim_type _ t) = t"
| "get_element_type (pow_dimsym_type _ _ t) = t"
| "get_element_type (ellipsis_dim_type _ t) = t"
| "get_element_type (fixed_dim_kind_type t) = t"
| "get_element_type _ = void_type"

fun get_ndim :: "ndt \<Rightarrow> int" where
  "get_ndim (fixed_dim_type _ t) = 1 + get_ndim t"
| "get_ndim (var_dim_type t) = 1 + get_ndim t"
| "get_ndim (typevar_dim_type _ t) = 1 + get_ndim t"
| "get_ndim (pow_dimsym_type _ _ t) = 1 + get_ndim t"
| "get_ndim (ellipsis_dim_type _ t) = 1 + get_ndim t"
| "get_ndim (fixed_dim_kind_type t) = 1 + get_ndim t"
| "get_ndim (dim_fragment_type dims) = int (length dims)"
| "get_ndim (pointer_type t) = get_ndim t"
| "get_ndim (option_type t) = get_ndim t"
| "get_ndim (c_contiguous_type t) = get_ndim t"
| "get_ndim (typevar_constructed_type _ t) = get_ndim t"
| "get_ndim _ = 0"

lemma get_ndim_nonneg: "0 \<le> get_ndim t"
  by (induction t) auto

text \<open>The flag \<^verbatim>\<open>type_flag_symbolic\<close>.\<close>

fun is_symbolic :: "ndt \<Rightarrow> bool" where
  "is_symbolic (pointer_type t) = is_symbolic t"
| "is_symbolic (fixed_dim_type _ t) = is_symbolic t"
| "is_symbolic (var_dim_type t) = is_symbolic t"
| "is_symbolic (option_type t) = is_symbolic t"
| "is_symbolic (struct_type _ ts variadic) = (variadic \<or> list_ex is_symbolic ts)"
| "is_symbolic (tuple_type ts variadic) = (variadic \<or> list_ex is_symbolic ts)"
| "is_symbolic (adapt_type op_tp val_tp _) = (is_symbolic val_tp \<or> is_symbolic op_tp)"
| "is_symbolic (view_type val_tp op_tp) = (is_symbolic val_tp \<or> is_symbolic op_tp)"
| "is_symbolic (c_contiguous_type _) = True"
| "is_symbolic (kind_sym_type _) = True"
| "is_symbolic int_kind_sym_type = True"
| "is_symbolic any_sym_type = True"
| "is_symbolic (typevar_type _) = True"
| "is_symbolic (typevar_dim_type _ _) = True"
| "is_symbolic (typevar_constructed_type _ _) = True"
| "is_symbolic (pow_dimsym_type _ _ _) = True"
| "is_symbolic (ellipsis_dim_type _ _) = True"
| "is_symbolic (dim_fragment_type _) = True"
| "is_symbolic (fixed_dim_kind_type _) = True"
| "is_symbolic categorical_kind_type = True"
| "is_symbolic fixed_bytes_kind_type = True"
| "is_symbolic fixed_string_kind_type = True"
| "is_symbolic _ = False"

text \<open>One of the flags \<^verbatim>\<open>type_flag_blockref\<close> and \<^verbatim>\<open>type_flag_destructor\<close>.\<close>

fun has_references :: "ndt \<Rightarrow> bool" where
  "has_references void_pointer_type = True"
| "has_references (pointer_type _) = True"
| "has_references (bytes_type _) = True"
| "has_references (string_type _) = True"
| "has_references json_type = True"
| "has_references (var_dim_type _) = True"
| "has_references (type_type _) = True"
| "has_references (arrfunc_type _ _ _ _ _ _) = True"
| "has_references (fixed_dim_type _ t) = has_references t"
| "has_references (fixed_dim_kind_type t) = has_references t"
| "has_references (struct_type _ ts _) = list_ex has_references ts"
| "has_references (tuple_type ts _) = list_ex has_references ts"
| "has_references (c_contiguous_type t) = has_references t"
| "has_references (option_type t) = has_references t"
| "has_references (adapt_type op_tp _ _) = has_references op_tp"
| "has_references (view_type _ op_tp) = has_references op_tp"
| "has_references _ = False"

definition fixed_string_unit :: "string_encoding \<Rightarrow> int" where
  "fixed_string_unit encoding =
     (case encoding of
        string_encoding_ascii \<Rightarrow> 1 | string_encoding_utf_8 \<Rightarrow> 1 | string_encoding_ucs_2 \<Rightarrow> 2
      | string_encoding_utf_16 \<Rightarrow> 2 | string_encoding_utf_32 \<Rightarrow> 4 | _ \<Rightarrow> 1)"

fun get_data_size :: "ndt \<Rightarrow> int" where
  "get_data_size (builtin_type tid) = builtin_data_size tid"
| "get_data_size void_pointer_type = 8"
| "get_data_size (pointer_type _) = 8"
| "get_data_size (bytes_type _) = 16"
| "get_data_size (fixed_bytes_type n _) = n"
| "get_data_size (char_type encoding) = int (string_encoding_char_size_table encoding)"
| "get_data_size (string_type _) = 16"
| "get_data_size (fixed_string_type n encoding) = n * fixed_string_unit encoding"
| "get_data_size date_type = 4"
| "get_data_size (time_type _) = 8"
| "get_data_size (datetime_type _) = 8"
| "get_data_size json_type = 16"
| "get_data_size (var_dim_type _) = 16"
| "get_data_size (option_type t) = get_data_size t"
| "get_data_size ndarrayarg_type = 8"
| "get_data_size (adapt_type op_tp _ _) = get_data_size op_tp"
| "get_data_size (byteswap_type _ op_tp) = get_data_size op_tp"
| "get_data_size (view_type _ op_tp) = get_data_size op_tp"
| "get_data_size (type_type _) = 8"
| "get_data_size (arrfunc_type _ _ _ _ _ _) = 72"
| "get_data_size _ = 0"

fun get_data_alignment :: "ndt \<Rightarrow> int" where
  "get_data_alignment (builtin_type tid) = builtin_data_alignment tid"
| "get_data_alignment void_pointer_type = 8"
| "get_data_alignment (pointer_type _) = 8"
| "get_data_alignment (bytes_type _) = 8"
| "get_data_alignment (fixed_bytes_type _ align) = align"
| "get_data_alignment (char_type encoding) = int (string_encoding_char_size_table encoding)"
| "get_data_alignment (string_type _) = 8"
| "get_data_alignment (fixed_string_type _ encoding) = fixed_string_unit encoding"
| "get_data_alignment date_type = 4"
| "get_data_alignment (time_type _) = 8"
| "get_data_alignment (datetime_type _) = 8"
| "get_data_alignment json_type = 8"
| "get_data_alignment (fixed_dim_type _ t) = get_data_alignment t"
| "get_data_alignment (fixed_dim_kind_type t) = get_data_alignment t"
| "get_data_alignment (var_dim_type _) = 8"
| "get_data_alignment (struct_type _ ts _) = fold (\<lambda>t. max (get_data_alignment t)) ts 1"
| "get_data_alignment (tuple_type ts _) = fold (\<lambda>t. max (get_data_alignment t)) ts 1"
| "get_data_alignment (option_type t) = get_data_alignment t"
| "get_data_alignment ndarrayarg_type = 8"
| "get_data_alignment (adapt_type op_tp _ _) = get_data_alignment op_tp"
| "get_data_alignment (byteswap_type _ op_tp) = get_data_alignment op_tp"
| "get_data_alignment (view_type _ op_tp) = get_data_alignment op_tp"
| "get_data_alignment (type_type _) = 8"
| "get_data_alignment (arrfunc_type _ _ _ _ _ _) = 8"
| "get_data_alignment categorical_kind_type = 0"
| "get_data_alignment fixed_bytes_kind_type = 0"
| "get_data_alignment fixed_string_kind_type = 0"
| "get_data_alignment _ = 1"

definition is_pod :: "ndt \<Rightarrow> bool" where
  "is_pod t \<longleftrightarrow> is_builtin t \<or> (get_data_size t > 0 \<and> \<not> has_references t)"

text \<open>The parts of an expression type; any other type is its own value, operand and storage.\<close>

fun value_type :: "ndt \<Rightarrow> ndt" where
  "value_type (pointer_type t) = value_type t"
| "value_type (adapt_type _ val_tp _) = val_tp"
| "value_type (byteswap_type val_tp _) = val_tp"
| "value_type (view_type val_tp _) = val_tp"
| "value_type t = t"

fun storage_type :: "ndt \<Rightarrow> ndt" where
  "storage_type (pointer_type t) = (case t of pointer_type _ \<Rightarrow> storage_type t | _ \<Rightarrow> void_pointer_type)"
| "storage_type (adapt_type op_tp _ _) = storage_type op_tp"
| "storage_type (byteswap_type _ op_tp) = storage_type op_tp"
| "storage_type (view_type _ op_tp) = storage_type op_tp"
| "storage_type t = t"

text \<open>
  Equality. Two byteswap types are equal when their values are, whatever their operands, and so are two views.
\<close>

fun type_eq :: "ndt \<Rightarrow> ndt \<Rightarrow> bool" where
  "type_eq (byteswap_type v _) t' =
     (case t' of byteswap_type v' _ \<Rightarrow> type_eq v v' | _ \<Rightarrow> False)"
| "type_eq (view_type v _) t' = (case t' of view_type v' _ \<Rightarrow> type_eq v v' | _ \<Rightarrow> False)"
| "type_eq (adapt_type p v op) t' =
     (case t' of adapt_type p' v' op' \<Rightarrow> type_eq v v' \<and> type_eq p p' \<and> op = op' | _ \<Rightarrow> False)"
| "type_eq (pointer_type a) t' = (case t' of pointer_type a' \<Rightarrow> type_eq a a' | _ \<Rightarrow> False)"
| "type_eq (fixed_dim_type n a) t' =
     (case t' of fixed_dim_type n' a' \<Rightarrow> type_eq a a' \<and> n = n' | _ \<Rightarrow> False)"
| "type_eq (fixed_dim_kind_type a) t' =
     (case t' of fixed_dim_kind_type a' \<Rightarrow> type_eq a a' | _ \<Rightarrow> False)"
| "type_eq (var_dim_type a) t' = (case t' of var_dim_type a' \<Rightarrow> type_eq a a' | _ \<Rightarrow> False)"
| "type_eq (struct_type ns ts v) t' =
     (case t' of struct_type ns' ts' v' \<Rightarrow> get_data_alignment (struct_type ns ts v) = get_data_alignment t'
         \<and> list_all2 type_eq ts ts' \<and> ns = ns' \<and> v = v' | _ \<Rightarrow> False)"
| "type_eq (tuple_type ts v) t' =
     (case t' of tuple_type ts' v' \<Rightarrow> get_data_alignment (tuple_type ts v) = get_data_alignment t'
         \<and> list_all2 type_eq ts ts' \<and> v = v' | _ \<Rightarrow> False)"
| "type_eq (c_contiguous_type a) t' =
     (case t' of c_contiguous_type a' \<Rightarrow> type_eq a a' | _ \<Rightarrow> False)"
| "type_eq (option_type a) t' = (case t' of option_type a' \<Rightarrow> type_eq a a' | _ \<Rightarrow> False)"
| "type_eq (type_type a) t' = (case t' of type_type a' \<Rightarrow> type_eq a a' | _ \<Rightarrow> False)"
| "type_eq (arrfunc_type ps pv ns ks kv r) t' =
     (case t' of arrfunc_type ps' pv' ns' ks' kv' r' \<Rightarrow> type_eq r r'
         \<and> get_data_alignment (tuple_type ps pv) = get_data_alignment (tuple_type ps' pv')
         \<and> list_all2 type_eq ps ps' \<and> pv = pv'
         \<and> get_data_alignment (struct_type ns ks kv) = get_data_alignment (struct_type ns' ks' kv')
         \<and> list_all2 type_eq ks ks' \<and> ns = ns' \<and> kv = kv' | _ \<Rightarrow> False)"
| "type_eq (typevar_dim_type n a) t' =
     (case t' of typevar_dim_type n' a' \<Rightarrow> n = n' \<and> type_eq a a' | _ \<Rightarrow> False)"
| "type_eq (typevar_constructed_type n a) t' =
     (case t' of typevar_constructed_type n' a' \<Rightarrow> n = n' \<and> type_eq a a' | _ \<Rightarrow> False)"
| "type_eq (pow_dimsym_type b e a) t' =
     (case t' of pow_dimsym_type b' e' a' \<Rightarrow> e = e' \<and> type_eq b b' \<and> type_eq a a' | _ \<Rightarrow> False)"
| "type_eq (ellipsis_dim_type n a) t' =
     (case t' of ellipsis_dim_type n' a' \<Rightarrow> n = n' \<and> type_eq a a' | _ \<Rightarrow> False)"
| "type_eq t t' = (t = t')"

section \<open>Making types\<close>

text \<open>
  The exceptions, with the message up to the first value it prints. \<open>undefined_behaviour\<close> marks calls whose behaviour C++
  does not define.
\<close>

datatype dynd_exception =
  type_error string | runtime_error string | invalid_argument string
| from_codec codec_error | from_number number_error | from_date date_error | undefined_behaviour

type_synonym made = "dynd_exception + ndt"

definition bind_made :: "'e + 'a \<Rightarrow> ('a \<Rightarrow> 'e + 'b) \<Rightarrow> 'e + 'b" where
  "bind_made r f = (case r of Inl e \<Rightarrow> Inl e | Inr v \<Rightarrow> f v)"

definition is_valid_typevar_name :: "string \<Rightarrow> bool" where
  "is_valid_typevar_name s =
     (case s of
        [] \<Rightarrow> False
      | c # cs \<Rightarrow> CHR ''A'' \<le> c \<and> c \<le> CHR ''Z'' \<and> list_all (\<lambda>d. is_alpha d \<or> is_digit d \<or> d = CHR ''_'') cs)"

definition is_simple_identifier_name :: "string \<Rightarrow> bool" where
  "is_simple_identifier_name s =
     (case s of
        [] \<Rightarrow> False
      | c # cs \<Rightarrow> (is_alpha c \<or> c = CHR ''_'') \<and> list_all (\<lambda>d. is_alpha d \<or> is_digit d \<or> d = CHR ''_'') cs)"

definition small_power_of_two :: "int \<Rightarrow> bool" where
  "small_power_of_two k \<longleftrightarrow> k = 1 \<or> k = 2 \<or> k = 4 \<or> k = 8 \<or> k = 16"

definition make_bytes :: "int \<Rightarrow> made" where
  "make_bytes alignment =
     (if \<not> small_power_of_two alignment then Inl (runtime_error ''Cannot make a dynd bytes type with alignment '')
      else Inr (bytes_type alignment))"

definition make_fixed_bytes :: "int \<Rightarrow> int \<Rightarrow> made" where
  "make_fixed_bytes data_size data_alignment =
     (if data_alignment > data_size then Inl (runtime_error ''Cannot make a bytes['')
      else if \<not> small_power_of_two data_alignment then Inl (runtime_error ''Cannot make a bytes['')
      else if data_size mod data_alignment \<noteq> 0 then Inl (runtime_error ''Cannot make a fixed_bytes['')
      else Inr (fixed_bytes_type data_size data_alignment))"

definition make_char :: "string_encoding \<Rightarrow> made" where
  "make_char encoding =
     (if encoding \<in> {string_encoding_ascii, string_encoding_latin1, string_encoding_ucs_2, string_encoding_utf_32}
      then Inr (char_type encoding)
      else Inl (runtime_error ''dynd char type requires fixed-size encoding, ''))"

definition string_encodings :: "string_encoding list" where
  "string_encodings =
     [string_encoding_ascii, string_encoding_ucs_2, string_encoding_utf_8, string_encoding_utf_16, string_encoding_utf_32]"

definition make_string :: "string_encoding \<Rightarrow> made" where
  "make_string encoding =
     (if encoding \<in> set string_encodings then Inr (string_type encoding)
      else Inl (runtime_error ''Unrecognized string encoding in string type constructor''))"

definition make_fixed_string :: "int \<Rightarrow> string_encoding \<Rightarrow> made" where
  "make_fixed_string stringsize encoding =
     (if encoding \<in> set string_encodings then Inr (fixed_string_type stringsize encoding)
      else Inl (runtime_error ''Unrecognized string encoding in dynd fixed_string type constructor''))"

text \<open>
  The instances for builtin types are made once and kept in a table; the entry of the uninitialised type is null and
  the pointer to void has a class of its own.
\<close>

definition make_pointer :: "ndt \<Rightarrow> made" where
  "make_pointer target_tp =
     (if target_tp = null_type then Inr null_type
      else if target_tp = void_type then Inr void_pointer_type
      else if get_kind target_tp = expr_kind \<and> get_type_id target_tp \<noteq> pointer_type_id
      then Inl (type_error ''A dynd pointer type's target cannot be the expression type '')
      else Inr (pointer_type target_tp))"

definition make_option :: "ndt \<Rightarrow> made" where
  "make_option value_tp =
     (if value_tp = null_type then Inr null_type
      else if get_type_id value_tp = option_type_id
      then Inl (type_error ''Cannot construct an option type out of '')
      else Inr (option_type value_tp))"

definition make_fixed_dim_kind :: "ndt \<Rightarrow> ndt" where
  "make_fixed_dim_kind element_tp =
     (if element_tp = null_type then null_type else fixed_dim_kind_type element_tp)"

definition make_c_contiguous :: "ndt \<Rightarrow> made" where
  "make_c_contiguous child_tp =
     (if get_type_id child_tp \<noteq> fixed_dim_type_id
      then Inl (invalid_argument ''c_contiguous_type must have a child that is a fixed_dim_type'')
      else Inr (c_contiguous_type child_tp))"

definition make_type_type :: "ndt \<Rightarrow> made" where
  "make_type_type pattern_tp =
     (if \<not> is_symbolic pattern_tp
      then Inl (type_error ''type_type must have a symbolic type for a pattern'')
      else Inr (type_type pattern_tp))"

definition make_kind_sym :: "type_kind_t \<Rightarrow> made" where
  "make_kind_sym kind =
     (if kind \<in> {bool_kind, uint_kind, sint_kind, real_kind, complex_kind, void_kind, char_kind, string_kind,
                 bytes_kind, datetime_kind, type_kind, dim_kind, struct_kind, tuple_kind}
      then Inr (kind_sym_type kind)
      else Inl (invalid_argument ''Out of range kind ''))"

definition check_typevar_name :: "string \<Rightarrow> ndt \<Rightarrow> made" where
  "check_typevar_name name t =
     (if is_valid_typevar_name name then Inr t else Inl (type_error ''dynd typevar name ''))"

definition make_typevar :: "string \<Rightarrow> made" where
  "make_typevar name = check_typevar_name name (typevar_type name)"

definition make_typevar_dim :: "string \<Rightarrow> ndt \<Rightarrow> made" where
  "make_typevar_dim name element_tp = check_typevar_name name (typevar_dim_type name element_tp)"

definition make_typevar_constructed :: "string \<Rightarrow> ndt \<Rightarrow> made" where
  "make_typevar_constructed name arg = check_typevar_name name (typevar_constructed_type name arg)"

definition make_pow_dimsym :: "ndt \<Rightarrow> string \<Rightarrow> ndt \<Rightarrow> made" where
  "make_pow_dimsym base_tp exponent element_tp =
     (if \<not> is_dim base_tp \<or> get_type_id (get_element_type base_tp) \<noteq> void_type_id
      then Inl (type_error ''dynd base type for dimensional power symbolic type is not valid: '')
      else check_typevar_name exponent (pow_dimsym_type base_tp exponent element_tp))"

definition make_ellipsis_dim :: "string \<Rightarrow> ndt \<Rightarrow> made" where
  "make_ellipsis_dim name element_tp =
     (if name = [] \<or> is_valid_typevar_name name then Inr (ellipsis_dim_type name element_tp)
      else Inl (type_error ''dynd ellipsis name ''))"

text \<open>The overloads with a number of dimensions.\<close>

definition repeat_dim :: "(ndt \<Rightarrow> ndt) \<Rightarrow> int \<Rightarrow> ndt \<Rightarrow> ndt" where
  "repeat_dim dim n t = (dim ^^ nat n) t"

text \<open>
  A struct has as many names as types. A function type holds its positional types as a tuple and its keyword types as a
  struct; without keywords the struct is empty, and variadic exactly when the tuple is.
\<close>

definition make_struct :: "string list \<Rightarrow> ndt list \<Rightarrow> bool \<Rightarrow> made" where
  "make_struct names ts variadic =
     (if length names \<noteq> length ts
      then Inl (invalid_argument ''dynd struct type requires that the number of names, '')
      else Inr (struct_type names ts variadic))"

definition make_arrfunc_positional :: "ndt \<Rightarrow> ndt \<Rightarrow> made" where
  "make_arrfunc_positional pos_tuple ret_tp =
     (case pos_tuple of
        tuple_type ts variadic \<Rightarrow> Inr (arrfunc_type ts variadic [] [] variadic ret_tp)
      | _ \<Rightarrow> Inl (invalid_argument ''dynd arrfunc positional arg types require a tuple type, got a type ''))"

definition make_arrfunc :: "ndt \<Rightarrow> ndt \<Rightarrow> ndt \<Rightarrow> made" where
  "make_arrfunc pos_tuple kwd_struct ret_tp =
     (case pos_tuple of
        tuple_type ts variadic \<Rightarrow>
          (case kwd_struct of
             struct_type names kts kvariadic \<Rightarrow> Inr (arrfunc_type ts variadic names kts kvariadic ret_tp)
           | _ \<Rightarrow> Inl (invalid_argument ''dynd arrfunc keyword arg types require a struct type, got a type ''))
      | _ \<Rightarrow> Inl (invalid_argument ''dynd arrfunc positional arg types require a tuple type, got a type ''))"

section \<open>Expression types\<close>

text \<open>
  An adapter is looked up with the value type, then in reverse with the operand's. The memory that a parse of a datetime
  leaves without a value, a minute and a second, is the argument \<open>mem\<close>; without a century window the clock is not read.
\<close>

definition adapt_with :: "int \<times> int \<Rightarrow> ndt \<Rightarrow> type_id \<Rightarrow> string \<Rightarrow> date_error + (adapter \<times> adapter) option" where
  "adapt_with mem tp tid op =
     (case tp of
        date_type \<Rightarrow> make_date_adapter_arrfunc 0 tid op
      | datetime_type _ \<Rightarrow> make_datetime_adapter_arrfunc (fst mem) (snd mem) 0 tid op
      | _ \<Rightarrow> Inr None)"

definition make_adapt :: "int \<times> int \<Rightarrow> ndt \<Rightarrow> ndt \<Rightarrow> string \<Rightarrow> made" where
  "make_adapt mem operand_tp value_tp op =
     (case or_else (adapt_with mem value_tp (get_type_id (value_type operand_tp)) op)
                   (adapt_with mem (value_type operand_tp) (get_type_id value_tp) op) of
        Inl e \<Rightarrow> Inl (from_date e)
      | Inr None \<Rightarrow> Inl (type_error ''Cannot create type '')
      | Inr (Some _) \<Rightarrow> Inr (adapt_type operand_tp value_tp op))"

text \<open>The constructor of a view.\<close>

definition new_view :: "ndt \<Rightarrow> ndt \<Rightarrow> made" where
  "new_view value_tp operand_tp =
     (if get_data_size value_tp \<noteq> get_data_size (value_type operand_tp)
      then Inl (type_error ''view_type: Cannot view '')
      else if \<not> is_pod value_tp then Inl (type_error ''view_type: Only POD types are supported'')
      else Inr (view_type value_tp operand_tp))"

definition new_byteswap :: "ndt \<Rightarrow> made" where
  "new_byteswap value_tp =
     bind_made (make_fixed_bytes (get_data_size value_tp) (get_data_alignment value_tp))
       (\<lambda>bytes. if \<not> is_builtin value_tp
                then Inl (type_error ''byteswap_type: Only built-in types are supported presently'')
                else Inr (byteswap_type value_tp bytes))"

text \<open>
  Viewing the operand of a byteswap as bytes of a larger alignment. The operands that occur are types that are not
  expressions and views of these.
\<close>

definition realign :: "ndt \<Rightarrow> ndt \<Rightarrow> made" where
  "realign operand_tp bytes =
     (case operand_tp of
        view_type v p \<Rightarrow>
          if get_kind p = expr_kind then Inl undefined_behaviour
          else bind_made (new_view p bytes) (\<lambda>replacement. new_view v replacement)
      | _ \<Rightarrow> if get_kind operand_tp = expr_kind then Inl undefined_behaviour else new_view operand_tp bytes)"

definition new_byteswap_of :: "ndt \<Rightarrow> ndt \<Rightarrow> made" where
  "new_byteswap_of value_tp operand_tp =
     (if get_type_id (value_type operand_tp) \<noteq> fixed_bytes_type_id
      then Inl (type_error ''byteswap_type: The operand to the type must have a value type of bytes, not '')
      else if get_data_alignment (value_type operand_tp) < get_data_alignment value_tp
      then bind_made (make_fixed_bytes (get_data_size operand_tp) (get_data_alignment value_tp))
             (\<lambda>bytes. bind_made (realign operand_tp bytes) (\<lambda>p. Inr (byteswap_type value_tp p)))
      else Inr (byteswap_type value_tp operand_tp))"

text \<open>
  \<^verbatim>\<open>with_replaced_storage_type\<close>. The replacement is a view. When the operand of a byteswap or of an adapter is an
  expression, the source replaces the storage of the replacement itself.
\<close>

definition replace_in_view :: "ndt \<Rightarrow> ndt \<Rightarrow> ndt \<Rightarrow> made" where
  "replace_in_view value_tp operand_tp replacement =
     (if \<not> type_eq operand_tp (value_type replacement)
      then Inl (type_error ''Cannot chain types, because the view's storage type, '')
      else new_view value_tp replacement)"

definition replace_in_itself :: "ndt \<Rightarrow> made" where
  "replace_in_itself replacement =
     (case replacement of
        view_type v p \<Rightarrow> if get_kind p = expr_kind then Inl undefined_behaviour else replace_in_view v p replacement
      | _ \<Rightarrow> Inl undefined_behaviour)"

fun with_replaced_storage_type :: "int \<times> int \<Rightarrow> ndt \<Rightarrow> ndt \<Rightarrow> made" where
  "with_replaced_storage_type mem (byteswap_type v p) r =
     bind_made (if get_kind p \<noteq> expr_kind then Inr r else replace_in_itself r) (new_byteswap_of v)"
| "with_replaced_storage_type mem (adapt_type p v op) r =
     bind_made (if get_kind p \<noteq> expr_kind then Inr r else replace_in_itself r) (\<lambda>p. make_adapt mem p v op)"
| "with_replaced_storage_type mem (view_type v p) r =
     (if get_kind p = expr_kind then bind_made (with_replaced_storage_type mem p r) (new_view v)
      else replace_in_view v p r)"
| "with_replaced_storage_type mem (pointer_type _) r =
     Inl (runtime_error ''TODO: implement pointer_type::with_replaced_storage_type'')"
| "with_replaced_storage_type mem _ r = Inl undefined_behaviour"

definition make_view :: "int \<times> int \<Rightarrow> ndt \<Rightarrow> ndt \<Rightarrow> made" where
  "make_view mem value_tp operand_tp =
     (if get_kind value_tp \<noteq> expr_kind then new_view value_tp operand_tp
      else bind_made (new_view (storage_type value_tp) operand_tp) (with_replaced_storage_type mem value_tp))"

definition make_unaligned :: "int \<times> int \<Rightarrow> ndt \<Rightarrow> made" where
  "make_unaligned mem value_tp =
     (if get_data_alignment value_tp > 1
      then (if get_kind value_tp \<noteq> expr_kind
            then bind_made (make_fixed_bytes (get_data_size value_tp) 1) (make_view mem value_tp)
            else (let sdt = storage_type value_tp
                  in bind_made (make_fixed_bytes (get_data_size sdt) 1)
                       (\<lambda>bytes. bind_made (make_view mem sdt bytes) (with_replaced_storage_type mem value_tp))))
      else Inr value_tp)"

section \<open>Printing\<close>

text \<open>
  Names that are not identifiers are printed with quotes and escapes; this fails when they are not UTF-8.
\<close>

type_synonym printed = "(codec_error + string) option"

definition ptext :: "string \<Rightarrow> printed" where
  "ptext s = Some (Inr s)"

definition pcat :: "printed \<Rightarrow> printed \<Rightarrow> printed" where
  "pcat p q =
     (case p of
        Some (Inr s) \<Rightarrow> map_option (map_sum id (\<lambda>t. s @ t)) q
      | Some (Inl e) \<Rightarrow> Some (Inl e)
      | None \<Rightarrow> None)"

definition pcats :: "printed list \<Rightarrow> printed" where
  "pcats ps = foldr pcat ps (ptext [])"

text \<open>The loop over the fields of a tuple or a struct, with a comma before every one but the first.\<close>

fun print_fields :: "bool \<Rightarrow> printed list \<Rightarrow> printed" where
  "print_fields comma [] = ptext []"
| "print_fields comma (p # ps) = pcat (if comma then ptext '', '' else ptext []) (pcat p (print_fields True ps))"

definition print_int :: "int \<Rightarrow> string" where
  "print_int k = (if k < 0 then CHR ''-'' # decimal (nat (- k)) else decimal (nat k))"

definition print_encoding :: "string_encoding \<Rightarrow> string" where
  "print_encoding encoding =
     (case encoding of
        string_encoding_ascii \<Rightarrow> ''ascii'' | string_encoding_ucs_2 \<Rightarrow> ''ucs2'' | string_encoding_utf_8 \<Rightarrow> ''utf8''
      | string_encoding_utf_16 \<Rightarrow> ''utf16'' | string_encoding_utf_32 \<Rightarrow> ''utf32'' | string_encoding_latin1 \<Rightarrow> ''latin1''
      | _ \<Rightarrow> ''unknown string encoding'')"

definition quoted :: "string \<Rightarrow> string" where
  "quoted s = [CHR 0x27] @ s @ [CHR 0x27]"

fun print_kind :: "type_kind_t \<Rightarrow> string" where
  "print_kind bool_kind = ''Bool''" | "print_kind uint_kind = ''UInt''" | "print_kind sint_kind = ''SInt''"
| "print_kind real_kind = ''Real''" | "print_kind complex_kind = ''Complex''" | "print_kind void_kind = ''Void''"
| "print_kind char_kind = ''(unknown kind 6)''" | "print_kind string_kind = ''String''"
| "print_kind bytes_kind = ''Bytes''" | "print_kind datetime_kind = ''Datetime''" | "print_kind type_kind = ''Type''"
| "print_kind dim_kind = ''Dim''" | "print_kind struct_kind = ''Struct''" | "print_kind tuple_kind = ''Tuple''"
| "print_kind dynamic_kind = ''Dynamic''" | "print_kind expr_kind = ''Expr''" | "print_kind option_kind = ''Option''"
| "print_kind memory_kind = ''Memory''" | "print_kind function_kind = ''Function''" | "print_kind kind_kind = ''Kind''"
| "print_kind pattern_kind = ''Pattern''" | "print_kind custom_kind = ''Custom''"

fun print_builtin :: "type_id \<Rightarrow> string" where
  "print_builtin bool_type_id = ''bool''" | "print_builtin int8_type_id = ''int8''"
| "print_builtin int16_type_id = ''int16''" | "print_builtin int32_type_id = ''int32''"
| "print_builtin int64_type_id = ''int64''" | "print_builtin int128_type_id = ''int128''"
| "print_builtin uint8_type_id = ''uint8''" | "print_builtin uint16_type_id = ''uint16''"
| "print_builtin uint32_type_id = ''uint32''" | "print_builtin uint64_type_id = ''uint64''"
| "print_builtin uint128_type_id = ''uint128''" | "print_builtin float16_type_id = ''float16''"
| "print_builtin float32_type_id = ''float32''" | "print_builtin float64_type_id = ''float64''"
| "print_builtin float128_type_id = ''float128''" | "print_builtin complex_float32_type_id = ''complex[float32]''"
| "print_builtin complex_float64_type_id = ''complex[float64]''" | "print_builtin void_type_id = ''void''"
| "print_builtin _ = ''uninitialized''"

definition print_escaped :: "string \<Rightarrow> printed" where
  "print_escaped s = print_escaped_utf8_string (map char_byte s) True"

definition print_name :: "string \<Rightarrow> printed" where
  "print_name name = (if is_simple_identifier_name name then ptext name else print_escaped name)"

definition print_timezone :: "string \<Rightarrow> datetime_tz \<Rightarrow> string" where
  "print_timezone name tz =
     (case tz of tz_abstract \<Rightarrow> name | tz_utc \<Rightarrow> name @ ''[tz='' @ quoted ''UTC'' @ '']'')"

definition print_fragment_dim :: "int \<Rightarrow> string" where
  "print_fragment_dim d =
     (if d = - 1 then ''var * '' else if d = - 2 then ''Fixed * '' else ''fixed['' @ print_int d @ '']'')"

text \<open>The base of a dimensional power is printed without its element.\<close>

definition print_pow_base :: "ndt \<Rightarrow> string" where
  "print_pow_base base_tp =
     (case base_tp of
        fixed_dim_kind_type _ \<Rightarrow> ''Fixed''
      | fixed_dim_type n _ \<Rightarrow> print_int n
      | var_dim_type _ \<Rightarrow> ''var''
      | typevar_dim_type name _ \<Rightarrow> name
      | _ \<Rightarrow> [])"

text \<open>What the classes print; the parts of a type are given as what they print.\<close>

definition print_pointer_type :: "printed \<Rightarrow> printed" where
  "print_pointer_type target = pcats [ptext ''pointer['', target, ptext '']'']"

definition print_bytes_type :: "int \<Rightarrow> printed" where
  "print_bytes_type align = ptext (''bytes'' @ (if align \<noteq> 1 then ''[align='' @ print_int align @ '']'' else []))"

definition print_fixed_bytes_type :: "int \<Rightarrow> int \<Rightarrow> printed" where
  "print_fixed_bytes_type n align =
     ptext (''fixed_bytes['' @ print_int n @ (if align \<noteq> 1 then '', align='' @ print_int align else []) @ '']'')"

definition print_char_type :: "string_encoding \<Rightarrow> printed" where
  "print_char_type encoding =
     ptext (''char'' @ (if encoding \<noteq> string_encoding_utf_32 then ''['' @ quoted (print_encoding encoding) @ '']'' else []))"

definition print_string_type :: "string_encoding \<Rightarrow> printed" where
  "print_string_type encoding =
     ptext (''string'' @ (if encoding \<noteq> string_encoding_utf_8 then ''['' @ quoted (print_encoding encoding) @ '']'' else []))"

definition print_fixed_string_type :: "int \<Rightarrow> string_encoding \<Rightarrow> printed" where
  "print_fixed_string_type n encoding =
     ptext (''fixed_string['' @ print_int n
            @ (if encoding \<noteq> string_encoding_utf_8 then '','' @ quoted (print_encoding encoding) else []) @ '']'')"

definition print_time_type :: "datetime_tz \<Rightarrow> printed" where
  "print_time_type tz = ptext (print_timezone ''time'' tz)"

definition print_datetime_type :: "datetime_tz \<Rightarrow> printed" where
  "print_datetime_type tz = ptext (print_timezone ''datetime'' tz)"

definition print_fixed_dim_type :: "int \<Rightarrow> printed \<Rightarrow> printed" where
  "print_fixed_dim_type n element = pcats [ptext (print_int n @ '' * ''), element]"

definition print_var_dim_type :: "printed \<Rightarrow> printed" where
  "print_var_dim_type element = pcats [ptext ''var * '', element]"

definition print_struct_type :: "string list \<Rightarrow> printed list \<Rightarrow> bool \<Rightarrow> printed" where
  "print_struct_type names parts variadic =
     pcats [ptext ''{'',
            print_fields False (map2 (\<lambda>name p. pcats [print_name name, ptext '' : '', p]) names parts),
            ptext (if variadic then '', ...}'' else ''}'')]"

definition print_tuple_type :: "printed list \<Rightarrow> bool \<Rightarrow> printed" where
  "print_tuple_type parts variadic =
     pcats [ptext ''('', print_fields False parts, ptext (if variadic then '', ...)'' else '')'')]"

definition print_c_contiguous_type :: "printed \<Rightarrow> printed" where
  "print_c_contiguous_type child = pcats [ptext ''C['', child, ptext '']'']"

definition print_option_type :: "printed \<Rightarrow> printed" where
  "print_option_type val = pcats [ptext ''?'', val]"

definition print_adapt_type :: "printed \<Rightarrow> printed \<Rightarrow> string \<Rightarrow> printed" where
  "print_adapt_type operand val op =
     pcats [ptext ''adapt[('', operand, ptext '') -> '', val, ptext '', '', print_escaped op, ptext '']'']"

definition print_byteswap_type :: "ndt \<Rightarrow> printed \<Rightarrow> printed \<Rightarrow> printed" where
  "print_byteswap_type op_tp val operand =
     pcats [ptext ''byteswap['', val,
            if get_type_id op_tp \<noteq> fixed_bytes_type_id then pcat (ptext '', '') operand else ptext [], ptext '']'']"

definition print_view_type :: "ndt \<Rightarrow> ndt \<Rightarrow> printed \<Rightarrow> printed \<Rightarrow> printed" where
  "print_view_type val_tp op_tp val operand =
     (if get_data_alignment val_tp \<noteq> 1 \<and> get_type_id op_tp = fixed_bytes_type_id \<and> get_data_alignment op_tp = 1
      then pcats [ptext ''unaligned['', val, ptext '']'']
      else pcats [ptext ''view[as='', val, ptext '', original='', operand, ptext '']''])"

definition print_type_type :: "ndt \<Rightarrow> printed \<Rightarrow> printed" where
  "print_type_type pattern_tp pattern =
     (if pattern_tp = null_type then ptext ''type'' else pcats [ptext ''type | '', pattern])"

definition print_arrfunc_type :: "printed list \<Rightarrow> bool \<Rightarrow> string list \<Rightarrow> printed list \<Rightarrow> bool \<Rightarrow> printed \<Rightarrow> printed" where
  "print_arrfunc_type ps pvariadic names ks kvariadic ret =
     pcats [ptext ''('', print_fields False ps,
            ptext (if pvariadic then (if ps \<noteq> [] then '', ...'' else ''...'') else []),
            print_fields (ps \<noteq> []) (map2 (\<lambda>name p. pcats [print_name name, ptext '': '', p]) names ks),
            ptext (if ks \<noteq> [] \<and> kvariadic then ''...'' else []), ptext '') -> '', ret]"

definition print_typevar_dim_type :: "string \<Rightarrow> printed \<Rightarrow> printed" where
  "print_typevar_dim_type name element = pcats [ptext (name @ '' * ''), element]"

definition print_typevar_constructed_type :: "string \<Rightarrow> printed \<Rightarrow> printed" where
  "print_typevar_constructed_type name arg = pcats [ptext (name @ ''[''), arg, ptext '']'']"

definition print_pow_dimsym_type :: "ndt \<Rightarrow> string \<Rightarrow> printed \<Rightarrow> printed" where
  "print_pow_dimsym_type base_tp exponent element =
     pcats [ptext (print_pow_base base_tp @ ''**'' @ exponent @ '' * ''), element]"

definition print_ellipsis_dim_type :: "string \<Rightarrow> printed \<Rightarrow> printed" where
  "print_ellipsis_dim_type name element = pcats [ptext (name @ ''... * ''), element]"

definition print_dim_fragment_type :: "int list \<Rightarrow> printed" where
  "print_dim_fragment_type dims = ptext (''dim_fragment['' @ concat (map print_fragment_dim dims) @ ''void]'')"

definition print_fixed_dim_kind_type :: "printed \<Rightarrow> printed" where
  "print_fixed_dim_kind_type element = pcats [ptext ''Fixed * '', element]"

lemmas print_defs =
  print_pointer_type_def print_bytes_type_def print_fixed_bytes_type_def print_char_type_def print_string_type_def
  print_fixed_string_type_def print_time_type_def print_datetime_type_def print_fixed_dim_type_def print_var_dim_type_def
  print_struct_type_def print_tuple_type_def print_c_contiguous_type_def print_option_type_def print_adapt_type_def
  print_byteswap_type_def print_view_type_def print_type_type_def print_arrfunc_type_def print_typevar_dim_type_def
  print_typevar_constructed_type_def print_pow_dimsym_type_def print_ellipsis_dim_type_def print_dim_fragment_type_def
  print_fixed_dim_kind_type_def

fun print_type :: "ndt \<Rightarrow> printed" where
  "print_type (builtin_type tid) = ptext (print_builtin tid)"
| "print_type void_pointer_type = ptext ''pointer[void]''"
| "print_type (pointer_type t) = print_pointer_type (print_type t)"
| "print_type (bytes_type align) = print_bytes_type align"
| "print_type (fixed_bytes_type n align) = print_fixed_bytes_type n align"
| "print_type (char_type encoding) = print_char_type encoding"
| "print_type (string_type encoding) = print_string_type encoding"
| "print_type (fixed_string_type n encoding) = print_fixed_string_type n encoding"
| "print_type date_type = ptext ''date''"
| "print_type (time_type tz) = print_time_type tz"
| "print_type (datetime_type tz) = print_datetime_type tz"
| "print_type json_type = ptext ''json''"
| "print_type (fixed_dim_type n t) = print_fixed_dim_type n (print_type t)"
| "print_type (var_dim_type t) = print_var_dim_type (print_type t)"
| "print_type (struct_type names ts variadic) = print_struct_type names (map print_type ts) variadic"
| "print_type (tuple_type ts variadic) = print_tuple_type (map print_type ts) variadic"
| "print_type (c_contiguous_type t) = print_c_contiguous_type (print_type t)"
| "print_type (option_type t) = print_option_type (print_type t)"
| "print_type ndarrayarg_type = ptext ''ndarrayarg''"
| "print_type (kind_sym_type kind) = ptext (print_kind kind)"
| "print_type int_kind_sym_type = ptext ''Int''"
| "print_type any_sym_type = ptext ''Any''"
| "print_type (adapt_type op_tp val_tp op) = print_adapt_type (print_type op_tp) (print_type val_tp) op"
| "print_type (byteswap_type val_tp op_tp) = print_byteswap_type op_tp (print_type val_tp) (print_type op_tp)"
| "print_type (view_type val_tp op_tp) = print_view_type val_tp op_tp (print_type val_tp) (print_type op_tp)"
| "print_type (type_type t) = print_type_type t (print_type t)"
| "print_type (arrfunc_type ps pvariadic names ks kvariadic ret) =
     print_arrfunc_type (map print_type ps) pvariadic names (map print_type ks) kvariadic (print_type ret)"
| "print_type (typevar_type name) = ptext name"
| "print_type (typevar_dim_type name t) = print_typevar_dim_type name (print_type t)"
| "print_type (typevar_constructed_type name t) = print_typevar_constructed_type name (print_type t)"
| "print_type (pow_dimsym_type base_tp exponent t) = print_pow_dimsym_type base_tp exponent (print_type t)"
| "print_type (ellipsis_dim_type name t) = print_ellipsis_dim_type name (print_type t)"
| "print_type (dim_fragment_type dims) = print_dim_fragment_type dims"
| "print_type (fixed_dim_kind_type t) = print_fixed_dim_kind_type (print_type t)"
| "print_type categorical_kind_type = ptext ''Categorical''"
| "print_type fixed_bytes_kind_type = ptext ''FixedBytes''"
| "print_type fixed_string_kind_type = ptext ''FixedString''"

end
