(* ===== verification/Datashape_Parse.thy ===== *)
theory Datashape_Parse
  imports Types
begin

text \<open>
  The datashape parser of \<^verbatim>\<open>src/dynd/types/datashape_parser.cpp\<close>. A cursor is the rest of the text; a function that
  moves it by reference returns the new rest, and the position of an error is the text from it on. The functions of
  the grammar are mutually recursive through \<^verbatim>\<open>parse_datashape\<close>: each takes it as the argument \<open>p\<close>, and the knot is
  tied with fuel, of which the length of the text is enough. The null type stands for "no datashape here", as in the
  source.
\<close>

section \<open>Tokens\<close>

datatype ds_error = parse_failed string string | threw dynd_exception | no_fuel

type_synonym 'a parsed = "ds_error + ('a \<times> string)"

abbreviation skip_ds :: "string \<Rightarrow> string" where
  "skip_ds \<equiv> skip_whitespace_and_pound_comments"

definition is_upper :: "char \<Rightarrow> bool" where
  "is_upper c \<longleftrightarrow> CHR ''A'' \<le> c \<and> c \<le> CHR ''Z''"

definition parse_token_ds :: "string \<Rightarrow> string \<Rightarrow> string option" where
  "parse_token_ds token s = map_option snd (parse_token_no_ws token (skip_ds s))"

definition parse_name_or_number :: "string scan" where
  "parse_name_or_number s =
     (case parse_name_no_ws s of Some r \<Rightarrow> Some r | None \<Rightarrow> parse_unsigned_int_no_ws s)"

text \<open>A number, or the empty string without moving.\<close>

definition parse_number :: "string \<Rightarrow> string \<times> string" where
  "parse_number s = (case parse_unsigned_int_no_ws (skip_ds s) of None \<Rightarrow> ([], s) | Some r \<Rightarrow> r)"

definition expect :: "string \<Rightarrow> string \<Rightarrow> string \<Rightarrow> ds_error + string" where
  "expect token message s =
     (case parse_token_ds token s of None \<Rightarrow> Inl (parse_failed s message) | Some r \<Rightarrow> Inr r)"

definition expected_quoted :: "string \<Rightarrow> string \<Rightarrow> string" where
  "expected_quoted intro token = intro @ quoted token"

abbreviation expect_close :: "string \<Rightarrow> ds_error + string" where
  "expect_close \<equiv> expect '']'' (expected_quoted ''expected closing '' '']'')"

definition throwing :: "made \<Rightarrow> string \<Rightarrow> ndt parsed" where
  "throwing r s = (case r of Inl e \<Rightarrow> Inl (threw e) | Inr t \<Rightarrow> Inr (t, s))"

text \<open>A datashape that must be there.\<close>

definition required :: "(string \<Rightarrow> ndt parsed) \<Rightarrow> string \<Rightarrow> string \<Rightarrow> ndt parsed" where
  "required p message s =
     bind_made (p s) (\<lambda>(t, r). if t = null_type then Inl (parse_failed r message) else Inr (t, r))"

text \<open>
  \<^verbatim>\<open>atoi\<close> and \<^verbatim>\<open>atoll\<close> of a digit string: their behaviour is undefined when the number does not fit.
\<close>

definition ascii_value :: "string \<Rightarrow> int" where
  "ascii_value s = foldl (\<lambda>k c. 10 * k + digit_val c) 0 s"

definition ascii_to_int :: "nat \<Rightarrow> string \<Rightarrow> ds_error + int" where
  "ascii_to_int w s = (if ascii_value s < 2 ^ (w - 1) then Inr (ascii_value s) else Inl (threw undefined_behaviour))"

definition dim_number :: "string \<Rightarrow> ds_error + int" where
  "dim_number s =
     (case checked_string_to_intptr s of Inl e \<Rightarrow> Inl (threw (from_number e)) | Inr w \<Rightarrow> Inr (sint w))"

section \<open>Quoted strings\<close>

function quoted_loop :: "string \<Rightarrow> char \<Rightarrow> string \<Rightarrow> string \<Rightarrow> string parsed" where
  "quoted_loop start quote out [] = Inl (parse_failed start ''string has no ending quote'')"
| "quoted_loop start quote out (c # s) =
     (if c = CHR 0x5C
      then (case s of
              [] \<Rightarrow> Inl (parse_failed start ''string has no ending quote'')
            | d # s' \<Rightarrow>
                if d \<in> {CHR 0x22, CHR 0x27, CHR 0x5C, CHR ''/''} then quoted_loop start quote (out @ [d]) s'
                else if d = CHR ''b'' then quoted_loop start quote (out @ [CHR 0x08]) s'
                else if d = CHR ''f'' then quoted_loop start quote (out @ [CHR 0x0C]) s'
                else if d = CHR ''n'' then quoted_loop start quote (out @ [CHR 0x0A]) s'
                else if d = CHR ''r'' then quoted_loop start quote (out @ [CHR 0x0D]) s'
                else if d = CHR ''t'' then quoted_loop start quote (out @ [CHR 0x09]) s'
                else if d = CHR ''u''
                then (if length s' < 4
                      then Inl (parse_failed (c # s) ''invalid unicode escape sequence in string'')
                      else case find (\<lambda>i. \<not> is_hex_digit (s' ! i)) [0..<4] of
                             Some i \<Rightarrow> Inl (parse_failed (drop i s') ''invalid unicode escape sequence in string'')
                           | None \<Rightarrow>
                               (case append_utf8_codepoint (foldl hex_step 0 (take 4 s')) of
                                  Inl e \<Rightarrow> Inl (threw (from_codec e))
                                | Inr b \<Rightarrow> quoted_loop start quote (out @ b) (drop 4 s')))
                else Inl (parse_failed (c # s) ''invalid escape sequence in string''))
      else if c \<noteq> quote then quoted_loop start quote (out @ [c]) s
      else Inr (out, s))"
  by pat_completeness auto
termination
  by (relation "measure (\<lambda>(_, _, _, s). length s)") auto

declare quoted_loop.simps [simp del]

definition parse_quoted_string :: "string \<Rightarrow> string parsed option" where
  "parse_quoted_string s =
     (case parse_token_ds [CHR 0x27] s of
        Some r \<Rightarrow> Some (quoted_loop (skip_ds s) (CHR 0x27) [] r)
      | None \<Rightarrow>
          (case parse_token_ds [CHR 0x22] s of
             Some r \<Rightarrow> Some (quoted_loop (skip_ds s) (CHR 0x22) [] r)
           | None \<Rightarrow> None))"

definition required_quoted :: "string \<Rightarrow> string \<Rightarrow> string parsed" where
  "required_quoted message s =
     (case parse_quoted_string s of None \<Rightarrow> Inl (parse_failed s message) | Some r \<Rightarrow> r)"

section \<open>Types with parameters\<close>

definition parse_fixed_dim_parameters :: "(string \<Rightarrow> ndt parsed) \<Rightarrow> string \<Rightarrow> ndt parsed" where
  "parse_fixed_dim_parameters p s =
     bind_made (expect ''['' (expected_quoted ''expected opening '' ''['') s) (\<lambda>s.
     (case parse_number s of (dim_size_str, r) \<Rightarrow>
        if dim_size_str = [] then Inl (parse_failed s ''expected dimension size'')
        else bind_made (ascii_to_int 64 dim_size_str) (\<lambda>dim_size.
             bind_made (expect_close r) (\<lambda>s.
             bind_made (expect ''*'' (expected_quoted ''expected dimension separator '' ''*'') s) (\<lambda>s.
             bind_made (required p ''expected element type'' s) (\<lambda>(t, s).
             Inr (fixed_dim_type dim_size t, s)))))))"

text \<open>One type in brackets, and what is made of it.\<close>

definition parse_bracketed ::
  "(string \<Rightarrow> ndt parsed) \<Rightarrow> string \<Rightarrow> string \<Rightarrow> (ndt \<Rightarrow> made) \<Rightarrow> string \<Rightarrow> ndt parsed" where
  "parse_bracketed p opening_message type_message build s =
     bind_made (expect ''['' opening_message s) (\<lambda>s.
     bind_made (required p type_message s) (\<lambda>(t, s).
     bind_made (expect_close s) (\<lambda>s.
     throwing (build t) s)))"

definition opening_after :: "string \<Rightarrow> string" where
  "opening_after name = expected_quoted ''expected opening '' ''['' @ '' after '' @ quoted name"

definition parse_option_parameters :: "(string \<Rightarrow> ndt parsed) \<Rightarrow> string \<Rightarrow> ndt parsed" where
  "parse_option_parameters p = parse_bracketed p (opening_after ''option'') ''expected a data type'' make_option"

definition parse_pointer_parameters :: "(string \<Rightarrow> ndt parsed) \<Rightarrow> string \<Rightarrow> ndt parsed" where
  "parse_pointer_parameters p = parse_bracketed p (opening_after ''pointer'') ''expected a data type'' make_pointer"

definition parse_unaligned_parameters :: "int \<times> int \<Rightarrow> (string \<Rightarrow> ndt parsed) \<Rightarrow> string \<Rightarrow> ndt parsed" where
  "parse_unaligned_parameters mem p =
     parse_bracketed p (opening_after ''unaligned'') ''expected a data type'' (make_unaligned mem)"

definition parse_byteswap_parameters :: "(string \<Rightarrow> ndt parsed) \<Rightarrow> string \<Rightarrow> ndt parsed" where
  "parse_byteswap_parameters p =
     parse_bracketed p (expected_quoted ''expected opening '' ''['') ''expected a type parameter'' new_byteswap"

definition parse_c_contiguous_parameters :: "(string \<Rightarrow> ndt parsed) \<Rightarrow> string \<Rightarrow> ndt parsed" where
  "parse_c_contiguous_parameters p =
     parse_bracketed p (expected_quoted ''expected opening '' ''['') ''expected a type parameter'' make_c_contiguous"

text \<open>The library is built without CUDA.\<close>

definition parse_cuda_host_parameters :: "string \<Rightarrow> ndt parsed" where
  "parse_cuda_host_parameters s =
     bind_made (expect ''['' (expected_quoted ''expected opening '' ''['') s)
       (\<lambda>s. Inl (parse_failed s ''cuda_host type is not available''))"

definition parse_cuda_device_parameters :: "string \<Rightarrow> ndt parsed" where
  "parse_cuda_device_parameters s =
     bind_made (expect ''['' (expected_quoted ''expected opening '' ''['') s)
       (\<lambda>s. Inl (parse_failed s ''cuda_device type is not available''))"

text \<open>The prototype of an adapter is a function of one argument without keywords.\<close>

definition parse_adapt_parameters :: "int \<times> int \<Rightarrow> (string \<Rightarrow> ndt parsed) \<Rightarrow> string \<Rightarrow> ndt parsed" where
  "parse_adapt_parameters mem p s =
     bind_made (expect ''['' (opening_after ''adapt'') s) (\<lambda>saved_begin.
     bind_made (p saved_begin) (\<lambda>(proto_tp, s).
     (case proto_tp of
        arrfunc_type [operand_tp] _ [] _ _ value_tp \<Rightarrow>
          bind_made (expect '','' ''expected a ,'' s) (\<lambda>s.
          bind_made (required_quoted ''expected an an adapt op'' s) (\<lambda>(adapt_op, s).
          bind_made (expect_close s) (\<lambda>s.
          throwing (make_adapt mem operand_tp value_tp adapt_op) s)))
      | _ \<Rightarrow> Inl (parse_failed saved_begin ''expected a unary function signature''))))"

definition string_to_encoding :: "string \<Rightarrow> string \<Rightarrow> ds_error + string_encoding" where
  "string_to_encoding error_begin estr =
     (if estr \<in> {''A'', ''ascii'', ''us-ascii''} then Inr string_encoding_ascii
      else if estr \<in> {''U8'', ''utf8'', ''utf-8'', ''utf_8''} then Inr string_encoding_utf_8
      else if estr \<in> {''U16'', ''utf16'', ''utf-16'', ''utf_16''} then Inr string_encoding_utf_16
      else if estr \<in> {''U32'', ''utf32'', ''utf-32'', ''utf_32''} then Inr string_encoding_utf_32
      else if estr \<in> {''ucs2'', ''ucs-2'', ''ucs_2''} then Inr string_encoding_ucs_2
      else Inl (parse_failed error_begin ''unrecognized string encoding''))"

definition parse_string_parameters :: "string \<Rightarrow> ndt parsed" where
  "parse_string_parameters s =
     (case parse_token_ds ''['' s of
        Some saved_begin \<Rightarrow>
          bind_made (required_quoted ''expected a string encoding'' saved_begin) (\<lambda>(encoding_str, s).
          bind_made (string_to_encoding saved_begin encoding_str) (\<lambda>encoding.
          bind_made (expect_close s) (\<lambda>s.
          throwing (make_string encoding) s)))
      | None \<Rightarrow> throwing (make_string string_encoding_utf_8) s)"

definition parse_fixed_string_parameters :: "string \<Rightarrow> ndt parsed" where
  "parse_fixed_string_parameters s =
     bind_made (expect ''['' (expected_quoted ''expected opening '' ''['') s) (\<lambda>saved_begin.
     (case parse_number saved_begin of (value, s) \<Rightarrow>
        bind_made
          (if value \<noteq> []
           then bind_made (ascii_to_int 32 value) (\<lambda>string_size.
                if string_size = 0 then Inl (parse_failed saved_begin ''string size cannot be zero'')
                else (case parse_token_ds '','' s of
                        Some saved_begin \<Rightarrow>
                          bind_made (required_quoted ''expected a string encoding'' saved_begin) (\<lambda>(encoding_str, s).
                          bind_made (string_to_encoding saved_begin encoding_str) (\<lambda>encoding.
                          Inr ((string_size, encoding), s)))
                      | None \<Rightarrow> Inr ((string_size, string_encoding_utf_8), s)))
           else bind_made (case parse_quoted_string s of
                             None \<Rightarrow> Inl (parse_failed saved_begin ''expected a size integer'') | Some r \<Rightarrow> r)
                  (\<lambda>(encoding_str, s).
                bind_made (string_to_encoding saved_begin encoding_str) (\<lambda>encoding.
                Inr ((0, encoding), s))))
          (\<lambda>((string_size, encoding), s).
        bind_made (expect_close s) (\<lambda>s.
        throwing (make_fixed_string string_size encoding) s))))"

definition parse_char_parameters :: "string \<Rightarrow> ndt parsed" where
  "parse_char_parameters s =
     (case parse_token_ds ''['' s of
        Some saved_begin \<Rightarrow>
          bind_made (required_quoted ''expected a string encoding'' saved_begin) (\<lambda>(encoding_str, s).
          bind_made (if encoding_str \<noteq> [] then string_to_encoding saved_begin encoding_str
                     else Inl (parse_failed s ''expected string encoding'')) (\<lambda>encoding.
          bind_made (expect_close s) (\<lambda>s.
          throwing (make_char encoding) s)))
      | None \<Rightarrow> Inr (char_type string_encoding_utf_32, s))"

definition parse_complex_parameters :: "(string \<Rightarrow> ndt parsed) \<Rightarrow> string \<Rightarrow> ndt parsed" where
  "parse_complex_parameters p s =
     (case parse_token_ds ''['' s of
        Some saved_begin \<Rightarrow>
          bind_made (required p ''expected a type parameter'' saved_begin) (\<lambda>(t, s).
          bind_made (expect_close s) (\<lambda>s.
          if get_type_id t = float32_type_id then Inr (builtin_type complex_float32_type_id, s)
          else if get_type_id t = float64_type_id then Inr (builtin_type complex_float64_type_id, s)
          else Inl (parse_failed saved_begin ''unsupported real type for complex numbers'')))
      | None \<Rightarrow> Inr (builtin_type complex_float64_type_id, s))"

text \<open>\<open>align = \<close> and a number, and the closing bracket.\<close>

definition parse_alignment :: "string \<Rightarrow> string parsed" where
  "parse_alignment s =
     bind_made (expect ''='' ''expected an ='' s) (\<lambda>s.
     (case parse_number s of (align_val, s) \<Rightarrow>
        if align_val = [] then Inl (parse_failed s ''expected an integer'')
        else bind_made (expect_close s) (\<lambda>s. Inr (align_val, s))))"

definition parse_bytes_parameters :: "string \<Rightarrow> ndt parsed" where
  "parse_bytes_parameters s =
     (case parse_token_ds ''['' s of
        Some s \<Rightarrow>
          bind_made (expect ''align'' (expected_quoted ''expected '' ''align'') s) (\<lambda>s.
          bind_made (parse_alignment s) (\<lambda>(align_val, s).
          bind_made (ascii_to_int 32 align_val) (\<lambda>align.
          throwing (make_bytes align) s)))
      | None \<Rightarrow> throwing (make_bytes 1) s)"

definition parse_fixed_bytes_parameters :: "string \<Rightarrow> ndt parsed" where
  "parse_fixed_bytes_parameters s =
     bind_made (expect ''['' (expected_quoted ''expected opening '' ''['') s) (\<lambda>s.
     (case parse_number s of (size_val, s) \<Rightarrow>
        if size_val = [] then Inl (parse_failed s (expected_quoted ''expected '' ''align'' @ '' or an integer''))
        else case parse_token_ds '']'' s of
               Some s \<Rightarrow> bind_made (ascii_to_int 32 size_val) (\<lambda>n. throwing (make_fixed_bytes n 1) s)
             | None \<Rightarrow>
                 bind_made (expect '','' (expected_quoted ''expected closing '' '']'' @ '' or another argument'') s) (\<lambda>s.
                 bind_made (expect ''align'' ''expected align= parameter'' s) (\<lambda>s.
                 bind_made (parse_alignment s) (\<lambda>(align_val, s).
                 bind_made (ascii_to_int 32 size_val) (\<lambda>n.
                 bind_made (ascii_to_int 32 align_val) (\<lambda>align.
                 throwing (make_fixed_bytes n align) s)))))))"

definition parse_timezone_parameter :: "(datetime_tz \<Rightarrow> ndt) \<Rightarrow> string \<Rightarrow> ndt parsed" where
  "parse_timezone_parameter build s =
     (case parse_token_ds ''['' s of
        Some s \<Rightarrow>
          bind_made (expect ''tz'' ''expected tz= parameter'' s) (\<lambda>s.
          bind_made (expect ''='' (expected_quoted ''expected '' ''='') s) (\<lambda>saved_begin.
          bind_made (required_quoted ''expected a time zone string'' saved_begin) (\<lambda>(timezone_str, s).
          bind_made (if timezone_str = ''abstract'' then Inr tz_abstract
                     else if timezone_str = ''UTC'' then Inr tz_utc
                     else Inl (parse_failed saved_begin ''invalid time zone'')) (\<lambda>timezone.
          bind_made (expect_close s) (\<lambda>s.
          Inr (build timezone, s))))))
      | None \<Rightarrow> Inr (build tz_abstract, s))"

definition parse_datetime_parameters :: "string \<Rightarrow> ndt parsed" where
  "parse_datetime_parameters = parse_timezone_parameter datetime_type"

definition parse_time_parameters :: "string \<Rightarrow> ndt parsed" where
  "parse_time_parameters = parse_timezone_parameter time_type"

section \<open>Structs, tuples and function prototypes\<close>

type_synonym item = "(string \<times> ndt) option parsed"

text \<open>The rest of an item after its name.\<close>

definition item_type :: "(string \<Rightarrow> ndt parsed) \<Rightarrow> string \<Rightarrow> string \<Rightarrow> item" where
  "item_type p name s =
     bind_made (expect '':'' (expected_quoted ''expected '' '':'' @ '' after record item name'') s) (\<lambda>s.
     bind_made (required p ''expected a data type'' s) (\<lambda>(t, s).
     Inr (Some (name, t), s)))"

definition parse_struct_item_bare :: "(string \<Rightarrow> ndt parsed) \<Rightarrow> string \<Rightarrow> item" where
  "parse_struct_item_bare p s =
     (case parse_name_no_ws (skip_ds s) of Some (name, r) \<Rightarrow> item_type p name r | None \<Rightarrow> Inr (None, s))"

definition parse_struct_item_general :: "(string \<Rightarrow> ndt parsed) \<Rightarrow> string \<Rightarrow> item" where
  "parse_struct_item_general p s =
     (case parse_name_no_ws (skip_ds s) of
        Some (name, r) \<Rightarrow> item_type p name r
      | None \<Rightarrow>
          (case parse_quoted_string (skip_ds s) of
             Some q \<Rightarrow> bind_made q (\<lambda>(name, r). item_type p name r)
           | None \<Rightarrow> Inr (None, s)))"

text \<open>
  The loop over the items to the closing token, of \<^verbatim>\<open>parse_struct\<close> and \<^verbatim>\<open>parse_funcproto_kwds\<close>: the names, the types,
  and whether an ellipsis stands at the end.
\<close>

primrec fields_loop ::
  "nat \<Rightarrow> (string \<Rightarrow> item) \<Rightarrow> string \<Rightarrow> string \<Rightarrow> string \<Rightarrow> string \<Rightarrow> string list \<Rightarrow> ndt list \<Rightarrow> string
     \<Rightarrow> (string list \<times> ndt list \<times> bool) parsed" where
  "fields_loop 0 item close after_dots no_item no_close names ts s = Inl no_fuel"
| "fields_loop (Suc k) item close after_dots no_item no_close names ts s =
     (case parse_token_ds ''...'' s of
        Some r \<Rightarrow> bind_made (expect close after_dots r) (\<lambda>r. Inr ((names, ts, True), r))
      | None \<Rightarrow>
          bind_made (item (skip_ds s)) (\<lambda>(it, r).
          case it of
            None \<Rightarrow> Inl (parse_failed s no_item)
          | Some (name, t) \<Rightarrow>
              (case parse_token_ds '','' r of
                 Some r1 \<Rightarrow>
                   (case parse_token_ds close r1 of
                      Some r2 \<Rightarrow> Inr ((names @ [name], ts @ [t], False), r2)
                    | None \<Rightarrow> fields_loop k item close after_dots no_item no_close (names @ [name]) (ts @ [t]) r1)
               | None \<Rightarrow> bind_made (expect close no_close r) (\<lambda>r. Inr ((names @ [name], ts @ [t], False), r)))))"

definition parse_struct :: "nat \<Rightarrow> (string \<Rightarrow> ndt parsed) \<Rightarrow> string \<Rightarrow> ndt parsed" where
  "parse_struct k p s =
     (case parse_token_ds ''{'' s of
        None \<Rightarrow> Inr (null_type, s)
      | Some r \<Rightarrow>
          (case parse_token_ds ''}'' r of
             Some r \<Rightarrow> Inr (struct_type [] [] False, r)
           | None \<Rightarrow>
               bind_made (fields_loop k (parse_struct_item_general p) ''}'' (expected_quoted ''expected '' ''}'')
                           ''expected a record item''
                           (expected_quoted ''expected '' '','' @ expected_quoted '' or '' ''}'') [] [] r)
                 (\<lambda>((names, ts, variadic), r). throwing (make_struct names ts variadic) r)))"

definition kwds_message :: string where
  "kwds_message = expected_quoted ''expected '' '','' @ expected_quoted '' or '' '')'' @ '' in arrfunc prototype''"

definition parse_funcproto_kwds :: "nat \<Rightarrow> (string \<Rightarrow> ndt parsed) \<Rightarrow> string \<Rightarrow> ndt parsed" where
  "parse_funcproto_kwds k p s =
     bind_made (fields_loop k (parse_struct_item_bare p) '')'' kwds_message
                 ''expected a kwd arg in arrfunc prototype'' kwds_message [] [] s)
       (\<lambda>((names, ts, variadic), r). throwing (make_struct names ts variadic) r)"

text \<open>
  One round of the loop looks ahead for keyword arguments, then for an ellipsis at the end, then takes a type. It ends
  with the fields of a tuple, or with the type when there were keyword arguments.
\<close>

datatype tuple_result = Finished ndt | Fields "ndt list" bool

definition tuple_lookahead :: "bool \<Rightarrow> string \<Rightarrow> bool \<times> string \<times> string" where
  "tuple_lookahead variadic s =
     (case parse_token_ds ''...'' s of
        None \<Rightarrow> (variadic, s, s)
      | Some r \<Rightarrow> (case parse_token_ds '','' r of None \<Rightarrow> (variadic, s, r) | Some r1 \<Rightarrow> (True, r1, r1)))"

definition at_keyword :: "string \<Rightarrow> bool" where
  "at_keyword s =
     (case parse_name_no_ws (skip_ds s) of Some (_, r) \<Rightarrow> parse_token_ds '':'' r \<noteq> None | None \<Rightarrow> False)"

definition return_message :: string where
  "return_message = ''expected function prototype return type''"

definition tuple_keywords :: "nat \<Rightarrow> (string \<Rightarrow> ndt parsed) \<Rightarrow> ndt list \<Rightarrow> bool \<Rightarrow> string \<Rightarrow> tuple_result parsed" where
  "tuple_keywords k p ts variadic kwds_begin =
     bind_made (parse_funcproto_kwds k p kwds_begin) (\<lambda>(funcproto_kwd, s).
     (case parse_token_ds ''->'' s of
        None \<Rightarrow> Inr (Finished (tuple_type ts False), s)
      | Some r \<Rightarrow>
          bind_made (required p return_message r) (\<lambda>(return_type, s).
          bind_made (throwing (make_arrfunc (tuple_type ts variadic) funcproto_kwd return_type) s)
            (\<lambda>(t, s). Inr (Finished t, s)))))"

primrec tuple_loop ::
  "nat \<Rightarrow> (string \<Rightarrow> ndt parsed) \<Rightarrow> ndt list \<Rightarrow> bool \<Rightarrow> string \<Rightarrow> tuple_result parsed" where
  "tuple_loop 0 p ts variadic s = Inl no_fuel"
| "tuple_loop (Suc k) p ts variadic s =
     (case tuple_lookahead variadic s of
        (variadic, kwds_begin, r) \<Rightarrow>
          if at_keyword r then tuple_keywords (Suc k) p ts variadic kwds_begin
          else case (case parse_token_ds ''...'' s of Some r \<Rightarrow> parse_token_ds '')'' r | None \<Rightarrow> None) of
                 Some r \<Rightarrow> Inr (Fields ts True, r)
               | None \<Rightarrow>
                   bind_made (p s) (\<lambda>(t, r).
                   if get_type_id t = uninitialized_type_id then Inl (parse_failed r ''expected a type'')
                   else case parse_token_ds '','' r of
                          Some r1 \<Rightarrow>
                            (case parse_token_ds '')'' r1 of
                               Some r2 \<Rightarrow> Inr (Fields (ts @ [t]) variadic, r2)
                             | None \<Rightarrow> tuple_loop k p (ts @ [t]) variadic r1)
                        | None \<Rightarrow>
                            bind_made (expect '')'' (expected_quoted ''expected '' '','' @ expected_quoted '' or '' '')'') r)
                              (\<lambda>r. Inr (Fields (ts @ [t]) variadic, r))))"

definition parse_tuple_or_funcproto :: "nat \<Rightarrow> (string \<Rightarrow> ndt parsed) \<Rightarrow> string \<Rightarrow> ndt parsed" where
  "parse_tuple_or_funcproto k p s =
     (case parse_token_ds ''('' s of
        None \<Rightarrow> Inr (null_type, s)
      | Some r \<Rightarrow>
          bind_made (case parse_token_ds '')'' r of
                       Some r \<Rightarrow> Inr (Fields [] False, r)
                     | None \<Rightarrow> tuple_loop k p [] False r) (\<lambda>(result, r).
          case result of
            Finished t \<Rightarrow> Inr (t, r)
          | Fields ts variadic \<Rightarrow>
              (case parse_token_ds ''->'' r of
                 None \<Rightarrow> Inr (tuple_type ts variadic, r)
               | Some r \<Rightarrow>
                   bind_made (required p return_message r) (\<lambda>(return_type, s).
                   throwing (make_arrfunc_positional (tuple_type ts variadic) return_type) s))))"

section \<open>Datashapes\<close>

definition builtin_types :: "string \<Rightarrow> ndt option" where
  "builtin_types = map_of
     [(''void'', void_type), (''bool'', builtin_type bool_type_id), (''int8'', builtin_type int8_type_id),
      (''int16'', builtin_type int16_type_id), (''int32'', builtin_type int32_type_id),
      (''int'', builtin_type int32_type_id), (''int64'', builtin_type int64_type_id),
      (''int128'', builtin_type int128_type_id), (''intptr'', builtin_type int64_type_id),
      (''uint8'', builtin_type uint8_type_id), (''uint16'', builtin_type uint16_type_id),
      (''uint32'', builtin_type uint32_type_id), (''uint64'', builtin_type uint64_type_id),
      (''uint128'', builtin_type uint128_type_id), (''uintptr'', builtin_type uint64_type_id),
      (''float16'', builtin_type float16_type_id), (''float32'', builtin_type float32_type_id),
      (''float64'', builtin_type float64_type_id), (''real'', builtin_type float64_type_id),
      (''float128'', builtin_type float128_type_id), (''complex64'', builtin_type complex_float32_type_id),
      (''complex128'', builtin_type complex_float64_type_id), (''complex'', builtin_type complex_float64_type_id),
      (''json'', json_type), (''date'', date_type), (''time'', time_type tz_abstract),
      (''datetime'', datetime_type tz_abstract), (''bytes'', bytes_type 1), (''type'', type_type null_type),
      (''ndarrayarg'', ndarrayarg_type)]"

definition expected_star :: string where
  "expected_star = expected_quoted ''expected a '' ''*''"

text \<open>
  The dimension before \<open>*\<close> or \<open>**\<close>; \<open>here\<close> is where it stands. The typevar of a name that starts with a capital is always
  valid, so that it does not matter in which order C++ evaluates the arguments of \<^verbatim>\<open>make_pow_dimsym\<close>.
\<close>

definition dim_of :: "string \<Rightarrow> string \<Rightarrow> string \<Rightarrow> int \<Rightarrow> ndt \<Rightarrow> ds_error + ndt" where
  "dim_of here message name exponent t =
     (if is_digit (hd name) then bind_made (dim_number name) (\<lambda>n. Inr (repeat_dim (fixed_dim_type n) exponent t))
      else if name = ''var'' then Inr (repeat_dim var_dim_type exponent t)
      else if name = ''Fixed'' then Inr (repeat_dim make_fixed_dim_kind exponent t)
      else if is_upper (hd name)
      then (case check_typevar_name name (repeat_dim (typevar_dim_type name) exponent t) of
              Inl e \<Rightarrow> Inl (threw e) | Inr t \<Rightarrow> Inr t)
      else Inl (parse_failed here message))"

definition bad_base :: string where
  "bad_base = ''invalid dimension type for base of dimensional power''"

definition dim_power :: "(string \<Rightarrow> ndt parsed) \<Rightarrow> string \<Rightarrow> string \<Rightarrow> string \<Rightarrow> ndt parsed" where
  "dim_power p here base s =
     (case parse_name_or_number s of
        None \<Rightarrow> Inl (parse_failed s ''expected a number or a typevar symbol'')
      | Some (exp_name, r) \<Rightarrow>
          if CHR ''1'' \<le> hd exp_name \<and> hd exp_name \<le> CHR ''9''
          then bind_made (dim_number exp_name) (\<lambda>exponent.
               bind_made (expect ''*'' (expected_star @ '' after dimensional power'') r) (\<lambda>s.
               bind_made (p s) (\<lambda>(element_tp, s).
               bind_made (dim_of here bad_base base exponent element_tp) (\<lambda>t. Inr (t, s)))))
          else if is_upper (hd exp_name)
          then (case parse_token_ds ''*'' r of
                  None \<Rightarrow> Inr (null_type, r)
                | Some s \<Rightarrow>
                    bind_made (dim_of here bad_base base 1 void_type) (\<lambda>base_tp.
                    bind_made (p s) (\<lambda>(element_tp, s).
                    throwing (make_pow_dimsym base_tp exp_name element_tp) s)))
          else Inl (parse_failed r ''expected a number or a typevar symbol''))"

text \<open>A name that no token of a dimension follows: a type constructor, a kind, a type variable, a type or a symbol.\<close>

definition parse_named_type ::
  "int \<times> int \<Rightarrow> (string \<Rightarrow> ndt option) \<Rightarrow> (string \<Rightarrow> ndt parsed) \<Rightarrow> string \<Rightarrow> string \<Rightarrow> string \<Rightarrow> ndt parsed" where
  "parse_named_type mem symtable p here name s =
     (if name = ''string'' then parse_string_parameters s
      else if name = ''fixed_string'' then parse_fixed_string_parameters s
      else if name = ''complex'' then parse_complex_parameters p s
      else if name = ''datetime'' then parse_datetime_parameters s
      else if name = ''time'' then parse_time_parameters s
      else if name = ''unaligned'' then parse_unaligned_parameters mem p s
      else if name = ''pointer'' then parse_pointer_parameters p s
      else if name = ''char'' then parse_char_parameters s
      else if name = ''byteswap'' then parse_byteswap_parameters p s
      else if name = ''bytes'' then parse_bytes_parameters s
      else if name = ''fixed_bytes'' then parse_fixed_bytes_parameters s
      else if name = ''C'' then parse_c_contiguous_parameters p s
      else if name = ''cuda_host'' then parse_cuda_host_parameters s
      else if name = ''cuda_device'' then parse_cuda_device_parameters s
      else if name = ''fixed'' then parse_fixed_dim_parameters p s
      else if name = ''option'' then parse_option_parameters p s
      else if name = ''adapt'' then parse_adapt_parameters mem p s
      else if name = ''Any'' then Inr (any_sym_type, s)
      else if name = ''Categorical'' then Inr (categorical_kind_type, s)
      else if name = ''FixedBytes'' then Inr (fixed_bytes_kind_type, s)
      else if name = ''FixedString'' then Inr (fixed_string_kind_type, s)
      else if name = ''Bool'' then throwing (make_kind_sym bool_kind) s
      else if name = ''Int'' then Inr (int_kind_sym_type, s)
      else if name = ''UInt'' then throwing (make_kind_sym uint_kind) s
      else if name = ''SInt'' then throwing (make_kind_sym sint_kind) s
      else if name = ''Real'' then throwing (make_kind_sym real_kind) s
      else if name = ''Complex'' then throwing (make_kind_sym complex_kind) s
      else if is_upper (hd name)
      then (case parse_token_ds ''['' s of
              None \<Rightarrow> throwing (make_typevar name) s
            | Some s \<Rightarrow>
                bind_made (required p ''expected a dynd type'' s) (\<lambda>(arg_tp, s).
                bind_made (expect_close s) (\<lambda>s.
                throwing (make_typevar_constructed name arg_tp) s)))
      else case builtin_types name of
             Some t \<Rightarrow> Inr (t, s)
           | None \<Rightarrow>
               (case symtable name of
                  Some t \<Rightarrow> Inr (t, s)
                | None \<Rightarrow> Inl (parse_failed here ''unrecognized data type'')))"

definition parse_ellipsis :: "(string \<Rightarrow> ndt parsed) \<Rightarrow> string \<Rightarrow> string \<Rightarrow> ndt parsed" where
  "parse_ellipsis p name s =
     bind_made (expect ''*'' expected_star s) (\<lambda>s.
     bind_made (required p ''expected a dynd type'' s) (\<lambda>(element_tp, s).
     throwing (make_ellipsis_dim name element_tp) s))"

definition parse_named ::
  "int \<times> int \<Rightarrow> (string \<Rightarrow> ndt option) \<Rightarrow> (string \<Rightarrow> ndt parsed) \<Rightarrow> string \<Rightarrow> string \<Rightarrow> string \<Rightarrow> ndt parsed" where
  "parse_named mem symtable p here name s =
     (case parse_token_ds ''**'' s of
        Some r \<Rightarrow> dim_power p here name r
      | None \<Rightarrow>
     (case parse_token_ds ''*'' s of
        Some r \<Rightarrow>
          bind_made (required p ''expected a dynd type'' r) (\<lambda>(element_tp, s).
          bind_made (dim_of here ''unrecognized dimension type'' name 1 element_tp) (\<lambda>t. Inr (t, s)))
      | None \<Rightarrow>
     (case parse_token_ds ''...'' s of
        Some r \<Rightarrow> parse_ellipsis p name r
      | None \<Rightarrow>
     (case parse_token_ds ''|'' s of
        Some r \<Rightarrow> bind_made (p r) (\<lambda>(t, s). throwing (make_type_type t) s)
      | None \<Rightarrow> parse_named_type mem symtable p here name s))))"

definition parse_datashape_nooption ::
  "int \<times> int \<Rightarrow> (string \<Rightarrow> ndt option) \<Rightarrow> nat \<Rightarrow> (string \<Rightarrow> ndt parsed) \<Rightarrow> string \<Rightarrow> ndt parsed" where
  "parse_datashape_nooption mem symtable k p s =
     bind_made
       (case parse_name_or_number (skip_ds s) of
          Some (name, r) \<Rightarrow> parse_named mem symtable p (skip_ds s) name r
        | None \<Rightarrow>
            (case parse_token_no_ws ''...'' (skip_ds s) of
               Some (_, r) \<Rightarrow> parse_ellipsis p [] r
             | None \<Rightarrow> Inr (null_type, skip_ds s)))
       (\<lambda>(result, b).
     bind_made (if result = null_type then parse_struct k p b else Inr (result, b)) (\<lambda>(result, b).
     bind_made (if result = null_type then parse_tuple_or_funcproto k p b else Inr (result, b)) (\<lambda>(result, b).
     Inr (result, if result = null_type then s else b))))"

primrec parse_datashape ::
  "nat \<Rightarrow> int \<times> int \<Rightarrow> (string \<Rightarrow> ndt option) \<Rightarrow> string \<Rightarrow> ndt parsed" where
  "parse_datashape 0 mem symtable s = Inl no_fuel"
| "parse_datashape (Suc k) mem symtable s =
     (case parse_token_no_ws ''?'' (skip_ds s) of
        Some (_, r) \<Rightarrow>
          bind_made (parse_datashape_nooption mem symtable k (parse_datashape k mem symtable) r) (\<lambda>(val_tp, r).
          if val_tp \<noteq> null_type then throwing (make_option val_tp) r else Inr (null_type, s))
      | None \<Rightarrow> parse_datashape_nooption mem symtable k (parse_datashape k mem symtable) s)"

section \<open>Statements\<close>

type_synonym symbols = "string \<Rightarrow> ndt option"

text \<open>
  The type of a statement and the symbol table after it. A text that starts with \<open>type\<close> and goes on otherwise than with
  whitespace is no statement.
\<close>

definition parse_stmt :: "nat \<Rightarrow> int \<times> int \<Rightarrow> symbols \<Rightarrow> string \<Rightarrow> (ndt \<times> symbols) parsed" where
  "parse_stmt k mem symtable s =
     (let p = parse_datashape k mem symtable
      in case parse_token_ds ''type'' s of
           Some saved_begin \<Rightarrow>
             (case skip_required_whitespace saved_begin of
                None \<Rightarrow>
                  if saved_begin = [] then Inr ((type_type null_type, symtable), []) else Inr ((null_type, symtable), s)
              | Some (_, r) \<Rightarrow>
             (case parse_token_ds ''|'' r of
                Some r \<Rightarrow>
                  bind_made (required p ''expected a data type'' r) (\<lambda>(pattern, r).
                  bind_made (throwing (make_type_type pattern) r) (\<lambda>(t, r). Inr ((t, symtable), r)))
              | None \<Rightarrow>
             (case parse_name_no_ws r of
                None \<Rightarrow>
                  if skip_ds r = [] then Inr ((type_type null_type, symtable), [])
                  else Inl (parse_failed saved_begin ''expected an identifier for a type name'')
              | Some (tname, r) \<Rightarrow>
                  bind_made (expect ''='' (expected_quoted ''expected an '' ''='') r) (\<lambda>r.
                  bind_made (required p ''expected a data type'' r) (\<lambda>(result, r).
                  if builtin_types tname \<noteq> None
                  then Inl (parse_failed (skip_ds saved_begin) ''cannot redefine a builtin type'')
                  else if symtable tname \<noteq> None
                  then Inl (parse_failed (skip_ds saved_begin) ''type name already defined in datashape string'')
                  else Inr ((result, symtable(tname \<mapsto> result)), r))))))
         | None \<Rightarrow> bind_made (p s) (\<lambda>(t, r). Inr ((t, symtable), r)))"

primrec top_loop :: "nat \<Rightarrow> nat \<Rightarrow> int \<times> int \<Rightarrow> symbols \<Rightarrow> ndt \<Rightarrow> string \<Rightarrow> ds_error + ndt" where
  "top_loop 0 k mem symtable result s = Inl no_fuel"
| "top_loop (Suc j) k mem symtable result s =
     bind_made (parse_stmt k mem symtable s) (\<lambda>((t, symtable), r).
     if t = null_type
     then (if skip_ds r \<noteq> [] then Inl (parse_failed (skip_ds r) ''unexpected token in datashape'') else Inr result)
     else top_loop j k mem symtable t r)"

definition parse_top :: "nat \<Rightarrow> int \<times> int \<Rightarrow> string \<Rightarrow> ds_error + ndt" where
  "parse_top k mem s =
     bind_made (parse_stmt k mem (\<lambda>_. None) s) (\<lambda>((t, symtable), r).
     if t = null_type then Inl (parse_failed r ''expected a datashape statement'')
     else top_loop k k mem symtable t r)"

section \<open>Errors and their position\<close>

text \<open>
  The previous line, the line, its number and the column of a position, given as an offset in the text; None when the
  position is behind the last line.
\<close>

function error_line_loop :: "string \<Rightarrow> nat \<Rightarrow> string \<Rightarrow> nat \<Rightarrow> (string \<times> string \<times> nat \<times> nat) option" where
  "error_line_loop text position line_prev line =
     (if text = [] then None
      else if CHR 0x0A \<notin> set text then Some (line_prev, text, line, position + 1)
      else (let line_cur = takeWhile (\<lambda>c. c \<noteq> CHR 0x0A) text; n = length line_cur + 1
            in if position < n then Some (line_prev, line_cur, line, position + 1)
               else error_line_loop (drop n text) (position - n) line_cur (line + 1)))"
  by pat_completeness auto
termination
  by (relation "measure (\<lambda>(text, _). length text)") auto

declare error_line_loop.simps [simp del]

definition get_error_line_column :: "string \<Rightarrow> nat \<Rightarrow> (string \<times> string \<times> nat \<times> nat) option" where
  "get_error_line_column text position = error_line_loop text position [] 1"

definition newline :: string where
  "newline = [CHR 0x0A]"

definition parse_error_message :: "string \<Rightarrow> string \<Rightarrow> string \<Rightarrow> string" where
  "parse_error_message text rest message =
     (case get_error_line_column text (length text - length rest) of
        None \<Rightarrow> ''Cannot get line number of error, its position is out of range''
      | Some (line_prev, line_cur, line, column) \<Rightarrow>
          ''Error parsing datashape at line '' @ decimal line @ '', column '' @ decimal column @ newline
          @ ''Message: '' @ message @ newline
          @ (if line > 1 then line_prev @ newline else [])
          @ line_cur @ newline @ replicate (column - 1) (CHR '' '') @ ''^'' @ newline)"

text \<open>None would be a lack of fuel.\<close>

definition type_from_datashape :: "int \<times> int \<Rightarrow> string \<Rightarrow> made option" where
  "type_from_datashape mem text =
     (case parse_top (length text + 2) mem text of
        Inr t \<Rightarrow> Some (Inr t)
      | Inl (threw e) \<Rightarrow> Some (Inl e)
      | Inl (parse_failed rest message) \<Rightarrow> Some (Inl (runtime_error (parse_error_message text rest message)))
      | Inl no_fuel \<Rightarrow> None)"

end
