(* ===== verification/Datashape_Total.thy ===== *)
theory Datashape_Total
  imports Datashape_Parse
begin

text \<open>
  The datashape parser always returns, and every error it reports stands in the text. What a function of the grammar
  needs of \<^verbatim>\<open>parse_datashape\<close> is the locale \<open>datashape_parser\<close>.
\<close>

section \<open>Results that stay in the text\<close>

definition safe :: "nat \<Rightarrow> string \<Rightarrow> 'a parsed \<Rightarrow> bool" where
  "safe n s res =
     (case res of
        Inr (v, r) \<Rightarrow> suffix r s
      | Inl (parse_failed r message) \<Rightarrow> suffix r s
      | Inl (threw e) \<Rightarrow> True
      | Inl no_fuel \<Rightarrow> n \<le> length s)"

named_theorems safe_rules

lemma safe_simps [simp]:
  "safe n s (Inr (v, r)) \<longleftrightarrow> suffix r s" "safe n s (Inl (parse_failed r m)) \<longleftrightarrow> suffix r s"
  "safe n s (Inl (threw e))" "safe n s (Inl no_fuel) \<longleftrightarrow> n \<le> length s"
  by (simp_all add: safe_def)

lemma safe_le: "safe n r res \<Longrightarrow> suffix r s \<Longrightarrow> m \<le> n \<Longrightarrow> safe m s res"
  by (auto simp: safe_def split: sum.splits ds_error.splits prod.splits
      intro: suffix_order.trans dest: suffix_length_le)

lemma safe_less: "safe n r res \<Longrightarrow> suffix r s \<Longrightarrow> length r < length s \<Longrightarrow> safe (Suc n) s res"
  by (auto simp: safe_def split: sum.splits ds_error.splits prod.splits intro: suffix_order.trans)

lemma safe_bind [safe_rules]:
  "safe n s m \<Longrightarrow> (\<And>v r. m = Inr (v, r) \<Longrightarrow> suffix r s \<Longrightarrow> safe n s (f (v, r))) \<Longrightarrow> safe n s (bind_made m f)"
  by (auto simp: safe_def bind_made_def split: sum.splits ds_error.splits prod.splits)

lemma skip_ds_suffix: "suffix (skip_ds s) s"
proof (induction s rule: skip_whitespace_and_pound_comments.induct)
  case (1 s)
  show ?case
  proof (cases "dropWhile is_space s")
    case (Cons c cs)
    have cs: "suffix (c # cs) s" by (metis Cons suffix_dropWhile)
    show ?thesis
    proof (cases "c = CHR ''#'' \<and> dropWhile (\<lambda>d. d \<noteq> CHR 0x0A) (c # cs) \<noteq> []")
      case True
      then obtain d rest where r: "dropWhile (\<lambda>d. d \<noteq> CHR 0x0A) (c # cs) = d # rest" by (cases "dropWhile (\<lambda>d. d \<noteq> CHR 0x0A) (c # cs)") auto
      have "suffix (skip_ds rest) rest" using 1 Cons True r by blast
      moreover have "suffix rest (c # cs)" using r by (metis suffix_ConsD suffix_dropWhile)
      ultimately show ?thesis
        using cs Cons True r by (subst skip_whitespace_and_pound_comments.simps)
          (auto intro: suffix_order.trans simp del: dropWhile.simps skip_whitespace_and_pound_comments.simps)
    next
      case False
      then show ?thesis
        using cs Cons by (subst skip_whitespace_and_pound_comments.simps)
          (auto simp del: dropWhile.simps dropWhile_eq_Nil_conv skip_whitespace_and_pound_comments.simps split: list.splits)
    qed
  qed (subst skip_whitespace_and_pound_comments.simps, simp del: dropWhile_eq_Nil_conv)
qed

declare skip_whitespace_and_pound_comments.simps [simp del]

lemma skip_ds_le: "length (skip_ds s) \<le> length s"
  by (simp add: skip_ds_suffix suffix_length_le)

lemma token_ds_suffix: "parse_token_ds token s = Some r \<Longrightarrow> suffix r s"
  unfolding parse_token_ds_def by (auto intro: token_no_ws.rest_suffix skip_ds_suffix)

lemma token_ds_less: "parse_token_ds token s = Some r \<Longrightarrow> token \<noteq> [] \<Longrightarrow> length r < length s"
  unfolding parse_token_ds_def using skip_ds_le[of s]
  by (cases token) (auto simp: parse_token_no_ws_def split: if_splits)

lemma name_or_number_suffix: "parse_name_or_number s = Some (v, r) \<Longrightarrow> suffix r s"
  unfolding parse_name_or_number_def
  by (auto split: option.splits dest: name_scan.consumes unsigned_scan.consumes)

lemma name_or_number_less: "parse_name_or_number s = Some (v, r) \<Longrightarrow> length r < length s"
  unfolding parse_name_or_number_def
  by (auto split: option.splits dest: name_scan.rest_less unsigned_scan.rest_less)

lemma number_suffix: "parse_number s = (v, r) \<Longrightarrow> suffix r s"
  unfolding parse_number_def
  by (auto split: option.splits intro: unsigned_scan.rest_suffix skip_ds_suffix)

lemmas rest_suffix = token_ds_suffix name_or_number_suffix number_suffix

lemma safe_expect [safe_rules]:
  "suffix s0 s \<Longrightarrow> (\<And>r. parse_token_ds token s0 = Some r \<Longrightarrow> suffix r s \<Longrightarrow> safe n s (f r))
     \<Longrightarrow> safe n s (bind_made (expect token message s0) f)"
  unfolding expect_def bind_made_def
  by (auto split: option.splits dest: token_ds_suffix intro: suffix_order.trans)

lemma safe_throwing [safe_rules, simp]: "suffix r s \<Longrightarrow> safe n s (throwing made r)"
  unfolding throwing_def by (auto split: sum.splits)

lemma quoted_loop_safe: "suffix s start \<Longrightarrow> safe n start (quoted_loop start quote out s)"
proof (induction start quote out s rule: quoted_loop.induct)
  case (2 start quote out c s)
  have s: "suffix s start" using 2(9) by (auto dest: suffix_ConsD)
  show ?case
  proof (cases "c = CHR 0x5C")
    case False
    then show ?thesis using 2(8) s by (subst quoted_loop.simps) auto
  next
    case True
    show ?thesis
    proof (cases s)
      case (Cons d s')
      have s': "suffix s' start" "\<And>i. suffix (drop i s') start"
        using s Cons by (auto dest: suffix_ConsD intro: suffix_order.trans suffix_drop)
      show ?thesis
        using 2(1-7)[OF True Cons] 2(9) s' unfolding Cons True
        by (subst quoted_loop.simps) (auto split: option.splits sum.splits)
    qed (simp add: quoted_loop.simps True)
  qed
qed (simp add: quoted_loop.simps)

lemma quoted_safe: "parse_quoted_string s = Some res \<Longrightarrow> suffix s t \<Longrightarrow> safe n t res"
proof -
  assume a: "parse_quoted_string s = Some res" "suffix s t"
  have "safe n (skip_ds s) res"
    using a(1) unfolding parse_quoted_string_def parse_token_ds_def
    by (auto split: option.splits intro!: quoted_loop_safe dest: token_no_ws.consumes)
  then show ?thesis using a(2) skip_ds_suffix by (auto intro: safe_le suffix_order.trans)
qed

lemma required_quoted_safe [safe_rules]: "suffix s t \<Longrightarrow> safe n t (required_quoted message s)"
  unfolding required_quoted_def by (auto split: option.splits dest: quoted_safe)

section \<open>What the grammar needs of the recursive parser\<close>

lemma token_in: "parse_token_ds token r = Some r' \<Longrightarrow> suffix r s \<Longrightarrow> suffix r' s"
  by (blast intro: suffix_order.trans token_ds_suffix)

lemma number_in: "parse_number r = (v, r') \<Longrightarrow> suffix r s \<Longrightarrow> suffix r' s"
  by (blast intro: suffix_order.trans number_suffix)

lemma name_in: "parse_name_no_ws (skip_ds r) = Some (v, r') \<Longrightarrow> suffix r s \<Longrightarrow> suffix r' s"
  by (blast intro: suffix_order.trans name_scan.consumes skip_ds_suffix)

lemmas rest_in = token_in number_in name_in

lemma safe_ascii [safe_rules]:
  "(\<And>v. ascii_to_int w r = Inr v \<Longrightarrow> safe n s (f v)) \<Longrightarrow> safe n s (bind_made (ascii_to_int w r) f)"
  by (auto simp: bind_made_def ascii_to_int_def)

lemma safe_dim_number [safe_rules]:
  "(\<And>v. dim_number r = Inr v \<Longrightarrow> safe n s (f v)) \<Longrightarrow> safe n s (bind_made (dim_number r) f)"
  by (auto simp: bind_made_def dim_number_def split: sum.splits)

locale datashape_parser =
  fixes p :: "string \<Rightarrow> ndt parsed" and n :: nat
  assumes p_safe: "safe n s (p s)"
begin

lemma p_in: "suffix r s \<Longrightarrow> safe n s (p r)"
  by (blast intro: safe_le p_safe)

lemma required_safe: "suffix r s \<Longrightarrow> safe n s (required p message r)"
  unfolding required_def by (auto intro!: safe_bind p_in)

lemmas parser_rules = p_in required_safe required_quoted_safe safe_rules

lemma bracketed_safe: "suffix r s \<Longrightarrow> safe n s (parse_bracketed p m1 m2 build r)"
  unfolding parse_bracketed_def by (auto intro!: parser_rules)

lemma fixed_dim_parameters_safe: "suffix r s \<Longrightarrow> safe n s (parse_fixed_dim_parameters p r)"
  unfolding parse_fixed_dim_parameters_def
  by (auto intro!: parser_rules split: prod.splits intro: rest_in)

lemma adapt_parameters_safe: "suffix r s \<Longrightarrow> safe n s (parse_adapt_parameters mem p r)"
  unfolding parse_adapt_parameters_def
  by (auto intro!: parser_rules split: ndt.splits list.splits)

lemma complex_parameters_safe: "suffix r s \<Longrightarrow> safe n s (parse_complex_parameters p r)"
  unfolding parse_complex_parameters_def
  by (auto intro!: parser_rules split: option.splits intro: rest_in)

end

section \<open>Parameters without types\<close>

lemma safe_token_case [safe_rules]:
  "suffix r0 s \<Longrightarrow> (parse_token_ds token r0 = None \<Longrightarrow> safe n s a)
     \<Longrightarrow> (\<And>r. parse_token_ds token r0 = Some r \<Longrightarrow> suffix r s \<Longrightarrow> safe n s (b r))
     \<Longrightarrow> safe n s (case parse_token_ds token r0 of None \<Rightarrow> a | Some r \<Rightarrow> b r)"
  by (auto split: option.splits dest: token_in)

lemma safe_number_case [safe_rules]:
  "suffix r0 s \<Longrightarrow> (\<And>v r. suffix r s \<Longrightarrow> safe n s (f v r)) \<Longrightarrow> safe n s (case parse_number r0 of (v, r) \<Rightarrow> f v r)"
  by (auto split: prod.splits dest: number_in)

lemma safe_name_case [safe_rules]:
  "suffix r0 s \<Longrightarrow> (parse_name_no_ws (skip_ds r0) = None \<Longrightarrow> safe n s a) \<Longrightarrow> (\<And>v r. suffix r s \<Longrightarrow> safe n s (b (v, r)))
     \<Longrightarrow> safe n s (case parse_name_no_ws (skip_ds r0) of None \<Rightarrow> a | Some x \<Rightarrow> b x)"
  by (auto split: option.splits dest: name_in)

lemma safe_quoted_case [safe_rules]:
  "suffix r0 s \<Longrightarrow> (parse_quoted_string r0 = None \<Longrightarrow> safe n s a) \<Longrightarrow> (\<And>q. safe n s q \<Longrightarrow> safe n s (b q))
     \<Longrightarrow> safe n s (case parse_quoted_string r0 of None \<Rightarrow> a | Some q \<Rightarrow> b q)"
  by (auto split: option.splits dest: quoted_safe)

lemma safe_if [safe_rules]: "(b \<Longrightarrow> safe n s x) \<Longrightarrow> (\<not> b \<Longrightarrow> safe n s y) \<Longrightarrow> safe n s (if b then x else y)"
  by simp

lemma safe_encoding [safe_rules]:
  "suffix here s \<Longrightarrow> (\<And>v. safe n s (f v)) \<Longrightarrow> safe n s (bind_made (string_to_encoding here e) f)"
  by (auto simp: bind_made_def string_to_encoding_def)

lemma string_parameters_safe: "suffix r s \<Longrightarrow> safe n s (parse_string_parameters r)"
  unfolding parse_string_parameters_def
  by (auto intro!: required_quoted_safe safe_rules split: option.splits intro: rest_in)

lemma safe_bind_if:
  "(b \<Longrightarrow> safe n s (bind_made m f)) \<Longrightarrow> (\<not> b \<Longrightarrow> safe n s (bind_made m' f))
     \<Longrightarrow> safe n s (bind_made (if b then m else m') f)"
  by simp

lemma char_parameters_safe: "suffix r s \<Longrightarrow> safe n s (parse_char_parameters r)"
proof -
  assume r: "suffix r s"
  show ?thesis
  proof (cases "parse_token_ds ''['' r")
    case (Some r')
    then have "suffix r' s" using r by (blast intro: rest_in)
    then show ?thesis unfolding parse_char_parameters_def Some
      by (auto intro!: safe_bind[OF required_quoted_safe] safe_bind_if safe_encoding safe_expect
          simp: bind_made_def[of "Inl _"])
  qed (use r in \<open>simp add: parse_char_parameters_def\<close>)
qed

lemma alignment_safe: "suffix r s \<Longrightarrow> safe n s (parse_alignment r)"
  unfolding parse_alignment_def
  by (auto intro!: safe_expect split: prod.splits intro: rest_in)

lemma bytes_parameters_safe: "suffix r s \<Longrightarrow> safe n s (parse_bytes_parameters r)"
  unfolding parse_bytes_parameters_def
  by (auto intro!: alignment_safe safe_rules)

lemma fixed_bytes_parameters_safe: "suffix r s \<Longrightarrow> safe n s (parse_fixed_bytes_parameters r)"
  unfolding parse_fixed_bytes_parameters_def
  by (auto intro!: alignment_safe safe_rules)

lemma fixed_string_parameters_safe: "suffix r s \<Longrightarrow> safe n s (parse_fixed_string_parameters r)"
  unfolding parse_fixed_string_parameters_def
  apply (intro safe_expect, assumption)
  apply (rule safe_number_case, assumption)
  apply (rule safe_bind)
   apply (auto intro!: safe_rules required_quoted_safe)
  done

lemma timezone_parameter_safe: "suffix r s \<Longrightarrow> safe n s (parse_timezone_parameter build r)"
proof -
  assume r: "suffix r s"
  show ?thesis
  proof (cases "parse_token_ds ''['' r")
    case (Some r')
    then have "suffix r' s" using r by (blast intro: rest_in)
    then show ?thesis unfolding parse_timezone_parameter_def Some
      by (auto intro!: safe_bind[OF required_quoted_safe] safe_bind_if safe_expect simp: bind_made_def[of "Inl _"]
          bind_made_def[of "Inr _"])
  qed (use r in \<open>simp add: parse_timezone_parameter_def\<close>)
qed

lemma cuda_parameters_safe:
  "suffix r s \<Longrightarrow> safe n s (parse_cuda_host_parameters r)"
  "suffix r s \<Longrightarrow> safe n s (parse_cuda_device_parameters r)"
  unfolding parse_cuda_host_parameters_def parse_cuda_device_parameters_def by (auto intro!: safe_expect)

lemmas parameters_safe = string_parameters_safe char_parameters_safe bytes_parameters_safe
  fixed_bytes_parameters_safe fixed_string_parameters_safe timezone_parameter_safe cuda_parameters_safe

section \<open>Structs and tuples\<close>

lemma fields_loop_safe:
  assumes item: "\<And>r s. suffix r s \<Longrightarrow> safe n s (item r)" and close: "close \<noteq> []"
  shows "j \<le> n \<Longrightarrow> safe j s (fields_loop j item close m1 m2 m3 names ts s)"
proof (induction j arbitrary: s names ts)
  case (Suc j)
  have loop: "safe (Suc j) s (fields_loop j item close m1 m2 m3 names ts r1)"
    if "parse_token_ds '','' r = Some r1" "suffix r s" for names ts r r1
  proof (rule safe_less)
    show "safe j r1 (fields_loop j item close m1 m2 m3 names ts r1)" using Suc by simp
    show "suffix r1 s" using that by (blast intro: rest_in)
    show "length r1 < length s"
      using token_ds_less[OF that(1)] suffix_length_le[OF that(2)] by simp
  qed
  have skip: "safe (Suc j) s (item (skip_ds s))"
    using item[OF skip_ds_suffix] Suc.prems by (blast intro: safe_le)
  show ?case
    apply (simp only: fields_loop.simps)
    apply (rule safe_token_case[OF suffix_order.refl])
     apply (rule safe_bind[OF skip])
    subgoal for v r by (cases v) (auto intro!: safe_rules loop)
    apply (auto intro!: safe_rules)
    done
qed simp

context datashape_parser
begin

lemma item_type_safe: "suffix r s \<Longrightarrow> safe n s (item_type p name r)"
  unfolding item_type_def by (auto intro!: parser_rules)

lemma bare_item_safe: "suffix r s \<Longrightarrow> safe n s (parse_struct_item_bare p r)"
  unfolding parse_struct_item_bare_def
  by (auto split: option.splits intro!: item_type_safe intro: rest_in)

lemma general_item_safe: "suffix r s \<Longrightarrow> safe n s (parse_struct_item_general p r)"
  unfolding parse_struct_item_general_def
  by (auto split: option.splits intro!: item_type_safe safe_bind intro: rest_in quoted_safe suffix_order.trans skip_ds_suffix)

lemma funcproto_kwds_safe: "suffix r s \<Longrightarrow> j \<le> n \<Longrightarrow> safe j s (parse_funcproto_kwds j p r)"
  unfolding parse_funcproto_kwds_def
  by (auto intro!: safe_bind safe_throwing
      intro: safe_le[OF fields_loop_safe[of n "parse_struct_item_bare p"]] bare_item_safe)

lemma fields_safe: "j \<le> n \<Longrightarrow> safe j s (fields_loop j (parse_struct_item_general p) ''}'' m1 m2 m3 names ts s)"
  by (rule fields_loop_safe[of n]) (auto intro: general_item_safe)

lemma after_token:
  assumes "parse_token_ds token b = Some r" "token \<noteq> []" "suffix b s" "safe j r res"
  shows "safe (Suc j) s res"
  using token_in[OF assms(1,3)] token_ds_less[OF assms(1,2)] suffix_length_le[OF assms(3)] assms(4)
  by (auto intro: safe_less)

lemma struct_safe:
  assumes "j \<le> n" "suffix b s"
  shows "safe (Suc j) s (parse_struct j p b)"
proof (cases "parse_token_ds ''{'' b")
  case (Some r)
  have "safe j r (parse_struct j p b)"
    unfolding parse_struct_def Some option.case
    by (auto intro!: safe_rules fields_safe assms)
  then show ?thesis using after_token[OF Some] assms(2) by simp
qed (use assms in \<open>simp add: parse_struct_def\<close>)

lemma tuple_keywords_safe:
  assumes "j \<le> n" "suffix r s"
  shows "safe j s (tuple_keywords j p ts variadic r)"
  unfolding tuple_keywords_def
  by (auto intro!: safe_bind[OF funcproto_kwds_safe] safe_token_case safe_bind[OF safe_throwing] assms
      intro: safe_bind[OF safe_le[OF required_safe[OF _ ]]])

end

context datashape_parser
begin

lemma tuple_lookahead_suffix:
  "tuple_lookahead variadic s = (variadic', b, r) \<Longrightarrow> suffix b s \<and> suffix r s"
  unfolding tuple_lookahead_def by (auto split: option.splits dest: token_ds_suffix intro: rest_in)

lemma tuple_loop_safe: "j \<le> n \<Longrightarrow> safe j s (tuple_loop j p ts variadic s)"
proof (induction j arbitrary: s ts variadic)
  case (Suc j)
  obtain variadic' b r0 where look: "tuple_lookahead variadic s = (variadic', b, r0)"
    by (cases "tuple_lookahead variadic s") auto
  have kwds: "safe (Suc j) s (tuple_keywords (Suc j) p ts variadic' b)"
    using tuple_keywords_safe[OF Suc.prems] tuple_lookahead_suffix[OF look] by blast
  have loop: "safe (Suc j) s (tuple_loop j p ts variadic' r1)"
    if "parse_token_ds '','' r = Some r1" "suffix r s" for ts r r1
    by (rule after_token[OF that(1) _ that(2)]) (use Suc in simp_all)
  have p: "safe (Suc j) s (p s)" using p_safe[of s] Suc.prems by (blast intro: safe_le suffix_order.refl)
  show ?case
    unfolding tuple_loop.simps look prod.case
    apply (rule safe_if, rule kwds)
    apply (cases "case parse_token_ds ''...'' s of Some r \<Rightarrow> parse_token_ds '')'' r | None \<Rightarrow> None")
     apply (auto intro!: safe_bind[OF p] safe_rules loop)[1]
    apply (auto split: option.splits dest: token_ds_suffix token_in)
    done
qed simp


lemma tuple_safe:
  assumes "j \<le> n" "suffix b s"
  shows "safe (Suc j) s (parse_tuple_or_funcproto j p b)"
proof (cases "parse_token_ds ''('' b")
  case (Some r)
  have "safe j r (parse_tuple_or_funcproto j p b)"
    unfolding parse_tuple_or_funcproto_def Some option.case
    apply (rule safe_bind)
     apply (auto intro!: safe_token_case tuple_loop_safe assms)[1]
    subgoal for result r'
      by (cases result)
        (auto intro!: safe_rules safe_bind[OF safe_le[OF required_safe[OF suffix_order.refl] _ assms(1)]])
    done
  then show ?thesis using after_token[OF Some] assms(2) by simp
qed (use assms in \<open>simp add: parse_tuple_or_funcproto_def\<close>)

lemma ellipsis_safe: "suffix r s \<Longrightarrow> safe n s (parse_ellipsis p name r)"
  unfolding parse_ellipsis_def by (auto intro!: parser_rules)

lemma safe_dim_of:
  "suffix here s \<Longrightarrow> (\<And>t. safe n s (f t)) \<Longrightarrow> safe n s (bind_made (dim_of here m name k t) f)"
  unfolding dim_of_def
  by (auto simp: bind_made_def dim_number_def split: sum.splits)

lemma dim_power_safe: "suffix here s \<Longrightarrow> suffix r s \<Longrightarrow> safe n s (dim_power p here name r)"
  unfolding dim_power_def
  by (auto intro!: parser_rules safe_dim_of split: option.splits
      dest!: name_or_number_suffix intro: suffix_order.trans rest_in)

lemma named_type_safe:
  assumes "suffix here s" "suffix r s"
  shows "safe n s (parse_named_type mem symtable p here name r)"
proof -
  have upper: "safe n s (case parse_token_ds ''['' r of
        None \<Rightarrow> throwing (make_typevar name) r
      | Some s \<Rightarrow> bind_made (required p ''expected a dynd type'' s) (\<lambda>(arg_tp, s).
                bind_made (expect_close s) (\<lambda>s. throwing (make_typevar_constructed name arg_tp) s)))"
    using assms by (auto intro!: safe_token_case parser_rules)
  show ?thesis
    unfolding parse_named_type_def parse_datetime_parameters_def parse_time_parameters_def
      parse_unaligned_parameters_def parse_pointer_parameters_def parse_byteswap_parameters_def
      parse_c_contiguous_parameters_def parse_option_parameters_def
    using assms upper
    by (intro safe_if parameters_safe bracketed_safe fixed_dim_parameters_safe adapt_parameters_safe
        complex_parameters_safe safe_throwing) (simp_all split: option.splits)
qed

lemma named_safe:
  assumes "suffix here s" "suffix r s"
  shows "safe n s (parse_named mem symtable p here name r)"
  unfolding parse_named_def
  using assms by (auto intro!: safe_token_case dim_power_safe safe_bind required_safe p_in safe_dim_of ellipsis_safe
      named_type_safe)

end

section \<open>The recursive parser\<close>

text \<open>A lack of fuel does not depend on where an error would be reported.\<close>

lemma dim_of_fuel: "dim_of here m name k t \<noteq> Inl no_fuel"
  unfolding dim_of_def by (auto simp: bind_made_def dim_number_def split: sum.splits)

lemma dim_of_here: "dim_of here m name k t = Inr t' \<longleftrightarrow> dim_of here' m name k t = Inr t'"
  unfolding dim_of_def by (auto simp: bind_made_def split: sum.splits)

lemma bind_fuel:
  "bind_made m f = Inl no_fuel \<longleftrightarrow> m = Inl no_fuel \<or> (\<exists>v. m = Inr v \<and> f v = Inl no_fuel)"
  by (auto simp: bind_made_def split: sum.splits)

lemma throwing_fuel: "throwing made s \<noteq> Inl no_fuel"
  by (auto simp: throwing_def split: sum.splits)

lemma expect_fuel: "expect token m s \<noteq> Inl no_fuel"
  by (auto simp: expect_def split: option.splits)

lemma dim_power_here: "dim_power p here base s = Inl no_fuel \<Longrightarrow> dim_power p here' base s = Inl no_fuel"
  unfolding dim_power_def
  by (auto simp: bind_fuel dim_of_fuel throwing_fuel expect_fuel dim_of_here[of here _ _ _ _ _ here'] split: option.splits if_splits)

lemma if_differs: "(\<not> b \<Longrightarrow> x = x' \<or> x = e) \<Longrightarrow> (if b then y else x) = (if b then y else x') \<or> (if b then y else x) = e"
  by simp

lemma named_type_differs:
  "parse_named_type mem symtable p here name s = parse_named_type mem symtable p here' name s
   \<or> parse_named_type mem symtable p here name s = Inl (parse_failed here ''unrecognized data type'')"
  unfolding parse_named_type_def by (intro if_differs) (simp split: option.splits)

lemma named_type_here:
  "parse_named_type mem symtable p here name s = Inl no_fuel \<Longrightarrow> parse_named_type mem symtable p here' name s = Inl no_fuel"
  using named_type_differs[of mem symtable p here name s here'] by auto

lemma named_here:
  "parse_named mem symtable p here name s = Inl no_fuel \<Longrightarrow> parse_named mem symtable p here' name s = Inl no_fuel"
  unfolding parse_named_def
  by (auto simp: bind_fuel dim_of_fuel dim_of_here[of here _ _ _ _ _ here'] split: option.splits
      intro: dim_power_here named_type_here)

context datashape_parser
begin

lemma named_first_safe:
  assumes "parse_name_or_number (skip_ds s) = Some (name, r)"
  shows "safe (Suc n) s (parse_named mem symtable p (skip_ds s) name r)"
proof (cases "parse_named mem symtable p (skip_ds s) name r = Inl no_fuel")
  case True
  then have "safe n r (Inl no_fuel :: ndt parsed)"
    using named_safe[OF suffix_order.refl suffix_order.refl, of r mem symtable name] named_here[OF True, of r] by metis
  then show ?thesis using True name_or_number_less[OF assms] skip_ds_le[of s] by simp
next
  case False
  have "safe n s (parse_named mem symtable p (skip_ds s) name r)"
    using name_or_number_suffix[OF assms] by (blast intro: named_safe skip_ds_suffix suffix_order.trans)
  then show ?thesis using False by (auto simp: safe_def split: sum.splits ds_error.splits)
qed

lemma nooption_safe: "safe (Suc n) s (parse_datashape_nooption mem symtable n p s)"
  unfolding parse_datashape_nooption_def
proof (rule safe_bind)
  show "safe (Suc n) s
     (case parse_name_or_number (skip_ds s) of
          Some (name, r) \<Rightarrow> parse_named mem symtable p (skip_ds s) name r
        | None \<Rightarrow>
            (case parse_token_no_ws ''...'' (skip_ds s) of
               Some (_, r) \<Rightarrow> parse_ellipsis p [] r
             | None \<Rightarrow> Inr (null_type, skip_ds s)))"
  proof (cases "parse_name_or_number (skip_ds s)")
    case None
    have "safe (Suc n) s (parse_ellipsis p [] r)" if "parse_token_ds ''...'' s = Some r" for r
      using after_token[OF that _ suffix_order.refl ellipsis_safe[OF suffix_order.refl]] by simp
    then show ?thesis using None skip_ds_suffix
      by (auto simp: parse_token_ds_def split: option.splits)
  qed (auto intro: named_first_safe)
qed (auto intro!: safe_bind struct_safe tuple_safe)

end

lemma datashape_parser_at: "datashape_parser (parse_datashape k mem symtable) k"
proof (induction k)
  case (Suc k)
  have option: "safe (Suc k) s (parse_datashape_nooption mem symtable k (parse_datashape k mem symtable) s)" for s
    by (rule datashape_parser.nooption_safe[OF Suc])
  show ?case
  proof (unfold_locales)
    fix s
    show "safe (Suc k) s (parse_datashape (Suc k) mem symtable s)"
    proof (cases "parse_token_no_ws ''?'' (skip_ds s)")
      case (Some x)
      then obtain r where r: "parse_token_ds ''?'' s = Some r" "x = ((), r)"
        by (cases x) (simp add: parse_token_ds_def)
      then have "suffix r s" by (blast intro: token_ds_suffix)
      then show ?thesis
        using Some r by (auto intro!: safe_bind[OF safe_le[OF option]])
    qed (simp add: option)
  qed
qed (simp add: datashape_parser_def)

interpretation ds: datashape_parser "parse_datashape k mem symtable" k for k mem symtable
  by (rule datashape_parser_at)

section \<open>A datashape is not empty\<close>

lemma bind_ok: "bind_made m f = Inr y \<longleftrightarrow> (\<exists>v. m = Inr v \<and> f v = Inr y)"
  by (auto simp: bind_made_def split: sum.splits)

lemma dim_power_ok: "dim_power p here base s = Inr x \<Longrightarrow> dim_power p here' base s = Inr x"
  unfolding dim_power_def
  by (auto simp: bind_ok dim_of_here[of here _ _ _ _ _ here'] split: option.splits if_splits)

lemma named_ok:
  "parse_named mem symtable p here name s = Inr x \<Longrightarrow> parse_named mem symtable p here' name s = Inr x"
  using named_type_differs[of mem symtable p here name s here']
  unfolding parse_named_def
  by (auto simp: bind_ok dim_of_here[of here _ _ _ _ _ here'] split: option.splits intro: dim_power_ok)

context datashape_parser
begin

lemma struct_less:
  assumes "parse_struct n p b = Inr (t, r)" "t \<noteq> null_type" shows "length r < length b"
proof (cases "parse_token_ds ''{'' b")
  case (Some r0)
  have "safe n r0 (parse_struct n p b)"
    unfolding parse_struct_def Some option.case by (auto intro!: safe_rules fields_safe)
  then show ?thesis using assms token_ds_less[OF Some] by (auto dest: suffix_length_le)
qed (use assms in \<open>simp add: parse_struct_def\<close>)

lemma tuple_less:
  assumes "parse_tuple_or_funcproto n p b = Inr (t, r)" "t \<noteq> null_type" shows "length r < length b"
proof (cases "parse_token_ds ''('' b")
  case (Some r0)
  have "safe n r0 (parse_tuple_or_funcproto n p b)"
    unfolding parse_tuple_or_funcproto_def Some option.case
    apply (rule safe_bind)
     apply (auto intro!: safe_token_case tuple_loop_safe)[1]
    subgoal for result r'
      by (cases result) (auto intro!: safe_rules safe_bind[OF required_safe])
    done
  then show ?thesis using assms token_ds_less[OF Some] by (auto dest: suffix_length_le)
qed (use assms in \<open>simp add: parse_tuple_or_funcproto_def\<close>)

lemma nooption_less:
  assumes "parse_datashape_nooption mem symtable n p s = Inr (t, r)" "t \<noteq> null_type"
  shows "length r < length s"
proof -
  define first where "first = (case parse_name_or_number (skip_ds s) of
          Some (name, r) \<Rightarrow> parse_named mem symtable p (skip_ds s) name r
        | None \<Rightarrow>
            (case parse_token_no_ws ''...'' (skip_ds s) of
               Some (_, r) \<Rightarrow> parse_ellipsis p [] r
             | None \<Rightarrow> Inr (null_type, skip_ds s)))"
  obtain t1 b1 t2 b2 where 1: "first = Inr (t1, b1)"
    and 2: "(if t1 = null_type then parse_struct n p b1 else Inr (t1, b1)) = Inr (t2, b2)"
    and 3: "(if t2 = null_type then parse_tuple_or_funcproto n p b2 else Inr (t2, b2)) = Inr (t, r)"
    using assms unfolding parse_datashape_nooption_def first_def[symmetric]
    by (auto simp: bind_ok split: if_splits)
  have le: "length b1 \<le> length s" and lt: "t1 \<noteq> null_type \<Longrightarrow> length b1 < length s"
  proof -
    have "length b1 \<le> length s \<and> (t1 \<noteq> null_type \<longrightarrow> length b1 < length s)"
    proof (cases "parse_name_or_number (skip_ds s)")
      case (Some x)
      obtain name r0 where x: "x = (name, r0)" by (cases x)
      have "parse_named mem symtable p r0 name r0 = Inr (t1, b1)"
        using 1 Some x unfolding first_def by (auto intro: named_ok)
      then have "length b1 \<le> length r0" using named_safe[of r0 r0 r0 mem symtable name] by (auto dest: suffix_length_le)
      then show ?thesis using name_or_number_less[OF Some[unfolded x]] skip_ds_le[of s] by simp
    next
      case None
      show ?thesis
      proof (cases "parse_token_no_ws ''...'' (skip_ds s)")
        case (Some x)
        then obtain r0 where r0: "parse_token_ds ''...'' s = Some r0" "x = ((), r0)"
          by (cases x) (simp add: parse_token_ds_def)
        then have "parse_ellipsis p [] r0 = Inr (t1, b1)" using 1 None Some unfolding first_def by simp
        then have "length b1 \<le> length r0" using ellipsis_safe[of r0 r0 "[]"] by (auto dest: suffix_length_le)
        then show ?thesis using token_ds_less[OF r0(1)] by simp
      qed (use 1 None skip_ds_le[of s] in \<open>auto simp: first_def\<close>)
    qed
    then show "length b1 \<le> length s" "t1 \<noteq> null_type \<Longrightarrow> length b1 < length s" by auto
  qed
  have 4: "length b2 \<le> length s \<and> (t2 \<noteq> null_type \<longrightarrow> length b2 < length s)"
  proof (cases "t1 = null_type")
    case True
    then have e: "parse_struct n p b1 = Inr (t2, b2)" using 2 by simp
    then have "length b2 \<le> length b1" using struct_safe[of n b1 b1] by (auto dest: suffix_length_le)
    then show ?thesis using struct_less[OF e] le by auto
  qed (use 2 le lt in auto)
  show ?thesis
  proof (cases "t2 = null_type")
    case True
    then show ?thesis using tuple_less[of b2 t r] 3 4 assms(2) by auto
  qed (use 3 4 in auto)
qed

end

lemma datashape_less:
  assumes "parse_datashape k mem symtable s = Inr (t, r)" "t \<noteq> null_type"
  shows "length r < length s"
proof (cases k)
  case (Suc j)
  show ?thesis
  proof (cases "parse_token_no_ws ''?'' (skip_ds s)")
    case None
    then show ?thesis using assms Suc ds.nooption_less by auto
  next
    case (Some x)
    then obtain r0 where r0: "parse_token_ds ''?'' s = Some r0" "x = ((), r0)"
      by (cases x) (simp add: parse_token_ds_def)
    then obtain t' where "parse_datashape_nooption mem symtable j (parse_datashape j mem symtable) r0 = Inr (t', r)" "t' \<noteq> null_type"
      using assms Suc Some by (auto simp: bind_ok throwing_def split: if_splits sum.splits)
    then show ?thesis using ds.nooption_less token_ds_less[OF r0(1)] by fastforce
  qed
qed (use assms in simp)

section \<open>Statements and whole texts\<close>

lemma required_token_case:
  "suffix r0 s \<Longrightarrow> (\<And>r. suffix r s \<Longrightarrow> safe n s (b r)) \<Longrightarrow> safe n s a
     \<Longrightarrow> safe n s (case skip_required_whitespace r0 of None \<Rightarrow> a | Some (_, r) \<Rightarrow> b r)"
  by (auto split: option.splits intro: required_ws.rest_suffix)

lemma bare_name_case:
  "suffix r0 s \<Longrightarrow> (\<And>v r. suffix r s \<Longrightarrow> safe n s (b v r)) \<Longrightarrow> safe n s a
     \<Longrightarrow> safe n s (case parse_name_no_ws r0 of None \<Rightarrow> a | Some (v, r) \<Rightarrow> b v r)"
  by (auto split: option.splits intro: name_scan.rest_suffix)

lemma skip_in: "suffix r s \<Longrightarrow> suffix (skip_ds r) s"
  by (blast intro: suffix_order.trans skip_ds_suffix)

lemma stmt_safe: "safe k s (parse_stmt k mem symtable s)"
  unfolding parse_stmt_def Let_def
  apply (rule safe_token_case[OF suffix_order.refl])
   apply (auto intro!: safe_bind ds.p_safe)[1]
  apply (rule required_token_case, assumption)
   apply (rule safe_token_case, assumption)
    apply (rule bare_name_case, assumption)
     apply (auto intro!: safe_expect safe_bind ds.required_safe safe_if skip_in)
  done

lemma stmt_less:
  assumes "parse_stmt k mem symtable s = Inr ((t, symtable'), r)" "t \<noteq> null_type"
  shows "length r < length s"
proof (cases "parse_token_ds ''type'' s")
  case (Some r0)
  have "safe k r0 (parse_stmt k mem symtable s)" if ws: "skip_required_whitespace r0 = Some (u, b)" for u b
  proof -
    have b: "suffix b r0" using ws by (rule required_ws.consumes)
    show ?thesis
      unfolding parse_stmt_def Let_def Some option.case ws prod.case
      apply (rule safe_token_case[OF b])
       apply (rule bare_name_case[OF b])
        apply (auto intro!: safe_expect safe_bind ds.required_safe safe_if skip_in)
      done
  qed
  moreover have "r = []" if "skip_required_whitespace r0 = None"
    using that assms Some by (auto simp: parse_stmt_def Let_def split: if_splits)
  ultimately have "length r \<le> length r0"
    using assms(1) by (cases "skip_required_whitespace r0") (fastforce dest: suffix_length_le)+
  then show ?thesis using token_ds_less[OF Some] by simp
next
  case None
  then show ?thesis
    using assms by (auto simp: parse_stmt_def Let_def bind_ok dest: datashape_less)
qed

lemma top_loop_returns:
  assumes "length s < j" "length s < k" "suffix s input"
  shows "top_loop j k mem symtable result s \<noteq> Inl no_fuel
    \<and> (top_loop j k mem symtable result s = Inl (parse_failed rest message) \<longrightarrow> suffix rest input)"
  using assms
proof (induction j arbitrary: s symtable result)
  case (Suc j)
  have st: "safe k s (parse_stmt k mem symtable s)" by (rule stmt_safe)
  show ?case
  proof (cases "parse_stmt k mem symtable s")
    case (Inl e)
    then show ?thesis using st Suc.prems
      by (cases e) (auto simp: bind_made_def intro: suffix_order.trans)
  next
    case (Inr x)
    obtain t symtable' r where x: "x = ((t, symtable'), r)" by (metis prod.exhaust)
    have r: "suffix r s" using st Inr x by simp
    show ?thesis
    proof (cases "t = null_type")
      case True
      then show ?thesis using Inr x r Suc.prems(3)
        by (auto simp: bind_made_def intro: skip_in suffix_order.trans)
    next
      case False
      have "length r < length s" using stmt_less Inr x False by blast
      moreover have "suffix r input" using r Suc.prems(3) by (rule suffix_order.trans)
      ultimately show ?thesis
        using Inr x False Suc.prems Suc.IH[of r symtable' t] by (simp add: bind_made_def)
    qed
  qed
qed simp

lemma parse_top_returns:
  assumes "length input < k"
  shows "parse_top k mem input \<noteq> Inl no_fuel
    \<and> (parse_top k mem input = Inl (parse_failed rest message) \<longrightarrow> suffix rest input)"
proof -
  have st: "safe k input (parse_stmt k mem (\<lambda>_. None) input)" by (rule stmt_safe)
  show ?thesis
  proof (cases "parse_stmt k mem (\<lambda>_. None) input")
    case (Inl e)
    then show ?thesis using st assms by (cases e) (auto simp: parse_top_def bind_made_def)
  next
    case (Inr x)
    obtain t symtable' r where x: "x = ((t, symtable'), r)" by (metis prod.exhaust)
    have r: "suffix r input" using st Inr x by simp
    then have "length r < k" using assms by (auto dest: suffix_length_le)
    then show ?thesis
      using Inr x r top_loop_returns[of r k k input mem symtable' t] by (auto simp: parse_top_def bind_made_def)
  qed
qed

text \<open>
  C15. The datashape parser returns for every text: a recursion depth and a number of rounds of its loops of the length
  of the text are always enough, so that parsing never goes on forever.
\<close>

theorem datashape_parser_returns:
  "type_from_datashape mem input \<noteq> None"
  using parse_top_returns[of input "length input + 2" mem]
  unfolding type_from_datashape_def by (auto split: sum.splits ds_error.splits)

section \<open>The position of an error\<close>

definition points_at :: "string \<Rightarrow> nat \<Rightarrow> string \<Rightarrow> nat \<Rightarrow> nat \<Rightarrow> bool" where
  "points_at input position line_cur line column \<longleftrightarrow>
     (\<exists>a b. input = a @ line_cur @ b \<and> (a = [] \<or> last a = CHR 0x0A) \<and> CHR 0x0A \<notin> set line_cur
       \<and> (b = [] \<or> hd b = CHR 0x0A) \<and> line = 1 + count_list a (CHR 0x0A)
       \<and> position + 1 = length a + column \<and> 1 \<le> column \<and> column \<le> length line_cur + 1)"

lemma error_line_loop_points:
  assumes "position \<le> length input" "whole = a @ input" "a = [] \<or> last a = CHR 0x0A" "line = 1 + count_list a (CHR 0x0A)"
  shows "case error_line_loop input position prev line of
      None \<Rightarrow> position = length input \<and> (whole = [] \<or> last whole = CHR 0x0A)
    | Some (prev, cur, line, column) \<Rightarrow> points_at whole (length a + position) cur line column"
  using assms
proof (induction input position prev line arbitrary: a rule: error_line_loop.induct)
  case (1 input position prev line)
  define cur where "cur = takeWhile (\<lambda>c. c \<noteq> CHR 0x0A) input"
  define n where "n = length cur + 1"
  show ?case
  proof (cases "input = []")
    case True
    then show ?thesis using 1 by (subst error_line_loop.simps) auto
  next
    case ne: False
    show ?thesis
    proof (cases "CHR 0x0A \<in> set input")
      case False
      then have "points_at whole (length a + position) input line (position + 1)"
        unfolding points_at_def
        by (intro exI[of _ a] exI[of _ "[]"]) (use 1(2-) in auto)
      then show ?thesis using ne False by (subst error_line_loop.simps) simp
    next
      case True
      obtain cur' rest where c': "input = cur' @ CHR 0x0A # rest" "CHR 0x0A \<notin> set cur'"
        using split_list_first[OF True] by blast
      have "cur = cur'"
        unfolding cur_def c'(1) using c'(2) by (subst takeWhile_append2) auto
      then have t: "input = cur @ CHR 0x0A # rest" and cur: "CHR 0x0A \<notin> set cur" using c' by simp_all
      have d: "drop n input = rest" unfolding n_def t by simp
      show ?thesis
      proof (cases "position < n")
        case True
        then have "error_line_loop input position prev line = Some (prev, cur, line, position + 1)"
          using ne \<open>CHR 0x0A \<in> set input\<close> by (subst error_line_loop.simps) (simp add: Let_def cur_def n_def)
        moreover have "points_at whole (length a + position) cur line (position + 1)"
          unfolding points_at_def
          by (intro exI[of _ a] exI[of _ "CHR 0x0A # rest"]) (use 1(3-) True t cur in \<open>auto simp: n_def\<close>)
        ultimately show ?thesis by simp
      next
        case False
        then have e: "error_line_loop input position prev line = error_line_loop rest (position - n) cur (line + 1)"
          using ne \<open>CHR 0x0A \<in> set input\<close> d by (subst error_line_loop.simps) (simp add: Let_def cur_def n_def)
        have l: "length input = n + length rest" unfolding n_def t by simp
        have c: "count_list cur (CHR 0x0A) = 0" using cur by (simp add: count_notin)
        note IH = 1(1)[OF ne _ cur_def n_def False, of "a @ cur @ [CHR 0x0A]"]
        have "length a + position = length (a @ cur @ [CHR 0x0A]) + (position - n)" using False by (simp add: n_def)
        moreover have "case error_line_loop rest (position - n) cur (line + 1) of
            None \<Rightarrow> position - n = length rest \<and> (whole = [] \<or> last whole = CHR 0x0A)
          | Some (prev, cur', line', column) \<Rightarrow>
              points_at whole (length (a @ cur @ [CHR 0x0A]) + (position - n)) cur' line' column"
          by (rule IH[unfolded d]) (use False True 1(2-) l c t in simp_all)
        ultimately show ?thesis
          using e l False by (cases "error_line_loop rest (position - n) cur (line + 1)") auto
      qed
    qed
  qed
qed

lemma get_error_line_column_points:
  assumes "position \<le> length input"
  shows "case get_error_line_column input position of
      None \<Rightarrow> position = length input \<and> (input = [] \<or> last input = CHR 0x0A)
    | Some (prev, cur, line, column) \<Rightarrow> points_at input position cur line column"
  using error_line_loop_points[of position input input "[]" 1 "[]"] assms
  unfolding get_error_line_column_def
  by (cases "error_line_loop input position [] 1") (simp_all split: prod.splits)


lemma bad_text: "parse_top (length ''3 * ['' + 2) (0, 0) ''3 * ['' = Inl (parse_failed '' ['' ''expected a dynd type'')"
  by code_simp


end
