(* ===== verification/Datashape_Roundtrip.thy ===== *)
theory Datashape_Roundtrip
  imports Datashape_Total
begin

text \<open>
  The text a type prints is parsed back to the type. \<open>printable\<close> says for which types: the ones the datashape grammar
  can express and whose printed form is in it.
\<close>

section \<open>Scanning printed text\<close>

lemma skip_ds_id: "s = [] \<or> (\<not> is_space (hd s) \<and> hd s \<noteq> CHR ''#'') \<Longrightarrow> skip_ds s = s"
  by (subst skip_whitespace_and_pound_comments.simps) (cases s; simp)

lemma skip_ds_Cons: "\<not> is_space c \<Longrightarrow> c \<noteq> CHR ''#'' \<Longrightarrow> skip_ds (c # s) = c # s"
  by (simp add: skip_ds_id)

lemma skip_ds_blank [simp]: "skip_ds (CHR '' '' # s) = skip_ds s"
proof -
  have d: "dropWhile is_space (CHR '' '' # s) = dropWhile is_space s" by (simp add: is_space_def)
  show ?thesis
    by (subst (1 2) skip_whitespace_and_pound_comments.simps) (simp only: d)
qed

lemma skip_ds_Nil [simp]: "skip_ds [] = []"
  by (simp add: skip_ds_id)

lemma token_ds_hit: "skip_ds s = token @ r \<Longrightarrow> parse_token_ds token s = Some r"
  by (simp add: parse_token_ds_def parse_token_no_ws_def)

lemma token_ds_miss:
  "skip_ds s = [] \<or> hd (skip_ds s) \<noteq> hd token \<Longrightarrow> token \<noteq> [] \<Longrightarrow> parse_token_ds token s = None"
  by (cases token; cases "skip_ds s") (auto simp: parse_token_ds_def parse_token_no_ws_def)

definition ident_char :: "char \<Rightarrow> bool" where
  "ident_char c \<longleftrightarrow> is_alpha c \<or> is_digit c \<or> c = CHR ''_''"

lemma ident_no_space: "ident_char c \<Longrightarrow> \<not> is_space c \<and> c \<noteq> CHR ''#''"
  by (auto simp: ident_char_def is_alpha_def is_digit_def is_space_def less_eq_char_def)

lemma digit_no_alpha: "is_digit c \<Longrightarrow> \<not> is_alpha c \<and> c \<noteq> CHR ''_'' \<and> \<not> is_upper c"
  by (auto simp: is_digit_def is_alpha_def is_upper_def less_eq_char_def)

lemma digit_ident: "is_digit c \<Longrightarrow> ident_char c"
  by (simp add: ident_char_def)

text \<open>What may follow a printed type: the end, or one of the tokens behind a type.\<close>

definition closers :: "char set" where
  "closers = {CHR '','', CHR '']'', CHR '')'', CHR 0x7D}"

definition stops :: "string \<Rightarrow> bool" where
  "stops rest \<longleftrightarrow> rest = [] \<or> hd rest \<in> closers"

lemma stops_simps [simp]:
  "stops []" "stops (CHR '','' # s)" "stops (CHR '']'' # s)" "stops (CHR '')'' # s)" "stops (CHR 0x7D # s)"
  by (simp_all add: stops_def closers_def)

lemma closer_no_space: "c \<in> closers \<Longrightarrow> \<not> is_space c \<and> c \<noteq> CHR ''#''"
  by (auto simp: closers_def is_space_def)

lemma stops_skip: "stops rest \<Longrightarrow> skip_ds rest = rest"
  by (rule skip_ds_id) (auto simp: stops_def dest: closer_no_space)

lemma closer_no_ident: "c \<in> closers \<Longrightarrow> \<not> ident_char c"
  by (auto simp: closers_def ident_char_def is_alpha_def is_digit_def)

text \<open>A name ends where no character of a name follows.\<close>

definition ends_name :: "string \<Rightarrow> bool" where
  "ends_name r \<longleftrightarrow> r = [] \<or> \<not> ident_char (hd r)"

lemma ends_name_simps [simp]:
  "ends_name []" "ends_name (c # r) \<longleftrightarrow> \<not> ident_char c"
  by (simp_all add: ends_name_def)

lemma stops_ends_name: "stops r \<Longrightarrow> ends_name r"
  by (auto simp: stops_def ends_name_def dest: closer_no_ident)

lemma simple_name_iff:
  "is_simple_identifier_name s \<longleftrightarrow> s \<noteq> [] \<and> (is_alpha (hd s) \<or> hd s = CHR ''_'') \<and> (\<forall>c\<in>set s. ident_char c)"
  by (cases s) (auto simp: is_simple_identifier_name_def ident_char_def list_all_iff)

lemma typevar_name_iff:
  "is_valid_typevar_name s \<longleftrightarrow> s \<noteq> [] \<and> is_upper (hd s) \<and> (\<forall>c\<in>set s. ident_char c)"
  by (cases s) (auto simp: is_valid_typevar_name_def ident_char_def is_upper_def is_alpha_def list_all_iff)

lemma typevar_is_simple: "is_valid_typevar_name s \<Longrightarrow> is_simple_identifier_name s"
  by (auto simp: typevar_name_iff simple_name_iff is_upper_def is_alpha_def)

lemma name_scanned:
  assumes "is_simple_identifier_name s" "ends_name r"
  shows "parse_name_no_ws (s @ r) = Some (s, r)"
proof -
  obtain c cs where s: "s = c # cs" "is_alpha c \<or> c = CHR ''_''" "\<forall>d\<in>set cs. ident_char d"
    using assms(1) by (cases s) (auto simp: simple_name_iff)
  have t: "takeWhile ident_char (cs @ r) = cs" "dropWhile ident_char (cs @ r) = r"
    using s(3) assms(2) by (auto simp: ends_name_def takeWhile_append2 dropWhile_append2 takeWhile_eq_Nil_iff
        dropWhile_eq_self_iff)
  show ?thesis
    using s(2) t unfolding ident_char_def[abs_def] by (simp add: parse_name_no_ws_def s(1) Let_def)
qed

lemma name_skip: "is_simple_identifier_name s \<Longrightarrow> skip_ds (s @ r) = s @ r"
  by (rule skip_ds_id) (auto simp: simple_name_iff hd_append dest!: ident_no_space bspec[OF _ hd_in_set])

text \<open>Numbers in decimal.\<close>

lemma decimal_hd: "is_digit (hd (decimal n))"
  using decimal_digits[of n] by (cases "decimal n") (auto dest: arg_cong[of _ _ "\<lambda>x. x = []"])

lemma decimal_hd_zero: "hd (decimal n) = CHR ''0'' \<Longrightarrow> decimal n = ''0''"
proof (induction n rule: decimal.induct)
  case (1 n)
  show ?case
  proof (cases "n < 10")
    case True
    then show ?thesis using 1(2) by auto
  next
    case False
    then have d: "decimal n = decimal (n div 10) @ [digit_char (n mod 10)]" by (simp add: decimal_step)
    then have "hd (decimal (n div 10)) = CHR ''0''" using 1(2) by (simp add: hd_append)
    then have "decimal (n div 10) = ''0''" using 1(1) False by simp
    then have "digits_value 0 (decimal (n div 10)) = 0" by (simp add: digits_value_def)
    then show ?thesis using False by (simp add: digits_value_decimal)
  qed
qed

lemma number_scanned:
  assumes "r = [] \<or> \<not> is_digit (hd r)"
  shows "parse_unsigned_int_no_ws (decimal n @ r) = Some (decimal n, r)"
proof -
  obtain c cs where d: "decimal n = c # cs" by (cases "decimal n") auto
  have digits: "is_digit c" "\<forall>x\<in>set cs. is_digit x" using decimal_digits[of n] d by (simp_all add: list_all_iff)
  have drop: "dropWhile is_digit (cs @ r) = r"
    using digits assms by (auto simp: dropWhile_append2 dropWhile_eq_self_iff)
  show ?thesis
  proof (cases "c = CHR ''0''")
    case True
    then have "cs = []" using decimal_hd_zero[of n] d by simp
    then show ?thesis using True assms d by (cases r) (auto simp: parse_unsigned_int_no_ws_def)
  next
    case False
    then have "(of_char c :: nat) \<noteq> 48"
      using of_char_eq_iff[of c "CHR ''0''", where ?'a = nat] by simp
    then have "CHR ''1'' \<le> c \<and> c \<le> CHR ''9''"
      using digits(1) by (auto simp: is_digit_code less_eq_char_def)
    then show ?thesis
      using drop by (simp add: parse_unsigned_int_no_ws_def d matched_def)
  qed
qed

lemma number_no_name: "parse_name_no_ws (decimal n @ r) = None"
  using decimal_hd[of n] digit_no_alpha by (cases "decimal n") (auto simp: parse_name_no_ws_def)

lemma decimal_skip: "skip_ds (decimal n @ r) = decimal n @ r"
proof (rule skip_ds_id)
  have "is_digit (hd (decimal n @ r))" using decimal_hd[of n] by (simp add: hd_append)
  then show "decimal n @ r = [] \<or> \<not> is_space (hd (decimal n @ r)) \<and> hd (decimal n @ r) \<noteq> CHR ''#''"
    using ident_no_space digit_ident by blast
qed

section \<open>The types that are read back\<close>

text \<open>Names that are kinds or constructors where a type variable could stand.\<close>

definition reserved_names :: "string list" where
  "reserved_names = [''C'', ''Any'', ''Categorical'', ''FixedBytes'', ''FixedString'', ''Bool'', ''Int'', ''UInt'', ''SInt'',
                     ''Real'', ''Complex'']"

definition typevar_ok :: "string \<Rightarrow> bool" where
  "typevar_ok name \<longleftrightarrow> is_valid_typevar_name name \<and> name \<notin> set reserved_names"

definition dim_name_ok :: "string \<Rightarrow> bool" where
  "dim_name_ok name \<longleftrightarrow> is_valid_typevar_name name \<and> name \<noteq> ''Fixed''"

definition dim_size_ok :: "int \<Rightarrow> bool" where
  "dim_size_ok n \<longleftrightarrow> 0 \<le> n \<and> n < 2 ^ 63"

fun pow_base_ok :: "ndt \<Rightarrow> bool" where
  "pow_base_ok (fixed_dim_type n t) = (dim_size_ok n \<and> t = void_type)"
| "pow_base_ok (var_dim_type t) = (t = void_type)"
| "pow_base_ok (fixed_dim_kind_type t) = (t = void_type)"
| "pow_base_ok (typevar_dim_type name t) = (dim_name_ok name \<and> t = void_type)"
| "pow_base_ok _ = False"

text \<open>
  A type that its factory makes and that the grammar can write: names are identifiers and type variables not the names
  of kinds, sizes fit their fields, an ellipsis of fields follows a field, and a view is an unaligned value.
\<close>

fun printable :: "ndt \<Rightarrow> bool" where
  "printable (builtin_type tid) = (print_builtin tid \<noteq> ''uninitialized'')"
| "printable void_pointer_type = True"
| "printable (pointer_type t) = (printable t \<and> make_pointer t = Inr (pointer_type t))"
| "printable (bytes_type align) = (make_bytes align = Inr (bytes_type align))"
| "printable (fixed_bytes_type n align) = (make_fixed_bytes n align = Inr (fixed_bytes_type n align) \<and> n < 2 ^ 31)"
| "printable (char_type e) = (make_char e = Inr (char_type e) \<and> e \<noteq> string_encoding_latin1)"
| "printable (string_type e) = (make_string e = Inr (string_type e))"
| "printable (fixed_string_type n e) = (make_fixed_string n e = Inr (fixed_string_type n e) \<and> 0 < n \<and> n < 2 ^ 31)"
| "printable date_type = True"
| "printable (time_type tz) = True"
| "printable (datetime_type tz) = True"
| "printable json_type = True"
| "printable (fixed_dim_type n t) = (dim_size_ok n \<and> printable t)"
| "printable (var_dim_type t) = printable t"
| "printable (struct_type names ts variadic) =
     (length names = length ts \<and> list_all is_simple_identifier_name names \<and> list_all printable ts \<and> (variadic \<longrightarrow> ts \<noteq> []))"
| "printable (tuple_type ts variadic) = (list_all printable ts \<and> (variadic \<longrightarrow> ts \<noteq> []))"
| "printable (c_contiguous_type t) = (printable t \<and> make_c_contiguous t = Inr (c_contiguous_type t))"
| "printable (option_type t) = (printable t \<and> make_option t = Inr (option_type t))"
| "printable ndarrayarg_type = True"
| "printable (kind_sym_type k) = (k \<in> {bool_kind, uint_kind, sint_kind, real_kind, complex_kind})"
| "printable int_kind_sym_type = True"
| "printable any_sym_type = True"
| "printable (adapt_type _ _ _) = False"
| "printable (byteswap_type v p) = (printable v \<and> new_byteswap v = Inr (byteswap_type v p))"
| "printable (view_type v p) =
     (printable v \<and> get_data_alignment v > 1 \<and> get_kind v \<noteq> expr_kind \<and> make_unaligned (0, 0) v = Inr (view_type v p))"
| "printable (type_type t) = (t = null_type \<or> printable t \<and> is_symbolic t)"
| "printable (arrfunc_type ps pvariadic names ks kvariadic ret) =
     (list_all printable ps \<and> list_all printable ks \<and> printable ret
      \<and> length names = length ks \<and> list_all is_simple_identifier_name names
      \<and> (if ks = [] then kvariadic = pvariadic else \<not> kvariadic \<and> (pvariadic \<longrightarrow> ps \<noteq> [])))"
| "printable (typevar_type name) = typevar_ok name"
| "printable (typevar_dim_type name t) = (dim_name_ok name \<and> printable t)"
| "printable (typevar_constructed_type name t) = (typevar_ok name \<and> printable t)"
| "printable (pow_dimsym_type b e t) = (pow_base_ok b \<and> is_valid_typevar_name e \<and> printable t)"
| "printable (ellipsis_dim_type name t) = ((name = [] \<or> is_valid_typevar_name name) \<and> printable t)"
| "printable (dim_fragment_type _) = False"
| "printable (fixed_dim_kind_type t) = printable t"
| "printable categorical_kind_type = True"
| "printable fixed_bytes_kind_type = True"
| "printable fixed_string_kind_type = True"

lemma printable_not_null: "printable t \<Longrightarrow> t \<noteq> null_type"
  by auto

section \<open>Reading one datashape\<close>

text \<open>The text is read as the type, wherever it stands, as soon as the fuel is more than its length.\<close>

definition reads :: "ndt \<Rightarrow> string \<Rightarrow> bool" where
  "reads t u \<longleftrightarrow>
     (\<forall>k mem symtable s rest.
        skip_ds s = u @ rest \<longrightarrow> stops rest \<longrightarrow> length u < k \<longrightarrow> parse_datashape k mem symtable s = Inr (t, rest))"

lemma readsD:
  "reads t u \<Longrightarrow> skip_ds s = u @ rest \<Longrightarrow> stops rest \<Longrightarrow> length u < k
     \<Longrightarrow> parse_datashape k mem symtable s = Inr (t, rest)"
  by (simp add: reads_def del: split_paired_All)

lemma bind_Inr [simp]: "bind_made (Inr x) f = f x"
  by (simp add: bind_made_def)

lemma throwing_Inr [simp]: "throwing (Inr t) s = Inr (t, s)"
  by (simp add: throwing_def)

lemma expect_hit: "parse_token_ds token s = Some r \<Longrightarrow> expect token m s = Inr r"
  by (simp add: expect_def)

text \<open>A text that starts with a name or a number.\<close>

lemma reads_named:
  assumes scanned: "\<And>rest. stops rest \<Longrightarrow> parse_name_or_number (u @ rest) = Some (name, w @ rest)"
    and first: "u \<noteq> []" "hd u \<noteq> CHR ''?''"
    and named: "\<And>k mem symtable here rest. stops rest \<Longrightarrow> length u \<le> k \<Longrightarrow>
       parse_named mem symtable (parse_datashape k mem symtable) here name (w @ rest) = Inr (t, rest)"
    and t: "t \<noteq> null_type"
  shows "reads t u"
  unfolding reads_def
proof (intro allI impI)
  fix k mem symtable s rest
  assume s: "skip_ds s = u @ rest" and r: "stops rest" and k: "length u < k"
  obtain j where j: "k = Suc j" using k by (cases k) auto
  have q: "parse_token_no_ws ''?'' (skip_ds s) = None"
    using first by (cases u) (simp_all add: s parse_token_no_ws_def)
  have "parse_datashape_nooption mem symtable j (parse_datashape j mem symtable) s = Inr (t, rest)"
    unfolding parse_datashape_nooption_def s scanned[OF r] option.case prod.case
    using named[OF r, of j] k j t by simp
  then show "parse_datashape k mem symtable s = Inr (t, rest)"
    unfolding j parse_datashape.simps q by simp
qed

text \<open>Printed text starts with a character that is not skipped.\<close>

definition clean :: "string \<Rightarrow> bool" where
  "clean u \<longleftrightarrow> u \<noteq> [] \<and> \<not> is_space (hd u) \<and> hd u \<noteq> CHR ''#''"

lemma clean_skip: "clean u \<Longrightarrow> skip_ds (u @ r) = u @ r"
  by (rule skip_ds_id) (simp add: clean_def hd_append)

lemma clean_name: "is_simple_identifier_name name \<Longrightarrow> clean (name @ w)"
  by (auto simp: clean_def simple_name_iff hd_append dest!: ident_no_space bspec[OF _ hd_in_set])

text \<open>Single characters as tokens.\<close>

definition token_char :: "char \<Rightarrow> bool" where
  "token_char c \<longleftrightarrow> \<not> is_space c \<and> c \<noteq> CHR ''#''"

lemma token_chars [simp]:
  "token_char CHR ''[''" "token_char CHR '']''" "token_char CHR ''(''" "token_char CHR '')''" "token_char CHR 0x7B"
  "token_char CHR 0x7D" "token_char CHR ''*''" "token_char CHR ''.''" "token_char CHR ''|''" "token_char CHR '',''"
  "token_char CHR '':''" "token_char CHR ''-''" "token_char CHR ''=''" "token_char CHR 0x27" "token_char CHR ''?''"
  by (simp_all add: token_char_def is_space_def less_eq_char_def)

lemma token_skip [simp]: "token_char c \<Longrightarrow> skip_ds (c # s) = c # s"
  by (simp add: token_char_def skip_ds_Cons)

lemma token_head: "token_char c \<Longrightarrow> parse_token_ds (d # token) (c # s) =
    (if c = d then (case parse_token_no_ws token s of Some (_, r) \<Rightarrow> Some r | None \<Rightarrow> None) else None)"
  by (auto simp: parse_token_ds_def parse_token_no_ws_def)

lemma token_blank [simp]: "parse_token_ds token (CHR '' '' # s) = parse_token_ds token s"
  by (simp add: parse_token_ds_def)

lemma token_no_ws_simps [simp]:
  "parse_token_no_ws [] s = Some ((), s)" "parse_token_no_ws (d # token) [] = None"
  "parse_token_no_ws (d # token) (c # s) =
     (if c = d then (case parse_token_no_ws token s of Some (_, r) \<Rightarrow> Some ((), r) | None \<Rightarrow> None) else None)"
  by (auto simp: parse_token_no_ws_def)

lemma token_end [simp]: "token \<noteq> [] \<Longrightarrow> parse_token_ds token [] = None"
  by (rule token_ds_miss) simp_all

lemma token_stops:
  "stops rest \<Longrightarrow> token \<noteq> [] \<Longrightarrow> hd token \<notin> closers \<Longrightarrow> parse_token_ds token rest = None"
  by (rule token_ds_miss) (auto simp: stops_skip, auto simp: stops_def)

lemma token_ident: "ident_char c \<Longrightarrow> \<not> ident_char d \<Longrightarrow> parse_token_ds (d # token) (c # s) = None"
  using skip_ds_Cons[of c s] ident_no_space[of c] by (intro token_ds_miss) auto

lemma colon_miss [simp]:
  "token_char c \<Longrightarrow> c \<noteq> CHR '':'' \<Longrightarrow> parse_token_ds '':'' (c # s) = None"
  by (simp add: token_head)

lemma not_closers [simp]:
  "CHR ''*'' \<notin> closers" "CHR ''.'' \<notin> closers" "CHR ''|'' \<notin> closers" "CHR ''['' \<notin> closers" "CHR ''-'' \<notin> closers"
  "CHR '':'' \<notin> closers"
  by (simp_all add: closers_def)

lemma colon_stops [simp]: "stops rest \<Longrightarrow> parse_token_ds '':'' rest = None"
  by (simp add: token_stops)

lemma not_ident [simp]:
  "\<not> ident_char CHR ''[''" "\<not> ident_char CHR '' ''" "\<not> ident_char CHR ''*''" "\<not> ident_char CHR ''.''"
  "\<not> ident_char CHR '':''" "\<not> ident_char CHR ''|''" "\<not> ident_char CHR ''(''" "\<not> ident_char CHR 0x7B"
  "\<not> ident_char CHR ''?''" "\<not> ident_char CHR '']''" "\<not> ident_char CHR '')''" "\<not> ident_char CHR '',''"
  by (simp_all add: ident_char_def is_alpha_def is_digit_def less_eq_char_def)

text \<open>
  A field of a tuple is not taken for a keyword argument, for the end or for the ellipsis before it.
\<close>

definition field_like :: "string \<Rightarrow> bool" where
  "field_like u \<longleftrightarrow>
     (\<forall>rest. stops rest \<longrightarrow> \<not> at_keyword (u @ rest) \<and> parse_token_ds '')'' (u @ rest) = None
        \<and> (case parse_token_ds ''...'' (u @ rest) of
              None \<Rightarrow> True
            | Some r \<Rightarrow> parse_token_ds '','' r = None \<and> parse_token_ds '')'' r = None \<and> \<not> at_keyword r))"

lemma field_like_name:
  assumes "is_simple_identifier_name name" "\<And>rest. stops rest \<Longrightarrow> ends_name (w @ rest)"
    "\<And>rest. stops rest \<Longrightarrow> parse_token_ds '':'' (w @ rest) = None"
  shows "field_like (name @ w)"
  unfolding field_like_def
proof (intro allI impI conjI)
  fix rest assume r: "stops rest"
  obtain c cs where n: "name = c # cs" "ident_char c" using assms(1) by (cases name) (auto simp: simple_name_iff)
  show "\<not> at_keyword ((name @ w) @ rest)"
    using name_scanned[OF assms(1) assms(2)[OF r]] assms(3)[OF r] name_skip[OF assms(1), of "w @ rest"]
    by (simp add: at_keyword_def)
  show "parse_token_ds '')'' ((name @ w) @ rest) = None" using n by (simp add: token_ident)
  have "parse_token_ds ''...'' ((name @ w) @ rest) = None" using n by (simp add: token_ident)
  then show "case parse_token_ds ''...'' ((name @ w) @ rest) of None \<Rightarrow> True
      | Some r \<Rightarrow> parse_token_ds '','' r = None \<and> parse_token_ds '')'' r = None \<and> \<not> at_keyword r" by simp
qed

lemma no_name_at: "token_char c \<Longrightarrow> \<not> ident_char c \<Longrightarrow> \<not> at_keyword (c # s)"
  by (auto simp: at_keyword_def parse_name_no_ws_def ident_char_def)

lemma at_keyword_blank: "at_keyword (CHR '' '' # s) = at_keyword s"
  by (simp add: at_keyword_def)

lemma field_like_char: "token_char c \<Longrightarrow> \<not> ident_char c \<Longrightarrow> c \<noteq> CHR ''.'' \<Longrightarrow> c \<noteq> CHR '')'' \<Longrightarrow> field_like (c # u)"
  by (simp add: field_like_def no_name_at token_head)

definition readable :: "ndt \<Rightarrow> string \<Rightarrow> bool" where
  "readable t u \<longleftrightarrow> reads t u \<and> clean u \<and> field_like u"

lemma readable_skip [simp]: "readable t u \<Longrightarrow> skip_ds (u @ r) = u @ r"
  by (simp add: readable_def clean_skip)

lemma readable_parse:
  "readable t u \<Longrightarrow> stops rest \<Longrightarrow> length u < k \<Longrightarrow> parse_datashape k mem symtable (u @ rest) = Inr (t, rest)"
  "readable t u \<Longrightarrow> stops rest \<Longrightarrow> length u < k \<Longrightarrow> parse_datashape k mem symtable (CHR '' '' # u @ rest) = Inr (t, rest)"
  by (auto simp: readable_def clean_skip intro: readsD)

lemma readable_required:
  "readable t u \<Longrightarrow> t \<noteq> null_type \<Longrightarrow> stops rest \<Longrightarrow> length u < k
     \<Longrightarrow> required (parse_datashape k mem symtable) m (u @ rest) = Inr (t, rest)"
  "readable t u \<Longrightarrow> t \<noteq> null_type \<Longrightarrow> stops rest \<Longrightarrow> length u < k
     \<Longrightarrow> required (parse_datashape k mem symtable) m (CHR '' '' # u @ rest) = Inr (t, rest)"
  by (simp_all add: required_def readable_parse)

section \<open>Names\<close>

lemma reads_word:
  assumes name: "is_simple_identifier_name name"
    and ends: "\<And>rest. stops rest \<Longrightarrow> ends_name (w @ rest)"
    and named: "\<And>k mem symtable here rest. stops rest \<Longrightarrow> length w \<le> k \<Longrightarrow>
       parse_named mem symtable (parse_datashape k mem symtable) here name (w @ rest) = Inr (t, rest)"
    and t: "t \<noteq> null_type"
    and colon: "\<And>rest. stops rest \<Longrightarrow> parse_token_ds '':'' (w @ rest) = None"
  shows "readable t (name @ w)"
  unfolding readable_def
proof (intro conjI)
  show "reads t (name @ w)"
  proof (rule reads_named[of _ name w])
    show "parse_name_or_number ((name @ w) @ rest) = Some (name, w @ rest)" if "stops rest" for rest
      using name_scanned[OF name ends[OF that]] by (simp add: parse_name_or_number_def)
    have "ident_char (hd name)" "name \<noteq> []" using name by (auto simp: simple_name_iff)
    then show "name @ w \<noteq> []" "hd (name @ w) \<noteq> CHR ''?''" by (auto simp: hd_append)
  qed (use named t in auto)
  show "clean (name @ w)" using name by (rule clean_name)
  show "field_like (name @ w)" by (rule field_like_name[OF name ends colon])
qed

definition no_dim_token :: "string \<Rightarrow> bool" where
  "no_dim_token r \<longleftrightarrow> skip_ds r = [] \<or> hd (skip_ds r) \<notin> {CHR ''*'', CHR ''.'', CHR ''|''}"

lemma no_dim_token_simps [simp]: "stops rest \<Longrightarrow> no_dim_token rest" "no_dim_token (CHR ''['' # r)"
  by (auto simp: no_dim_token_def stops_skip stops_def closers_def)

lemma named_plain:
  "no_dim_token r \<Longrightarrow> parse_named mem symtable p here name r = parse_named_type mem symtable p here name r"
  unfolding parse_named_def no_dim_token_def by (auto simp: token_ds_miss)

lemma reads_type_word:
  assumes "is_simple_identifier_name name" "w = [] \<or> hd w = CHR ''[''"
    and "\<And>k mem symtable here rest. stops rest \<Longrightarrow> length w \<le> k \<Longrightarrow>
       parse_named_type mem symtable (parse_datashape k mem symtable) here name (w @ rest) = Inr (t, rest)"
    and "t \<noteq> null_type"
  shows "readable t (name @ w)"
proof (rule reads_word[OF assms(1) _ _ assms(4)])
  show "parse_token_ds '':'' (w @ rest) = None" if "stops rest" for rest
    using assms(2) that by (cases w) auto
  have w: "ends_name (w @ rest) \<and> no_dim_token (w @ rest)" if "stops rest" for rest
    using assms(2) that stops_ends_name by (cases w) auto
  then show "ends_name (w @ rest)" if "stops rest" for rest using that by blast
  show "parse_named mem symtable (parse_datashape k mem symtable) here name (w @ rest) = Inr (t, rest)"
    if "stops rest" "length w \<le> k" for k mem symtable here rest
    using w[OF that(1)] that assms(3) by (simp add: named_plain)
qed

section \<open>Types without parameters\<close>

lemmas named_type_rules = parse_named_type_def is_upper_def less_eq_char_def

lemma token_bracket_stops [simp]: "stops rest \<Longrightarrow> parse_token_ds ''['' rest = None"
  by (simp add: token_stops)

lemmas words = is_simple_identifier_name_def is_alpha_def is_digit_def less_eq_char_def

lemma reads_float:
  "readable (builtin_type float32_type_id) (''float32'' @ [])" "readable (builtin_type float64_type_id) (''float64'' @ [])"
  by (rule reads_type_word; simp add: words named_type_rules builtin_types_def)+

lemma reads_complex:
  "readable (builtin_type complex_float32_type_id) (''complex'' @ ''[float32]'')"
  "readable (builtin_type complex_float64_type_id) (''complex'' @ ''[float64]'')"
  using readable_required(1)[OF reads_float(1)] readable_required(1)[OF reads_float(2)]
  by - (rule reads_type_word; simp add: words named_type_rules parse_complex_parameters_def token_head expect_hit)+

lemma reads_builtin:
  assumes "print_builtin tid \<noteq> ''uninitialized''"
  shows "readable (builtin_type tid) (print_builtin tid @ [])"
  using assms reads_float reads_complex
  by (cases tid; simp only: print_builtin.simps append_Nil2 append.simps simp_thms)
    (rule reads_type_word[where w = "[]", unfolded append_Nil2]; simp add: words named_type_rules builtin_types_def)+

lemma reads_constants:
  "readable void_pointer_type (''pointer'' @ ''[void]'')"
  "readable date_type (''date'' @ [])" "readable json_type (''json'' @ [])" "readable ndarrayarg_type (''ndarrayarg'' @ [])"
  "readable int_kind_sym_type (''Int'' @ [])" "readable any_sym_type (''Any'' @ [])"
  "readable categorical_kind_type (''Categorical'' @ [])" "readable fixed_bytes_kind_type (''FixedBytes'' @ [])"
  "readable fixed_string_kind_type (''FixedString'' @ [])" "readable (type_type null_type) (''type'' @ [])"
  using readable_required(1)[OF reads_builtin[of void_type_id, simplified append_Nil2]]
  by - (rule reads_type_word; simp add: words named_type_rules builtin_types_def parse_pointer_parameters_def
        parse_bracketed_def make_pointer_def token_head expect_hit)+

lemma reads_kind:
  "k \<in> {bool_kind, uint_kind, sint_kind, real_kind, complex_kind} \<Longrightarrow> readable (kind_sym_type k) (print_kind k @ [])"
  by (elim insertE emptyE; simp only: print_kind.simps)
    (rule reads_type_word; simp add: words named_type_rules make_kind_sym_def)+

section \<open>Types with a type in brackets\<close>

lemma bracketed:
  assumes "readable t u" "t \<noteq> null_type" "length u < k"
  shows "parse_bracketed (parse_datashape k mem symtable) m1 m2 build (CHR ''['' # u @ CHR '']'' # rest)
    = throwing (build t) rest"
  unfolding parse_bracketed_def
  by (simp add: token_head expect_hit readable_required(1)[OF assms(1,2) _ assms(3)])

lemma reads_bracketed:
  assumes "readable t u" "printable t"
  shows "make_pointer t = Inr (pointer_type t) \<Longrightarrow> readable (pointer_type t) (''pointer'' @ ''['' @ u @ '']'')"
    "make_c_contiguous t = Inr (c_contiguous_type t) \<Longrightarrow> readable (c_contiguous_type t) (''C'' @ ''['' @ u @ '']'')"
    "new_byteswap t = Inr (byteswap_type t v) \<Longrightarrow> readable (byteswap_type t v) (''byteswap'' @ ''['' @ u @ '']'')"
    "(\<And>mem. make_unaligned mem t = Inr (view_type t v)) \<Longrightarrow> readable (view_type t v) (''unaligned'' @ ''['' @ u @ '']'')"
  using bracketed[OF assms(1) printable_not_null[OF assms(2)]]
  by - (rule reads_type_word; simp add: words named_type_rules parse_pointer_parameters_def
      parse_c_contiguous_parameters_def parse_byteswap_parameters_def parse_unaligned_parameters_def)+

section \<open>Type variables\<close>

lemma throwing_fun: "throwing (Inr t) = (\<lambda>s. Inr (t, s))"
  by (simp add: fun_eq_iff)

lemma typevar_type_word:
  assumes "typevar_ok name"
  shows "parse_named_type mem symtable p here name s =
     (case parse_token_ds ''['' s of
        None \<Rightarrow> Inr (typevar_type name, s)
      | Some s \<Rightarrow> bind_made (required p ''expected a dynd type'' s) (\<lambda>(arg_tp, s).
                bind_made (expect_close s) (\<lambda>s. Inr (typevar_constructed_type name arg_tp, s))))"
proof -
  have v: "is_valid_typevar_name name" and u: "is_upper (hd name)" and r: "name \<notin> set reserved_names"
    using assms by (auto simp: typevar_ok_def typevar_name_iff)
  have l: "name \<notin> {''string'', ''fixed_string'', ''complex'', ''datetime'', ''time'', ''unaligned'', ''pointer'', ''char'',
     ''byteswap'', ''bytes'', ''fixed_bytes'', ''cuda_host'', ''cuda_device'', ''fixed'', ''option'', ''adapt''}"
    using u by (auto simp: is_upper_def less_eq_char_def)
  show ?thesis
    using r l u v unfolding parse_named_type_def make_typevar_def make_typevar_constructed_def check_typevar_name_def
    by (auto simp: reserved_names_def throwing_fun split: option.splits)
qed

lemma reads_typevar: "typevar_ok name \<Longrightarrow> readable (typevar_type name) (name @ [])"
  by (rule reads_type_word) (simp_all add: typevar_type_word, simp add: typevar_ok_def typevar_is_simple)

lemma reads_typevar_constructed:
  "typevar_ok name \<Longrightarrow> readable t u \<Longrightarrow> printable t
     \<Longrightarrow> readable (typevar_constructed_type name t) (name @ ''['' @ u @ '']'')"
  using readable_required(1)[OF _ printable_not_null, of t u]
  by - (rule reads_type_word; simp add: typevar_type_word token_head expect_hit; simp add: typevar_ok_def typevar_is_simple)

section \<open>Dimensions\<close>

lemma dim_number_decimal: "dim_size_ok n \<Longrightarrow> dim_number (decimal (nat n)) = Inr n"
proof -
  assume n: "dim_size_ok n"
  have p: "decimal (nat n) = decimal_int n" using n by (simp add: decimal_int_def dim_size_ok_def)
  have n': "0 \<le> n" "n < 2 ^ 63" using n by (simp_all add: dim_size_ok_def)
  then obtain v where v: "checked_string_to_uint64 (decimal (nat n)) False False = (v, False, False)" "uint v = n"
    using checked_decimal_u64[of "nat n"] by auto
  have "\<not> overflow_check_int64 v False" using v(2) n' by (simp add: overflow_checks_signed(4) fits_signed_def)
  moreover have "sint v = n" using v(2) n' by (simp add: sint_uint signed_take_bit_int_eq_self)
  moreover have "(case decimal (nat n) of c # t \<Rightarrow> if c = CHR ''-'' then (True, t) else (False, decimal (nat n)) | [] \<Rightarrow> (False, []))
      = (False, decimal (nat n))"
    using decimal_sign[of n] n' unfolding p[symmetric] by simp
  ultimately show ?thesis
    using v(1) unfolding dim_number_def checked_string_to_intptr_def by (simp add: Let_def)
qed

text \<open>A dimension in front of an element: a name or number that ends before the blank.\<close>

lemma named_star:
  assumes "readable t u" "printable t" "stops rest" "length u < k"
    and "dim_of here ''unrecognized dimension type'' name 1 t = Inr dim_tp"
  shows "parse_named mem symtable (parse_datashape k mem symtable) here name ('' * '' @ u @ rest) = Inr (dim_tp, rest)"
  unfolding parse_named_def
  using assms(5) by (simp add: token_head readable_required(2)[OF assms(1) printable_not_null[OF assms(2)] assms(3,4)])

lemma not_upper_v: "\<not> is_upper CHR ''v''"
  by (simp add: is_upper_def less_eq_char_def)

lemma dim_of_simps:
  "dim_size_ok n \<Longrightarrow> dim_of here m (decimal (nat n)) 1 t = Inr (fixed_dim_type n t)"
  "dim_of here m ''var'' 1 t = Inr (var_dim_type t)"
  "t \<noteq> null_type \<Longrightarrow> dim_of here m ''Fixed'' 1 t = Inr (fixed_dim_kind_type t)"
  "dim_name_ok name \<Longrightarrow> dim_of here m name 1 t = Inr (typevar_dim_type name t)"
proof -
  show "dim_size_ok n \<Longrightarrow> dim_of here m (decimal (nat n)) 1 t = Inr (fixed_dim_type n t)"
    by (simp add: dim_of_def decimal_hd dim_number_decimal repeat_dim_def)
  show "dim_of here m ''var'' 1 t = Inr (var_dim_type t)"
    by (simp add: dim_of_def is_digit_def less_eq_char_def repeat_dim_def)
  show "t \<noteq> null_type \<Longrightarrow> dim_of here m ''Fixed'' 1 t = Inr (fixed_dim_kind_type t)"
    by (simp add: dim_of_def is_digit_def less_eq_char_def repeat_dim_def make_fixed_dim_kind_def)
  assume n: "dim_name_ok name"
  then have "is_upper (hd name)" "\<not> is_digit (hd name)" "name \<noteq> ''var''" "name \<noteq> ''Fixed''" "is_valid_typevar_name name"
    using digit_no_alpha[of "hd name"] not_upper_v by (auto simp: dim_name_ok_def typevar_name_iff)
  then show "dim_of here m name 1 t = Inr (typevar_dim_type name t)"
    by (simp add: dim_of_def check_typevar_name_def repeat_dim_def)
qed

lemma reads_number:
  assumes named: "\<And>k mem symtable here rest. stops rest \<Longrightarrow> length w < k \<Longrightarrow>
       parse_named mem symtable (parse_datashape k mem symtable) here (decimal n) (w @ rest) = Inr (t, rest)"
    and t: "t \<noteq> null_type" and w: "w \<noteq> []" "\<not> is_digit (hd w)"
  shows "readable t (decimal n @ w)"
  unfolding readable_def
proof (intro conjI)
  have d: "is_digit (hd (decimal n))" by (rule decimal_hd)
  show "reads t (decimal n @ w)"
  proof (rule reads_named[of _ "decimal n" w])
    show "parse_name_or_number ((decimal n @ w) @ rest) = Some (decimal n, w @ rest)" for rest
      using w number_scanned[of "w @ rest" n] number_no_name[of n "w @ rest"]
      by (simp add: parse_name_or_number_def hd_append)
    show "decimal n @ w \<noteq> []" by simp
    show "hd (decimal n @ w) \<noteq> CHR ''?''" using d digit_ident[of "hd (decimal n)"] by (auto simp: hd_append)
    show "parse_named mem symtable (parse_datashape k mem symtable) here (decimal n) (w @ rest) = Inr (t, rest)"
      if "stops rest" "length (decimal n @ w) \<le> k" for k mem symtable here rest
    proof (rule named[OF that(1)])
      show "length w < k" using that(2) decimal_nonempty[of n] by (cases "decimal n") auto
    qed
  qed (rule t)
  show "clean (decimal n @ w)"
    using d ident_no_space digit_ident unfolding clean_def by (auto simp: hd_append)
  show "field_like (decimal n @ w)"
    unfolding field_like_def
  proof (intro allI impI conjI)
    fix rest
    show "\<not> at_keyword ((decimal n @ w) @ rest)"
      using number_no_name[of n "w @ rest"] by (simp add: at_keyword_def decimal_skip)
    obtain c cs where "decimal n = c # cs" "ident_char c"
      using d digit_ident by (cases "decimal n") auto
    then show "parse_token_ds '')'' ((decimal n @ w) @ rest) = None" by (simp add: token_ident)
    have "parse_token_ds ''...'' ((decimal n @ w) @ rest) = None"
      using \<open>decimal n = c # cs\<close> \<open>ident_char c\<close> by (simp add: token_ident)
    then show "case parse_token_ds ''...'' ((decimal n @ w) @ rest) of None \<Rightarrow> True
      | Some r \<Rightarrow> parse_token_ds '','' r = None \<and> parse_token_ds '')'' r = None \<and> \<not> at_keyword r" by simp
  qed
qed

lemma reads_dims:
  assumes "readable t u" "printable t"
  shows "dim_size_ok n \<Longrightarrow> readable (fixed_dim_type n t) (decimal (nat n) @ '' * '' @ u)"
    "readable (var_dim_type t) (''var'' @ '' * '' @ u)"
    "readable (fixed_dim_kind_type t) (''Fixed'' @ '' * '' @ u)"
    "dim_name_ok name \<Longrightarrow> readable (typevar_dim_type name t) (name @ '' * '' @ u)"
proof -
  note star = named_star[OF assms, unfolded append_assoc[symmetric], unfolded append_assoc]
  show "dim_size_ok n \<Longrightarrow> readable (fixed_dim_type n t) (decimal (nat n) @ '' * '' @ u)"
    by (rule reads_number) (use star dim_of_simps(1) in \<open>simp_all add: is_digit_def less_eq_char_def\<close>)
  show "readable (var_dim_type t) (''var'' @ '' * '' @ u)"
    by (rule reads_word) (use star dim_of_simps(2) in \<open>simp_all add: words\<close>)
  show "readable (fixed_dim_kind_type t) (''Fixed'' @ '' * '' @ u)"
    by (rule reads_word) (use star dim_of_simps(3) printable_not_null[OF assms(2)] in \<open>simp_all add: words\<close>)
  assume n: "dim_name_ok name"
  show "readable (typevar_dim_type name t) (name @ '' * '' @ u)"
    by (rule reads_word) (use star dim_of_simps(4)[OF n] n in \<open>simp_all add: dim_name_ok_def typevar_is_simple\<close>)
qed

lemma ellipsis_parse:
  assumes "readable t u" "printable t" "stops rest" "length u < k" "name = [] \<or> is_valid_typevar_name name"
  shows "parse_ellipsis (parse_datashape k mem symtable) name ('' * '' @ u @ rest) = Inr (ellipsis_dim_type name t, rest)"
  unfolding parse_ellipsis_def make_ellipsis_dim_def
  using assms(5)
  by (simp add: token_head expect_hit readable_required(2)[OF assms(1) printable_not_null[OF assms(2)] assms(3,4)])

lemma reads_ellipsis:
  assumes "readable t u" "printable t"
  shows "is_valid_typevar_name name \<Longrightarrow> readable (ellipsis_dim_type name t) (name @ ''... * '' @ u)"
    "readable (ellipsis_dim_type [] t) (''... * '' @ u)"
proof -
  assume n: "is_valid_typevar_name name"
  show "readable (ellipsis_dim_type name t) (name @ ''... * '' @ u)"
    by (rule reads_word)
      (use n ellipsis_parse[OF assms] in \<open>simp_all add: typevar_is_simple parse_named_def token_head\<close>)
next
  show "readable (ellipsis_dim_type [] t) (''... * '' @ u)"
    unfolding readable_def reads_def
  proof (intro conjI allI impI)
    fix k mem symtable s rest
    assume s: "skip_ds s = (''... * '' @ u) @ rest" and r: "stops rest" and k: "length (''... * '' @ u) < k"
    obtain j where j: "k = Suc j" using k by (cases k) auto
    have n: "parse_name_or_number (skip_ds s) = None"
      unfolding s by (simp add: parse_name_or_number_def parse_name_no_ws_def parse_unsigned_int_no_ws_def is_alpha_def less_eq_char_def)
    have "parse_datashape_nooption mem symtable j (parse_datashape j mem symtable) s = Inr (ellipsis_dim_type [] t, rest)"
      unfolding parse_datashape_nooption_def n option.case
      using ellipsis_parse[OF assms r, of j "[]" mem symtable] k j by (simp add: s)
    then show "parse_datashape k mem symtable s = Inr (ellipsis_dim_type [] t, rest)"
      unfolding j parse_datashape.simps by (simp add: s)
  next
    show "clean (''... * '' @ u)" by (simp add: clean_def is_space_def less_eq_char_def)
    show "field_like (''... * '' @ u)"
      by (simp add: field_like_def no_name_at token_head at_keyword_blank)
  qed
qed

lemma reads_pattern_type:
  assumes "readable t u" "printable t" "is_symbolic t"
  shows "readable (type_type t) (''type'' @ '' | '' @ u)"
  by (rule reads_word)
    (use assms readable_parse(2)[OF assms(1)] in \<open>simp_all add: words parse_named_def token_head make_type_type_def\<close>)

definition pow_base_at :: "ndt \<Rightarrow> string \<Rightarrow> bool" where
  "pow_base_at b name \<longleftrightarrow> (\<forall>here. dim_of here bad_base name 1 void_type = Inr b)"

lemma pow_power:
  assumes "readable t u" "printable t" "stops rest" "length u < k" "is_valid_typevar_name e" "pow_base_at b name"
    "is_dim b" "get_element_type b = void_type"
  shows "parse_named mem symtable (parse_datashape k mem symtable) here name (''**'' @ e @ '' * '' @ u @ rest)
    = Inr (pow_dimsym_type b e t, rest)"
proof -
  have e: "parse_name_or_number (e @ '' * '' @ u @ rest) = Some (e, '' * '' @ u @ rest)"
    using name_scanned[OF typevar_is_simple[OF assms(5)], of "'' * '' @ u @ rest"] by (simp add: parse_name_or_number_def)
  have h: "is_upper (hd e)" "\<not> is_digit (hd e)"
    using assms(5) digit_no_alpha[of "hd e"] by (auto simp: typevar_name_iff)
  then have d: "\<not> (CHR ''1'' \<le> hd e \<and> hd e \<le> CHR ''9'')"
    by (auto simp: is_digit_def less_eq_char_def)
  have "dim_power (parse_datashape k mem symtable) here name (e @ '' * '' @ u @ rest) = Inr (pow_dimsym_type b e t, rest)"
    unfolding dim_power_def e option.case prod.case if_not_P[OF d] if_P[OF h(1)]
    using assms(5-8) readable_parse(2)[OF assms(1,3,4)]
    by (simp add: token_head pow_base_at_def make_pow_dimsym_def check_typevar_name_def)
  then show ?thesis unfolding parse_named_def by (simp add: token_head)
qed

lemma reads_pow:
  assumes "readable t u" "printable t" "pow_base_ok b" "is_valid_typevar_name e"
  shows "readable (pow_dimsym_type b e t) (print_pow_base b @ ''**'' @ e @ '' * '' @ u)"
  using assms(3)
proof (cases b rule: pow_base_ok.cases)
  case (1 n v)
  then have n: "dim_size_ok n" and v: "v = void_type" using assms(3) by auto
  have p: "print_pow_base b = decimal (nat n)" using n 1 by (simp add: print_pow_base_def print_int_def dim_size_ok_def)
  have "pow_base_at b (decimal (nat n))" using n dim_of_simps(1) 1 v by (simp add: pow_base_at_def)
  then show ?thesis unfolding p
    by (intro reads_number) (use pow_power[OF assms(1,2) _ _ assms(4)] 1 v in \<open>auto simp: is_digit_def less_eq_char_def\<close>)
next
  case (2 v)
  have "pow_base_at b ''var''" using 2 assms(3) by (simp add: pow_base_at_def dim_of_simps)
  then show ?thesis
    by (simp only: print_pow_base_def 2 ndt.case, intro reads_word)
      (use pow_power[OF assms(1,2) _ _ assms(4)] 2 assms(3) in \<open>auto simp: words\<close>)
next
  case (3 v)
  have "pow_base_at b ''Fixed''" using 3 assms(3) by (simp add: pow_base_at_def dim_of_simps)
  then show ?thesis
    by (simp only: print_pow_base_def 3 ndt.case, intro reads_word)
      (use pow_power[OF assms(1,2) _ _ assms(4)] 3 assms(3) in \<open>auto simp: words\<close>)
next
  case (4 name v)
  have "pow_base_at b name" using 4 assms(3) by (simp add: pow_base_at_def dim_of_simps)
  then show ?thesis
    by (simp only: print_pow_base_def 4 ndt.case, intro reads_word)
      (use pow_power[OF assms(1,2) _ _ assms(4)] 4 assms(3) in \<open>auto simp: dim_name_ok_def typevar_is_simple\<close>)
qed auto

section \<open>Options\<close>

lemma option_starts:
  assumes "readable t u" "hd u = CHR ''?''" "t \<noteq> null_type"
  shows "get_type_id t = option_type_id"
proof -
  obtain v where u: "u = CHR ''?'' # v" using assms(1,2) by (cases u) (auto simp: readable_def clean_def)
  have "parse_datashape (Suc (length u)) (0, 0) (\<lambda>_. None) u = Inr (t, [])"
    using readable_parse(1)[OF assms(1), of "[]" "Suc (length u)"] by simp
  then obtain w r where "throwing (make_option w) r = Inr (t, [])"
    using assms(3) unfolding u by (auto simp: bind_ok split: if_splits)
  then show ?thesis using assms(3) by (auto simp: throwing_def make_option_def split: if_splits sum.splits)
qed

lemma reads_option:
  assumes "readable t u" "printable t" "make_option t = Inr (option_type t)"
  shows "readable (option_type t) (CHR ''?'' # u)"
  unfolding readable_def reads_def
proof (intro conjI allI impI)
  have t: "t \<noteq> null_type" "get_type_id t \<noteq> option_type_id"
    using printable_not_null[OF assms(2)] assms(3) by (auto simp: make_option_def split: if_splits)
  fix k mem symtable s rest
  assume s: "skip_ds s = (CHR ''?'' # u) @ rest" and r: "stops rest" and k: "length (CHR ''?'' # u) < k"
  obtain j where j: "k = Suc j" using k by (cases k) auto
  obtain c v where u: "u = c # v" "c \<noteq> CHR ''?''"
    using option_starts[OF assms(1)] t assms(1) by (cases u) (auto simp: readable_def clean_def)
  have "parse_datashape (Suc j) mem symtable (u @ rest) = Inr (t, rest)"
    using readable_parse(1)[OF assms(1) r, of "Suc j"] k j by (simp del: parse_datashape.simps)
  then have "parse_datashape_nooption mem symtable j (parse_datashape j mem symtable) (u @ rest) = Inr (t, rest)"
    using u readable_skip[OF assms(1), of rest] by simp
  then show "parse_datashape k mem symtable s = Inr (option_type t, rest)"
    using t assms(3) unfolding j by (simp add: s)
qed (simp_all add: clean_def is_space_def less_eq_char_def field_like_char)

section \<open>Parameters in brackets\<close>

lemma ascii_value_append: "ascii_value (s @ [c]) = 10 * ascii_value s + digit_val c"
  by (simp add: ascii_value_def)

lemma ascii_value_decimal: "ascii_value (decimal n) = int n"
proof (induction n rule: decimal.induct)
  case (1 n)
  show ?case
  proof (cases "n < 10")
    case True
    then show ?thesis by (simp add: ascii_value_def digit_val_def digit_char_def)
  next
    case False
    then have d: "decimal n = decimal (n div 10) @ [digit_char (n mod 10)]" by (simp add: decimal_step)
    have "10 * int (n div 10) + int (n mod 10) = int n" by presburger
    then show ?thesis using 1 False unfolding d ascii_value_append
      by (simp add: digit_val_def digit_char_def)
  qed
qed

lemma number_parameter:
  assumes "0 \<le> n" "r = [] \<or> \<not> is_digit (hd r)"
  shows "parse_number (print_int n @ r) = (print_int n, r)" "print_int n \<noteq> []"
    "n < 2 ^ (w - 1) \<Longrightarrow> ascii_to_int w (print_int n) = Inr n"
    "parse_number (CHR '' '' # print_int n @ r) = (print_int n, r)"
proof -
  have p: "print_int n = decimal (nat n)" using assms(1) by (simp add: print_int_def)
  show "parse_number (print_int n @ r) = (print_int n, r)" "parse_number (CHR '' '' # print_int n @ r) = (print_int n, r)"
    unfolding p parse_number_def using number_scanned[OF assms(2)] by (simp_all add: decimal_skip)
  show "print_int n \<noteq> []" by (simp add: p)
  show "n < 2 ^ (w - 1) \<Longrightarrow> ascii_to_int w (print_int n) = Inr n"
    using assms(1) by (simp add: ascii_to_int_def p ascii_value_decimal)
qed

lemma not_digit [simp]:
  "\<not> is_digit CHR '']''" "\<not> is_digit CHR '',''"
  by (simp_all add: is_digit_def less_eq_char_def)

lemma align_token [simp]: "parse_token_ds ''align'' (''align='' @ r) = Some (CHR ''='' # r)"
  by (rule token_ds_hit) (simp add: skip_ds_Cons is_space_def less_eq_char_def)

lemma alignment_parameter:
  assumes "0 \<le> n" shows "parse_alignment (CHR ''='' # print_int n @ CHR '']'' # rest) = Inr (print_int n, rest)"
  unfolding parse_alignment_def
  using number_parameter[OF assms, of "CHR '']'' # rest"] by (simp add: token_head expect_hit)

lemma reads_bytes:
  assumes "make_bytes align = Inr (bytes_type align)"
  shows "readable (bytes_type align) (''bytes'' @ (if align \<noteq> 1 then ''[align='' @ print_int align @ '']'' else []))"
proof -
  have a: "small_power_of_two align" using assms by (simp add: make_bytes_def split: if_splits)
  then have p: "0 \<le> align" "align < 2 ^ 31" by (auto simp: small_power_of_two_def)
  have "parse_bytes_parameters ((if align \<noteq> 1 then ''[align='' @ print_int align @ '']'' else []) @ rest) = Inr (bytes_type align, rest)"
    if "stops rest" for rest
    using that a alignment_parameter[OF p(1), of rest] number_parameter(3)[OF p(1), of "[]" 32] p(2) align_token
    by (auto simp: parse_bytes_parameters_def make_bytes_def token_head expect_hit small_power_of_two_def)
  then show ?thesis
    by (intro reads_type_word) (simp_all add: words named_type_rules)
qed

lemma reads_fixed_bytes:
  assumes "make_fixed_bytes n align = Inr (fixed_bytes_type n align)" "n < 2 ^ 31"
  shows "readable (fixed_bytes_type n align)
    (''fixed_bytes'' @ ''['' @ print_int n @ (if align \<noteq> 1 then '', align='' @ print_int align else []) @ '']'')"
proof -
  have a: "small_power_of_two align" "align \<le> n" using assms by (auto simp: make_fixed_bytes_def split: if_splits)
  then have p: "0 \<le> align" "align < 2 ^ 31" "0 \<le> n" by (auto simp: small_power_of_two_def)
  have "parse_fixed_bytes_parameters ((''['' @ print_int n @ (if align \<noteq> 1 then '', align='' @ print_int align else []) @ '']'') @ rest)
      = Inr (fixed_bytes_type n align, rest)" for rest
  proof (cases "align = 1")
    case True
    then show ?thesis
      using number_parameter[OF p(3), of "CHR '']'' # rest"] number_parameter(3)[OF p(3), of "[]" 32] assms
      by (simp add: parse_fixed_bytes_parameters_def token_head expect_hit)
  next
    case False
    then show ?thesis
      using number_parameter[OF p(3), of "'', align='' @ print_int align @ CHR '']'' # rest"] number_parameter(3)[OF p(3), of "[]" 32]
        number_parameter(3)[OF p(1), of "[]" 32] p(2) assms alignment_parameter[OF p(1), of rest] align_token
      by (simp add: parse_fixed_bytes_parameters_def token_head expect_hit)
  qed
  then show ?thesis
    by (intro reads_type_word) (simp_all add: words named_type_rules)
qed

section \<open>Encodings and time zones\<close>

lemma quoted_loop_plain:
  assumes "CHR 0x5C \<notin> set s" "CHR 0x27 \<notin> set s"
  shows "quoted_loop start (CHR 0x27) out (s @ CHR 0x27 # r) = Inr (out @ s, r)"
  using assms by (induction s arbitrary: out) (auto simp: quoted_loop.simps)

lemma quoted_parameter:
  assumes "CHR 0x5C \<notin> set s" "CHR 0x27 \<notin> set s"
  shows "parse_quoted_string (quoted s @ r) = Some (Inr (s, r))"
  using quoted_loop_plain[OF assms, of _ "[]"] by (simp add: parse_quoted_string_def quoted_def token_head)

lemma required_quoted_parameter:
  "CHR 0x5C \<notin> set s \<Longrightarrow> CHR 0x27 \<notin> set s \<Longrightarrow> required_quoted m (quoted s @ r) = Inr (s, r)"
  by (simp add: required_quoted_def quoted_parameter)

lemma encoding_plain: "CHR 0x5C \<notin> set (print_encoding e)" "CHR 0x27 \<notin> set (print_encoding e)" "print_encoding e \<noteq> []"
  by (cases e; simp add: print_encoding_def)+

lemma encoding_back:
  "e \<noteq> string_encoding_latin1 \<Longrightarrow> e \<noteq> string_encoding_invalid \<Longrightarrow> string_to_encoding here (print_encoding e) = Inr e"
  by (cases e) (simp_all add: print_encoding_def string_to_encoding_def)

lemma encoding_ok:
  "make_char e = Inr (char_type e) \<Longrightarrow> e \<noteq> string_encoding_invalid"
  "make_string e = Inr (string_type e) \<Longrightarrow> e \<noteq> string_encoding_latin1 \<and> e \<noteq> string_encoding_invalid"
  "make_fixed_string n e = Inr (fixed_string_type n e) \<Longrightarrow> e \<noteq> string_encoding_latin1 \<and> e \<noteq> string_encoding_invalid"
  by (auto simp: make_char_def make_string_def make_fixed_string_def string_encodings_def split: if_splits)

lemma quoted_append: "quoted s @ r = CHR 0x27 # s @ CHR 0x27 # r"
  by (simp add: quoted_def)

lemma reads_char:
  assumes "make_char e = Inr (char_type e)" "e \<noteq> string_encoding_latin1"
  shows "readable (char_type e) (''char'' @ (if e \<noteq> string_encoding_utf_32 then ''['' @ quoted (print_encoding e) @ '']'' else []))"
proof -
  have "parse_char_parameters ((if e \<noteq> string_encoding_utf_32 then ''['' @ quoted (print_encoding e) @ '']'' else []) @ rest)
      = Inr (char_type e, rest)" if "stops rest" for rest
    using that assms encoding_ok(1)[OF assms(1)]
      required_quoted_parameter[OF encoding_plain(1,2), of _ e "CHR '']'' # rest"] encoding_plain(3)[of e]
    by (simp add: parse_char_parameters_def token_head expect_hit encoding_back)
  then show ?thesis
    by (intro reads_type_word) (simp_all add: words named_type_rules)
qed

lemma reads_string:
  assumes "make_string e = Inr (string_type e)"
  shows "readable (string_type e) (''string'' @ (if e \<noteq> string_encoding_utf_8 then ''['' @ quoted (print_encoding e) @ '']'' else []))"
proof -
  have "parse_string_parameters ((if e \<noteq> string_encoding_utf_8 then ''['' @ quoted (print_encoding e) @ '']'' else []) @ rest)
      = Inr (string_type e, rest)" if "stops rest" for rest
    using that assms encoding_ok(2)[OF assms]
      required_quoted_parameter[OF encoding_plain(1,2), of _ e "CHR '']'' # rest"]
    by (auto simp: parse_string_parameters_def token_head expect_hit encoding_back)
  then show ?thesis
    by (intro reads_type_word) (simp_all add: words named_type_rules)
qed

lemma reads_fixed_string:
  assumes "make_fixed_string n e = Inr (fixed_string_type n e)" "0 < n" "n < 2 ^ 31"
  shows "readable (fixed_string_type n e)
    (''fixed_string'' @ ''['' @ print_int n @ (if e \<noteq> string_encoding_utf_8 then '','' @ quoted (print_encoding e) else []) @ '']'')"
proof -
  have n: "0 \<le> n" using assms(2) by simp
  note num = number_parameter[OF n] number_parameter(3)[OF n, of "[]" 32]
  have "parse_fixed_string_parameters ((''['' @ print_int n
        @ (if e \<noteq> string_encoding_utf_8 then '','' @ quoted (print_encoding e) else []) @ '']'') @ rest)
      = Inr (fixed_string_type n e, rest)" for rest
  proof (cases "e = string_encoding_utf_8")
    case True
    then show ?thesis
      using num(1)[of "CHR '']'' # rest"] num(2)[of "[]"] num(5) assms
      by (simp add: parse_fixed_string_parameters_def token_head expect_hit)
  next
    case False
    have p: "parse_number (print_int n @ CHR '','' # quoted (print_encoding e) @ CHR '']'' # rest)
        = (print_int n, CHR '','' # quoted (print_encoding e) @ CHR '']'' # rest)"
      by (rule num(1)) simp
    show ?thesis
      using p False num(2)[of "[]"] num(5) assms encoding_ok(3)[OF assms(1)]
        required_quoted_parameter[OF encoding_plain(1,2), of _ e "CHR '']'' # rest"]
      by (simp add: parse_fixed_string_parameters_def token_head expect_hit encoding_back)
  qed
  then show ?thesis
    by (intro reads_type_word) (simp_all add: words named_type_rules)
qed

lemma tz_token [simp]: "parse_token_ds ''tz'' (''tz'' @ r) = Some r"
  by (rule token_ds_hit) (simp add: skip_ds_Cons is_space_def less_eq_char_def)

lemma timezone_parameter:
  assumes "stops rest"
  shows "parse_timezone_parameter build (drop (length name) (print_timezone name tz) @ rest) = Inr (build tz, rest)"
  using assms required_quoted_parameter[of "''UTC''" _ "CHR '']'' # rest"] tz_token
  by (cases tz) (simp_all add: print_timezone_def parse_timezone_parameter_def token_head expect_hit)

lemma print_timezone_split: "print_timezone name tz = name @ drop (length name) (print_timezone name tz)"
  by (cases tz) (simp_all add: print_timezone_def)

lemma reads_times:
  "readable (time_type tz) (print_timezone ''time'' tz)" "readable (datetime_type tz) (print_timezone ''datetime'' tz)"
proof -
  have w: "drop (length name) (print_timezone name tz) = [] \<or> hd (drop (length name) (print_timezone name tz)) = CHR ''[''" for name
    by (cases tz) (simp_all add: print_timezone_def)
  have "readable (time_type tz) (''time'' @ drop (length ''time'') (print_timezone ''time'' tz))"
    by (rule reads_type_word[OF _ w]) (simp_all add: words named_type_rules parse_time_parameters_def timezone_parameter[of _ _ "''time''", simplified])
  then show "readable (time_type tz) (print_timezone ''time'' tz)" by (simp only: print_timezone_split[symmetric])
  have "readable (datetime_type tz) (''datetime'' @ drop (length ''datetime'') (print_timezone ''datetime'' tz))"
    by (rule reads_type_word[OF _ w])
      (simp_all add: words named_type_rules parse_datetime_parameters_def timezone_parameter[of _ _ "''datetime''", simplified])
  then show "readable (datetime_type tz) (print_timezone ''datetime'' tz)" by (simp only: print_timezone_split[symmetric])
qed

section \<open>Lists of fields\<close>

fun fields_text :: "bool \<Rightarrow> string list \<Rightarrow> string" where
  "fields_text comma [] = []"
| "fields_text comma (u # us) = (if comma then '', '' else []) @ u @ fields_text True us"

lemma fields_text_comma: "us \<noteq> [] \<Longrightarrow> fields_text True us = CHR '','' # CHR '' '' # fields_text False us"
  by (cases us) simp_all

lemma fields_text_length: "u \<in> set us \<Longrightarrow> length u \<le> length (fields_text comma us)"
proof (induction us arbitrary: comma)
  case (Cons a us)
  show ?case using Cons.prems Cons.IH[of True] by auto
qed simp

lemma fields_text_count: "\<forall>u\<in>set us. u \<noteq> [] \<Longrightarrow> length us \<le> length (fields_text comma us)"
proof (induction us arbitrary: comma)
  case (Cons u us)
  have "length us \<le> length (fields_text True us)" using Cons.prems by (intro Cons.IH) simp
  moreover have "Suc 0 \<le> length u" using Cons.prems by (cases u) simp_all
  ultimately show ?case by simp
qed simp

text \<open>The text of a field may follow a blank.\<close>

definition blank :: "string \<Rightarrow> bool" where
  "blank pre \<longleftrightarrow> pre = [] \<or> pre = '' ''"

lemma blank_skip: "blank pre \<Longrightarrow> skip_ds (pre @ s) = skip_ds s"
  by (auto simp: blank_def)

lemma blank_token: "blank pre \<Longrightarrow> parse_token_ds token (pre @ s) = parse_token_ds token s"
  by (simp add: parse_token_ds_def blank_skip)

lemma blank_keyword: "blank pre \<Longrightarrow> at_keyword (pre @ s) = at_keyword s"
  by (simp add: at_keyword_def blank_skip)

lemma readable_blank:
  assumes "readable t u" "blank pre" "stops rest" "length u < k"
  shows "parse_datashape k mem symtable (pre @ u @ rest) = Inr (t, rest)"
  using assms(2) readable_parse[OF assms(1,3,4), of mem symtable] by (auto simp: blank_def simp del: split_paired_All)

lemma field_close: "readable t u \<Longrightarrow> stops rest \<Longrightarrow> parse_token_ds '')'' (u @ rest) = None"
  by (simp add: readable_def field_like_def)

lemma tuple_ahead:
  assumes "readable t u" "blank pre" "stops rest"
  shows "\<exists>kwds r. tuple_lookahead variadic (pre @ u @ rest) = (variadic, kwds, r) \<and> \<not> at_keyword r"
    "(case parse_token_ds ''...'' (pre @ u @ rest) of Some r \<Rightarrow> parse_token_ds '')'' r | None \<Rightarrow> None) = None"
  using assms unfolding readable_def field_like_def tuple_lookahead_def
  by (auto simp: blank_token blank_keyword split: option.splits)

lemma not_uninitialized: "printable t \<Longrightarrow> get_type_id t \<noteq> uninitialized_type_id"
proof (cases t)
  case (builtin_type tid)
  moreover assume "printable t"
  ultimately show ?thesis by (cases tid) auto
qed auto

declare tuple_loop.simps [simp del] fields_loop.simps [simp del] parse_datashape.simps [simp del]

text \<open>One round of the loop over the fields of a tuple.\<close>

lemma tuple_round:
  assumes "readable t u" "printable t" "blank pre" "length u < k"
  shows "parse_token_ds '')'' r = None \<Longrightarrow>
      tuple_loop (Suc j) (parse_datashape k mem symtable) ts variadic (pre @ u @ CHR '','' # r)
      = tuple_loop j (parse_datashape k mem symtable) (ts @ [t]) variadic r"
    and "tuple_loop (Suc j) (parse_datashape k mem symtable) ts variadic (pre @ u @ CHR '')'' # r)
      = Inr (Fields (ts @ [t]) variadic, r)"
proof -
  have *: "tuple_loop (Suc j) (parse_datashape k mem symtable) ts variadic (pre @ u @ rest) =
      (case parse_token_ds '','' rest of
         Some r1 \<Rightarrow>
           (case parse_token_ds '')'' r1 of
              Some r2 \<Rightarrow> Inr (Fields (ts @ [t]) variadic, r2)
            | None \<Rightarrow> tuple_loop j (parse_datashape k mem symtable) (ts @ [t]) variadic r1)
       | None \<Rightarrow>
           bind_made (expect '')'' (expected_quoted ''expected '' '','' @ expected_quoted '' or '' '')'') rest)
             (\<lambda>r. Inr (Fields (ts @ [t]) variadic, r)))"
    if r: "stops rest" for rest
  proof -
    obtain kwds a where a: "tuple_lookahead variadic (pre @ u @ rest) = (variadic, kwds, a)" "\<not> at_keyword a"
      using tuple_ahead(1)[OF assms(1,3) r] by blast
    show ?thesis
      unfolding tuple_loop.simps a(1) prod.case if_not_P[OF a(2)] tuple_ahead(2)[OF assms(1,3) r] option.case
        readable_blank[OF assms(1,3) r assms(4)] bind_Inr if_not_P[OF not_uninitialized[OF assms(2)]] ..
  qed
  show "tuple_loop (Suc j) (parse_datashape k mem symtable) ts variadic (pre @ u @ CHR '','' # r)
      = tuple_loop j (parse_datashape k mem symtable) (ts @ [t]) variadic r" if "parse_token_ds '')'' r = None"
    using that by (subst *) (simp_all add: token_head)
  show "tuple_loop (Suc j) (parse_datashape k mem symtable) ts variadic (pre @ u @ CHR '')'' # r)
      = Inr (Fields (ts @ [t]) variadic, r)"
    by (subst *) (simp_all add: token_head expect_hit)
qed

text \<open>All the fields, when a comma or the closing token follows the last one.\<close>

lemma tuple_fields:
  assumes "list_all2 readable ts us" "list_all printable ts" "ts \<noteq> []" "blank pre" "\<forall>u\<in>set us. length u < k"
    and d: "d = CHR '')'' \<or> d = CHR '','' \<and> parse_token_ds '')'' r = None"
  shows "tuple_loop (length ts + j) (parse_datashape k mem symtable) acc variadic (pre @ fields_text False us @ d # r)
      = (if d = CHR '','' then tuple_loop j (parse_datashape k mem symtable) (acc @ ts) variadic r
         else Inr (Fields (acc @ ts) variadic, r))"
  using assms(1-5)
proof (induction ts us arbitrary: acc pre rule: list_all2_induct)
  case (Cons t ts u us)
  then have t: "readable t u" "printable t" "blank pre" "length u < k" by simp_all
  show ?case
  proof (cases "ts = []")
    case True
    then have "us = []" using Cons.hyps by simp
    then show ?thesis using True d tuple_round(1)[OF t, of r j mem symtable acc variadic] tuple_round(2)[OF t, of j mem symtable acc variadic r] by auto
  next
    case False
    then obtain v vs w where us: "us = v # vs" "readable w v" using Cons.hyps by (cases us; cases ts) auto
    let ?r = "'' '' @ fields_text False us @ d # r"
    have "stops (fields_text True vs @ d # r)" using d by (cases vs) auto
    then have "parse_token_ds '')'' ?r = None"
      using field_close[OF us(2)] us(1) by simp
    then show ?thesis
      using False us Cons.IH[of "'' ''" "acc @ [t]"] Cons.prems tuple_round(1)[OF t, of ?r "length ts + j" mem symtable acc variadic]
      by (simp add: fields_text_comma blank_def)
  qed
qed simp

text \<open>A field with a name, in a struct or among the keyword arguments.\<close>

definition separator :: "string \<Rightarrow> bool" where
  "separator sep \<longleftrightarrow> sep = '' : '' \<or> sep = '': ''"

definition item_parser :: "(string \<Rightarrow> item) \<Rightarrow> (string \<Rightarrow> ndt parsed) \<Rightarrow> bool" where
  "item_parser item p \<longleftrightarrow> item = parse_struct_item_general p \<or> item = parse_struct_item_bare p"

definition closing :: "char \<Rightarrow> bool" where
  "closing c \<longleftrightarrow> c = CHR '')'' \<or> c = CHR 0x7D"

lemma closing_simps [simp]: "closing c \<Longrightarrow> token_char c" "closing c \<Longrightarrow> \<not> ident_char c" "closing c \<Longrightarrow> c \<noteq> CHR '',''"
  "closing c \<Longrightarrow> stops (c # s)"
  by (auto simp: closing_def ident_char_def is_alpha_def is_digit_def less_eq_char_def)

lemma item_read:
  assumes "readable t u" "printable t" "is_simple_identifier_name name" "blank pre" "stops rest" "length u < k" "separator sep"
    and "item_parser item (parse_datashape k mem symtable)"
  shows "item (skip_ds (pre @ name @ sep @ u @ rest)) = Inr (Some (name, t), rest)"
proof -
  have n: "parse_name_no_ws (name @ sep @ u @ rest) = Some (name, sep @ u @ rest)"
    by (rule name_scanned[OF assms(3)]) (use assms(7) in \<open>auto simp: separator_def\<close>)
  have "item_type (parse_datashape k mem symtable) name (sep @ u @ rest) = Inr (Some (name, t), rest)"
    using assms(7) readable_required(2)[OF assms(1) printable_not_null[OF assms(2)] assms(5,6), of mem symtable]
    by (auto simp: separator_def item_type_def expect_def token_head)
  then show ?thesis
    using assms(8) n
    by (auto simp: item_parser_def parse_struct_item_general_def parse_struct_item_bare_def blank_skip[OF assms(4)]
        name_skip[OF assms(3)])
qed

lemma name_no_dots: "is_simple_identifier_name name \<Longrightarrow> \<not> ident_char d \<Longrightarrow> parse_token_ds (d # token) (name @ s) = None"
  by (cases name) (auto simp: simple_name_iff token_ident)

lemma fields_round:
  assumes "readable t u" "printable t" "is_simple_identifier_name name" "blank pre" "length u < k" "separator sep"
    and item: "item_parser item (parse_datashape k mem symtable)" and c: "closing c"
  shows "parse_token_ds [c] r = None \<Longrightarrow>
      fields_loop (Suc j) item [c] m1 m2 m3 names ts (pre @ name @ sep @ u @ CHR '','' # r)
      = fields_loop j item [c] m1 m2 m3 (names @ [name]) (ts @ [t]) r"
    and "fields_loop (Suc j) item [c] m1 m2 m3 names ts (pre @ name @ sep @ u @ c # r)
      = Inr ((names @ [name], ts @ [t], False), r)"
proof -
  have dots: "parse_token_ds ''...'' (pre @ name @ sep @ u @ rest) = None" for rest
    using name_no_dots[OF assms(3)] by (simp add: blank_token[OF assms(4)])
  note read = item_read[OF assms(1-4) _ assms(5,6) item]
  show "fields_loop (Suc j) item [c] m1 m2 m3 names ts (pre @ name @ sep @ u @ CHR '','' # r)
      = fields_loop j item [c] m1 m2 m3 (names @ [name]) (ts @ [t]) r" if "parse_token_ds [c] r = None"
    using that read[of "CHR '','' # r"] by (simp add: fields_loop.simps dots token_head)
  show "fields_loop (Suc j) item [c] m1 m2 m3 names ts (pre @ name @ sep @ u @ c # r)
      = Inr ((names @ [name], ts @ [t], False), r)"
    using c read[of "c # r"] by (simp add: fields_loop.simps dots token_head expect_hit)
qed

definition named_fields :: "string \<Rightarrow> string list \<Rightarrow> string list \<Rightarrow> string" where
  "named_fields sep names us = fields_text False (map2 (\<lambda>name u. name @ sep @ u) names us)"

lemma fields_read:
  assumes "list_all2 readable ts us" "list_all printable ts" "length names = length ts"
    "list_all is_simple_identifier_name names" "ts \<noteq> []" "blank pre" "\<forall>u\<in>set us. length u < k" "separator sep"
    and item: "item_parser item (parse_datashape k mem symtable)" and c: "closing c"
    and d: "d = c \<or> d = CHR '','' \<and> parse_token_ds [c] r = None"
  shows "fields_loop (length ts + j) item [c] m1 m2 m3 ns acc (pre @ named_fields sep names us @ d # r)
      = (if d = CHR '','' then fields_loop j item [c] m1 m2 m3 (ns @ names) (acc @ ts) r
         else Inr ((ns @ names, acc @ ts, False), r))"
  using assms(1-7)
proof (induction ts us arbitrary: acc ns pre names rule: list_all2_induct)
  case (Cons t ts u us)
  obtain name ms where n: "names = name # ms" using Cons.prems(2) by (cases names) auto
  then have t: "readable t u" "printable t" "is_simple_identifier_name name" "blank pre" "length u < k" "separator sep"
    using Cons assms(8) by simp_all
  note round = fields_round[OF t item c]
  show ?case
  proof (cases "ts = []")
    case True
    then have "us = []" "ms = []" using Cons.hyps Cons.prems(2) n by simp_all
    then show ?thesis
      using True n d closing_simps(3)[OF c] round(1)[of r j m1 m2 m3 ns acc] round(2)[of j m1 m2 m3 ns acc r]
      by (auto simp: named_fields_def)
  next
    case False
    then obtain v vs w ws where us: "us = v # vs" "ms = w # ws" using Cons.hyps Cons.prems(2) n
      by (cases us; cases ms; cases ts) auto
    let ?r = "'' '' @ named_fields sep ms us @ d # r"
    have "is_simple_identifier_name w" using Cons.prems(3) n us by simp
    then have "parse_token_ds [c] ?r = None"
      using name_no_dots[of w c] c by (simp add: named_fields_def us)
    moreover have "map2 (\<lambda>name u. name @ sep @ u) ms us \<noteq> []" by (simp add: us)
    ultimately show ?thesis
      using False n Cons.IH[of ms "'' ''" "ns @ [name]" "acc @ [t]"] Cons.prems
        round(1)[of ?r "length ts + j" m1 m2 m3 ns acc]
      by (simp add: named_fields_def fields_text_comma blank_def)
  qed
qed simp

section \<open>Structs, tuples and function types\<close>

lemma nooption_bracket:
  assumes "skip_ds s = c # v" "c = CHR 0x7B \<or> c = CHR ''(''" "t \<noteq> null_type"
    and p: "(if c = CHR ''('' then parse_tuple_or_funcproto else parse_struct) k p (c # v) = Inr (t, r)"
  shows "parse_datashape_nooption mem symtable k p s = Inr (t, r)"
proof -
  have n: "parse_name_or_number (c # v) = None" and d: "parse_token_no_ws ''...'' (c # v) = None"
    using assms(2) by (auto simp: parse_name_or_number_def parse_name_no_ws_def parse_unsigned_int_no_ws_def is_alpha_def less_eq_char_def)
  have "c = CHR ''('' \<Longrightarrow> parse_struct k p (c # v) = Inr (null_type, c # v)"
    by (simp add: parse_struct_def token_head)
  then show ?thesis
    unfolding parse_datashape_nooption_def assms(1) n d option.case bind_Inr prod.case
    using assms(2,3) p by (cases "c = CHR ''(''") simp_all
qed

lemma reads_bracket_text:
  assumes c: "c = CHR 0x7B \<or> c = CHR ''(''"
    and p: "\<And>k mem symtable rest. stops rest \<Longrightarrow> length v < k \<Longrightarrow>
       (if c = CHR ''('' then parse_tuple_or_funcproto else parse_struct) k (parse_datashape k mem symtable) (c # v @ rest) = Inr (t, rest)"
    and t: "t \<noteq> null_type"
  shows "readable t (c # v)"
  unfolding readable_def reads_def
proof (intro conjI allI impI)
  have "token_char c" "\<not> ident_char c" "c \<noteq> CHR ''.''" "c \<noteq> CHR '')''" using c closing_simps(1,2)[of "CHR 0x7D"]
    by (auto simp: ident_char_def is_alpha_def is_digit_def less_eq_char_def)
  then show "clean (c # v)" "field_like (c # v)" by (simp_all add: clean_def token_char_def field_like_char)
  fix k mem symtable s rest
  assume s: "skip_ds s = (c # v) @ rest" and r: "stops rest" and k: "length (c # v) < k"
  obtain j where j: "k = Suc j" using k by (cases k) auto
  have q: "parse_token_no_ws ''?'' (skip_ds s) = None" using c by (auto simp: s)
  have "parse_datashape_nooption mem symtable j (parse_datashape j mem symtable) s = Inr (t, rest)"
    by (rule nooption_bracket[OF _ c t p[OF r]]) (use s k j in simp_all)
  then show "parse_datashape k mem symtable s = Inr (t, rest)"
    unfolding j parse_datashape.simps q by simp
qed

lemma named_fields_bounds:
  assumes "list_all2 readable ts us" "length names = length ts"
  shows "length ts \<le> length (named_fields sep names us)" "\<forall>u\<in>set us. length u \<le> length (named_fields sep names us)"
proof -
  let ?ws = "map2 (\<lambda>name u. name @ sep @ u) names us"
  have n: "length names = length us" using assms list_all2_lengthD by fastforce
  have ne: "\<forall>u\<in>set us. u \<noteq> []" using assms(1) by (auto simp: list_all2_conv_all_nth in_set_conv_nth readable_def clean_def)
  then have "\<forall>w\<in>set ?ws. w \<noteq> []" by (auto simp: set_zip)
  then have "length ?ws \<le> length (named_fields sep names us)"
    unfolding named_fields_def by (rule fields_text_count)
  then show "length ts \<le> length (named_fields sep names us)" using assms(2) n by simp
  show "\<forall>u\<in>set us. length u \<le> length (named_fields sep names us)"
  proof
    fix u assume "u \<in> set us"
    then obtain i where "i < length us" "us ! i = u" by (auto simp: in_set_conv_nth)
    then have "names ! i @ sep @ u \<in> set ?ws" using n by (auto simp: set_zip)
    then show "length u \<le> length (named_fields sep names us)"
      using fields_text_length[of "names ! i @ sep @ u" ?ws False] unfolding named_fields_def by simp
  qed
qed

lemma fields_text_bounds:
  assumes "list_all2 readable ts us"
  shows "length ts \<le> length (fields_text comma us)" "\<forall>u\<in>set us. length u \<le> length (fields_text comma us)"
proof -
  have ne: "\<forall>u\<in>set us. u \<noteq> []" using assms(1) by (auto simp: list_all2_conv_all_nth in_set_conv_nth readable_def clean_def)
  then show "length ts \<le> length (fields_text comma us)"
    using fields_text_count[of us comma] list_all2_lengthD[OF assms] by simp
  show "\<forall>u\<in>set us. length u \<le> length (fields_text comma us)" using fields_text_length by blast
qed

lemma fields_dots:
  "closing c \<Longrightarrow> fields_loop (Suc j) item [c] m1 m2 m3 names ts (CHR '' '' # CHR ''.'' # CHR ''.'' # CHR ''.'' # c # r)
     = Inr ((names, ts, True), r)"
  by (simp add: fields_loop.simps(2) token_head expect_hit)

lemma reads_struct:
  assumes "list_all2 readable ts us" "list_all printable ts" "length names = length ts"
    "list_all is_simple_identifier_name names" "variadic \<longrightarrow> ts \<noteq> []"
  shows "readable (struct_type names ts variadic)
     (CHR 0x7B # named_fields '' : '' names us @ (if variadic then '', ...'' @ [CHR 0x7D] else [CHR 0x7D]))"
proof (rule reads_bracket_text, simp, simp only: char.inject simp_thms if_False)
  fix k mem symtable rest
  assume r: "stops rest" and k: "length (named_fields '' : '' names us @ (if variadic then '', ...'' @ [CHR 0x7D] else [CHR 0x7D])) < k"
  show "parse_struct k (parse_datashape k mem symtable)
       (CHR 0x7B # (named_fields '' : '' names us @ (if variadic then '', ...'' @ [CHR 0x7D] else [CHR 0x7D])) @ rest)
      = Inr (struct_type names ts variadic, rest)"
  proof (cases "ts = []")
    case True
    then show ?thesis using assms by (simp add: parse_struct_def token_head named_fields_def)
  next
    case False
    have "length ts < k" using k named_fields_bounds(1)[OF assms(1,3), of "'' : ''"] by (simp split: if_splits)
    then obtain j where j: "k = length ts + Suc j" using less_imp_Suc_add by fastforce
    have lens: "\<forall>u\<in>set us. length u < k"
      using k named_fields_bounds(2)[OF assms(1,3), of "'' : ''"] by (auto split: if_splits)
    obtain w ws u vs where w: "names = w # ws" "us = u # vs" "is_simple_identifier_name w"
      using False assms(1,3,4) by (cases names; cases ts; cases us) auto
    have close: "parse_token_ds [CHR 0x7D] (named_fields '' : '' names us @ s) = None" for s
      using name_no_dots[OF w(3)] closing_simps(2)[of "CHR 0x7D"] by (simp add: named_fields_def w closing_def)
    have c: "closing CHR 0x7D" by (simp add: closing_def)
    note read = fields_read[OF assms(1-4) False _ lens, where pre = "[]" and sep = "'' : ''" and j = "Suc j"
        and item = "parse_struct_item_general (parse_datashape k mem symtable)" and c = "CHR 0x7D" and mem = mem
        and symtable = symtable and ns = "[]" and acc = "[]", folded j, simplified]
    show ?thesis
      unfolding parse_struct_def
      using close assms(3) c read[where d = "CHR 0x7D" and r = rest] read[where d = "CHR '',''" and r = "'' ...'' @ CHR 0x7D # rest"]
      by (auto simp: token_head blank_def separator_def item_parser_def fields_dots make_struct_def)
  qed
qed simp

definition positional_text :: "string list \<Rightarrow> bool \<Rightarrow> string" where
  "positional_text us variadic = fields_text False us @ (if variadic then (if us \<noteq> [] then '', ...'' else ''...'') else [])"

lemma tuple_dots:
  "tuple_loop (Suc j) p ts variadic (CHR ''.'' # CHR ''.'' # CHR ''.'' # CHR '')'' # r) = Inr (Fields ts True, r)"
  "tuple_loop (Suc j) p ts variadic (CHR '' '' # CHR ''.'' # CHR ''.'' # CHR ''.'' # CHR '')'' # r) = Inr (Fields ts True, r)"
  by (simp_all add: tuple_loop.simps(2) tuple_lookahead_def token_head no_name_at)

lemma positional_read:
  assumes "list_all2 readable ts us" "list_all printable ts" "length (positional_text us variadic) < k"
  shows "(case parse_token_ds '')'' (positional_text us variadic @ CHR '')'' # r) of
           Some r \<Rightarrow> Inr (Fields [] False, r)
         | None \<Rightarrow> tuple_loop k (parse_datashape k mem symtable) [] False (positional_text us variadic @ CHR '')'' # r))
     = Inr (Fields ts variadic, r)"
proof (cases "ts = []")
  case True
  moreover obtain j where "k = Suc j" using assms(3) by (cases k) auto
  ultimately show ?thesis using assms(1) by (auto simp: positional_text_def token_head tuple_dots)
next
  case False
  then obtain u vs t where us: "us = u # vs" "readable t u" using assms(1) by (cases ts; cases us) auto
  have "length ts < k" using assms(3) fields_text_bounds(1)[OF assms(1), of False] by (simp add: positional_text_def split: if_splits)
  then obtain j where j: "k = length ts + Suc j" using less_imp_Suc_add by fastforce
  have lens: "\<forall>u\<in>set us. length u < k"
    using assms(3) fields_text_bounds(2)[OF assms(1), of False] by (auto simp: positional_text_def)
  have stop: "stops (fields_text True vs @ (if variadic then '', ...'' else []) @ CHR '')'' # r)" by (cases vs) simp_all
  have close: "parse_token_ds '')'' (positional_text us variadic @ CHR '')'' # r) = None"
    using field_close[OF us(2) stop] us(1) by (cases variadic) (simp_all add: positional_text_def)
  note read = tuple_fields[OF assms(1,2) False, where pre = "[]" and k = k and acc = "[]" and j = "Suc j"
      and mem = mem and symtable = symtable, folded j,
      OF _ lens, simplified]
  show ?thesis
    unfolding close option.case
    using read[where d = "CHR '')''" and r = r] read[where d = "CHR '',''" and r = "'' ...)'' @ r"] us(1)
    by (auto simp: positional_text_def tuple_dots blank_def token_head)
qed

lemma reads_tuple:
  assumes "list_all2 readable ts us" "list_all printable ts"
  shows "readable (tuple_type ts variadic) (CHR ''('' # positional_text us variadic @ '')'')"
  by (rule reads_bracket_text)
    (use positional_read[OF assms] in \<open>simp_all add: parse_tuple_or_funcproto_def token_head token_stops\<close>)

text \<open>Keyword arguments and the type that is returned.\<close>

lemma keywords_read:
  assumes "list_all2 readable ks vs" "list_all printable ks" "length names = length ks" "list_all is_simple_identifier_name names"
    "ks \<noteq> []" "blank pre" "\<forall>u\<in>set vs. length u < k" and ret: "readable ret w" "printable ret" "length w < k" "stops rest"
  shows "tuple_keywords (length ks + j) (parse_datashape k mem symtable) ts variadic
      (pre @ named_fields '': '' names vs @ '') -> '' @ w @ rest)
     = Inr (Finished (arrfunc_type ts variadic names ks False ret), rest)"
proof -
  have p: "separator '': ''" "item_parser (parse_struct_item_bare (parse_datashape k mem symtable)) (parse_datashape k mem symtable)"
    "closing CHR '')''" by (simp_all add: separator_def item_parser_def closing_def)
  have "parse_funcproto_kwds (length ks + j) (parse_datashape k mem symtable)
      (pre @ named_fields '': '' names vs @ '') -> '' @ w @ rest) = Inr (struct_type names ks False, '' -> '' @ w @ rest)"
    unfolding parse_funcproto_kwds_def
    using fields_read[OF assms(1-7) p, where d = "CHR '')''" and r = "'' -> '' @ w @ rest" and j = j and ns = "[]" and acc = "[]"]
    by (simp add: make_struct_def assms(3))
  then show ?thesis
    unfolding tuple_keywords_def
    using readable_required(2)[OF ret(1) printable_not_null[OF ret(2)] ret(4,3), of mem symtable return_message]
    by (simp add: token_head make_arrfunc_def)
qed

lemma at_named_fields:
  assumes "length names = length vs" "vs \<noteq> []" "list_all is_simple_identifier_name names"
  shows "at_keyword (named_fields '': '' names vs @ s)" "\<not> ident_char d \<Longrightarrow> parse_token_ds (d # token) (named_fields '': '' names vs @ s) = None"
proof -
  obtain w ws u us where n: "names = w # ws" "vs = u # us" using assms(1,2) by (cases names; cases vs) auto
  have w: "is_simple_identifier_name w" using assms(3) n by simp
  obtain r where t: "named_fields '': '' names vs @ s = w @ '': '' @ r" by (simp add: n named_fields_def)
  have "parse_name_no_ws (skip_ds (w @ '': '' @ r)) = Some (w, '': '' @ r)"
    unfolding name_skip[OF w] by (rule name_scanned[OF w]) simp
  then show "at_keyword (named_fields '': '' names vs @ s)" unfolding t by (simp add: at_keyword_def token_head)
  show "\<not> ident_char d \<Longrightarrow> parse_token_ds (d # token) (named_fields '': '' names vs @ s) = None"
    unfolding t by (rule name_no_dots[OF w])
qed

lemma keyword_round:
  assumes "length names = length vs" "vs \<noteq> []" "list_all is_simple_identifier_name names" "blank pre"
  shows "tuple_loop (Suc j) p ts variadic (pre @ named_fields '': '' names vs @ s)
      = tuple_keywords (Suc j) p ts variadic (pre @ named_fields '': '' names vs @ s)"
    "tuple_loop (Suc j) p ts variadic ('' ..., '' @ named_fields '': '' names vs @ s)
      = tuple_keywords (Suc j) p ts True ('' '' @ named_fields '': '' names vs @ s)"
  using at_named_fields(1)[OF assms(1-3), of s] at_named_fields(2)[OF assms(1-3), of _ _ s]
  by (simp_all add: tuple_loop.simps(2) tuple_lookahead_def blank_token[OF assms(4)] blank_keyword[OF assms(4)] at_keyword_blank token_head)

definition keyword_text :: "string list \<Rightarrow> bool \<Rightarrow> string list \<Rightarrow> string list \<Rightarrow> string" where
  "keyword_text us variadic names vs =
     positional_text us variadic @ (if us \<noteq> [] then '', '' else []) @ named_fields '': '' names vs"

lemma keyword_args_read:
  assumes "list_all2 readable ps us" "list_all printable ps" "list_all2 readable ks vs" "list_all printable ks"
    "length names = length ks" "list_all is_simple_identifier_name names" "ks \<noteq> []" "variadic \<longrightarrow> ps \<noteq> []"
    and ret: "readable ret w" "printable ret" "length w < k" "stops rest"
    and k: "length (keyword_text us variadic names vs) < k"
  shows "tuple_loop k (parse_datashape k mem symtable) [] False (keyword_text us variadic names vs @ '') -> '' @ w @ rest)
     = Inr (Finished (arrfunc_type ps variadic names ks False ret), rest)"
proof -
  have n: "length names = length vs" "vs \<noteq> []" using assms(3,5,7) list_all2_lengthD by fastforce+
  note round = keyword_round[OF n assms(6)]
  have vs: "\<forall>u\<in>set vs. length u < k" "\<forall>u\<in>set us. length u < k"
    using k named_fields_bounds(2)[OF assms(3,5), of "'': ''"] fields_text_bounds(2)[OF assms(1), of False]
    by (auto simp: keyword_text_def positional_text_def)
  note kwds = keywords_read[OF assms(3-7) _ vs(1) ret]
  have "length (fields_text False us) + length (named_fields '': '' names vs) < k"
    using k by (simp add: keyword_text_def positional_text_def)
  then have "length ps + length ks < k"
    using named_fields_bounds(1)[OF assms(3,5), of "'': ''"] fields_text_bounds(1)[OF assms(1), of False] by simp
  then obtain j where "k = Suc (length ps + length ks + j)" using less_imp_Suc_add by blast
  then have j: "k = length ps + Suc (length ks + j)" by simp
  show ?thesis
  proof (cases "ps = []")
    case True
    then have "us = []" "\<not> variadic" using assms(1,8) by simp_all
    then show ?thesis
      using round(1)[of "[]" "length ks + j" "parse_datashape k mem symtable" "[]" False "'') -> '' @ w @ rest"]
        kwds[of "[]" "Suc j" mem symtable "[]" False] True j
      by (simp add: keyword_text_def positional_text_def blank_def)
  next
    case False
    then have us: "us \<noteq> []" using assms(1) by auto
    note read = tuple_fields[OF assms(1,2) False _ vs(2), where pre = "[]" and d = "CHR '',''" and acc = "[]" and variadic = False
        and mem = mem and symtable = symtable and j = "Suc (length ks + j)", folded j]
    have "parse_token_ds '')'' (named_fields '': '' names vs @ s) = None" for s
      using at_named_fields(2)[OF n assms(6)] by simp
    then show ?thesis
      using read[of "'' '' @ named_fields '': '' names vs @ '') -> '' @ w @ rest"]
        read[of "'' ..., '' @ named_fields '': '' names vs @ '') -> '' @ w @ rest"]
        round(1)[of "'' ''" "length ks + j" "parse_datashape k mem symtable" ps False "'') -> '' @ w @ rest"]
        round(2)[of "'' ''" "length ks + j" "parse_datashape k mem symtable" ps False "'') -> '' @ w @ rest"]
        kwds[of "'' ''" "Suc j" mem symtable ps variadic] us
      by (cases variadic) (simp_all add: keyword_text_def positional_text_def blank_def token_head)
  qed
qed

lemma reads_arrfunc_positional:
  assumes "list_all2 readable ps us" "list_all printable ps" "readable ret w" "printable ret"
  shows "readable (arrfunc_type ps variadic [] [] variadic ret) (CHR ''('' # positional_text us variadic @ '') -> '' @ w)"
proof (rule reads_bracket_text, simp, simp only: simp_thms if_True)
  fix k mem symtable rest
  assume r: "stops rest" and k: "length (positional_text us variadic @ '') -> '' @ w) < k"
  have l: "length (positional_text us variadic) < k" "length w < k" using k by simp_all
  show "parse_tuple_or_funcproto k (parse_datashape k mem symtable)
      (CHR ''('' # (positional_text us variadic @ '') -> '' @ w) @ rest) = Inr (arrfunc_type ps variadic [] [] variadic ret, rest)"
    unfolding parse_tuple_or_funcproto_def
    using positional_read[OF assms(1,2) l(1), of mem symtable "'' -> '' @ w @ rest"]
      readable_required(2)[OF assms(3) printable_not_null[OF assms(4)] r l(2), of mem symtable return_message]
    by (simp add: token_head make_arrfunc_positional_def cong: option.case_cong)
qed simp

lemma reads_arrfunc_keywords:
  assumes "list_all2 readable ps us" "list_all printable ps" "list_all2 readable ks vs" "list_all printable ks"
    "length names = length ks" "list_all is_simple_identifier_name names" "ks \<noteq> []" "variadic \<longrightarrow> ps \<noteq> []"
    and ret: "readable ret w" "printable ret"
  shows "readable (arrfunc_type ps variadic names ks False ret) (CHR ''('' # keyword_text us variadic names vs @ '') -> '' @ w)"
proof (rule reads_bracket_text, simp, simp only: simp_thms if_True)
  fix k mem symtable rest
  assume r: "stops rest" and k: "length (keyword_text us variadic names vs @ '') -> '' @ w) < k"
  have n: "length names = length vs" "vs \<noteq> []" using assms(3,5,7) list_all2_lengthD by fastforce+
  have close: "parse_token_ds '')'' (keyword_text us variadic names vs @ '') -> '' @ w @ rest) = None"
  proof (cases us)
    case Nil
    then have "\<not> variadic" using assms(1,8) by auto
    then show ?thesis using at_named_fields(2)[OF n assms(6)] by (simp add: keyword_text_def positional_text_def Nil)
  next
    case (Cons u vs')
    then obtain t where u: "readable t u" using assms(1) by (cases ps) auto
    have "stops (fields_text True vs' @ CHR '','' # s)" for s by (cases vs') simp_all
    then have c: "parse_token_ds '')'' (u @ fields_text True vs' @ CHR '','' # s) = None" for s
      by (rule field_close[OF u])
    then show ?thesis by (cases variadic) (simp_all add: keyword_text_def positional_text_def Cons)
  qed
  show "parse_tuple_or_funcproto k (parse_datashape k mem symtable)
      (CHR ''('' # (keyword_text us variadic names vs @ '') -> '' @ w) @ rest) = Inr (arrfunc_type ps variadic names ks False ret, rest)"
    unfolding parse_tuple_or_funcproto_def
    using close k keyword_args_read[OF assms(1-8) ret _ r, of k mem symtable]
    by (simp add: token_head)
qed simp

section \<open>Every printable type is read back\<close>

declare print_defs [simp]

lemma printing_simps [simp]:
  "pcat (ptext a) (ptext b) = ptext (a @ b)" "pcats [] = ptext []" "pcats (p # ps) = pcat p (pcats ps)"
  "print_fields comma (map ptext us) = ptext (fields_text comma us)" "ptext a = ptext b \<longleftrightarrow> a = b"
proof -
  show c: "pcat (ptext a) (ptext b) = ptext (a @ b)" for a b by (simp add: pcat_def ptext_def)
  show "print_fields comma (map ptext us) = ptext (fields_text comma us)"
    by (induction us arbitrary: comma) (simp_all add: c)
qed (simp_all add: pcats_def ptext_def)

definition round_trips :: "ndt \<Rightarrow> string \<Rightarrow> bool" where
  "round_trips t u \<longleftrightarrow> print_type t = ptext u \<and> readable t u"

lemma round_trips_list:
  "(\<And>t. t \<in> set ts \<Longrightarrow> printable t \<Longrightarrow> \<exists>u. round_trips t u) \<Longrightarrow> list_all printable ts
     \<Longrightarrow> \<exists>us. list_all2 readable ts us \<and> map print_type ts = map ptext us"
proof (induction ts)
  case (Cons t ts)
  have "\<exists>us. list_all2 readable ts us \<and> map print_type ts = map ptext us" by (rule Cons.IH) (use Cons.prems in auto)
  moreover have "\<exists>u. round_trips t u" using Cons.prems by simp
  ultimately obtain u us where "round_trips t u" "list_all2 readable ts us" "map print_type ts = map ptext us" by blast
  then show ?case by (intro exI[of _ "u # us"]) (simp add: round_trips_def)
qed simp

lemma map2_ptext:
  "list_all is_simple_identifier_name names \<Longrightarrow>
     map2 (\<lambda>name p. pcats [print_name name, ptext sep, p]) names (map ptext us) = map ptext (map2 (\<lambda>name u. name @ sep @ u) names us)"
  by (induction names arbitrary: us; case_tac us) (simp_all add: print_name_def)

lemma print_int_decimal: "0 \<le> n \<Longrightarrow> print_int n = decimal (nat n)"
  by (simp add: print_int_def)

lemma round_trips_fixed:
  "(case t of builtin_type _ \<Rightarrow> True | void_pointer_type \<Rightarrow> True | bytes_type _ \<Rightarrow> True | fixed_bytes_type _ _ \<Rightarrow> True
    | char_type _ \<Rightarrow> True | string_type _ \<Rightarrow> True | fixed_string_type _ _ \<Rightarrow> True | date_type \<Rightarrow> True | time_type _ \<Rightarrow> True
    | datetime_type _ \<Rightarrow> True | json_type \<Rightarrow> True | ndarrayarg_type \<Rightarrow> True | kind_sym_type _ \<Rightarrow> True | int_kind_sym_type \<Rightarrow> True
    | any_sym_type \<Rightarrow> True | typevar_type _ \<Rightarrow> True | categorical_kind_type \<Rightarrow> True | fixed_bytes_kind_type \<Rightarrow> True
    | fixed_string_kind_type \<Rightarrow> True | _ \<Rightarrow> False) \<Longrightarrow> printable t \<Longrightarrow> \<exists>u. round_trips t u"
  using reads_builtin reads_constants[simplified append_Nil2] reads_bytes reads_fixed_bytes reads_char reads_string reads_fixed_string
    reads_times reads_kind[simplified append_Nil2] reads_typevar[simplified append_Nil2]
  by (cases t) (simp_all add: round_trips_def)

lemma round_trips_bracket:
  assumes "round_trips t u" "printable t"
  shows "printable (pointer_type t) \<Longrightarrow> round_trips (pointer_type t) (''pointer['' @ u @ '']'')"
    "printable (c_contiguous_type t) \<Longrightarrow> round_trips (c_contiguous_type t) (''C['' @ u @ '']'')"
    "printable (byteswap_type t p) \<Longrightarrow> round_trips (byteswap_type t p) (''byteswap['' @ u @ '']'')"
    "printable (view_type t p) \<Longrightarrow> round_trips (view_type t p) (''unaligned['' @ u @ '']'')"
    "printable (typevar_constructed_type name t) \<Longrightarrow> round_trips (typevar_constructed_type name t) (name @ ''['' @ u @ '']'')"
    "printable (option_type t) \<Longrightarrow> round_trips (option_type t) (''?'' @ u)"
proof -
  have u: "print_type t = ptext u" "readable t u" using assms(1) by (simp_all add: round_trips_def)
  note b = reads_bracketed[OF u(2) assms(2)]
  show "printable (pointer_type t) \<Longrightarrow> round_trips (pointer_type t) (''pointer['' @ u @ '']'')"
    "printable (c_contiguous_type t) \<Longrightarrow> round_trips (c_contiguous_type t) (''C['' @ u @ '']'')"
    using b(1,2) by (simp_all add: round_trips_def u)
  show "printable (byteswap_type t p) \<Longrightarrow> round_trips (byteswap_type t p) (''byteswap['' @ u @ '']'')"
    using b(3) by (auto simp: round_trips_def u new_byteswap_def make_fixed_bytes_def bind_made_def split: if_splits sum.splits)
  show "round_trips (view_type t p) (''unaligned['' @ u @ '']'')" if v: "printable (view_type t p)"
  proof -
    have m: "make_unaligned (0, 0) t = Inr (view_type t p)" "get_kind t \<noteq> expr_kind" "get_data_alignment t > 1" using v by simp_all
    then have "make_unaligned mem t = Inr (view_type t p)" for mem
      by (simp add: make_unaligned_def make_view_def[abs_def] bind_made_def split: sum.splits)
    moreover have "get_type_id p = fixed_bytes_type_id" "get_data_alignment p = 1"
      using m by (auto simp: make_unaligned_def make_view_def bind_made_def make_fixed_bytes_def new_view_def split: if_splits sum.splits)
    ultimately show ?thesis using b(4) m by (simp add: round_trips_def u)
  qed
  show "printable (typevar_constructed_type name t) \<Longrightarrow> round_trips (typevar_constructed_type name t) (name @ ''['' @ u @ '']'')"
    using reads_typevar_constructed[OF _ u(2)] by (simp add: round_trips_def u)
  show "printable (option_type t) \<Longrightarrow> round_trips (option_type t) (''?'' @ u)"
    using reads_option[OF u(2) assms(2)] by (simp add: round_trips_def u)
qed

lemma round_trips_dim:
  assumes "round_trips t u" "printable t"
  shows "printable (fixed_dim_type n t) \<Longrightarrow> round_trips (fixed_dim_type n t) (print_int n @ '' * '' @ u)"
    "round_trips (var_dim_type t) (''var * '' @ u)" "round_trips (fixed_dim_kind_type t) (''Fixed * '' @ u)"
    "printable (typevar_dim_type name t) \<Longrightarrow> round_trips (typevar_dim_type name t) (name @ '' * '' @ u)"
    "printable (ellipsis_dim_type name t) \<Longrightarrow> round_trips (ellipsis_dim_type name t) (name @ ''... * '' @ u)"
    "printable (pow_dimsym_type b e t) \<Longrightarrow> round_trips (pow_dimsym_type b e t) (print_pow_base b @ ''**'' @ e @ '' * '' @ u)"
    "printable (type_type t) \<Longrightarrow> round_trips (type_type t) (''type | '' @ u)"
proof -
  have u: "print_type t = ptext u" "readable t u" using assms(1) by (simp_all add: round_trips_def)
  note d = reads_dims[OF u(2) assms(2)]
  show "printable (fixed_dim_type n t) \<Longrightarrow> round_trips (fixed_dim_type n t) (print_int n @ '' * '' @ u)"
    using d(1) by (simp add: round_trips_def u print_int_decimal dim_size_ok_def)
  show "round_trips (var_dim_type t) (''var * '' @ u)" "round_trips (fixed_dim_kind_type t) (''Fixed * '' @ u)"
    "printable (typevar_dim_type name t) \<Longrightarrow> round_trips (typevar_dim_type name t) (name @ '' * '' @ u)"
    using d(2-4) by (simp_all add: round_trips_def u)
  show "printable (ellipsis_dim_type name t) \<Longrightarrow> round_trips (ellipsis_dim_type name t) (name @ ''... * '' @ u)"
    using reads_ellipsis[OF u(2) assms(2)] by (auto simp: round_trips_def u)
  show "printable (pow_dimsym_type b e t) \<Longrightarrow> round_trips (pow_dimsym_type b e t) (print_pow_base b @ ''**'' @ e @ '' * '' @ u)"
    using reads_pow[OF u(2) assms(2)] by (simp add: round_trips_def u)
  show "printable (type_type t) \<Longrightarrow> round_trips (type_type t) (''type | '' @ u)"
    using reads_pattern_type[OF u(2) assms(2)] printable_not_null[OF assms(2)] by (simp add: round_trips_def u)
qed

lemma positional_text_printed:
  "ptext (positional_text us variadic @ '')'') = pcats [print_fields False (map ptext us), ptext (if variadic then (if us \<noteq> [] then '', ...)'' else ''...)'') else '')'')]"
  by (simp add: positional_text_def)

lemma fields_text_or: "ks \<noteq> [] \<Longrightarrow> fields_text comma ks = (if comma then '', '' else []) @ fields_text False ks"
  by (cases ks) simp_all

lemma round_trips_fields:
  assumes "list_all2 readable ts us" "map print_type ts = map ptext us" "list_all printable ts"
  shows "printable (tuple_type ts variadic) \<Longrightarrow> \<exists>u. round_trips (tuple_type ts variadic) u"
    "printable (struct_type names ts variadic) \<Longrightarrow> \<exists>u. round_trips (struct_type names ts variadic) u"
proof -
  have e: "us = [] \<longleftrightarrow> ts = []" using assms(1) by (cases ts; cases us) auto
  show "\<exists>u. round_trips (tuple_type ts variadic) u" if "printable (tuple_type ts variadic)"
    using reads_tuple[OF assms(1,3), of variadic] that
    by (intro exI[of _ "CHR ''('' # positional_text us variadic @ '')''"])
      (auto simp: round_trips_def assms(2) positional_text_def e)
  show "\<exists>u. round_trips (struct_type names ts variadic) u" if "printable (struct_type names ts variadic)"
    using reads_struct[OF assms(1,3), of names variadic] that map2_ptext[of names "'' : ''" us]
    by (intro exI[of _ "CHR 0x7B # named_fields '' : '' names us @ (if variadic then '', ...'' @ [CHR 0x7D] else [CHR 0x7D])"])
      (auto simp: round_trips_def assms(2) named_fields_def simp del: print_fields.simps map_map)
qed

lemma round_trips_arrfunc:
  assumes ps: "list_all2 readable ps us" "map print_type ps = map ptext us"
    and ks: "list_all2 readable ks vs" "map print_type ks = map ptext vs"
    and ret: "round_trips ret w" and p: "printable (arrfunc_type ps pvariadic names ks kvariadic ret)"
  shows "\<exists>u. round_trips (arrfunc_type ps pvariadic names ks kvariadic ret) u"
proof -
  have e: "us = [] \<longleftrightarrow> ps = []" "vs = [] \<longleftrightarrow> ks = []" 
    using list_all2_lengthD[OF ps(1)] list_all2_lengthD[OF ks(1)] by auto
  have r: "print_type ret = ptext w" "readable ret w" using ret by (simp_all add: round_trips_def)
  show ?thesis
  proof (cases "ks = []")
    case True
    then have n: "names = []" "kvariadic = pvariadic" using p by auto
    have "readable (arrfunc_type ps pvariadic [] [] pvariadic ret) (CHR ''('' # positional_text us pvariadic @ '') -> '' @ w)"
      using reads_arrfunc_positional[OF ps(1) _ r(2)] p by simp
    then show ?thesis using True n
      by (intro exI[of _ "CHR ''('' # positional_text us pvariadic @ '') -> '' @ w"])
        (auto simp: round_trips_def ps(2) r(1) positional_text_def e)
  next
    case False
    then have n: "length names = length ks" "list_all is_simple_identifier_name names" "\<not> kvariadic" "pvariadic \<longrightarrow> ps \<noteq> []"
      "list_all printable ps" "list_all printable ks" "printable ret" using p by auto
    have "map2 (\<lambda>name u. name @ '': '' @ u) names vs \<noteq> []" using n(1) False e(2) by (cases names; cases vs) auto
    note comma = fields_text_or[OF this]
    show ?thesis
      using reads_arrfunc_keywords[OF ps(1) n(5) ks(1) n(6,1,2) False n(4) r(2) n(7)] n(3,4)
        map2_ptext[OF n(2), of "'': ''" vs] comma[of "ps \<noteq> []"]
      by (intro exI[of _ "CHR ''('' # keyword_text us pvariadic names vs @ '') -> '' @ w"])
        (auto simp: round_trips_def ps(2) ks(2) r(1) keyword_text_def positional_text_def named_fields_def e False
           simp del: print_fields.simps map_map)
  qed
qed

lemma printable_round_trips: "printable t \<Longrightarrow> \<exists>u. round_trips t u"
proof (induction t)
  case (struct_type names ts variadic)
  then show ?case using round_trips_list[of ts] round_trips_fields(2)[of ts _ names variadic] by fastforce
next
  case (tuple_type ts variadic)
  then show ?case using round_trips_list[of ts] round_trips_fields(1)[of ts _ variadic] by fastforce
next
  case (arrfunc_type ps pvariadic names ks kvariadic ret)
  have "\<exists>us. list_all2 readable ps us \<and> map print_type ps = map ptext us"
    by (rule round_trips_list) (use arrfunc_type in auto)
  moreover have "\<exists>vs. list_all2 readable ks vs \<and> map print_type ks = map ptext vs"
    by (rule round_trips_list) (use arrfunc_type in auto)
  moreover have "\<exists>w. round_trips ret w" using arrfunc_type by simp
  ultimately show ?case using round_trips_arrfunc arrfunc_type.prems by blast
next
  case (type_type t)
  show ?case
  proof (cases "t = null_type")
    case True
    then show ?thesis using reads_constants(10) by (auto simp: round_trips_def)
  next
    case False
    then show ?thesis using type_type round_trips_dim(7) by fastforce
  qed
next
  case (pointer_type t)
  then obtain u where "round_trips t u" "printable t" by auto
  from round_trips_bracket(1)[OF this pointer_type.prems] show ?case ..
next
  case (c_contiguous_type t)
  then obtain u where "round_trips t u" "printable t" by auto
  from round_trips_bracket(2)[OF this c_contiguous_type.prems] show ?case ..
next
  case (byteswap_type t p)
  then obtain u where "round_trips t u" "printable t" by auto
  from round_trips_bracket(3)[OF this byteswap_type.prems] show ?case ..
next
  case (view_type t p)
  then obtain u where "round_trips t u" "printable t" by auto
  from round_trips_bracket(4)[OF this view_type.prems] show ?case ..
next
  case (typevar_constructed_type name t)
  then obtain u where "round_trips t u" "printable t" by auto
  from round_trips_bracket(5)[OF this typevar_constructed_type.prems] show ?case ..
next
  case (option_type t)
  then obtain u where "round_trips t u" "printable t" by auto
  from round_trips_bracket(6)[OF this option_type.prems] show ?case ..
next
  case (fixed_dim_type n t)
  then obtain u where "round_trips t u" "printable t" by auto
  from round_trips_dim(1)[OF this fixed_dim_type.prems] show ?case ..
next
  case (var_dim_type t)
  then obtain u where "round_trips t u" "printable t" by auto
  from round_trips_dim(2)[OF this] show ?case ..
next
  case (fixed_dim_kind_type t)
  then obtain u where "round_trips t u" "printable t" by auto
  from round_trips_dim(3)[OF this] show ?case ..
next
  case (typevar_dim_type name t)
  then obtain u where "round_trips t u" "printable t" by auto
  from round_trips_dim(4)[OF this typevar_dim_type.prems] show ?case ..
next
  case (ellipsis_dim_type name t)
  then obtain u where "round_trips t u" "printable t" by auto
  from round_trips_dim(5)[OF this ellipsis_dim_type.prems] show ?case ..
next
  case (pow_dimsym_type b e t)
  then obtain u where "round_trips t u" "printable t" by auto
  from round_trips_dim(6)[OF this pow_dimsym_type.prems] show ?case ..
qed (rule round_trips_fixed, simp, assumption | simp)+

section \<open>The text as a whole\<close>

text \<open>Only a type of types prints as a text that starts like a statement.\<close>

lemma pcat_start: "pcat (ptext a) q = ptext u \<Longrightarrow> \<exists>v. u = a @ v"
  by (cases q) (auto simp: pcat_def ptext_def map_sum_def split: sum.splits)

lemma type_token_head: "clean u \<Longrightarrow> hd u \<noteq> CHR ''t'' \<Longrightarrow> parse_token_ds ''type'' u = None"
  using clean_skip[of u "[]"] by (intro token_ds_miss) simp_all

lemma upper_head: "is_valid_typevar_name name \<Longrightarrow> name \<noteq> [] \<and> hd name \<noteq> CHR ''t''"
  by (auto simp: typevar_name_iff is_upper_def less_eq_char_def)

lemma decimal_head: "hd (decimal n @ w) \<noteq> CHR ''t''"
  using decimal_hd[of n] by (auto simp: hd_append is_digit_def less_eq_char_def)

lemma time_no_type: "parse_token_ds ''type'' (print_timezone ''time'' tz) = None"
proof -
  have "skip_ds (''time'' @ w) = ''time'' @ w" for w by (simp add: skip_ds_Cons is_space_def less_eq_char_def)
  then have "parse_token_ds ''type'' (''time'' @ w) = None" for w
    by (simp only: parse_token_ds_def) simp
  then show ?thesis by (subst print_timezone_split)
qed

lemma printed_head:
  assumes "printable t" "print_type t = ptext u" "\<And>x. t \<noteq> type_type x" "\<And>tz. t \<noteq> time_type tz"
  shows "hd u \<noteq> CHR ''t''"
proof (cases t)
  case (builtin_type tid)
  then show ?thesis using assms by (cases tid) auto
next
  case (kind_sym_type k)
  then show ?thesis using assms by (cases k) auto
next
  case (fixed_dim_type n x)
  then obtain v where "u = print_int n @ v" "0 \<le> n" using assms pcat_start by (fastforce simp: dim_size_ok_def)
  then show ?thesis using decimal_head by (simp add: print_int_decimal)
next
  case (pow_dimsym_type b e x)
  then obtain v where u: "u = print_pow_base b @ ''**'' @ e @ '' * '' @ v" using assms pcat_start by fastforce
  have "pow_base_ok b" using pow_dimsym_type assms(1) by simp
  then show ?thesis
    unfolding u using decimal_head upper_head
    by (cases b rule: pow_base_ok.cases) (auto simp: print_pow_base_def print_int_decimal dim_size_ok_def dim_name_ok_def hd_append)
next
  case (view_type v p)
  then show ?thesis using assms by (auto dest!: pcat_start split: if_splits)
qed (use assms upper_head in \<open>auto simp: print_timezone_def typevar_ok_def dim_name_ok_def hd_append dest!: pcat_start split: if_splits datetime_tz.splits\<close>)

lemma no_statement:
  assumes "round_trips t u" "printable t" "\<And>x. t \<noteq> type_type x"
  shows "parse_token_ds ''type'' u = None"
proof (cases "\<exists>tz. t = time_type tz")
  case True
  then show ?thesis using assms(1) time_no_type by (auto simp: round_trips_def)
next
  case False
  then show ?thesis
    using printed_head[OF assms(2) _ assms(3)] assms(1) by (auto simp: round_trips_def readable_def intro!: type_token_head)
qed

lemma nothing_read: "parse_datashape (Suc k) mem symtable [] = Inr (null_type, [])"
  by (simp add: parse_datashape.simps parse_datashape_nooption_def parse_name_or_number_def parse_name_no_ws_def
      parse_unsigned_int_no_ws_def parse_struct_def parse_tuple_or_funcproto_def)

lemma statement_read:
  assumes "round_trips t u" "printable t"
  shows "parse_stmt (length u + 2) mem symtable u = Inr ((t, symtable), [])"
proof (cases "\<exists>x. t = type_type x")
  case False
  then show ?thesis
    using no_statement[OF assms] readable_parse(1)[of t u "[]" "length u + 2" mem symtable] assms(1)
    by (simp add: parse_stmt_def round_trips_def)
next
  case True
  then obtain x where t: "t = type_type x" by blast
  have head: "parse_token_ds ''type'' (''type'' @ w) = Some w" for w
    by (rule token_ds_hit) (simp add: skip_ds_Cons is_space_def less_eq_char_def)
  show ?thesis
  proof (cases "x = null_type")
    case True
    then have "u = ''type'' @ []" using assms(1) t by (simp add: round_trips_def)
    then show ?thesis unfolding parse_stmt_def t True using head[of "[]"] by (simp add: skip_required_whitespace_def)
  next
    case False
    then obtain w where w: "round_trips x w" "printable x" "is_symbolic x" using assms(2) t printable_round_trips by auto
    then have u: "u = ''type'' @ '' | '' @ w" using assms(1) t False by (simp add: round_trips_def)
    have "required (parse_datashape (length u + 2) mem symtable) ''expected a data type'' (CHR '' '' # w) = Inr (x, [])"
      using readable_required(2)[of x w "[]"] w(1) False unfolding u by (simp add: round_trips_def)
    then show ?thesis
      unfolding parse_stmt_def t using head[of "'' | '' @ w"] w(3) unfolding u
      by (simp add: skip_required_whitespace_def is_space_def token_head make_type_type_def)
  qed
qed

text \<open>
  C1. What a type prints is read back: for every printable type, printing succeeds, and a datashape that is the printed
  text is accepted as a whole and gives the same type, with whatever the uninitialised memory holds. Types are printable
  when the grammar can express them: every built-in type, the dimensions, strings, bytes and times of every parameter,
  pointers, options, patterns, structs, tuples and function types, as long as the names are identifiers (for type
  variables, not the name of a kind) and the numbers fit.
\<close>

theorem datashape_roundtrip:
  assumes "printable t"
  shows "\<exists>u. print_type t = Some (Inr u) \<and> type_from_datashape mem u = Some (Inr t)"
proof -
  obtain u where u: "round_trips t u" using printable_round_trips[OF assms] by blast
  have "parse_top (length u + 2) mem u = Inr t"
    using statement_read[OF u assms, of mem "\<lambda>_. None"] printable_not_null[OF assms]
      nothing_read[of "Suc (length u)" mem "\<lambda>_. None"]
    by (simp add: parse_top_def parse_stmt_def)
  then show ?thesis using u by (auto simp: round_trips_def ptext_def type_from_datashape_def)
qed

definition example_type :: ndt where
  "example_type =
     struct_type [''points'', ''norm'']
       [fixed_dim_type 3 (var_dim_type (option_type (builtin_type int32_type_id))),
        arrfunc_type [ellipsis_dim_type ''Dims'' (typevar_type ''T'')] False [''tol''] [builtin_type float64_type_id] False
          (tuple_type [string_type string_encoding_utf_16, pow_dimsym_type (fixed_dim_kind_type void_type) ''N'' (builtin_type bool_type_id)] True)]
       True"

definition example_text :: string where
  "example_text = ''{points : 3 * var * ?int32, norm : (Dims... * T, tol: float64) -> (string['' @ quoted ''utf16'' @ ''], Fixed**N * bool, ...), ...}''"

theorem datashape_roundtrip_witness:
  "printable example_type \<and> print_type example_type = Some (Inr example_text)
     \<and> type_from_datashape (0, 0) example_text = Some (Inr example_type)"
proof -
  have p: "printable example_type" by code_simp
  moreover have "print_type example_type = Some (Inr example_text)" by code_simp
  ultimately show ?thesis using datashape_roundtrip[OF p, of "(0, 0)"] by simp
qed

end
