(* ===== verification/Type_Match.thy ===== *)
theory Type_Match
  imports Types
begin

text \<open>
  Patterns: the virtual function \<^verbatim>\<open>match\<close> of the classes in \<^verbatim>\<open>src/dynd/types\<close>, which looks for types of the type
  variables of a pattern that make it a given type, and \<^verbatim>\<open>substitute_typevars.cpp\<close>, which puts the types in. Matching
  is by types alone: the pointers to arrmeta are null, as in \<^verbatim>\<open>type::match(candidate_tp, tp_vars)\<close>. The map of type
  variables is a function; an entry that is missing or the null type is not yet known. Matching recurses on types, and
  its first argument bounds the depth; \<open>match_returns\<close> shows which depth is enough.

  Two things that the types do not determine are arguments: which types are the same object, and what a shape that is
  not initialised holds.
\<close>

section \<open>Results\<close>

record match_env =
  same_object :: "ndt \<Rightarrow> ndt \<Rightarrow> bool"
  uninit :: "nat \<Rightarrow> int"

type_synonym typevars = "string \<Rightarrow> ndt option"

datatype match_error = raised dynd_exception | too_many_indices | too_deep

type_synonym matched = "match_error + (bool \<times> typevars)"
type_synonym matcher = "ndt \<Rightarrow> ndt \<Rightarrow> typevars \<Rightarrow> matched"

definition known :: "typevars \<Rightarrow> string \<Rightarrow> ndt" where
  "known vars name = (case vars name of Some t \<Rightarrow> t | None \<Rightarrow> null_type)"

definition no_match :: "typevars \<Rightarrow> matched" where
  "no_match vars = Inr (False, vars)"

definition and_match :: "matched \<Rightarrow> (typevars \<Rightarrow> matched) \<Rightarrow> matched" where
  "and_match r f = bind_made r (\<lambda>(ok, vars). if ok then f vars else no_match vars)"

definition raising :: "dynd_exception + 'a \<Rightarrow> match_error + 'a" where
  "raising r = (case r of Inl e \<Rightarrow> Inl (raised e) | Inr x \<Rightarrow> Inr x)"

abbreviation undefined_match :: "match_error + 'a" where
  "undefined_match \<equiv> Inl (raised undefined_behaviour)"

section \<open>Dimensions\<close>

text \<open>The type behind a number of dimensions.\<close>

fun get_type_at_dimension :: "ndt \<Rightarrow> nat \<Rightarrow> match_error + ndt" where
  "get_type_at_dimension any_sym_type i = Inr any_sym_type"
| "get_type_at_dimension t 0 = Inr t"
| "get_type_at_dimension (fixed_dim_type n t) (Suc i) = get_type_at_dimension t i"
| "get_type_at_dimension (var_dim_type t) (Suc i) = get_type_at_dimension t i"
| "get_type_at_dimension (fixed_dim_kind_type t) (Suc i) = get_type_at_dimension t i"
| "get_type_at_dimension (typevar_dim_type name t) (Suc i) = get_type_at_dimension t i"
| "get_type_at_dimension (ellipsis_dim_type name t) (Suc i) =
     get_type_at_dimension t (if int (Suc i) \<le> get_ndim t then i else nat (get_ndim t))"
| "get_type_at_dimension (option_type t) (Suc i) = get_type_at_dimension t (Suc i)"
| "get_type_at_dimension (pointer_type t) (Suc i) =
     bind_made (get_type_at_dimension t (Suc i)) (\<lambda>t. raising (make_pointer t))"
| "get_type_at_dimension (c_contiguous_type t) (Suc i) =
     bind_made (get_type_at_dimension t (Suc i)) (\<lambda>t. if is_builtin t then Inr t else raising (make_c_contiguous t))"
| "get_type_at_dimension t (Suc i) = Inl too_many_indices"

text \<open>
  A fragment of dimensions is a list of tags: a size, -1 for \<open>var\<close> or -2 for \<open>Fixed\<close>. The tags of the leading
  dimensions of a type, with the type behind them.
\<close>

definition no_shape :: "match_error + 'a" where
  "no_shape = Inl (raised (type_error ''dim_fragment_type failed to get shape from type ''))"

fun get_tagged_dims_from_type :: "nat \<Rightarrow> ndt \<Rightarrow> match_error + (int list \<times> ndt)" where
  "get_tagged_dims_from_type 0 t = Inr ([], t)"
| "get_tagged_dims_from_type (Suc k) t =
     bind_made
       (case t of
          fixed_dim_kind_type e \<Rightarrow> Inr (- 2, e) | fixed_dim_type n e \<Rightarrow> Inr (n, e) | var_dim_type e \<Rightarrow> Inr (- 1, e)
        | _ \<Rightarrow> no_shape)
       (\<lambda>(tag, e). bind_made (get_tagged_dims_from_type k e) (\<lambda>(tags, dt). Inr (tag # tags, dt)))"

text \<open>
  Tags broadcast with the leading dimensions of a type. A tag is left as it is in \<open>out\<close> when the type does not
  change it; None when the sizes do not fit.
\<close>

fun broadcast_tagged_dims_from_type :: "int list \<Rightarrow> ndt \<Rightarrow> int list \<Rightarrow> match_error + int list option" where
  "broadcast_tagged_dims_from_type [] t out = Inr (Some [])"
| "broadcast_tagged_dims_from_type (tag # tags) t [] = undefined_match"
| "broadcast_tagged_dims_from_type (tag # tags) t (old # out) =
     (case t of
        fixed_dim_kind_type e \<Rightarrow>
          bind_made (broadcast_tagged_dims_from_type tags e out) (\<lambda>r. Inr (map_option ((#) (if tag < 0 then - 2 else old)) r))
      | fixed_dim_type n e \<Rightarrow>
          if tag < 0 \<or> tag = 1
          then bind_made (broadcast_tagged_dims_from_type tags e out) (\<lambda>r. Inr (map_option ((#) n) r))
          else if tag \<noteq> n \<and> n \<noteq> 1 then Inr None
          else bind_made (broadcast_tagged_dims_from_type tags e out) (\<lambda>r. Inr (map_option ((#) old) r))
      | var_dim_type e \<Rightarrow>
          bind_made (broadcast_tagged_dims_from_type tags e out) (\<lambda>r. Inr (map_option ((#) old) r))
      | _ \<Rightarrow> no_shape)"

text \<open>
  A fragment broadcast with the leading dimensions of a type. When the type has more of them, the tags of the others
  are computed in memory that is not initialised.
\<close>

definition broadcast_with_type :: "(nat \<Rightarrow> int) \<Rightarrow> int list \<Rightarrow> nat \<Rightarrow> ndt \<Rightarrow> match_error + int list option" where
  "broadcast_with_type junk dims ndim tp =
     (let this_ndim = length dims
      in if ndim = 0 then Inr (Some dims)
         else if ndim > this_ndim
         then bind_made (get_tagged_dims_from_type (ndim - this_ndim) tp) (\<lambda>(leading, dtp).
              bind_made (broadcast_tagged_dims_from_type dims dtp (map junk [ndim - this_ndim..<ndim]))
                (\<lambda>r. Inr (map_option (\<lambda>tags. leading @ tags) r)))
         else if ndim < this_ndim
         then bind_made (broadcast_tagged_dims_from_type (drop (this_ndim - ndim) dims) tp (drop (this_ndim - ndim) dims))
                (\<lambda>r. Inr (map_option (\<lambda>tags. take (this_ndim - ndim) dims @ tags) r))
         else broadcast_tagged_dims_from_type dims tp dims)"

definition apply_to_dtype :: "int list \<Rightarrow> ndt \<Rightarrow> ndt" where
  "apply_to_dtype dims dt =
     foldr (\<lambda>d t. if d = - 1 then var_dim_type t else if d = - 2 then make_fixed_dim_kind t else fixed_dim_type d t) dims dt"

section \<open>Matching, class by class\<close>

definition match_equal :: "ndt \<Rightarrow> ndt \<Rightarrow> typevars \<Rightarrow> matched" where
  "match_equal pattern c vars = Inr (\<not> is_builtin c \<and> type_eq pattern c, vars)"

definition match_pointer_type :: "matcher \<Rightarrow> ndt \<Rightarrow> ndt \<Rightarrow> typevars \<Rightarrow> matched" where
  "match_pointer_type m t c vars = (case c of pointer_type t' \<Rightarrow> m t t' vars | _ \<Rightarrow> no_match vars)"

definition match_option_type :: "matcher \<Rightarrow> ndt \<Rightarrow> ndt \<Rightarrow> typevars \<Rightarrow> matched" where
  "match_option_type m t c vars = (case c of option_type t' \<Rightarrow> m t t' vars | _ \<Rightarrow> no_match vars)"

definition match_base_dim_type :: "matcher \<Rightarrow> ndt \<Rightarrow> ndt \<Rightarrow> typevars \<Rightarrow> matched" where
  "match_base_dim_type m pattern c vars =
     (if get_type_id pattern \<noteq> get_type_id c then no_match vars
      else m (get_element_type pattern) (get_element_type c) vars)"

definition match_fixed_dim_type :: "matcher \<Rightarrow> int \<Rightarrow> ndt \<Rightarrow> ndt \<Rightarrow> typevars \<Rightarrow> matched" where
  "match_fixed_dim_type m n t c vars =
     (case c of
        fixed_dim_type n' t' \<Rightarrow> if n = n' then m t t' vars else no_match vars
      | fixed_dim_kind_type _ \<Rightarrow> undefined_match
      | _ \<Rightarrow> no_match vars)"

definition match_fixed_dim_kind_type :: "matcher \<Rightarrow> ndt \<Rightarrow> ndt \<Rightarrow> typevars \<Rightarrow> matched" where
  "match_fixed_dim_kind_type m t c vars =
     (case c of
        fixed_dim_type _ t' \<Rightarrow> m t t' vars
      | fixed_dim_kind_type t' \<Rightarrow> m t t' vars
      | any_sym_type \<Rightarrow> Inr (True, vars)
      | _ \<Rightarrow> no_match vars)"

definition match_c_contiguous_type :: "matcher \<Rightarrow> ndt \<Rightarrow> ndt \<Rightarrow> typevars \<Rightarrow> matched" where
  "match_c_contiguous_type m t c vars =
     (case c of c_contiguous_type t' \<Rightarrow> m t t' vars | _ \<Rightarrow> if is_builtin c then m t c vars else no_match vars)"

text \<open>
  Tuples and structs. A candidate that has no fields is read as if it had.
\<close>

fun match_fields :: "matcher \<Rightarrow> ndt list \<Rightarrow> ndt list \<Rightarrow> typevars \<Rightarrow> matched" where
  "match_fields m [] cs vars = Inr (True, vars)"
| "match_fields m (p # ps) [] vars = undefined_match"
| "match_fields m (p # ps) (c # cs) vars = and_match (m p c vars) (match_fields m ps cs)"

definition counts_match :: "ndt list \<Rightarrow> bool \<Rightarrow> ndt list \<Rightarrow> bool \<Rightarrow> bool" where
  "counts_match ps variadic cs cvariadic \<longleftrightarrow>
     length ps = length cs \<and> \<not> cvariadic \<or> length ps \<le> length cs \<and> variadic"

definition match_tuple_type :: "matcher \<Rightarrow> ndt list \<Rightarrow> bool \<Rightarrow> ndt \<Rightarrow> typevars \<Rightarrow> matched" where
  "match_tuple_type m ps variadic c vars =
     (case (case c of tuple_type cs cv \<Rightarrow> Some (cs, cv) | struct_type _ cs cv \<Rightarrow> Some (cs, cv) | _ \<Rightarrow> None) of
        None \<Rightarrow> undefined_match
      | Some (cs, cv) \<Rightarrow> if counts_match ps variadic cs cv then match_fields m ps cs vars else no_match vars)"

definition match_struct_type :: "matcher \<Rightarrow> string list \<Rightarrow> ndt list \<Rightarrow> bool \<Rightarrow> ndt \<Rightarrow> typevars \<Rightarrow> matched" where
  "match_struct_type m names ps variadic c vars =
     (case c of
        struct_type cnames cs cv \<Rightarrow>
          if counts_match ps variadic cs cv
          then (if names = (if length ps = length cs then cnames else take (length ps) cnames)
                then match_fields m ps cs vars else no_match vars)
          else no_match vars
      | _ \<Rightarrow> undefined_match)"

definition match_arrfunc_type ::
  "matcher \<Rightarrow> ndt list \<Rightarrow> bool \<Rightarrow> string list \<Rightarrow> ndt list \<Rightarrow> bool \<Rightarrow> ndt \<Rightarrow> ndt \<Rightarrow> typevars \<Rightarrow> matched" where
  "match_arrfunc_type m ps pv names ks kv ret c vars =
     (case c of
        arrfunc_type cps cpv cnames cks ckv cret \<Rightarrow>
          and_match (m ret cret vars) (\<lambda>vars.
          and_match (m (tuple_type ps pv) (tuple_type cps cpv) vars)
            (m (struct_type names ks kv) (struct_type cnames cks ckv)))
      | _ \<Rightarrow> no_match vars)"

section \<open>Matching type variables\<close>

definition match_typevar_type :: "string \<Rightarrow> ndt \<Rightarrow> typevars \<Rightarrow> matched" where
  "match_typevar_type name c vars =
     (case c of
        typevar_type name' \<Rightarrow> Inr (name = name', vars)
      | _ \<Rightarrow>
          if get_ndim c > 0 \<or> get_type_id c = any_sym_type_id then no_match vars
          else if known vars name = null_type then Inr (True, vars(name \<mapsto> c))
          else Inr (type_eq c (known vars name), vars))"

definition match_typevar_dim_type :: "matcher \<Rightarrow> string \<Rightarrow> ndt \<Rightarrow> ndt \<Rightarrow> typevars \<Rightarrow> matched" where
  "match_typevar_dim_type m name t c vars =
     (let behind = (\<lambda>vars. bind_made (get_type_at_dimension c 1) (\<lambda>c. m t c vars))
      in if \<not> is_dim c then no_match vars
         else if known vars name = null_type then behind (vars(name \<mapsto> c))
         else if get_type_id c \<noteq> get_type_id (known vars name) then no_match vars
         else if get_type_id c = fixed_dim_type_id
         then (case (c, known vars name) of
                 (fixed_dim_type n _, fixed_dim_type n' _) \<Rightarrow> if n \<noteq> n' then no_match vars else behind vars
               | _ \<Rightarrow> undefined_match)
         else behind vars)"

text \<open>No type here is of the memory kind, so that the constructor of a type variable is always \<open>void\<close>.\<close>

definition match_typevar_constructed_type :: "matcher \<Rightarrow> string \<Rightarrow> ndt \<Rightarrow> ndt \<Rightarrow> typevars \<Rightarrow> matched" where
  "match_typevar_constructed_type m name arg c vars =
     (case c of
        typevar_constructed_type _ arg' \<Rightarrow> m arg arg' vars
      | _ \<Rightarrow>
          and_match (m arg c vars) (\<lambda>vars.
            Inr (True, if known vars name = null_type then vars(name \<mapsto> void_type) else vars)))"

text \<open>The name of an ellipsis has a fragment of dimensions, which is broadcast with the new ones.\<close>

definition match_ellipsis_dim_type :: "match_env \<Rightarrow> matcher \<Rightarrow> string \<Rightarrow> ndt \<Rightarrow> ndt \<Rightarrow> typevars \<Rightarrow> matched" where
  "match_ellipsis_dim_type env m name t c vars =
     (if get_type_id c = any_sym_type_id then Inr (True, vars)
      else if get_ndim c = 0
      then (if name = [] then m t c vars
            else if known vars name = null_type then m t c (vars(name \<mapsto> dim_fragment_type []))
            else if get_type_id (known vars name) \<noteq> dim_fragment_type_id then no_match vars
            else m t c vars)
      else if get_type_id c = ellipsis_dim_type_id then m t (get_element_type c) vars
      else if get_ndim t \<le> get_ndim c
      then (let matched_ndim = nat (get_ndim c - get_ndim t);
                behind = (\<lambda>vars. bind_made (get_type_at_dimension c matched_ndim) (\<lambda>c. m t c vars))
            in if name = [] then behind vars
               else if known vars name = null_type
               then bind_made (get_tagged_dims_from_type matched_ndim c) (\<lambda>(dims, _).
                      behind (vars(name \<mapsto> dim_fragment_type dims)))
               else (case known vars name of
                       dim_fragment_type dims \<Rightarrow>
                         bind_made (broadcast_with_type (uninit env) dims matched_ndim c) (\<lambda>r.
                           case r of
                             None \<Rightarrow> no_match vars
                           | Some dims \<Rightarrow> behind (vars(name \<mapsto> dim_fragment_type dims)))
                     | _ \<Rightarrow> no_match vars))
      else no_match vars)"

section \<open>Matching dimensional powers\<close>

text \<open>The type behind \<open>k\<close> dimensions like the base; dimensions other than \<open>var\<close> are passed over for the base \<open>var\<close>.\<close>

fun behind_fixed_kind :: "nat \<Rightarrow> ndt \<Rightarrow> ndt option" where
  "behind_fixed_kind 0 c = Some c"
| "behind_fixed_kind (Suc k) c =
     (if get_type_id c = fixed_dim_type_id then behind_fixed_kind k (get_element_type c) else None)"

fun behind_fixed :: "int \<Rightarrow> nat \<Rightarrow> ndt \<Rightarrow> match_error + ndt option" where
  "behind_fixed n 0 c = Inr (Some c)"
| "behind_fixed n (Suc k) c =
     (case c of
        fixed_dim_type n' c' \<Rightarrow> if n' = n then behind_fixed n k c' else Inr None
      | fixed_dim_kind_type _ \<Rightarrow> undefined_match
      | _ \<Rightarrow> Inr None)"

fun behind_var :: "nat \<Rightarrow> ndt \<Rightarrow> ndt" where
  "behind_var 0 c = c"
| "behind_var (Suc k) c = behind_var k (case c of var_dim_type c' \<Rightarrow> c' | _ \<Rightarrow> c)"

definition behind_base :: "ndt \<Rightarrow> nat \<Rightarrow> ndt \<Rightarrow> match_error + ndt option" where
  "behind_base base_tp k c =
     (case base_tp of
        fixed_dim_kind_type _ \<Rightarrow> Inr (behind_fixed_kind k c)
      | fixed_dim_type n _ \<Rightarrow> behind_fixed n k c
      | var_dim_type _ \<Rightarrow> Inr (Some (behind_var k c))
      | _ \<Rightarrow> Inr None)"

text \<open>A power as the candidate: the element is matched, but not whether it does.\<close>

definition match_pow_pow :: "matcher \<Rightarrow> ndt \<Rightarrow> string \<Rightarrow> ndt \<Rightarrow> typevars \<Rightarrow> matched" where
  "match_pow_pow m t e' t' vars =
     bind_made (m t t' vars) (\<lambda>(_, vars).
       if known vars e' = null_type then Inr (True, vars(e' \<mapsto> typevar_dim_type e' void_type))
       else Inr (case known vars e' of typevar_dim_type name _ \<Rightarrow> name = e' | _ \<Rightarrow> False, vars))"

text \<open>Without dimensions in the candidate and in the element, the exponent is 0.\<close>

definition match_pow_scalar :: "matcher \<Rightarrow> string \<Rightarrow> ndt \<Rightarrow> ndt \<Rightarrow> typevars \<Rightarrow> matched" where
  "match_pow_scalar m e t c vars =
     (if get_ndim t \<noteq> 0 then no_match vars
      else if known vars e = null_type then m t c (vars(e \<mapsto> fixed_dim_type 0 void_type))
      else case known vars e of
             fixed_dim_type n _ \<Rightarrow> if n \<noteq> 0 then no_match vars else m t c vars
           | fixed_dim_kind_type _ \<Rightarrow> undefined_match
           | _ \<Rightarrow> no_match vars)"

definition match_pow_base :: "matcher \<Rightarrow> ndt \<Rightarrow> ndt \<Rightarrow> ndt \<Rightarrow> int \<Rightarrow> typevars \<Rightarrow> matched" where
  "match_pow_base m b t c exponent vars =
     (if exponent = 0 then m t c vars
      else if exponent < 0 then no_match vars
      else let behind = (\<lambda>base_tp vars. bind_made (behind_base base_tp (nat exponent) c)
                  (\<lambda>r. case r of None \<Rightarrow> no_match vars | Some c \<Rightarrow> m t c vars))
           in case b of
                typevar_dim_type name _ \<Rightarrow>
                  if known vars name = null_type then behind c (vars(name \<mapsto> c))
                  else if get_ndim (known vars name) > 0 \<and> get_type_id (known vars name) \<noteq> dim_fragment_type_id
                  then behind (known vars name) vars
                  else no_match vars
              | _ \<Rightarrow> behind b vars)"

definition match_pow_general :: "matcher \<Rightarrow> ndt \<Rightarrow> string \<Rightarrow> ndt \<Rightarrow> ndt \<Rightarrow> typevars \<Rightarrow> matched" where
  "match_pow_general m b e t c vars =
     (let left = get_ndim c - get_ndim t
      in if known vars e = null_type then match_pow_base m b t c left (vars(e \<mapsto> fixed_dim_type left void_type))
         else case known vars e of
                fixed_dim_type n _ \<Rightarrow> if n \<noteq> left then no_match vars else match_pow_base m b t c n vars
              | fixed_dim_kind_type _ \<Rightarrow> undefined_match
              | _ \<Rightarrow> no_match vars)"

definition match_pow_dimsym_type :: "matcher \<Rightarrow> ndt \<Rightarrow> string \<Rightarrow> ndt \<Rightarrow> ndt \<Rightarrow> typevars \<Rightarrow> matched" where
  "match_pow_dimsym_type m b e t c vars =
     (case c of
        typevar_constructed_type name arg \<Rightarrow> match_typevar_constructed_type m name arg (pow_dimsym_type b e t) vars
      | pow_dimsym_type b' e' t' \<Rightarrow>
          bind_made (m b b' vars) (\<lambda>(ok, vars).
            if ok then match_pow_pow m t e' t' vars else match_pow_general m b e t c vars)
      | _ \<Rightarrow> if get_ndim c = 0 then match_pow_scalar m e t c vars else match_pow_general m b e t c vars)"

section \<open>Matching\<close>

definition match_class :: "match_env \<Rightarrow> matcher \<Rightarrow> ndt \<Rightarrow> ndt \<Rightarrow> typevars \<Rightarrow> matched" where
  "match_class env m pattern c vars =
     (case pattern of
        pointer_type t \<Rightarrow> match_pointer_type m t c vars
      | option_type t \<Rightarrow> match_option_type m t c vars
      | fixed_dim_type n t \<Rightarrow> match_fixed_dim_type m n t c vars
      | fixed_dim_kind_type t \<Rightarrow> match_fixed_dim_kind_type m t c vars
      | var_dim_type _ \<Rightarrow> match_base_dim_type m pattern c vars
      | dim_fragment_type _ \<Rightarrow> match_base_dim_type m pattern c vars
      | struct_type names ts variadic \<Rightarrow> match_struct_type m names ts variadic c vars
      | tuple_type ts variadic \<Rightarrow> match_tuple_type m ts variadic c vars
      | arrfunc_type ps pv names ks kv ret \<Rightarrow> match_arrfunc_type m ps pv names ks kv ret c vars
      | c_contiguous_type t \<Rightarrow> match_c_contiguous_type m t c vars
      | typevar_type name \<Rightarrow> match_typevar_type name c vars
      | typevar_dim_type name t \<Rightarrow> match_typevar_dim_type m name t c vars
      | typevar_constructed_type name arg \<Rightarrow> match_typevar_constructed_type m name arg c vars
      | pow_dimsym_type b e t \<Rightarrow> match_pow_dimsym_type m b e t c vars
      | ellipsis_dim_type name t \<Rightarrow> match_ellipsis_dim_type env m name t c vars
      | any_sym_type \<Rightarrow> Inr (True, vars)
      | kind_sym_type kind \<Rightarrow> Inr (get_kind c = kind, vars)
      | int_kind_sym_type \<Rightarrow> Inr (get_kind c = uint_kind \<or> get_kind c = sint_kind, vars)
      | categorical_kind_type \<Rightarrow> Inr (get_type_id c = categorical_type_id, vars)
      | fixed_bytes_kind_type \<Rightarrow> Inr (get_type_id c = fixed_bytes_type_id, vars)
      | fixed_string_kind_type \<Rightarrow> Inr (get_type_id c = fixed_string_type_id, vars)
      | _ \<Rightarrow> match_equal pattern c vars)"

text \<open>\<^verbatim>\<open>type::match\<close>: the same object matches itself, and a builtin type nothing else.\<close>

primrec match_type :: "nat \<Rightarrow> match_env \<Rightarrow> ndt \<Rightarrow> ndt \<Rightarrow> typevars \<Rightarrow> matched" where
  "match_type 0 env pattern c vars = Inl too_deep"
| "match_type (Suc k) env pattern c vars =
     (if same_object env pattern c then Inr (True, vars)
      else if is_builtin pattern then no_match vars
      else match_class env (match_type k env) pattern c vars)"

section \<open>Substituting type variables\<close>

abbreviation refuse :: "string \<Rightarrow> match_error + 'a" where
  "refuse message \<equiv> Inl (raised (invalid_argument message))"

abbreviation bad_substitution :: "match_error + 'a" where
  "bad_substitution \<equiv> refuse ''The substitution for dynd typevar ''"

type_synonym substituter = "ndt \<Rightarrow> match_error + ndt"

fun substitute_type_array :: "substituter \<Rightarrow> ndt list \<Rightarrow> match_error + ndt list" where
  "substitute_type_array sub [] = Inr []"
| "substitute_type_array sub (t # ts) =
     bind_made (sub t) (\<lambda>t. bind_made (substitute_type_array sub ts) (\<lambda>ts. Inr (t # ts)))"

definition substitute_typevar :: "typevars \<Rightarrow> bool \<Rightarrow> string \<Rightarrow> ndt \<Rightarrow> match_error + ndt" where
  "substitute_typevar vars concrete name pattern =
     (case vars name of
        Some t \<Rightarrow>
          if get_ndim t \<noteq> 0 then bad_substitution
          else if \<not> concrete \<or> \<not> is_symbolic t then Inr t
          else bad_substitution
      | None \<Rightarrow> if concrete then refuse ''No substitution type for dynd type var '' else Inr pattern)"

text \<open>A constructor that is not \<open>void\<close> is taken for a type variable; one without an entry is not looked for.\<close>

definition substitute_typevar_constructed ::
  "substituter \<Rightarrow> typevars \<Rightarrow> bool \<Rightarrow> string \<Rightarrow> ndt \<Rightarrow> ndt \<Rightarrow> match_error + ndt" where
  "substitute_typevar_constructed sub vars concrete name arg pattern =
     (case vars name of
        None \<Rightarrow> undefined_match
      | Some t \<Rightarrow> if get_type_id t = void_type_id then sub arg else substitute_typevar vars concrete name pattern)"

definition substitute_typevar_dim ::
  "substituter \<Rightarrow> typevars \<Rightarrow> bool \<Rightarrow> string \<Rightarrow> ndt \<Rightarrow> match_error + ndt" where
  "substitute_typevar_dim sub vars concrete name t =
     (case vars name of
        Some d \<Rightarrow>
          if get_ndim d = 0 then bad_substitution
          else if \<not> concrete \<or> \<not> is_symbolic d
          then (case d of
                  fixed_dim_kind_type _ \<Rightarrow> bind_made (sub t) (\<lambda>t. Inr (make_fixed_dim_kind t))
                | fixed_dim_type n _ \<Rightarrow> bind_made (sub t) (\<lambda>t. Inr (fixed_dim_type n t))
                | var_dim_type _ \<Rightarrow> bind_made (sub t) (\<lambda>t. Inr (var_dim_type t))
                | _ \<Rightarrow> bad_substitution)
          else bad_substitution
      | None \<Rightarrow>
          if concrete then refuse ''No substitution type for dynd typevar ''
          else bind_made (sub t) (\<lambda>t. raising (make_typevar_dim name t)))"

text \<open>The exponent, -1 when it is not known, and the name it then has.\<close>

definition substitute_exponent :: "typevars \<Rightarrow> bool \<Rightarrow> string \<Rightarrow> match_error + (int \<times> string)" where
  "substitute_exponent vars concrete e =
     (case vars e of
        None \<Rightarrow> Inr (- 1, e)
      | Some (fixed_dim_type n _) \<Rightarrow> Inr (n, e)
      | Some (fixed_dim_kind_type _) \<Rightarrow> undefined_match
      | Some (typevar_dim_type e' _) \<Rightarrow> if concrete then bad_substitution else Inr (- 1, e')
      | Some _ \<Rightarrow> bad_substitution)"

definition substitute_base :: "typevars \<Rightarrow> bool \<Rightarrow> ndt \<Rightarrow> match_error + ndt" where
  "substitute_base vars concrete b =
     (case b of
        typevar_dim_type name _ \<Rightarrow>
          (case vars name of
             None \<Rightarrow> if concrete then refuse ''No substitution type for dynd typevar '' else Inr b
           | Some t \<Rightarrow>
               if get_ndim t > 0 \<and> get_type_id t \<noteq> dim_fragment_type_id then Inr t else bad_substitution)
      | _ \<Rightarrow> Inr b)"

definition apply_power :: "bool \<Rightarrow> ndt \<Rightarrow> nat \<Rightarrow> ndt \<Rightarrow> match_error + ndt" where
  "apply_power concrete base_tp exponent t =
     (case base_tp of
        fixed_dim_kind_type _ \<Rightarrow>
          if concrete then refuse ''The base for a dimensional power type, 'Fixed ** ''
          else Inr ((make_fixed_dim_kind ^^ exponent) t)
      | fixed_dim_type n _ \<Rightarrow> Inr ((fixed_dim_type n ^^ exponent) t)
      | var_dim_type _ \<Rightarrow> Inr ((var_dim_type ^^ exponent) t)
      | typevar_dim_type name _ \<Rightarrow> Inr ((typevar_dim_type name ^^ exponent) t)
      | _ \<Rightarrow> refuse ''Cannot substitute '')"

definition substitute_pow_dimsym ::
  "substituter \<Rightarrow> typevars \<Rightarrow> bool \<Rightarrow> ndt \<Rightarrow> string \<Rightarrow> ndt \<Rightarrow> match_error + ndt" where
  "substitute_pow_dimsym sub vars concrete b e t =
     bind_made (substitute_exponent vars concrete e) (\<lambda>(exponent, exp_name).
     if exponent = 0 then sub t
     else bind_made (substitute_base vars concrete b) (\<lambda>base_tp.
          bind_made (sub t) (\<lambda>t.
          if exponent < 0 then raising (make_pow_dimsym base_tp exp_name t)
          else apply_power concrete base_tp (nat exponent) t)))"

definition substitute_ellipsis_dim ::
  "substituter \<Rightarrow> typevars \<Rightarrow> bool \<Rightarrow> string \<Rightarrow> ndt \<Rightarrow> match_error + ndt" where
  "substitute_ellipsis_dim sub vars concrete name t =
     (if name = [] then refuse ''Cannot substitute into an unnamed ellipsis typevar''
      else case vars name of
             Some (dim_fragment_type dims) \<Rightarrow> bind_made (sub t) (\<lambda>t. Inr (apply_to_dtype dims t))
           | Some _ \<Rightarrow> bad_substitution
           | None \<Rightarrow>
               if concrete then refuse ''No substitution type for dynd typevar ''
               else bind_made (sub t) (\<lambda>t. raising (make_ellipsis_dim name t)))"

definition internal_substitute :: "substituter \<Rightarrow> typevars \<Rightarrow> bool \<Rightarrow> ndt \<Rightarrow> match_error + ndt" where
  "internal_substitute sub vars concrete pattern =
     (case pattern of
        c_contiguous_type t \<Rightarrow> bind_made (sub t) (\<lambda>t. raising (make_c_contiguous t))
      | pointer_type t \<Rightarrow> bind_made (sub t) (\<lambda>t. raising (make_pointer t))
      | fixed_dim_kind_type t \<Rightarrow>
          if concrete then refuse ''The dynd pattern type includes a symbolic 'fixed' dimension, which is not concrete as requested''
          else bind_made (sub t) (\<lambda>t. Inr (make_fixed_dim_kind t))
      | fixed_dim_type n t \<Rightarrow> bind_made (sub t) (\<lambda>t. Inr (fixed_dim_type n t))
      | var_dim_type t \<Rightarrow> bind_made (sub t) (\<lambda>t. Inr (var_dim_type t))
      | struct_type names ts _ \<Rightarrow>
          bind_made (substitute_type_array sub ts) (\<lambda>ts. raising (make_struct names ts False))
      | tuple_type ts _ \<Rightarrow> bind_made (substitute_type_array sub ts) (\<lambda>ts. Inr (tuple_type ts False))
      | option_type t \<Rightarrow> bind_made (sub t) (\<lambda>t. raising (make_option t))
      | arrfunc_type ps pv names ks kv ret \<Rightarrow>
          bind_made (sub (tuple_type ps pv)) (\<lambda>pos.
          bind_made (sub (struct_type names ks kv)) (\<lambda>kwd.
          bind_made (sub ret) (\<lambda>ret. raising (make_arrfunc pos kwd ret))))
      | typevar_constructed_type name arg \<Rightarrow> substitute_typevar_constructed sub vars concrete name arg pattern
      | typevar_type name \<Rightarrow> substitute_typevar vars concrete name pattern
      | typevar_dim_type name t \<Rightarrow> substitute_typevar_dim sub vars concrete name t
      | pow_dimsym_type b e t \<Rightarrow> substitute_pow_dimsym sub vars concrete b e t
      | ellipsis_dim_type name t \<Rightarrow> substitute_ellipsis_dim sub vars concrete name t
      | any_sym_type \<Rightarrow> if concrete then refuse ''The dynd type '' else Inr pattern
      | _ \<Rightarrow> refuse ''Unsupported dynd type '')"

primrec substitute :: "nat \<Rightarrow> typevars \<Rightarrow> bool \<Rightarrow> ndt \<Rightarrow> match_error + ndt" where
  "substitute 0 vars concrete pattern = Inl too_deep"
| "substitute (Suc k) vars concrete pattern =
     (if \<not> is_symbolic pattern \<and> get_type_id pattern \<noteq> arrfunc_type_id then Inr pattern
      else internal_substitute (substitute k vars concrete) vars concrete pattern)"

end
