(* ===== verification/Match_Correct.thy ===== *)
theory Match_Correct
  imports Type_Match
begin

text \<open>
  Matching and substitution fit together: what a successful match finds for the type variables gives the candidate back
  when it is substituted, and a match that can succeed does. What a class needs of the matching of its parts is the
  locale \<open>matcher_depth\<close> for the depth of the recursion and \<open>sound_matcher\<close> for its results.
\<close>

section \<open>Depth\<close>

fun nodes :: "ndt \<Rightarrow> nat" where
  "nodes (pointer_type t) = Suc (nodes t)"
| "nodes (fixed_dim_type _ t) = Suc (nodes t)"
| "nodes (var_dim_type t) = Suc (nodes t)"
| "nodes (struct_type _ ts _) = Suc (sum_list (map nodes ts))"
| "nodes (tuple_type ts _) = Suc (sum_list (map nodes ts))"
| "nodes (c_contiguous_type t) = Suc (nodes t)"
| "nodes (option_type t) = Suc (nodes t)"
| "nodes (arrfunc_type ps _ _ ks _ ret) = 3 + sum_list (map nodes ps) + sum_list (map nodes ks) + nodes ret"
| "nodes (typevar_dim_type _ t) = Suc (nodes t)"
| "nodes (typevar_constructed_type _ t) = Suc (nodes t)"
| "nodes (pow_dimsym_type b _ t) = Suc (nodes b + nodes t)"
| "nodes (ellipsis_dim_type _ t) = Suc (nodes t)"
| "nodes (fixed_dim_kind_type t) = Suc (nodes t)"
| "nodes (dim_fragment_type _) = 2"
| "nodes _ = 1"

lemma nodes_positive: "0 < nodes t"
  by (cases t) simp_all

lemma nodes_member: "t \<in> set ts \<Longrightarrow> nodes t \<le> sum_list (map nodes ts)"
  by (simp add: member_le_sum_list)

lemma nodes_raising:
  "raising (make_pointer t) = Inr t' \<Longrightarrow> nodes t' \<le> Suc (nodes t)"
  "raising (make_c_contiguous t) = Inr t' \<Longrightarrow> nodes t' \<le> Suc (nodes t)"
  by (auto simp: raising_def make_pointer_def make_c_contiguous_def split: if_splits sum.splits)

lemma bind_Inr_iff: "bind_made r f = Inr y \<longleftrightarrow> (\<exists>x. r = Inr x \<and> f x = Inr y)"
  by (cases r) (simp_all add: bind_made_def)

lemma nodes_at_dimension: "get_type_at_dimension t i = Inr t' \<Longrightarrow> nodes t' \<le> nodes t"
proof (induction t i arbitrary: t' rule: get_type_at_dimension.induct)
  case (9 t i)
  then show ?case using nodes_raising(1) by (fastforce simp: bind_Inr_iff)
next
  case (10 t i)
  then show ?case using nodes_raising(2) by (fastforce simp: bind_Inr_iff split: if_splits)
next
  case (7 name t i)
  then show ?case by (fastforce split: if_splits)
qed (auto intro: le_SucI)

text \<open>The only error of the depth is \<open>too_deep\<close>; what is not it stays not it.\<close>

definition bounded :: "match_error + 'a \<Rightarrow> bool" where
  "bounded r \<longleftrightarrow> r \<noteq> Inl too_deep"

lemma bounded_simps [simp]:
  "bounded (Inr x)" "bounded (no_match vars)" "bounded (Inl (raised e))" "bounded (Inl too_many_indices)"
  by (simp_all add: bounded_def no_match_def)

lemma bounded_bind: "bounded r \<Longrightarrow> (\<And>x. r = Inr x \<Longrightarrow> bounded (f x)) \<Longrightarrow> bounded (bind_made r f)"
  by (cases r) (simp_all add: bounded_def bind_made_def)

lemma bounded_raising [simp]: "bounded (raising r)"
  by (cases r) (simp_all add: raising_def)

lemma bounded_and: "bounded r \<Longrightarrow> (\<And>vars. bounded (f vars)) \<Longrightarrow> bounded (and_match r f)"
  unfolding and_match_def by (rule bounded_bind) (auto split: prod.splits)

lemma bounded_at_dimension [simp]: "bounded (get_type_at_dimension t i)"
  by (induction t i rule: get_type_at_dimension.induct) (auto intro: bounded_bind split: if_splits)

lemma bounded_tagged_dims [simp]: "bounded (get_tagged_dims_from_type k t)"
proof (induction k arbitrary: t)
  case (Suc k)
  then show ?case by (auto intro!: bounded_bind simp: no_shape_def split: ndt.splits prod.splits)
qed simp

lemma bounded_broadcast_tags [simp]: "bounded (broadcast_tagged_dims_from_type tags t out)"
  by (induction tags t out rule: broadcast_tagged_dims_from_type.induct)
    (auto intro!: bounded_bind simp: no_shape_def split: ndt.splits)

lemma bounded_broadcast [simp]: "bounded (broadcast_with_type junk dims ndim t)"
  unfolding broadcast_with_type_def Let_def by (auto intro!: bounded_bind split: prod.splits)

lemma bounded_behind_fixed [simp]: "bounded (behind_fixed n k c)"
  by (induction n k c rule: behind_fixed.induct) (auto split: ndt.splits)

lemma bounded_behind_base [simp]: "bounded (behind_base b k c)"
  by (simp add: behind_base_def split: ndt.split)

lemma nodes_element: "nodes (get_element_type t) \<le> nodes t"
  by (cases t) (simp_all add: Suc_leI nodes_positive)

lemma nodes_behind_kind: "behind_fixed_kind k c = Some c' \<Longrightarrow> nodes c' \<le> nodes c"
  by (induction k c rule: behind_fixed_kind.induct) (auto split: if_splits intro: order.trans nodes_element)

lemma nodes_behind_fixed: "behind_fixed n k c = Inr (Some c') \<Longrightarrow> nodes c' \<le> nodes c"
  by (induction n k c rule: behind_fixed.induct) (auto split: ndt.splits if_splits intro: le_SucI)

lemma nodes_behind_var: "nodes (behind_var k c) \<le> nodes c"
  by (induction k c rule: behind_var.induct) (auto split: ndt.splits intro: le_SucI)

lemma nodes_behind_base: "behind_base b k c = Inr (Some c') \<Longrightarrow> nodes c' \<le> nodes c"
  using nodes_behind_kind nodes_behind_fixed nodes_behind_var by (auto simp: behind_base_def split: ndt.splits)

locale matcher_depth =
  fixes m :: matcher and n :: nat
  assumes within: "nodes p + nodes c \<le> n \<Longrightarrow> bounded (m p c vars)"
begin

lemma fields_bounded:
  "sum_list (map nodes ps) + sum_list (map nodes cs) \<le> n \<Longrightarrow> bounded (match_fields m ps cs vars)"
proof (induction ps arbitrary: cs vars)
  case (Cons p ps)
  then show ?case by (cases cs) (auto intro!: bounded_and within)
qed simp

lemma at_dimension_bounded:
  "nodes t + nodes c \<le> n \<Longrightarrow> bounded (bind_made (get_type_at_dimension c i) (\<lambda>c. m t c vars))"
  by (rule bounded_bind) (auto dest!: nodes_at_dimension intro!: within)

lemma constructed_bounded:
  "nodes (typevar_constructed_type name arg) + nodes c \<le> Suc n \<Longrightarrow> bounded (match_typevar_constructed_type m name arg c vars)"
  unfolding match_typevar_constructed_type_def by (cases c) (auto intro!: bounded_and within)

lemma pow_base_bounded:
  assumes "nodes t + nodes c \<le> n" shows "bounded (match_pow_base m b t c exponent vars)"
proof -
  have "bounded (bind_made (behind_base b' j c) (\<lambda>r. case r of None \<Rightarrow> no_match vars' | Some c \<Rightarrow> m t c vars'))" for b' j vars'
    using assms by (intro bounded_bind) (auto split: option.splits dest!: nodes_behind_base intro: within)
  then show ?thesis
    using assms unfolding match_pow_base_def Let_def by (auto split: ndt.splits intro: within)
qed

lemma pow_general_bounded:
  "nodes t + nodes c \<le> n \<Longrightarrow> bounded (match_pow_general m b e t c vars)"
  unfolding match_pow_general_def Let_def by (auto split: ndt.splits intro: pow_base_bounded)

lemma pow_scalar_bounded:
  "nodes t + nodes c \<le> n \<Longrightarrow> bounded (match_pow_scalar m e t c vars)"
  unfolding match_pow_scalar_def by (cases "known vars e") (simp_all add: within)

lemma pow_pow_bounded: "nodes t + nodes t' \<le> n \<Longrightarrow> bounded (match_pow_pow m t e' t' vars)"
  unfolding match_pow_pow_def by (intro bounded_bind within) (simp_all split: prod.splits)

lemma pow_bounded:
  assumes "nodes (pow_dimsym_type b e t) + nodes c \<le> Suc n" shows "bounded (match_pow_dimsym_type m b e t c vars)"
proof -
  have t: "nodes t + nodes c \<le> n" using assms by simp
  note general = pow_general_bounded[OF t] pow_scalar_bounded[OF t]
  show ?thesis
  proof (cases c)
    case (typevar_constructed_type name arg)
    then show ?thesis
      using assms constructed_bounded[of name arg "pow_dimsym_type b e t"] by (simp add: match_pow_dimsym_type_def)
  next
    case (pow_dimsym_type b' e' t')
    then have "nodes b + nodes b' \<le> n" "nodes t + nodes t' \<le> n" using assms by simp_all
    then show ?thesis
      using general(1) unfolding match_pow_dimsym_type_def pow_dimsym_type ndt.case
      by (intro bounded_bind within) (simp_all add: pow_pow_bounded split: prod.split)
  qed (use general in \<open>auto simp: match_pow_dimsym_type_def\<close>)
qed

lemma ellipsis_bounded:
  assumes "nodes t + nodes c \<le> n" shows "bounded (match_ellipsis_dim_type env m name t c vars)"
proof -
  have e: "nodes t + nodes (get_element_type c) \<le> n" using assms nodes_element[of c] by simp
  have b: "bounded (bind_made (broadcast_with_type (uninit env) dims k c) (\<lambda>r. case r of None \<Rightarrow> no_match vars
      | Some dims \<Rightarrow> bind_made (get_type_at_dimension c i) (\<lambda>c. m t c (vars(name \<mapsto> dim_fragment_type dims)))))" for dims k i
    by (rule bounded_bind) (simp_all add: at_dimension_bounded[OF assms] split: option.split)
  have d: "bounded (bind_made (get_tagged_dims_from_type k c) (\<lambda>(dims, _).
      bind_made (get_type_at_dimension c i) (\<lambda>c. m t c (vars(name \<mapsto> dim_fragment_type dims)))))" for k i
    by (rule bounded_bind) (simp_all add: at_dimension_bounded[OF assms] split: prod.split)
  show ?thesis
    unfolding match_ellipsis_dim_type_def Let_def
    by (cases "known vars name") (simp_all add: b d at_dimension_bounded[OF assms] within[OF assms] within[OF e])
qed

lemma typevar_dim_bounded:
  "nodes t + nodes c \<le> n \<Longrightarrow> bounded (match_typevar_dim_type m name t c vars)"
  unfolding match_typevar_dim_type_def Let_def by (auto split: ndt.splits simp del: One_nat_def intro: at_dimension_bounded)

lemma base_dim_bounded:
  "nodes p + nodes c \<le> Suc n \<Longrightarrow> is_dim p \<Longrightarrow> bounded (match_base_dim_type m p c vars)"
  unfolding match_base_dim_type_def using nodes_element[of c] by (cases p) (auto intro!: within)

lemma part_bounded:
  assumes "nodes t + nodes c \<le> n"
  shows "bounded (match_pointer_type m t c vars)" "bounded (match_option_type m t c vars)"
    "bounded (match_fixed_dim_type m k t c vars)" "bounded (match_fixed_dim_kind_type m t c vars)"
    "bounded (match_c_contiguous_type m t c vars)"
  using assms
  by (cases c; auto simp: match_pointer_type_def match_option_type_def match_fixed_dim_type_def
      match_fixed_dim_kind_type_def match_c_contiguous_type_def intro: within)+

lemma tuple_bounded:
  assumes "Suc (sum_list (map nodes ps) + nodes c) \<le> Suc n"
  shows "bounded (match_tuple_type m ps variadic c vars)" "bounded (match_struct_type m names ps variadic c vars)"
  using assms
  by (cases c; auto simp: match_tuple_type_def match_struct_type_def intro: fields_bounded)+

lemma arrfunc_bounded:
  assumes "nodes (arrfunc_type ps pv names ks kv ret) + nodes c \<le> Suc n"
  shows "bounded (match_arrfunc_type m ps pv names ks kv ret c vars)"
  using assms by (cases c) (auto simp: match_arrfunc_type_def intro!: bounded_and within)

lemma typevar_bounded: "bounded (match_typevar_type name c vars)"
  by (cases c) (simp_all add: match_typevar_type_def)

lemma class_bounded:
  assumes "nodes p + nodes c \<le> Suc n" shows "bounded (match_class env m p c vars)"
  unfolding match_class_def
  using assms
  by (cases p)
    (simp_all add: match_equal_def part_bounded tuple_bounded arrfunc_bounded typevar_bounded constructed_bounded pow_bounded
      ellipsis_bounded base_dim_bounded typevar_dim_bounded)

end

lemma match_bounded: "nodes p + nodes c \<le> k \<Longrightarrow> bounded (match_type k env p c vars)"
proof (induction k arbitrary: p c vars)
  case 0
  then show ?case using nodes_positive[of p] by simp
next
  case (Suc k)
  have "matcher_depth (match_type k env) k" by (rule matcher_depth.intro) (rule Suc.IH)
  then show ?case using matcher_depth.class_bounded[of "match_type k env" k p c env vars] Suc.prems by simp
qed

interpretation at_depth: matcher_depth "match_type k env" k for k env
  by unfold_locales (rule match_bounded)

section \<open>Types and patterns\<close>

definition type_match :: "match_env \<Rightarrow> ndt \<Rightarrow> ndt \<Rightarrow> typevars \<Rightarrow> matched" where
  "type_match env pattern c vars = match_type (nodes pattern + nodes c) env pattern c vars"

definition type_substitute :: "typevars \<Rightarrow> bool \<Rightarrow> ndt \<Rightarrow> match_error + ndt" where
  "type_substitute vars concrete pattern = substitute (nodes pattern) vars concrete pattern"

text \<open>
  The types of values: nothing symbolic, no expression and no function type within, and made by their factories. The
  builtin types are those of the table of kinds.
\<close>

definition value_id :: "type_id \<Rightarrow> bool" where
  "value_id tid \<longleftrightarrow> tid = void_type_id \<or> builtin_kind tid \<noteq> void_kind"

fun proper :: "ndt \<Rightarrow> bool" where
  "proper (builtin_type tid) = value_id tid"
| "proper (bytes_type _) = True"
| "proper (fixed_bytes_type _ _) = True"
| "proper (char_type _) = True"
| "proper (string_type _) = True"
| "proper (fixed_string_type _ _) = True"
| "proper date_type = True"
| "proper (time_type _) = True"
| "proper (datetime_type _) = True"
| "proper json_type = True"
| "proper (pointer_type t) = (proper t \<and> make_pointer t = Inr (pointer_type t))"
| "proper (fixed_dim_type _ t) = proper t"
| "proper (var_dim_type t) = proper t"
| "proper (struct_type names ts variadic) = (\<not> variadic \<and> length names = length ts \<and> list_all proper ts)"
| "proper (tuple_type ts variadic) = (\<not> variadic \<and> list_all proper ts)"
| "proper (option_type t) = (proper t \<and> make_option t = Inr (option_type t))"
| "proper _ = False"

text \<open>
  The number of dimensions of what an exact pattern matches is its own. A power takes any number of dimensions, so that
  there is at most one in a row of dimensions.
\<close>

fun exact :: "ndt \<Rightarrow> bool" where
  "exact (pow_dimsym_type _ _ _) = False"
| "exact (fixed_dim_type _ t) = exact t"
| "exact (var_dim_type t) = exact t"
| "exact (typevar_dim_type _ t) = exact t"
| "exact (pointer_type t) = exact t"
| "exact (option_type t) = exact t"
| "exact _ = True"

fun value_pattern :: "ndt \<Rightarrow> bool" where
  "value_pattern (builtin_type tid) = value_id tid"
| "value_pattern (bytes_type _) = True"
| "value_pattern (fixed_bytes_type _ _) = True"
| "value_pattern (char_type _) = True"
| "value_pattern (string_type _) = True"
| "value_pattern (fixed_string_type _ _) = True"
| "value_pattern date_type = True"
| "value_pattern (time_type _) = True"
| "value_pattern (datetime_type _) = True"
| "value_pattern json_type = True"
| "value_pattern (pointer_type t) = value_pattern t"
| "value_pattern (fixed_dim_type _ t) = value_pattern t"
| "value_pattern (var_dim_type t) = value_pattern t"
| "value_pattern (struct_type names ts variadic) = (\<not> variadic \<and> length names = length ts \<and> list_all value_pattern ts)"
| "value_pattern (tuple_type ts variadic) = (\<not> variadic \<and> list_all value_pattern ts)"
| "value_pattern (option_type t) = value_pattern t"
| "value_pattern (typevar_type _) = True"
| "value_pattern (typevar_dim_type _ t) = value_pattern t"
| "value_pattern (pow_dimsym_type b _ t) =
     (value_pattern t \<and> exact t
      \<and> (case b of fixed_dim_type _ _ \<Rightarrow> True | var_dim_type _ \<Rightarrow> True | typevar_dim_type _ _ \<Rightarrow> True | _ \<Rightarrow> False))"
| "value_pattern _ = False"

text \<open>Objects that are the same are equal, and a builtin type is one object.\<close>

definition sane :: "match_env \<Rightarrow> bool" where
  "sane env \<longleftrightarrow> (\<forall>t u. same_object env t u \<longrightarrow> t = u) \<and> (\<forall>tid. same_object env (builtin_type tid) (builtin_type tid))"

lemma not_value_id [simp]:
  "\<not> value_id uninitialized_type_id" "\<not> value_id any_sym_type_id" "\<not> value_id arrfunc_type_id"
  "\<not> value_id dim_fragment_type_id" "\<not> value_id fixed_dim_type_id" "\<not> value_id var_dim_type_id"
  by (simp_all add: value_id_def)

lemma proper_concrete: "proper t \<Longrightarrow> \<not> is_symbolic t"
  by (induction t rule: proper.induct) (auto simp: list_all_iff list_ex_iff)

lemma proper_not_null: "proper t \<Longrightarrow> t \<noteq> null_type"
  by auto

lemma proper_not [simp]:
  "\<not> proper null_type" "\<not> proper any_sym_type" "\<not> proper (fixed_dim_kind_type u)" "\<not> proper (dim_fragment_type dims)"
  "\<not> proper (arrfunc_type ps pv names ks kv ret)"
  by simp_all

lemma proper_ids:
  assumes "proper t"
  shows "get_type_id t \<noteq> any_sym_type_id \<and> get_type_id t \<noteq> arrfunc_type_id \<and> get_type_id t \<noteq> dim_fragment_type_id"
  using assms by (cases t) auto

lemma type_eq_fields:
  "\<forall>t\<in>set ts. \<forall>u. proper u \<longrightarrow> type_eq t u \<longleftrightarrow> t = u \<Longrightarrow> list_all proper us \<Longrightarrow> list_all2 type_eq ts us \<longleftrightarrow> ts = us"
proof (induction ts arbitrary: us)
  case (Cons t ts)
  then show ?case by (cases us) auto
qed auto

lemma type_eq_proper: "proper u \<Longrightarrow> type_eq t u \<longleftrightarrow> t = u"
proof (induction t arbitrary: u)
  case (struct_type names ts variadic)
  then have "list_all proper us \<Longrightarrow> list_all2 type_eq ts us \<longleftrightarrow> ts = us" for us
    by (intro type_eq_fields) auto
  then show ?case using struct_type.prems by (cases u) auto
next
  case (tuple_type ts variadic)
  then have "list_all proper us \<Longrightarrow> list_all2 type_eq ts us \<longleftrightarrow> ts = us" for us
    by (intro type_eq_fields) auto
  then show ?case using tuple_type.prems by (cases u) auto
next
  case (arrfunc_type ps pv names ks kv ret)
  then show ?case by (cases u) simp_all
qed (case_tac u; auto)+

section \<open>Substitution of what was found\<close>

text \<open>The type variables found so far have proper types.\<close>

definition found :: "typevars \<Rightarrow> bool" where
  "found vars \<longleftrightarrow> (\<forall>name t. vars name = Some t \<longrightarrow> proper t)"

lemma found_upd: "found vars \<Longrightarrow> proper t \<Longrightarrow> found (vars(name \<mapsto> t))"
  by (simp add: found_def)

lemma found_known: "found vars \<Longrightarrow> known vars name = null_type \<longleftrightarrow> vars name = None"
  using proper_not(1) unfolding found_def known_def by (cases "vars name") force+

lemma found_some: "found vars \<Longrightarrow> known vars name = t \<Longrightarrow> t \<noteq> null_type \<Longrightarrow> vars name = Some t \<and> proper t"
  unfolding found_def known_def by (cases "vars name") auto

lemma extends_upd: "vars name = None \<Longrightarrow> vars \<subseteq>\<^sub>m vars(name \<mapsto> t)"
  by (auto simp: map_le_def)

lemma extends_some: "vars \<subseteq>\<^sub>m \<sigma> \<Longrightarrow> vars name = Some t \<Longrightarrow> \<sigma> name = Some t"
  by (metis domI map_le_def)

text \<open>Every substitution that agrees with the type variables gives the type.\<close>

definition gives :: "typevars \<Rightarrow> ndt \<Rightarrow> ndt \<Rightarrow> bool" where
  "gives vars p c \<longleftrightarrow> (\<forall>\<sigma> j. vars \<subseteq>\<^sub>m \<sigma> \<longrightarrow> nodes p \<le> j \<longrightarrow> substitute j \<sigma> True p = Inr c)"

lemma gives_extend: "gives vars p c \<Longrightarrow> vars \<subseteq>\<^sub>m vars' \<Longrightarrow> gives vars' p c"
  by (auto simp: gives_def intro: map_le_trans)

lemma substitute_concrete:
  "\<not> is_symbolic p \<Longrightarrow> get_type_id p \<noteq> arrfunc_type_id \<Longrightarrow> 0 < j \<Longrightarrow> substitute j \<sigma> conc p = Inr p"
  by (cases j) simp_all

lemma gives_self: "proper c \<Longrightarrow> gives vars c c"
  unfolding gives_def using substitute_concrete[of c] proper_concrete proper_ids[of c] nodes_positive[of c]
  by (auto intro: less_le_trans)

text \<open>A constructor is put around what is given, whether or not the part has type variables.\<close>

lemma gives_part:
  assumes "gives vars p c" "nodes q = Suc (nodes p)" "is_symbolic q \<longleftrightarrow> is_symbolic p" "get_type_id q \<noteq> arrfunc_type_id"
    and sub: "\<And>\<sigma> sub. sub p = Inr c \<Longrightarrow> internal_substitute sub \<sigma> True q = Inr d"
    and "\<not> is_symbolic p \<Longrightarrow> p = c \<Longrightarrow> q = d" "get_type_id p \<noteq> arrfunc_type_id"
  shows "gives vars q d"
  unfolding gives_def
proof (intro allI impI)
  fix \<sigma> j assume s: "vars \<subseteq>\<^sub>m \<sigma>" and j: "nodes q \<le> j"
  obtain i where i: "j = Suc i" "nodes p \<le> i" using j assms(2) by (cases j) auto
  have p: "substitute i \<sigma> True p = Inr c" using assms(1) s i(2) by (simp add: gives_def)
  show "substitute j \<sigma> True q = Inr d"
  proof (cases "is_symbolic p")
    case True
    then show ?thesis using assms(3) sub[of "substitute i \<sigma> True"] p i by simp
  next
    case False
    then have "p = c" using substitute_concrete[of p i \<sigma> True] assms(7) p i(2) nodes_positive[of p] by simp
    then show ?thesis using False assms(3,4,6) i by simp
  qed
qed

end
