(* ===== verification/Match_Sound.thy ===== *)
theory Match_Sound
  imports Match_Correct
begin

text \<open>
  What a successful match finds for the type variables gives the candidate back when it is substituted into the pattern.
  The locale \<open>sound_matcher\<close> says what the match of a class needs of the matching of its parts; it is interpreted for
  every depth of \<^verbatim>\<open>type::match\<close>.
\<close>

section \<open>What a match settles\<close>

fun has_tuple :: "ndt \<Rightarrow> bool" where
  "has_tuple (tuple_type _ _) = True"
| "has_tuple (struct_type _ ts _) = list_ex has_tuple ts"
| "has_tuple (pointer_type t) = has_tuple t"
| "has_tuple (option_type t) = has_tuple t"
| "has_tuple (fixed_dim_type _ t) = has_tuple t"
| "has_tuple (var_dim_type t) = has_tuple t"
| "has_tuple (typevar_dim_type _ t) = has_tuple t"
| "has_tuple (pow_dimsym_type _ _ t) = has_tuple t"
| "has_tuple _ = False"

fun has_struct :: "ndt \<Rightarrow> bool" where
  "has_struct (struct_type _ _ _) = True"
| "has_struct (tuple_type ts _) = list_ex has_struct ts"
| "has_struct (pointer_type t) = has_struct t"
| "has_struct (option_type t) = has_struct t"
| "has_struct (fixed_dim_type _ t) = has_struct t"
| "has_struct (var_dim_type t) = has_struct t"
| "has_struct _ = False"

text \<open>A pattern of the kind that is settled, and a candidate that it can be matched against.\<close>

definition fit :: "ndt \<Rightarrow> ndt \<Rightarrow> bool" where
  "fit p c \<longleftrightarrow> value_pattern p \<and> proper c \<and> \<not> (has_tuple p \<and> has_struct c)"

definition settles :: "typevars \<Rightarrow> typevars \<Rightarrow> ndt \<Rightarrow> ndt \<Rightarrow> bool" where
  "settles vars vars' p c \<longleftrightarrow>
     found vars' \<and> vars \<subseteq>\<^sub>m vars' \<and> gives vars' p c \<and> (exact p \<longrightarrow> get_ndim c = get_ndim p)"

lemma fit_proper: "fit p c \<Longrightarrow> proper c"
  by (simp add: fit_def)

lemma value_pattern_ids: "value_pattern p \<Longrightarrow> get_type_id p \<noteq> arrfunc_type_id"
  by (cases p) auto

lemma settles_self: "fit p c \<Longrightarrow> found vars \<Longrightarrow> p = c \<Longrightarrow> settles vars vars p c"
  by (simp add: settles_def fit_def gives_self)

text \<open>Around a part that is settled, a constructor is.\<close>

lemma settles_part:
  assumes "settles vars vars' p c" "nodes q = Suc (nodes p)" "is_symbolic q \<longleftrightarrow> is_symbolic p"
    and "get_type_id q \<noteq> arrfunc_type_id" "get_type_id p \<noteq> arrfunc_type_id"
    and "\<And>\<sigma> sub. sub p = Inr c \<Longrightarrow> internal_substitute sub \<sigma> True q = Inr d"
    and "\<not> is_symbolic p \<Longrightarrow> p = c \<Longrightarrow> q = d"
    and "exact q \<Longrightarrow> exact p \<and> get_ndim d - get_ndim c = get_ndim q - get_ndim p"
  shows "settles vars vars' q d"
proof -
  have "gives vars' q d"
    using assms(1) by (intro gives_part[OF _ assms(2-4,6,7,5)]) (simp_all add: settles_def)
  then show ?thesis using assms(1,8) by (auto simp: settles_def)
qed

text \<open>A type variable for dimensions, or a power, is put in by what the type variables say.\<close>

lemma gives_symbolic:
  assumes "gives vars p c" "nodes p < nodes q" "is_symbolic q"
    and sub: "\<And>\<sigma> sub. vars \<subseteq>\<^sub>m \<sigma> \<Longrightarrow> sub p = Inr c \<Longrightarrow> internal_substitute sub \<sigma> True q = Inr d"
  shows "gives vars q d"
  unfolding gives_def
proof (intro allI impI)
  fix \<sigma> j assume s: "vars \<subseteq>\<^sub>m \<sigma>" and j: "nodes q \<le> j"
  obtain i where i: "j = Suc i" "nodes p \<le> i" using j assms(2) by (cases j) auto
  then show "substitute j \<sigma> True q = Inr d"
    using assms(1,3) sub[of \<sigma> "substitute i \<sigma> True"] s by (simp add: gives_def)
qed

lemma gives_leaf:
  assumes "is_symbolic q" and sub: "\<And>\<sigma> sub. vars \<subseteq>\<^sub>m \<sigma> \<Longrightarrow> internal_substitute sub \<sigma> True q = Inr d"
  shows "gives vars q d"
  unfolding gives_def
proof (intro allI impI)
  fix \<sigma> j assume s: "vars \<subseteq>\<^sub>m \<sigma>" and j: "nodes q \<le> j"
  obtain i where "j = Suc i" using j nodes_positive[of q] by (cases j) auto
  then show "substitute j \<sigma> True q = Inr d" using assms(1) sub s by simp
qed

section \<open>Fields\<close>

definition settles_all :: "typevars \<Rightarrow> typevars \<Rightarrow> ndt list \<Rightarrow> ndt list \<Rightarrow> bool" where
  "settles_all vars vars' ps cs \<longleftrightarrow> found vars' \<and> vars \<subseteq>\<^sub>m vars' \<and> list_all2 (gives vars') ps cs"

lemma substitute_array:
  "list_all2 (\<lambda>p c. sub p = Inr c) ps cs \<Longrightarrow> substitute_type_array sub ps = Inr cs"
  by (induction ps cs rule: list_all2_induct) (simp_all add: bind_made_def)

lemma gives_fields:
  assumes "list_all2 (gives vars) ps cs" "list_all value_pattern ps" "nodes q = Suc (sum_list (map nodes ps))"
    and "is_symbolic q \<longleftrightarrow> list_ex is_symbolic ps" "get_type_id q \<noteq> arrfunc_type_id"
    and sub: "\<And>\<sigma> sub. substitute_type_array sub ps = Inr cs \<Longrightarrow> internal_substitute sub \<sigma> True q = Inr d"
    and "ps = cs \<Longrightarrow> q = d"
  shows "gives vars q d"
  unfolding gives_def
proof (intro allI impI)
  fix \<sigma> j assume s: "vars \<subseteq>\<^sub>m \<sigma>" and j: "nodes q \<le> j"
  obtain i where i: "j = Suc i" "sum_list (map nodes ps) \<le> i" using j assms(3) by (cases j) auto
  have each: "list_all2 (\<lambda>p c. substitute i \<sigma> True p = Inr c) ps cs"
    using assms(1)
  proof (rule list.rel_mono_strong)
    fix p c assume "p \<in> set ps" "gives vars p c"
    then show "substitute i \<sigma> True p = Inr c"
      using i(2) nodes_member[of p ps] s by (auto simp: gives_def)
  qed
  show "substitute j \<sigma> True q = Inr d"
  proof (cases "list_ex is_symbolic ps")
    case True
    then show ?thesis using sub[OF substitute_array[OF each]] i assms(4) by simp
  next
    case False
    have "list_all2 (=) ps cs"
      using each
    proof (rule list.rel_mono_strong)
      fix p c assume p: "p \<in> set ps" and "substitute i \<sigma> True p = Inr c"
      moreover have "substitute i \<sigma> True p = Inr p"
        using p False assms(2) i(2) nodes_member[of p ps] nodes_positive[of p]
        by (intro substitute_concrete) (auto simp: list_ex_iff list_all_iff dest: value_pattern_ids)
      ultimately show "p = c" by simp
    qed
    then show ?thesis using False assms(4,5,7) i by (simp add: list.rel_eq)
  qed
qed

section \<open>The classes\<close>

lemma and_match_iff: "and_match r f = Inr (True, vars'') \<longleftrightarrow> (\<exists>vars'. r = Inr (True, vars') \<and> f vars' = Inr (True, vars''))"
  by (auto simp: and_match_def bind_Inr_iff no_match_def split: if_splits)

lemma no_match_iff [simp]: "no_match vars \<noteq> Inr (True, vars')"
  by (simp add: no_match_def)

lemma settles_known:
  "settles vars vars' p c \<Longrightarrow> vars name = Some t \<Longrightarrow> vars' \<subseteq>\<^sub>m \<sigma> \<Longrightarrow> \<sigma> name = Some t"
  using extends_some[of vars vars' name t] extends_some[of vars' \<sigma> name t] by (simp add: settles_def)

text \<open>A type variable that is not known is added first.\<close>

lemma settles_added:
  "settles (vars(name \<mapsto> t)) vars' p c \<Longrightarrow> vars name = None \<Longrightarrow> settles vars vars' p c"
  using extends_upd[of vars name t] by (auto simp: settles_def intro: map_le_trans)

lemma proper_element: "proper c \<Longrightarrow> is_dim c \<Longrightarrow> proper (get_element_type c) \<and> get_ndim c = 1 + get_ndim (get_element_type c)"
  by (cases c) auto

lemma element_fit:
  assumes "fit (typevar_dim_type name t) c" "is_dim c" shows "fit t (get_element_type c)"
  using assms by (cases c) (auto simp: fit_def)

lemma at_first_dimension:
  assumes "proper c" "is_dim c" shows "get_type_at_dimension c 1 = Inr (get_element_type c)"
proof -
  have z: "proper t \<Longrightarrow> get_type_at_dimension t 0 = Inr t" for t by (cases t) auto
  show ?thesis using assms z by (cases c) auto
qed

lemma match_typevar_proper:
  "proper c \<Longrightarrow> match_typevar_type name c vars =
     (if get_ndim c > 0 then no_match vars
      else if known vars name = null_type then Inr (True, vars(name \<mapsto> c))
      else Inr (type_eq c (known vars name), vars))"
  using proper_ids[of c] by (cases c) (simp_all add: match_typevar_type_def)

locale sound_matcher =
  fixes m :: matcher
  assumes settled: "fit p c \<Longrightarrow> found vars \<Longrightarrow> m p c vars = Inr (True, vars') \<Longrightarrow> settles vars vars' p c"
begin

lemma fields_settled:
  assumes "match_fields m ps cs vars = Inr (True, vars')" "length ps = length cs" "found vars"
    and "\<And>p c. p \<in> set ps \<Longrightarrow> c \<in> set cs \<Longrightarrow> fit p c"
  shows "settles_all vars vars' ps cs"
  using assms
proof (induction ps arbitrary: cs vars)
  case Nil
  then show ?case by (simp add: settles_all_def)
next
  case (Cons p ps)
  obtain c cs' where cs: "cs = c # cs'" using Cons.prems(2) by (cases cs) auto
  obtain v where v: "m p c vars = Inr (True, v)" "match_fields m ps cs' v = Inr (True, vars')"
    using Cons.prems(1) cs by (auto simp: and_match_iff)
  have a: "settles vars v p c" using v(1) Cons.prems cs by (intro settled) auto
  moreover have "settles_all v vars' ps cs'"
    using v(2) Cons.prems cs a by (intro Cons.IH) (auto simp: settles_def)
  ultimately show ?case
    unfolding settles_def settles_all_def cs by (auto intro: map_le_trans gives_extend)
qed

lemma pointer_settled:
  assumes "fit (pointer_type t) c" "found vars" "match_pointer_type m t c vars = Inr (True, vars')"
  shows "settles vars vars' (pointer_type t) c"
proof -
  obtain c' where c: "c = pointer_type c'" "m t c' vars = Inr (True, vars')"
    using assms(3) by (cases c) (auto simp: match_pointer_type_def)
  have "settles vars vars' t c'" using assms c by (intro settled) (auto simp: fit_def)
  then show ?thesis
    using assms(1) c value_pattern_ids[of t]
    by (rule_tac settles_part) (auto simp: fit_def internal_substitute_def bind_made_def raising_def)
qed

lemma option_settled:
  assumes "fit (option_type t) c" "found vars" "match_option_type m t c vars = Inr (True, vars')"
  shows "settles vars vars' (option_type t) c"
proof -
  obtain c' where c: "c = option_type c'" "m t c' vars = Inr (True, vars')"
    using assms(3) by (cases c) (auto simp: match_option_type_def)
  have "settles vars vars' t c'" using assms c by (intro settled) (auto simp: fit_def)
  then show ?thesis
    using assms(1) c value_pattern_ids[of t]
    by (rule_tac settles_part) (auto simp: fit_def internal_substitute_def bind_made_def raising_def)
qed

lemma fixed_dim_settled:
  assumes "fit (fixed_dim_type n t) c" "found vars" "match_fixed_dim_type m n t c vars = Inr (True, vars')"
  shows "settles vars vars' (fixed_dim_type n t) c"
proof -
  obtain c' where c: "c = fixed_dim_type n c'" "m t c' vars = Inr (True, vars')"
    using assms(3) by (cases c) (auto simp: match_fixed_dim_type_def split: if_splits)
  have "settles vars vars' t c'" using assms c by (intro settled) (auto simp: fit_def)
  then show ?thesis
    using assms(1) c value_pattern_ids[of t]
    by (rule_tac settles_part) (auto simp: fit_def internal_substitute_def bind_made_def)
qed

lemma var_dim_settled:
  assumes "fit (var_dim_type t) c" "found vars" "match_base_dim_type m (var_dim_type t) c vars = Inr (True, vars')"
  shows "settles vars vars' (var_dim_type t) c"
proof -
  obtain c' where c: "c = var_dim_type c'" "m t c' vars = Inr (True, vars')"
    using assms(1,3) by (cases c) (auto simp: match_base_dim_type_def fit_def split: if_splits)
  have "settles vars vars' t c'" using assms c by (intro settled) (auto simp: fit_def)
  then show ?thesis
    using assms(1) c value_pattern_ids[of t]
    by (rule_tac settles_part) (auto simp: fit_def internal_substitute_def bind_made_def)
qed

lemma struct_settled:
  assumes "fit (struct_type names ps variadic) c" "found vars" "match_struct_type m names ps variadic c vars = Inr (True, vars')"
  shows "settles vars vars' (struct_type names ps variadic) c"
proof -
  obtain cs where c: "c = struct_type names cs False" "match_fields m ps cs vars = Inr (True, vars')" "length ps = length cs"
    using assms(1,3) by (cases c) (auto simp: match_struct_type_def counts_match_def fit_def split: if_splits)
  have "settles_all vars vars' ps cs"
    using assms(1,2) c by (intro fields_settled) (auto simp: fit_def list_all_iff list_ex_iff)
  moreover have "gives vars' (struct_type names ps variadic) c"
    if "list_all2 (gives vars') ps cs"
    using that assms(1) c
    by (rule_tac gives_fields)
      (auto simp: fit_def internal_substitute_def bind_made_def raising_def make_struct_def)
  ultimately show ?thesis using c by (simp add: settles_def settles_all_def)
qed

lemma tuple_settled:
  assumes "fit (tuple_type ps variadic) c" "found vars" "match_tuple_type m ps variadic c vars = Inr (True, vars')"
  shows "settles vars vars' (tuple_type ps variadic) c"
proof -
  obtain cs where c: "c = tuple_type cs False" "match_fields m ps cs vars = Inr (True, vars')" "length ps = length cs"
    using assms(1,3) by (cases c) (auto simp: match_tuple_type_def counts_match_def fit_def split: if_splits)
  have "settles_all vars vars' ps cs"
    using assms(1,2) c by (intro fields_settled) (auto simp: fit_def list_all_iff list_ex_iff)
  moreover have "gives vars' (tuple_type ps variadic) c"
    if "list_all2 (gives vars') ps cs"
    using that assms(1) c
    by (rule_tac gives_fields) (auto simp: fit_def internal_substitute_def bind_made_def)
  ultimately show ?thesis using c by (simp add: settles_def settles_all_def)
qed

lemma typevar_settled:
  assumes "fit (typevar_type name) c" "found vars" "match_typevar_type name c vars = Inr (True, vars')"
  shows "settles vars vars' (typevar_type name) c"
proof -
  have p: "proper c" using assms(1) by (simp add: fit_def)
  note cases = assms(3)[unfolded match_typevar_proper[OF p] found_known[OF assms(2)]]
  have nd: "get_ndim c = 0" using cases get_ndim_nonneg[of c] by (simp split: if_splits)
  have r: "found vars' \<and> vars \<subseteq>\<^sub>m vars' \<and> vars' name = Some c"
  proof (cases "vars name")
    case None
    then show ?thesis using cases nd p assms(2) by (auto simp: found_upd extends_upd)
  next
    case (Some d)
    then have "proper d" "known vars name = d" using assms(2) by (auto simp: found_def known_def)
    then show ?thesis using cases nd Some assms(2) by (auto simp: type_eq_proper)
  qed
  then have "gives vars' (typevar_type name) c"
    using nd proper_concrete[OF p]
    by (intro gives_leaf) (auto simp: internal_substitute_def substitute_typevar_def dest: extends_some)
  then show ?thesis using r nd by (simp add: settles_def)
qed

end

section \<open>Type variables for dimensions\<close>

definition same_dim :: "ndt \<Rightarrow> ndt \<Rightarrow> bool" where
  "same_dim d c \<longleftrightarrow>
     (case d of
        fixed_dim_type n _ \<Rightarrow> (case c of fixed_dim_type n' _ \<Rightarrow> n = n' | _ \<Rightarrow> False)
      | var_dim_type _ \<Rightarrow> (case c of var_dim_type _ \<Rightarrow> True | _ \<Rightarrow> False)
      | _ \<Rightarrow> False)"

lemma same_dim_iff:
  "same_dim d c \<longleftrightarrow>
     (\<exists>n e e'. d = fixed_dim_type n e \<and> c = fixed_dim_type n e') \<or> (\<exists>e e'. d = var_dim_type e \<and> c = var_dim_type e')"
  unfolding same_dim_def by (cases d; simp; cases c; auto)

lemma proper_dim: "proper c \<Longrightarrow> is_dim c \<Longrightarrow> (\<exists>n e. c = fixed_dim_type n e) \<or> (\<exists>e. c = var_dim_type e)"
  by (cases c) simp_all

lemma proper_dim_id:
  assumes "proper d" "get_type_id d = fixed_dim_type_id \<or> get_type_id d = var_dim_type_id"
  shows "(\<exists>n e. d = fixed_dim_type n e) \<or> (\<exists>e. d = var_dim_type e)"
  using assms by (cases d) auto

lemma same_dim_self: "proper c \<Longrightarrow> is_dim c \<Longrightarrow> same_dim c c"
  using proper_dim[of c] by (auto simp: same_dim_iff)

lemma substitute_same_dim:
  assumes "same_dim d c" "proper d" "\<sigma> name = Some d" "sub t = Inr (get_element_type c)"
  shows "substitute_typevar_dim sub \<sigma> True name t = Inr c"
  using assms proper_concrete[OF assms(2)] get_ndim_nonneg[of "get_element_type d"]
  by (auto simp: same_dim_iff substitute_typevar_dim_def bind_made_def)

lemma match_typevar_dim_known:
  assumes "proper c" "proper d" "vars name = Some d" "match_typevar_dim_type m name t c vars = Inr (True, vars')"
  shows "is_dim c \<and> same_dim d c \<and> m t (get_element_type c) vars = Inr (True, vars')"
proof -
  have d: "known vars name = d" "d \<noteq> null_type" using assms(2,3) by (auto simp: known_def)
  have dim: "is_dim c" using assms(4) by (auto simp: match_typevar_dim_type_def split: if_splits)
  have e: "get_type_at_dimension c (Suc 0) = Inr (get_element_type c)"
    using at_first_dimension[OF assms(1) dim] by simp
  have id: "get_type_id c = get_type_id d"
    using assms(4) d dim by (auto simp: match_typevar_dim_type_def Let_def split: if_splits)
  show ?thesis
    using proper_dim[OF assms(1) dim]
  proof (elim disjE exE)
    fix n e' assume c: "c = fixed_dim_type n e'"
    then obtain n' e'' where "d = fixed_dim_type n' e''" using id assms(2) proper_dim_id[of d] by auto
    then show ?thesis
      using c d e assms(4) by (auto simp: match_typevar_dim_type_def Let_def same_dim_iff bind_made_def split: if_splits)
  next
    fix e' assume c: "c = var_dim_type e'"
    then obtain e'' where "d = var_dim_type e''" using id assms(2) proper_dim_id[of d] by auto
    then show ?thesis
      using c d e assms(4) by (auto simp: match_typevar_dim_type_def Let_def same_dim_iff bind_made_def split: if_splits)
  qed
qed

lemma match_typevar_dim_new:
  assumes "proper c" "known vars name = null_type" "match_typevar_dim_type m name t c vars = Inr (True, vars')"
  shows "is_dim c \<and> m t (get_element_type c) (vars(name \<mapsto> c)) = Inr (True, vars')"
  using assms at_first_dimension[OF assms(1)]
  by (auto simp: match_typevar_dim_type_def bind_made_def split: if_splits)

context sound_matcher begin

lemma typevar_dim_settled:
  assumes "fit (typevar_dim_type name t) c" "found vars" "match_typevar_dim_type m name t c vars = Inr (True, vars')"
  shows "settles vars vars' (typevar_dim_type name t) c"
proof -
  have p: "proper c" using assms(1) by (simp add: fit_def)
  obtain v d where v: "is_dim c" "same_dim d c" "proper d" "v name = Some d" "m t (get_element_type c) v = Inr (True, vars')"
    "found v" "vars \<subseteq>\<^sub>m v"
  proof (cases "vars name")
    case None
    then show ?thesis
      using match_typevar_dim_new[OF p _ assms(3)] found_known[OF assms(2)] same_dim_self[OF p] p assms(2)
      by (intro that[of c "vars(name \<mapsto> c)"]) (auto simp: found_upd extends_upd)
  next
    case (Some d)
    then have "proper d" using assms(2) by (auto simp: found_def)
    then show ?thesis using match_typevar_dim_known[OF p _ Some assms(3)] assms(2) Some by (intro that[of d vars]) auto
  qed
  have e: "settles v vars' t (get_element_type c)"
    using assms(1) v by (intro settled) (auto intro: element_fit)
  have "gives vars' (typevar_dim_type name t) c"
  proof (rule gives_symbolic)
    fix \<sigma> and sub :: substituter assume "vars' \<subseteq>\<^sub>m \<sigma>" "sub t = Inr (get_element_type c)"
    then show "internal_substitute sub \<sigma> True (typevar_dim_type name t) = Inr c"
      using v(2,3) settles_known[OF e v(4)] by (simp add: internal_substitute_def substitute_same_dim)
  qed (use e in \<open>auto simp: settles_def\<close>)
  then show ?thesis
    using e v(7) proper_element[OF p v(1)] by (auto simp: settles_def intro: map_le_trans)
qed

end

section \<open>Powers\<close>

text \<open>The dimensions that are put in front by a power, when those of the candidate are behind the base.\<close>

lemma behind_fixed_power: "behind_fixed n k c = Inr (Some c') \<Longrightarrow> (fixed_dim_type n ^^ k) c' = c"
  by (induction n k c rule: behind_fixed.induct) (auto split: ndt.splits if_splits)

lemma behind_var_ndim: "get_ndim c \<le> get_ndim (behind_var k c) + int k"
proof (induction k c rule: behind_var.induct)
  case (2 k c)
  then show ?case by (cases c) auto
qed simp

lemma behind_var_power: "get_ndim c = get_ndim (behind_var k c) + int k \<Longrightarrow> (var_dim_type ^^ k) (behind_var k c) = c"
proof (induction k c rule: behind_var.induct)
  case (2 k c)
  show ?case
  proof (cases c)
    case (var_dim_type c')
    then show ?thesis using 2 by simp
  qed (use 2 behind_var_ndim[of c k] in simp_all)
qed simp

definition part_of :: "ndt \<Rightarrow> ndt \<Rightarrow> bool" where
  "part_of c' c \<longleftrightarrow> (proper c \<longrightarrow> proper c') \<and> (\<not> has_struct c \<longrightarrow> \<not> has_struct c')"

lemma part_behind_fixed: "behind_fixed n k c = Inr (Some c') \<Longrightarrow> part_of c' c"
  by (induction n k c rule: behind_fixed.induct) (auto simp: part_of_def split: ndt.splits if_splits)

lemma part_behind_var: "part_of (behind_var k c) c"
proof (induction k c rule: behind_var.induct)
  case (2 k c)
  then show ?case by (cases c) (auto simp: part_of_def)
qed (simp add: part_of_def)

text \<open>A base for which a power is settled, and what it was in the pattern.\<close>

definition dim_base :: "ndt \<Rightarrow> bool" where
  "dim_base b \<longleftrightarrow> (case b of fixed_dim_type _ _ \<Rightarrow> True | var_dim_type _ \<Rightarrow> True | _ \<Rightarrow> False)"

lemma behind_base_dim:
  assumes "behind_base b k c = Inr (Some c')" "proper b \<or> dim_base b"
  shows "dim_base b \<and> part_of c' c"
  using assms part_behind_fixed part_behind_var
  by (cases b) (auto simp: behind_base_def dim_base_def)

lemma behind_base_power:
  assumes "behind_base b k c = Inr (Some c')" "dim_base b" "get_ndim c = get_ndim c' + int k"
  shows "apply_power True b k c' = Inr c"
  using assms behind_fixed_power behind_var_power
  by (cases b) (auto simp: behind_base_def dim_base_def apply_power_def)

text \<open>The base that is used, and that a substitution puts in.\<close>

definition base_used :: "typevars \<Rightarrow> typevars \<Rightarrow> ndt \<Rightarrow> ndt \<Rightarrow> ndt \<Rightarrow> bool" where
  "base_used vars vars' b c b' \<longleftrightarrow>
     found vars' \<and> vars \<subseteq>\<^sub>m vars' \<and> (proper b' \<or> dim_base b')
     \<and> (\<forall>\<sigma>. vars' \<subseteq>\<^sub>m \<sigma> \<longrightarrow> substitute_base \<sigma> True b = Inr b')"

lemma base_used_dim: "found vars \<Longrightarrow> dim_base b \<Longrightarrow> base_used vars vars b c b"
  by (cases b) (auto simp: base_used_def dim_base_def substitute_base_def)

lemma base_used_typevar:
  assumes "found vars'" "vars \<subseteq>\<^sub>m vars'" "vars' name = Some d" "proper d" "0 < get_ndim d"
  shows "base_used vars vars' (typevar_dim_type name t) c d"
proof -
  have "substitute_base \<sigma> True (typevar_dim_type name t) = Inr d" if "vars' \<subseteq>\<^sub>m \<sigma>" for \<sigma>
    using extends_some[OF that assms(3)] assms(4,5) proper_ids[of d] by (simp add: substitute_base_def)
  then show ?thesis using assms by (simp add: base_used_def)
qed

lemma match_pow_base_cases:
  assumes "value_pattern (pow_dimsym_type b e t)" "proper c" "found vars" "0 < k" "0 < get_ndim c"
    and "match_pow_base m b t c k vars = Inr (True, vars')"
  obtains b' v c' where "base_used vars v b c b'" "behind_base b' (nat k) c = Inr (Some c')" "m t c' v = Inr (True, vars')"
proof -
  note goal = that
  have found_behind: thesis
    if "base_used vars v b c b'"
      and "bind_made (behind_base b' (nat k) c) (\<lambda>r. case r of None \<Rightarrow> no_match v | Some c \<Rightarrow> m t c v) = Inr (True, vars')" for v b'
    using that by (auto simp: bind_Inr_iff split: option.splits intro: goal)
  show thesis
  proof (cases "\<exists>name u. b = typevar_dim_type name u")
    case True
    then obtain name u where b: "b = typevar_dim_type name u" by auto
    note r = assms(6)[unfolded match_pow_base_def b Let_def ndt.case]
    show thesis
    proof (cases "vars name")
      case None
      then have "base_used vars (vars(name \<mapsto> c)) b c c"
        unfolding b using assms(2,3,5) by (intro base_used_typevar) (auto simp: found_upd extends_upd)
      then show thesis using r None assms(4) found_known[OF assms(3), of name] by (intro found_behind) (auto split: if_splits)
    next
      case (Some d)
      then have d: "known vars name = d" "proper d" using assms(3) by (auto simp: known_def found_def)
      then have n: "d \<noteq> null_type" by auto
      then have "0 < get_ndim d" using r d assms(4) by (auto split: if_splits)
      then have "base_used vars vars b c d"
        unfolding b using assms(3) Some d by (intro base_used_typevar) auto
      then show thesis using r d n assms(4) by (intro found_behind) (auto split: if_splits)
    qed
  next
    case False
    then have "dim_base b" using assms(1) by (cases b) (auto simp: dim_base_def)
    then show thesis
      using assms(4,6) False base_used_dim[OF assms(3), of b c]
      by (intro found_behind[of vars b]) (cases b; auto simp: match_pow_base_def dim_base_def)+
  qed
qed

lemma substitute_exponent_known:
  "\<sigma> e = Some (fixed_dim_type k u) \<Longrightarrow> substitute_exponent \<sigma> True e = Inr (k, e)"
  by (simp add: substitute_exponent_def)

context sound_matcher begin

text \<open>The exponent 0.\<close>

lemma pow_zero_settled:
  assumes "fit (pow_dimsym_type b e t) c" "found vars" "vars e = Some (fixed_dim_type 0 u)" "m t c vars = Inr (True, vars')"
  shows "settles vars vars' (pow_dimsym_type b e t) c"
proof -
  have s: "settles vars vars' t c" using assms by (intro settled) (auto simp: fit_def)
  have "gives vars' (pow_dimsym_type b e t) c"
  proof (rule gives_symbolic)
    fix \<sigma> and sub :: substituter assume "vars' \<subseteq>\<^sub>m \<sigma>" "sub t = Inr c"
    then show "internal_substitute sub \<sigma> True (pow_dimsym_type b e t) = Inr c"
      using substitute_exponent_known[of \<sigma> e 0 u] settles_known[OF s assms(3)]
      by (simp add: internal_substitute_def substitute_pow_dimsym_def bind_made_def)
  qed (use s in \<open>auto simp: settles_def\<close>)
  then show ?thesis using s by (simp add: settles_def)
qed

lemma pow_base_settled:
  assumes "fit (pow_dimsym_type b e t) c" "found vars" "vars e = Some (fixed_dim_type k u)" "k = get_ndim c - get_ndim t"
    and "match_pow_base m b t c k vars = Inr (True, vars')"
  shows "settles vars vars' (pow_dimsym_type b e t) c"
proof (cases "0 < k")
  case False
  then have "k = 0 \<and> m t c vars = Inr (True, vars')" using assms(5) by (auto simp: match_pow_base_def split: if_splits)
  then show ?thesis using assms by (intro pow_zero_settled) auto
next
  case True
  have p: "proper c" "value_pattern (pow_dimsym_type b e t)" "0 < get_ndim c"
    using assms(1,4) True get_ndim_nonneg[of t] by (auto simp: fit_def)
  obtain b' v c' where v: "base_used vars v b c b'" "behind_base b' (nat k) c = Inr (Some c')" "m t c' v = Inr (True, vars')"
    using match_pow_base_cases[OF p(2,1) assms(2) True p(3) assms(5)] by blast
  have b': "dim_base b'" "part_of c' c" using behind_base_dim[OF v(2)] v(1) by (auto simp: base_used_def)
  have s: "settles v vars' t c'"
    using assms(1) b'(2) v(1,3) by (intro settled) (auto simp: fit_def part_of_def base_used_def)
  have ndim: "get_ndim c = get_ndim c' + int (nat k)"
    using s p(2) assms(4) True by (simp add: settles_def)
  have "v e = Some (fixed_dim_type k u)" using v(1) assms(3) by (auto simp: base_used_def dest: extends_some)
  note known = settles_known[OF s this]
  have "gives vars' (pow_dimsym_type b e t) c"
  proof (rule gives_symbolic)
    fix \<sigma> and sub :: substituter assume sub: "vars' \<subseteq>\<^sub>m \<sigma>" "sub t = Inr c'"
    have "substitute_base \<sigma> True b = Inr b'"
      using v(1) s sub(1) by (auto simp: base_used_def settles_def intro: map_le_trans)
    then show "internal_substitute sub \<sigma> True (pow_dimsym_type b e t) = Inr c"
      using substitute_exponent_known[of \<sigma> e k u] known[OF sub(1)] sub(2) True behind_base_power[OF v(2) b'(1) ndim]
      by (simp add: internal_substitute_def substitute_pow_dimsym_def bind_made_def)
  qed (use s in \<open>auto simp: settles_def\<close>)
  then show ?thesis using s v(1) by (auto simp: settles_def base_used_def intro: map_le_trans)
qed

end

text \<open>The exponent is found from the number of dimensions, or is checked against it.\<close>

lemma found_entry: "found vars \<Longrightarrow> vars e = Some d \<Longrightarrow> known vars e = d \<and> proper d \<and> d \<noteq> null_type"
  using proper_not_null[of d] by (auto simp: known_def found_def)

context sound_matcher begin

lemma pow_scalar_settled:
  assumes "fit (pow_dimsym_type b e t) c" "found vars" "match_pow_scalar m e t c vars = Inr (True, vars')"
  shows "settles vars vars' (pow_dimsym_type b e t) c"
proof (cases "vars e")
  case None
  then have "m t c (vars(e \<mapsto> fixed_dim_type 0 void_type)) = Inr (True, vars')"
    using assms(3) found_known[OF assms(2), of e] by (simp add: match_pow_scalar_def split: if_splits)
  then have "settles (vars(e \<mapsto> fixed_dim_type 0 void_type)) vars' (pow_dimsym_type b e t) c"
    using assms(1,2) by (intro pow_zero_settled) (auto simp: found_upd value_id_def)
  then show ?thesis using None by (rule settles_added)
next
  case (Some d)
  note d = found_entry[OF assms(2) Some]
  obtain u where "d = fixed_dim_type 0 u" "m t c vars = Inr (True, vars')"
    using assms(3) d by (cases d) (auto simp: match_pow_scalar_def split: if_splits)
  then show ?thesis using assms(1,2) Some by (intro pow_zero_settled) auto
qed

lemma pow_general_settled:
  assumes "fit (pow_dimsym_type b e t) c" "found vars" "match_pow_general m b e t c vars = Inr (True, vars')"
  shows "settles vars vars' (pow_dimsym_type b e t) c"
proof (cases "vars e")
  case None
  then have "match_pow_base m b t c (get_ndim c - get_ndim t) (vars(e \<mapsto> fixed_dim_type (get_ndim c - get_ndim t) void_type))
      = Inr (True, vars')"
    using assms(3) found_known[OF assms(2), of e] by (simp add: match_pow_general_def Let_def)
  then have "settles (vars(e \<mapsto> fixed_dim_type (get_ndim c - get_ndim t) void_type)) vars' (pow_dimsym_type b e t) c"
    using assms(1,2) by (intro pow_base_settled) (auto simp: found_upd value_id_def)
  then show ?thesis using None by (rule settles_added)
next
  case (Some d)
  note d = found_entry[OF assms(2) Some]
  obtain u where "d = fixed_dim_type (get_ndim c - get_ndim t) u"
    "match_pow_base m b t c (get_ndim c - get_ndim t) vars = Inr (True, vars')"
    using assms(3) d by (cases d) (auto simp: match_pow_general_def Let_def split: if_splits)
  then show ?thesis using assms(1,2) Some by (intro pow_base_settled) auto
qed

lemma pow_settled:
  assumes "fit (pow_dimsym_type b e t) c" "found vars" "match_pow_dimsym_type m b e t c vars = Inr (True, vars')"
  shows "settles vars vars' (pow_dimsym_type b e t) c"
proof -
  have "match_pow_dimsym_type m b e t c vars =
      (if get_ndim c = 0 then match_pow_scalar m e t c vars else match_pow_general m b e t c vars)"
    using fit_proper[OF assms(1)] by (cases c) (simp_all add: match_pow_dimsym_type_def)
  then show ?thesis
    using assms pow_scalar_settled pow_general_settled by (auto split: if_splits)
qed

lemma equal_settled:
  assumes "fit p c" "found vars" "match_equal p c vars = Inr (True, vars')"
  shows "settles vars vars' p c"
  using assms by (auto simp: match_equal_def fit_def type_eq_proper intro!: settles_self)

lemma class_settled:
  assumes "fit p c" "found vars" "match_class env m p c vars = Inr (True, vars')"
  shows "settles vars vars' p c"
proof -
  have "value_pattern p" using assms(1) by (simp add: fit_def)
  note parts = assms(3)[unfolded match_class_def]
  note settled_class =
    pointer_settled option_settled fixed_dim_settled var_dim_settled struct_settled tuple_settled typevar_settled
    typevar_dim_settled pow_settled equal_settled
  show ?thesis
    using parts \<open>value_pattern p\<close> assms(1,2) settled_class by (cases p) (simp_all del: match_equal_def)
qed

end

lemma match_settles:
  assumes "sane env"
  shows "fit p c \<Longrightarrow> found vars \<Longrightarrow> match_type k env p c vars = Inr (True, vars') \<Longrightarrow> settles vars vars' p c"
proof (induction k arbitrary: p c vars vars')
  case (Suc k)
  have m: "sound_matcher (match_type k env)" by (rule sound_matcher.intro) (rule Suc.IH)
  have "p = c" if "same_object env p c" using assms that by (simp add: sane_def)
  then show ?case
    using Suc.prems sound_matcher.class_settled[OF m Suc.prems(1,2)] settles_self[OF Suc.prems(1,2)]
    by (auto split: if_splits)
qed simp

text \<open>For a comparison of objects that is right, the matching of the classes is sound at every depth.\<close>

definition by_value :: match_env where
  "by_value = \<lparr>same_object = (\<lambda>t u. t = u), uninit = (\<lambda>_. 0)\<rparr>"

lemma sane_by_value: "sane by_value"
  by (simp add: sane_def by_value_def)

interpretation matching: sound_matcher "match_type k by_value" for k
  by unfold_locales (rule match_settles[OF sane_by_value])


end
