(* ===== verification/Match_Complete.thy ===== *)
theory Match_Complete
  imports Match_Sound
begin

text \<open>
  A match that can succeed does: when some substitution gives the candidate, matching finds what is needed of it. Powers
  are left out. With \<open>Match_Sound\<close>, matching decides whether the candidate is an instance of the pattern.
\<close>

section \<open>Instances of a pattern\<close>

fun no_power :: "ndt \<Rightarrow> bool" where
  "no_power (pow_dimsym_type _ _ _) = False"
| "no_power (struct_type _ ts _) = list_all no_power ts"
| "no_power (tuple_type ts _) = list_all no_power ts"
| "no_power (pointer_type t) = no_power t"
| "no_power (option_type t) = no_power t"
| "no_power (fixed_dim_type _ t) = no_power t"
| "no_power (var_dim_type t) = no_power t"
| "no_power (typevar_dim_type _ t) = no_power t"
| "no_power _ = True"

definition puts :: "typevars \<Rightarrow> ndt \<Rightarrow> ndt \<Rightarrow> bool" where
  "puts \<sigma> p c \<longleftrightarrow> (\<exists>j. substitute j \<sigma> True p = Inr c)"

definition plain :: "ndt \<Rightarrow> bool" where
  "plain p \<longleftrightarrow> value_pattern p \<and> no_power p"

lemma substitute_Inr:
  "substitute j \<sigma> True p = Inr c \<longleftrightarrow> (\<exists>i. j = Suc i \<and>
     (if \<not> is_symbolic p \<and> get_type_id p \<noteq> arrfunc_type_id then p = c
      else internal_substitute (substitute i \<sigma> True) \<sigma> True p = Inr c))"
  by (cases j) auto

lemma puts_concrete: "\<not> is_symbolic p \<Longrightarrow> get_type_id p \<noteq> arrfunc_type_id \<Longrightarrow> puts \<sigma> p c \<longleftrightarrow> p = c"
  by (auto simp: puts_def substitute_Inr)

lemma puts_symbolic:
  "is_symbolic p \<Longrightarrow> puts \<sigma> p c \<Longrightarrow> \<exists>i. internal_substitute (substitute i \<sigma> True) \<sigma> True p = Inr c"
  by (auto simp: puts_def substitute_Inr)

text \<open>What is put into a pattern with one part is put into the part.\<close>

lemma puts_part:
  assumes "puts \<sigma> q c" "is_symbolic q \<longleftrightarrow> is_symbolic p" "get_type_id q \<noteq> arrfunc_type_id" "get_type_id p \<noteq> arrfunc_type_id"
    and sub: "\<And>sub :: substituter. internal_substitute sub \<sigma> True q = Inr c \<Longrightarrow> \<exists>c'. sub p = Inr c' \<and> R c'"
    and "q = c \<Longrightarrow> R p"
  shows "\<exists>c'. puts \<sigma> p c' \<and> R c'"
proof (cases "is_symbolic q")
  case True
  then obtain i where "internal_substitute (substitute i \<sigma> True) \<sigma> True q = Inr c" using puts_symbolic[OF True assms(1)] by blast
  from sub[OF this] show ?thesis by (auto simp: puts_def)
next
  case False
  then have "q = c" "puts \<sigma> p p" using assms(1-4) by (simp_all add: puts_concrete)
  then show ?thesis using assms(6) by blast
qed

lemma plain_ids: "plain p \<Longrightarrow> get_type_id p \<noteq> arrfunc_type_id"
  by (simp add: plain_def value_pattern_ids)

lemma puts_pointer:
  "puts \<sigma> (pointer_type t) c \<Longrightarrow> plain t \<Longrightarrow> proper c \<Longrightarrow> \<exists>c'. puts \<sigma> t c' \<and> c = pointer_type c'"
  using plain_ids[of t]
  by (rule_tac puts_part[of _ "pointer_type t"])
    (auto simp: internal_substitute_def bind_Inr_iff raising_def make_pointer_def split: sum.splits if_splits)

lemma puts_option:
  "puts \<sigma> (option_type t) c \<Longrightarrow> plain t \<Longrightarrow> proper c \<Longrightarrow> \<exists>c'. puts \<sigma> t c' \<and> c = option_type c'"
  using plain_ids[of t]
  by (rule_tac puts_part[of _ "option_type t"])
    (auto simp: internal_substitute_def bind_Inr_iff raising_def make_option_def split: sum.splits if_splits)

lemma puts_fixed_dim:
  "puts \<sigma> (fixed_dim_type n t) c \<Longrightarrow> plain t \<Longrightarrow> \<exists>c'. puts \<sigma> t c' \<and> c = fixed_dim_type n c'"
  using plain_ids[of t] by (rule_tac puts_part[of _ "fixed_dim_type n t"]) (auto simp: internal_substitute_def bind_Inr_iff)

lemma puts_var_dim:
  "puts \<sigma> (var_dim_type t) c \<Longrightarrow> plain t \<Longrightarrow> \<exists>c'. puts \<sigma> t c' \<and> c = var_dim_type c'"
  using plain_ids[of t] by (rule_tac puts_part[of _ "var_dim_type t"]) (auto simp: internal_substitute_def bind_Inr_iff)

lemma array_puts: "substitute_type_array (substitute i \<sigma> True) ps = Inr cs \<Longrightarrow> list_all2 (puts \<sigma>) ps cs"
  by (induction ps arbitrary: cs) (auto simp: bind_Inr_iff puts_def)

lemma puts_same: "\<not> list_ex is_symbolic ps \<Longrightarrow> list_all plain ps \<Longrightarrow> list_all2 (puts \<sigma>) ps ps"
  by (induction ps) (auto simp: puts_concrete plain_ids)

lemma puts_struct:
  assumes "puts \<sigma> (struct_type names ps False) c" "list_all plain ps"
  shows "\<exists>cs. list_all2 (puts \<sigma>) ps cs \<and> c = struct_type names cs False"
proof (cases "list_ex is_symbolic ps")
  case True
  then show ?thesis
    using puts_symbolic[OF _ assms(1)] array_puts
    by (auto simp: internal_substitute_def bind_Inr_iff raising_def make_struct_def split: sum.splits if_splits)
next
  case False
  then show ?thesis using assms puts_same[of ps \<sigma>] by (auto simp: puts_concrete)
qed

lemma puts_tuple:
  assumes "puts \<sigma> (tuple_type ps False) c" "list_all plain ps"
  shows "\<exists>cs. list_all2 (puts \<sigma>) ps cs \<and> c = tuple_type cs False"
proof (cases "list_ex is_symbolic ps")
  case True
  then show ?thesis
    using puts_symbolic[OF _ assms(1)] array_puts by (auto simp: internal_substitute_def bind_Inr_iff)
next
  case False
  then show ?thesis using assms puts_same[of ps \<sigma>] by (auto simp: puts_concrete)
qed

lemma puts_typevar: "puts \<sigma> (typevar_type name) c \<Longrightarrow> \<sigma> name = Some c \<and> get_ndim c = 0"
  by (auto simp: puts_def substitute_Inr internal_substitute_def substitute_typevar_def split: option.splits if_splits)

lemma substitute_typevar_dim_Inr:
  assumes "substitute_typevar_dim sub \<sigma> True name t = Inr c"
  shows "\<exists>d. \<sigma> name = Some d \<and> same_dim c d \<and> sub t = Inr (get_element_type c)"
proof (cases "\<sigma> name")
  case (Some d)
  then show ?thesis
    using assms by (cases d) (auto simp: substitute_typevar_dim_def bind_Inr_iff same_dim_iff split: if_splits)
qed (use assms in \<open>simp add: substitute_typevar_dim_def\<close>)

lemma puts_typevar_dim:
  "puts \<sigma> (typevar_dim_type name t) c \<Longrightarrow> \<exists>d. \<sigma> name = Some d \<and> same_dim c d \<and> puts \<sigma> t (get_element_type c)"
  using puts_symbolic[of "typevar_dim_type name t" \<sigma> c]
  by (auto simp: internal_substitute_def puts_def dest: substitute_typevar_dim_Inr)

section \<open>What has been found agrees with a substitution\<close>

text \<open>
  A type variable for a type is known as what is put in. One for a dimension is known as the candidate there, of which
  only the kind of dimension and its size count.
\<close>

definition agrees :: "typevars \<Rightarrow> typevars \<Rightarrow> bool" where
  "agrees vars \<sigma> \<longleftrightarrow> (\<forall>name t. vars name = Some t \<longrightarrow> proper t \<and>
     (if is_dim t then \<exists>d. \<sigma> name = Some d \<and> same_dim t d else \<sigma> name = Some t))"

lemma agrees_empty: "agrees Map.empty \<sigma>"
  by (simp add: agrees_def)

lemma agrees_found: "agrees vars \<sigma> \<Longrightarrow> found vars"
  by (simp add: agrees_def found_def)

lemma agrees_type:
  "agrees vars \<sigma> \<Longrightarrow> \<sigma> name = Some t \<Longrightarrow> proper t \<Longrightarrow> get_ndim t = 0 \<Longrightarrow> agrees (vars(name \<mapsto> t)) \<sigma>"
  using proper_element[of t] get_ndim_nonneg[of "get_element_type t"] by (auto simp: agrees_def)

lemma same_dim_ndim: "same_dim t d \<Longrightarrow> is_dim t \<and> is_dim d \<and> 0 < get_ndim t \<and> 0 < get_ndim d"
  using get_ndim_nonneg[of "get_element_type t"] get_ndim_nonneg[of "get_element_type d"] by (auto simp: same_dim_iff)

lemma agrees_dim:
  "agrees vars \<sigma> \<Longrightarrow> \<sigma> name = Some d \<Longrightarrow> proper t \<Longrightarrow> same_dim t d \<Longrightarrow> agrees (vars(name \<mapsto> t)) \<sigma>"
  using same_dim_ndim[of t d] by (auto simp: agrees_def)

lemma agrees_entry:
  assumes "agrees vars \<sigma>" "vars name = Some t" "\<sigma> name = Some d" shows "if is_dim t then same_dim t d else d = t"
proof -
  have "if is_dim t then \<exists>d. \<sigma> name = Some d \<and> same_dim t d else \<sigma> name = Some t"
    using assms(1,2) unfolding agrees_def by blast
  then show ?thesis using assms(3) by (simp split: if_splits)
qed

lemma agrees_known_type:
  assumes "agrees vars \<sigma>" "vars name = Some t" "\<sigma> name = Some c" "get_ndim c = 0" shows "t = c"
proof (cases "is_dim t")
  case True
  then have "same_dim t c" using agrees_entry[OF assms(1-3)] by simp
  then show ?thesis using same_dim_ndim assms(4) by fastforce
qed (use agrees_entry[OF assms(1-3)] in simp)

lemma agrees_known_dim:
  assumes "agrees vars \<sigma>" "vars name = Some t" "\<sigma> name = Some d" "same_dim c d" shows "same_dim t c"
proof -
  have "same_dim t d"
    using agrees_entry[OF assms(1-3)] same_dim_ndim[OF assms(4)] by (cases "is_dim t") simp_all
  then show ?thesis using assms(4) by (elim same_dim_iff[THEN iffD1, elim_format]) (auto simp: same_dim_iff)
qed

definition finds :: "matched \<Rightarrow> typevars \<Rightarrow> bool" where
  "finds r \<sigma> \<longleftrightarrow> (\<exists>vars'. r = Inr (True, vars') \<and> agrees vars' \<sigma>)"

lemma finds_and: "finds r \<sigma> \<Longrightarrow> (\<And>vars. agrees vars \<sigma> \<Longrightarrow> finds (f vars) \<sigma>) \<Longrightarrow> finds (and_match r f) \<sigma>"
  by (auto simp: finds_def and_match_iff)

lemma typevar_finds:
  assumes "\<sigma> name = Some c" "get_ndim c = 0" "proper c" "agrees vars \<sigma>"
  shows "finds (match_typevar_type name c vars) \<sigma>"
proof (cases "vars name")
  case None
  then show ?thesis
    using assms found_known[OF agrees_found[OF assms(4)], of name] agrees_type[OF assms(4,1,3,2)]
    by (simp add: match_typevar_proper finds_def)
next
  case (Some t)
  then have "t = c" using agrees_known_type assms by blast
  then show ?thesis
    using assms Some found_entry[OF agrees_found[OF assms(4)] Some] by (simp add: match_typevar_proper finds_def type_eq_proper)
qed

lemma typevar_dim_finds:
  assumes "\<sigma> name = Some d" "same_dim c d" "proper c" "agrees vars \<sigma>"
    and m: "\<And>vars. agrees vars \<sigma> \<Longrightarrow> finds (m t (get_element_type c) vars) \<sigma>"
  shows "finds (match_typevar_dim_type m name t c vars) \<sigma>"
proof -
  have c: "is_dim c" "get_type_at_dimension c (Suc 0) = Inr (get_element_type c)"
    using same_dim_ndim[OF assms(2)] at_first_dimension[OF assms(3)] by simp_all
  show ?thesis
  proof (cases "vars name")
    case None
    then show ?thesis
      using c found_known[OF agrees_found[OF assms(4)], of name] m[OF agrees_dim[OF assms(4,1,3,2)]]
      by (simp add: match_typevar_dim_type_def bind_made_def)
  next
    case (Some e)
    note k = found_entry[OF agrees_found[OF assms(4)] Some]
    have "same_dim e c" using agrees_known_dim[OF assms(4) Some assms(1,2)] .
    then show ?thesis
      using c k m[OF assms(4)] by (auto simp: match_typevar_dim_type_def bind_made_def same_dim_iff)
  qed
qed

section \<open>Every instance is matched\<close>

locale complete_matcher =
  fixes m :: matcher and n :: nat
  assumes complete:
    "plain p \<Longrightarrow> nodes p \<le> n \<Longrightarrow> proper c \<Longrightarrow> puts \<sigma> p c \<Longrightarrow> agrees vars \<sigma> \<Longrightarrow> finds (m p c vars) \<sigma>"
begin

lemma fields_find:
  "list_all2 (puts \<sigma>) ps cs \<Longrightarrow> list_all plain ps \<Longrightarrow> sum_list (map nodes ps) \<le> n \<Longrightarrow> list_all proper cs \<Longrightarrow> agrees vars \<sigma>
   \<Longrightarrow> finds (match_fields m ps cs vars) \<sigma>"
proof (induction ps cs arbitrary: vars rule: list_all2_induct)
  case Nil
  then show ?case by (simp add: finds_def)
next
  case (Cons p ps c cs)
  then show ?case by (auto intro!: finds_and complete)
qed

lemma class_finds:
  assumes "plain p" "nodes p \<le> Suc n" "proper c" "puts \<sigma> p c" "agrees vars \<sigma>" "\<not> is_builtin p"
  shows "finds (match_class env m p c vars) \<sigma>"
proof (cases p)
  case (pointer_type t)
  then show ?thesis
    using assms puts_pointer[of \<sigma> t c]
    by (auto simp: match_class_def match_pointer_type_def plain_def intro!: complete)
next
  case (option_type t)
  then show ?thesis
    using assms puts_option[of \<sigma> t c] by (auto simp: match_class_def match_option_type_def plain_def intro!: complete)
next
  case (fixed_dim_type k t)
  then show ?thesis
    using assms puts_fixed_dim[of \<sigma> k t c] by (auto simp: match_class_def match_fixed_dim_type_def plain_def intro!: complete)
next
  case (var_dim_type t)
  then show ?thesis
    using assms puts_var_dim[of \<sigma> t c] by (auto simp: match_class_def match_base_dim_type_def plain_def intro!: complete)
next
  case (struct_type names ps variadic)
  then obtain cs where "list_all2 (puts \<sigma>) ps cs" "c = struct_type names cs False"
    using assms(1,4) puts_struct[of \<sigma> names ps c] by (auto simp: plain_def list_all_iff)
  then show ?thesis
    using assms struct_type list_all2_lengthD[of "puts \<sigma>" ps cs]
    by (auto simp: match_class_def match_struct_type_def counts_match_def plain_def list_all_iff intro!: fields_find)
next
  case (tuple_type ps variadic)
  then obtain cs where "list_all2 (puts \<sigma>) ps cs" "c = tuple_type cs False"
    using assms(1,4) puts_tuple[of \<sigma> ps c] by (auto simp: plain_def list_all_iff)
  then show ?thesis
    using assms tuple_type list_all2_lengthD[of "puts \<sigma>" ps cs]
    by (auto simp: match_class_def match_tuple_type_def counts_match_def plain_def list_all_iff intro!: fields_find)
next
  case (typevar_type name)
  then show ?thesis using assms puts_typevar[of \<sigma> name c] typevar_finds by (simp add: match_class_def)
next
  case (typevar_dim_type name t)
  then obtain d where "\<sigma> name = Some d" "same_dim c d" "puts \<sigma> t (get_element_type c)"
    using assms(4) puts_typevar_dim by blast
  then show ?thesis
    using assms typevar_dim_type proper_element[of c] same_dim_ndim[of c d]
    by (auto simp: match_class_def plain_def intro!: typevar_dim_finds complete)
qed (use assms in \<open>auto simp: plain_def match_class_def match_equal_def finds_def puts_concrete\<close>)

end

lemma match_finds:
  assumes "sane env"
  shows "plain p \<Longrightarrow> nodes p \<le> k \<Longrightarrow> proper c \<Longrightarrow> puts \<sigma> p c \<Longrightarrow> agrees vars \<sigma> \<Longrightarrow> finds (match_type k env p c vars) \<sigma>"
proof (induction k arbitrary: p c \<sigma> vars)
  case 0
  then show ?case using nodes_positive[of p] by simp
next
  case (Suc k)
  have m: "complete_matcher (match_type k env) k"
    by (rule complete_matcher.intro) (rule Suc.IH)
  show ?case
  proof (cases "is_builtin p")
    case True
    then obtain tid where p: "p = builtin_type tid" by (cases p) auto
    then have "p = c" using Suc.prems(4) plain_ids[OF Suc.prems(1)] by (auto simp: puts_concrete)
    then show ?thesis using p Suc.prems(5) assms by (auto simp: sane_def finds_def)
  next
    case False
    then show ?thesis
      using Suc.prems complete_matcher.class_finds[OF m Suc.prems(1,2,3,4,5), of env] by (simp add: finds_def)
  qed
qed

interpretation finding: complete_matcher "match_type k by_value" k for k
  by unfold_locales (rule match_finds[OF sane_by_value])

section \<open>Depth of a substitution\<close>

text \<open>A substitution goes into the parts of the pattern only.\<close>

lemma bounded_type_array:
  "(\<And>t. t \<in> set ts \<Longrightarrow> bounded (sub t)) \<Longrightarrow> bounded (substitute_type_array sub ts)"
  by (induction ts) (auto intro!: bounded_bind)

lemma bounded_substitute_leaf [simp]:
  "bounded (substitute_typevar vars concrete name p)" "bounded (substitute_exponent vars concrete e)"
  "bounded (substitute_base vars concrete b)" "bounded (apply_power concrete b k t)"
  by (simp_all add: substitute_typevar_def substitute_exponent_def substitute_base_def apply_power_def
      split: option.split ndt.split)

lemma bounded_substitute_dim:
  "bounded (sub t) \<Longrightarrow> bounded (substitute_typevar_dim sub vars concrete name t)"
  "bounded (sub t) \<Longrightarrow> bounded (substitute_ellipsis_dim sub vars concrete name t)"
  "bounded (sub t) \<Longrightarrow> bounded (substitute_typevar_constructed sub vars concrete name t p)"
  by (simp_all add: substitute_typevar_dim_def substitute_ellipsis_dim_def substitute_typevar_constructed_def bounded_bind
      split: option.split ndt.split)

lemma bounded_substitute_pow: "bounded (sub t) \<Longrightarrow> bounded (substitute_pow_dimsym sub vars concrete b e t)"
  unfolding substitute_pow_dimsym_def by (intro bounded_bind) (auto intro!: bounded_bind split: prod.splits)

lemma internal_substitute_bounded:
  assumes "\<And>t. nodes t < nodes p \<Longrightarrow> bounded (sub t)" shows "bounded (internal_substitute sub vars concrete p)"
proof (cases p)
  case (struct_type names ts v)
  then have "bounded (substitute_type_array sub ts)"
    using assms nodes_member[of _ ts] by (intro bounded_type_array) (auto simp: less_Suc_eq_le)
  then show ?thesis using struct_type by (auto simp: internal_substitute_def intro!: bounded_bind)
next
  case (tuple_type ts v)
  then have "bounded (substitute_type_array sub ts)"
    using assms nodes_member[of _ ts] by (intro bounded_type_array) (auto simp: less_Suc_eq_le)
  then show ?thesis using tuple_type by (auto simp: internal_substitute_def intro!: bounded_bind)
qed (use assms in \<open>auto simp: internal_substitute_def bounded_substitute_dim bounded_substitute_pow intro!: bounded_bind\<close>)

lemma substitute_bounded: "nodes p \<le> k \<Longrightarrow> bounded (substitute k vars concrete p)"
proof (induction k arbitrary: p)
  case 0
  then show ?case using nodes_positive[of p] by simp
next
  case (Suc k)
  then show ?case by (simp add: internal_substitute_bounded)
qed

section \<open>Properties\<close>

text \<open>
  C34. Matching a pattern against a type and substituting the type variables of a pattern always come to an end: a depth
  of as many calls as the two types have nodes is enough, so the results are those of the functions of the code.
\<close>

theorem match_returns:
  "type_match env p c vars \<noteq> Inl too_deep \<and> type_substitute vars concrete p \<noteq> Inl too_deep"
  using match_bounded[of p c "nodes p + nodes c" env vars] substitute_bounded[of p "nodes p" vars concrete]
  by (simp add: type_match_def type_substitute_def bounded_def)



text \<open>
  The pattern \<open>{x: N * T, y: B ** E * N * T}\<close> and the type \<open>{x: 3 * int32, y: var * var * 3 * int32}\<close>, and a pattern
  without the power.
\<close>

abbreviation int32 :: ndt where
  "int32 \<equiv> builtin_type int32_type_id"

abbreviation sample_pattern :: ndt where
  "sample_pattern \<equiv> struct_type [''x'', ''y'']
     [typevar_dim_type ''N'' (typevar_type ''T''),
      pow_dimsym_type (typevar_dim_type ''B'' void_type) ''E'' (typevar_dim_type ''N'' (typevar_type ''T''))] False"

abbreviation sample_type :: ndt where
  "sample_type \<equiv> struct_type [''x'', ''y'']
     [fixed_dim_type 3 int32, var_dim_type (var_dim_type (fixed_dim_type 3 int32))] False"

lemmas match_eval =
  type_match_def by_value_def match_class_def match_struct_type_def match_tuple_type_def counts_match_def and_match_def
  bind_made_def no_match_def match_typevar_dim_type_def match_typevar_type_def match_pow_dimsym_type_def match_pow_general_def
  match_pow_base_def behind_base_def known_def eval_nat_numeral match_base_dim_type_def match_fixed_dim_type_def

lemma sample_matches:
  "type_match by_value sample_pattern sample_type Map.empty =
     Inr (True, [''N'' \<mapsto> fixed_dim_type 3 int32, ''T'' \<mapsto> int32, ''E'' \<mapsto> fixed_dim_type 2 void_type,
        ''B'' \<mapsto> var_dim_type (var_dim_type (fixed_dim_type 3 int32))])"
  by (simp add: match_eval)


text \<open>The sizes 3 and 4 do not fit one type variable.\<close>

abbreviation two_dims :: "ndt \<Rightarrow> ndt \<Rightarrow> ndt" where
  "two_dims t u \<equiv> struct_type [''x'', ''y''] [t, u] False"


section \<open>Where matching and substitution part\<close>

text \<open>
  The base \<open>var\<close> of a power passes over dimensions that are not \<open>var\<close>: the pattern \<open>var**N * B**M * T\<close> matches
  \<open>var * 3 * 3 * int32\<close> with both exponents 2, which give four dimensions.
\<close>

abbreviation two_powers :: ndt where
  "two_powers \<equiv>
     pow_dimsym_type (var_dim_type void_type) ''N'' (pow_dimsym_type (typevar_dim_type ''B'' void_type) ''M'' (typevar_type ''T''))"

abbreviation two_powers_found :: typevars where
  "two_powers_found \<equiv> [''N'' \<mapsto> fixed_dim_type 2 void_type, ''M'' \<mapsto> fixed_dim_type 2 void_type,
     ''B'' \<mapsto> fixed_dim_type 3 (fixed_dim_type 3 int32), ''T'' \<mapsto> int32]"

lemma var_power_passes_over:
  "type_match by_value two_powers (var_dim_type (fixed_dim_type 3 (fixed_dim_type 3 int32))) Map.empty = Inr (True, two_powers_found)"
  "type_substitute two_powers_found True two_powers =
     Inr (var_dim_type (var_dim_type (fixed_dim_type 3 (fixed_dim_type 3 int32))))"
  by (simp add: match_eval)
    (simp add: type_substitute_def internal_substitute_def substitute_pow_dimsym_def substitute_exponent_def substitute_base_def
      bind_made_def apply_power_def substitute_typevar_def eval_nat_numeral)

text \<open>A tuple in the pattern matches a struct, and gives a tuple back.\<close>

lemma tuple_matches_struct:
  "type_match by_value (tuple_type [typevar_type ''T''] False) (struct_type [''x''] [int32] False) Map.empty
     = Inr (True, [''T'' \<mapsto> int32])"
  "type_substitute [''T'' \<mapsto> int32] True (tuple_type [typevar_type ''T''] False) = Inr (tuple_type [int32] False)"
  by (simp add: match_eval)
    (simp add: type_substitute_def internal_substitute_def bind_made_def substitute_typevar_def eval_nat_numeral)

text \<open>
  An ellipsis that meets more dimensions than it has keeps what its memory held before: the pattern \<open>(D... * T, D... * T)\<close>
  and the type \<open>(3 * int32, 2 * 3 * int32)\<close>.
\<close>

lemma ellipsis_reads_uninitialised:
  "type_match (by_value\<lparr>uninit := junk\<rparr>)
     (tuple_type [ellipsis_dim_type ''D'' (typevar_type ''T''), ellipsis_dim_type ''D'' (typevar_type ''T'')] False)
     (tuple_type [fixed_dim_type 3 int32, fixed_dim_type 2 (fixed_dim_type 3 int32)] False) Map.empty
   = Inr (True, [''D'' \<mapsto> dim_fragment_type [2, junk 1], ''T'' \<mapsto> int32])"
  by (simp add: match_eval match_ellipsis_dim_type_def broadcast_with_type_def fun_upd_twist)

text \<open>A substitution that must be concrete leaves a power whose exponent is not known.\<close>

lemma unknown_exponent_stays:
  "type_substitute Map.empty True (pow_dimsym_type (fixed_dim_type 3 void_type) ''N'' int32)
     = Inr (pow_dimsym_type (fixed_dim_type 3 void_type) ''N'' int32)"
  by (simp add: type_substitute_def internal_substitute_def substitute_pow_dimsym_def substitute_exponent_def substitute_base_def
      bind_made_def raising_def make_pow_dimsym_def eval_nat_numeral check_typevar_name_def is_valid_typevar_name_def less_eq_char_def)


end
