(* ===== verification/Type_Promote.thy ===== *)
theory Type_Promote
  imports Types
begin

text \<open>
  \<^verbatim>\<open>type_promotion.cpp\<close>, which finds the type for the arithmetic on values of two types. It does not depend on the
  order of its arguments, and on the types of numbers it is the join of a semilattice; where the half and quadruple
  precision types break this is shown as well.
\<close>

section \<open>Promotion of builtin types\<close>

text \<open>The values of the enumeration \<^verbatim>\<open>type_id_t\<close> for the floating point types, which are compared by \<^verbatim>\<open>max\<close>.\<close>

fun float_id_value :: "type_id \<Rightarrow> nat" where
  "float_id_value float16_type_id = 12"
| "float_id_value float32_type_id = 13"
| "float_id_value float64_type_id = 14"
| "float_id_value float128_type_id = 15"
| "float_id_value _ = 0"

definition max_float_id :: "type_id \<Rightarrow> type_id \<Rightarrow> type_id" where
  "max_float_id a b = (if float_id_value a < float_id_value b then b else a)"

definition int_size :: int where
  "int_size = 4"

text \<open>\<open>None\<close> is the internal error.\<close>

definition promote_bool :: "type_id \<Rightarrow> type_id \<Rightarrow> type_id option" where
  "promote_bool a b =
     (case builtin_kind b of
        bool_kind \<Rightarrow> Some int32_type_id
      | sint_kind \<Rightarrow> Some (if int_size \<le> builtin_data_size b then b else int32_type_id)
      | uint_kind \<Rightarrow> Some (if int_size \<le> builtin_data_size b then b else int32_type_id)
      | void_kind \<Rightarrow> Some a
      | real_kind \<Rightarrow> Some (if b \<noteq> float16_type_id then b else float32_type_id)
      | _ \<Rightarrow> Some b)"

definition promote_sint :: "type_id \<Rightarrow> type_id \<Rightarrow> type_id option" where
  "promote_sint a b =
     (let size_a = builtin_data_size a; size_b = builtin_data_size b
      in case builtin_kind b of
           bool_kind \<Rightarrow> Some (if int_size \<le> size_a then a else int32_type_id)
         | sint_kind \<Rightarrow> Some (if size_a < int_size \<and> size_b < int_size then int32_type_id else if size_b \<le> size_a then a else b)
         | uint_kind \<Rightarrow> Some (if size_a < int_size \<and> size_b < int_size then int32_type_id else if size_b < size_a then a else b)
         | real_kind \<Rightarrow> Some (if b \<noteq> float16_type_id then b else float32_type_id)
         | complex_kind \<Rightarrow> Some b
         | void_kind \<Rightarrow> Some a
         | _ \<Rightarrow> None)"

definition promote_uint :: "type_id \<Rightarrow> type_id \<Rightarrow> type_id option" where
  "promote_uint a b =
     (let size_a = builtin_data_size a; size_b = builtin_data_size b
      in case builtin_kind b of
           bool_kind \<Rightarrow> Some (if int_size \<le> size_a then a else int32_type_id)
         | sint_kind \<Rightarrow> Some (if size_a < int_size \<and> size_b < int_size then int32_type_id else if size_b \<le> size_a then a else b)
         | uint_kind \<Rightarrow> Some (if size_a < int_size \<and> size_b < int_size then int32_type_id else if size_b \<le> size_a then a else b)
         | real_kind \<Rightarrow> Some (if b \<noteq> float16_type_id then b else float32_type_id)
         | complex_kind \<Rightarrow> Some b
         | void_kind \<Rightarrow> Some a
         | _ \<Rightarrow> None)"

definition promote_real :: "type_id \<Rightarrow> type_id \<Rightarrow> type_id option" where
  "promote_real a b =
     (case builtin_kind b of
        bool_kind \<Rightarrow> Some a
      | sint_kind \<Rightarrow> Some a
      | uint_kind \<Rightarrow> Some a
      | real_kind \<Rightarrow> Some (max_float_id (max_float_id a b) float32_type_id)
      | complex_kind \<Rightarrow>
          Some (if a = float64_type_id \<and> b = complex_float32_type_id then complex_float64_type_id else b)
      | void_kind \<Rightarrow> Some a
      | _ \<Rightarrow> None)"

definition promote_complex :: "type_id \<Rightarrow> type_id \<Rightarrow> type_id option" where
  "promote_complex a b =
     (if builtin_kind b \<in> {bool_kind, sint_kind, uint_kind, real_kind}
      then Some (if a = complex_float32_type_id \<and> b = float64_type_id then complex_float64_type_id else a)
      else case builtin_kind b of
             complex_kind \<Rightarrow> Some (if builtin_data_size b \<le> builtin_data_size a then a else b)
           | void_kind \<Rightarrow> Some a
           | _ \<Rightarrow> None)"

definition promote_ids :: "type_id \<Rightarrow> type_id \<Rightarrow> type_id option" where
  "promote_ids a b =
     (case builtin_kind a of
        bool_kind \<Rightarrow> promote_bool a b
      | sint_kind \<Rightarrow> promote_sint a b
      | uint_kind \<Rightarrow> promote_uint a b
      | real_kind \<Rightarrow> promote_real a b
      | complex_kind \<Rightarrow> promote_complex a b
      | void_kind \<Rightarrow> Some b
      | _ \<Rightarrow> None)"

definition promote_builtin :: "type_id \<Rightarrow> type_id \<Rightarrow> made" where
  "promote_builtin a b =
     (case promote_ids a b of
        Some tid \<Rightarrow> Inr (builtin_type tid)
      | None \<Rightarrow> Inl (type_error ''internal error in built-in dynd type promotion of ''))"

section \<open>Promotion of types\<close>

text \<open>The value types are promoted. The recursion goes through options and dimensions.\<close>

lemma size_value_type: "size (value_type t) \<le> size t"
  by (induction t) simp_all

lemma size_element: "size (get_element_type t) \<le> size t"
  by (cases t) simp_all

lemma size_var_element: "get_type_id t = var_dim_type_id \<Longrightarrow> \<not> is_builtin t \<Longrightarrow> size (get_element_type t) < size t"
  by (cases t) simp_all

definition is_string_id :: "type_id \<Rightarrow> bool" where
  "is_string_id tid \<longleftrightarrow> tid = string_type_id \<or> tid = fixed_string_type_id"

definition promote_others :: "ndt \<Rightarrow> ndt \<Rightarrow> made option" where
  "promote_others a b =
     (if get_type_id a = type_type_id \<and> get_kind b = string_kind then Some (Inr a)
      else if get_kind a = string_kind \<and> get_type_id b = type_type_id then Some (Inr b)
      else if get_type_id a = void_type_id then Some (Inr b)
      else if get_type_id b = void_type_id then Some (Inr a)
      else None)"

text \<open>\<open>promotes_dims\<close> is the condition of the last case, for a type that is a dimension and not a builtin one.\<close>

fun is_var_dim :: "ndt \<Rightarrow> bool" where
  "is_var_dim (var_dim_type _) = True"
| "is_var_dim _ = False"

definition promotes_dims :: "ndt \<Rightarrow> ndt \<Rightarrow> bool" where
  "promotes_dims a b \<longleftrightarrow> is_var_dim a \<and> get_kind b = dim_kind \<or> is_var_dim b \<and> get_kind a = dim_kind"

fun option_part :: "ndt \<Rightarrow> ndt option" where
  "option_part (option_type t) = Some t"
| "option_part _ = None"

lemma size_option_part: "option_part t = Some v \<Longrightarrow> size v < size t"
  by (cases t) auto

lemma size_promotes_dims:
  assumes "promotes_dims a b" shows "size (get_element_type a) + size (get_element_type b) < size a + size b"
proof -
  have "is_var_dim t \<Longrightarrow> size (get_element_type t) < size t" for t by (cases t) simp_all
  then show ?thesis
    using assms size_element[of a] size_element[of b] by (auto simp: promotes_dims_def intro: add_less_le_mono add_le_less_mono)
qed

function promote_types_arithmetic :: "ndt \<Rightarrow> ndt \<Rightarrow> made" where
  "promote_types_arithmetic tp0 tp1 =
     (let a = value_type tp0; b = value_type tp1
      in if is_builtin a \<and> is_builtin b then promote_builtin (get_type_id a) (get_type_id b)
         else if is_string_id (get_type_id a) \<and> is_string_id (get_type_id b) then make_string string_encoding_utf_8
         else case option_part a of
                Some v \<Rightarrow>
                  (case option_part b of
                     Some w \<Rightarrow> bind_made (promote_types_arithmetic v w) make_option
                   | None \<Rightarrow> bind_made (promote_types_arithmetic v b) make_option)
              | None \<Rightarrow>
                  (case option_part b of
                     Some w \<Rightarrow> bind_made (promote_types_arithmetic a w) make_option
                   | None \<Rightarrow>
                       (case promote_others a b of
                          Some r \<Rightarrow> r
                        | None \<Rightarrow>
                            if promotes_dims a b
                            then bind_made (promote_types_arithmetic (get_element_type a) (get_element_type b))
                                   (\<lambda>t. Inr (var_dim_type t))
                            else Inl (type_error ''type promotion of ''))))"
  by pat_completeness auto

termination
  using size_value_type
  by (relation "measure (\<lambda>(t, u). size t + size u)")
    (auto dest!: size_option_part size_promotes_dims intro: less_le_trans add_less_le_mono add_less_mono add_le_less_mono add_mono
      simp: add_strict_mono)


declare promote_types_arithmetic.simps [simp del]

lemma promote_builtins: "promote_types_arithmetic (builtin_type a) (builtin_type b) = promote_builtin a b"
  by (simp add: promote_types_arithmetic.simps)

section \<open>The order of the arguments\<close>

text \<open>The builtin types of values other than the half precision type.\<close>

definition full_ids :: "type_id list" where
  "full_ids =
     [bool_type_id, int8_type_id, int16_type_id, int32_type_id, int64_type_id, int128_type_id, uint8_type_id, uint16_type_id,
      uint32_type_id, uint64_type_id, uint128_type_id, float32_type_id, float64_type_id, float128_type_id,
      complex_float32_type_id, complex_float64_type_id, void_type_id]"

lemma promote_ids_commute_list: "\<forall>a\<in>set full_ids. \<forall>b\<in>set full_ids. promote_ids a b = promote_ids b a"
  by code_simp

lemma promote_ids_commute: "a \<in> set full_ids \<Longrightarrow> b \<in> set full_ids \<Longrightarrow> promote_ids a b = promote_ids b a"
  using promote_ids_commute_list by blast

text \<open>The types in which no half precision type, and no type id that is not one of a builtin type, is promoted.\<close>

fun full_types :: "ndt \<Rightarrow> bool" where
  "full_types (builtin_type tid) = (tid \<in> set full_ids)"
| "full_types (pointer_type t) = full_types t"
| "full_types (adapt_type _ v _) = full_types v"
| "full_types (byteswap_type v _) = full_types v"
| "full_types (view_type v _) = full_types v"
| "full_types (option_type t) = full_types t"
| "full_types (fixed_dim_type _ t) = full_types t"
| "full_types (var_dim_type t) = full_types t"
| "full_types _ = True"

lemma full_value_type: "full_types t \<Longrightarrow> full_types (value_type t)"
  by (induction t) simp_all

lemma full_option_part: "full_types t \<Longrightarrow> option_part t = Some v \<Longrightarrow> full_types v"
  by (cases t) auto

lemma full_dim_element: "full_types t \<Longrightarrow> get_kind t = dim_kind \<or> is_var_dim t \<Longrightarrow> full_types (get_element_type t)"
  by (cases t) (auto simp: full_ids_def split: if_splits)

lemma promote_builtin_commute:
  "full_types a \<Longrightarrow> full_types b \<Longrightarrow> is_builtin a \<Longrightarrow> is_builtin b
   \<Longrightarrow> promote_builtin (get_type_id a) (get_type_id b) = promote_builtin (get_type_id b) (get_type_id a)"
  by (cases a; simp; cases b; simp add: promote_builtin_def promote_ids_commute)

lemma string_or_type: "get_kind t = string_kind \<Longrightarrow> get_type_id t \<noteq> type_type_id \<and> get_type_id t \<noteq> void_type_id"
  by (cases t) (auto split: if_splits)

lemma void_full: "get_type_id t = void_type_id \<Longrightarrow> t = void_type"
  by (cases t) auto

lemma promote_others_commute: "\<not> (is_builtin a \<and> is_builtin b) \<Longrightarrow> promote_others a b = promote_others b a"
proof -
  assume "\<not> (is_builtin a \<and> is_builtin b)"
  then have "\<not> (get_type_id a = void_type_id \<and> get_type_id b = void_type_id)"
    using void_full[of a] void_full[of b] is_builtin.simps(1) by metis
  then show ?thesis
    unfolding promote_others_def using string_or_type[of a] string_or_type[of b]
    by (cases "get_kind a = string_kind"; cases "get_kind b = string_kind") (simp_all split: if_split)
qed

lemma promotes_dims_commute: "promotes_dims a b = promotes_dims b a"
  by (auto simp: promotes_dims_def)

lemma is_var_dim_kind: "is_var_dim t \<Longrightarrow> get_kind t = dim_kind"
  by (cases t) simp_all

lemma promotes_dims_full:
  assumes "promotes_dims a b" "full_types a" "full_types b"
  shows "full_types (get_element_type a)" "full_types (get_element_type b)"
  using assms is_var_dim_kind full_dim_element by (auto simp: promotes_dims_def)

lemma promote_full_commutes:
  "full_types tp0 \<Longrightarrow> full_types tp1 \<Longrightarrow> promote_types_arithmetic tp0 tp1 = promote_types_arithmetic tp1 tp0"
proof (induction tp0 tp1 rule: promote_types_arithmetic.induct)
  case (1 tp0 tp1)
  define a b where "a = value_type tp0" and "b = value_type tp1"
  have full: "full_types a" "full_types b" using 1(5,6) full_value_type by (simp_all add: a_def b_def)
  note unfold = promote_types_arithmetic.simps[of tp0 tp1, folded a_def b_def] promote_types_arithmetic.simps[of tp1 tp0, folded a_def b_def]
  consider "is_builtin a \<and> is_builtin b" | "\<not> (is_builtin a \<and> is_builtin b)" "is_string_id (get_type_id a) \<and> is_string_id (get_type_id b)"
    | "\<not> (is_builtin a \<and> is_builtin b)" "\<not> (is_string_id (get_type_id a) \<and> is_string_id (get_type_id b))" by blast
  then show ?case
  proof cases
    case 3
    note ih = 1(1-4)[OF a_def b_def 3]
    show ?thesis
    proof (cases "option_part a")
      case None
      note a = this
      show ?thesis
      proof (cases "option_part b")
        case None
        show ?thesis
        proof (cases "promote_others a b")
          case others: None
          show ?thesis
          proof (cases "promotes_dims a b")
            case True
            then show ?thesis
              using 3 a None others ih promotes_dims_full[OF True full]
                promote_others_commute[OF 3(1)] promotes_dims_commute[of a b]
              unfolding unfold Let_def by auto
          qed (use 3 a None others promote_others_commute[OF 3(1)] promotes_dims_commute[of a b] in \<open>unfold unfold Let_def, auto\<close>)
        qed (use 3 a None promote_others_commute[OF 3(1)] in \<open>unfold unfold Let_def, auto\<close>)
      qed (use 3 a ih full full_option_part[of b] in \<open>unfold unfold Let_def, auto\<close>)
    next
      case (Some v)
      note a = this
      show ?thesis
        using 3 a ih full full_option_part[of b] full_option_part[of a]
        unfolding unfold Let_def by (cases "option_part b") auto
    qed
  qed (use promote_builtin_commute[OF full] in \<open>unfold unfold Let_def, auto\<close>)
qed

text \<open>The types of numbers of C and of the library, other than those of half and quadruple precision.\<close>

definition number_ids :: "type_id list" where
  "number_ids =
     [bool_type_id, int8_type_id, int16_type_id, int32_type_id, int64_type_id, int128_type_id, uint8_type_id, uint16_type_id,
      uint32_type_id, uint64_type_id, uint128_type_id, float32_type_id, float64_type_id, complex_float32_type_id,
      complex_float64_type_id]"

text \<open>
  Such a type has a place in the chain of the real types, in which bool and the small integers are at the place of
  \<open>int32\<close>, and may be complex.
\<close>

fun chain_place :: "type_id \<Rightarrow> nat" where
  "chain_place uint32_type_id = 1"
| "chain_place int64_type_id = 2"
| "chain_place uint64_type_id = 3"
| "chain_place int128_type_id = 4"
| "chain_place uint128_type_id = 5"
| "chain_place float32_type_id = 6"
| "chain_place complex_float32_type_id = 6"
| "chain_place float64_type_id = 7"
| "chain_place complex_float64_type_id = 7"
| "chain_place _ = 0"

definition is_complex :: "type_id \<Rightarrow> bool" where
  "is_complex tid \<longleftrightarrow> builtin_kind tid = complex_kind"

definition number_at :: "nat \<Rightarrow> bool \<Rightarrow> type_id" where
  "number_at place cplx =
     (if cplx then (if place = 6 then complex_float32_type_id else complex_float64_type_id)
      else [int32_type_id, uint32_type_id, int64_type_id, uint64_type_id, int128_type_id, uint128_type_id, float32_type_id,
            float64_type_id] ! place)"

definition join_ids :: "type_id \<Rightarrow> type_id \<Rightarrow> type_id" where
  "join_ids a b = number_at (max (chain_place a) (chain_place b)) (is_complex a \<or> is_complex b)"

lemma join_list:
  "list_all (\<lambda>a. list_all (\<lambda>b. promote_ids a b = Some (join_ids a b) \<and> chain_place (join_ids a b) = max (chain_place a) (chain_place b)
     \<and> (is_complex (join_ids a b) \<longleftrightarrow> is_complex a \<or> is_complex b) \<and> join_ids a b \<in> set number_ids
     \<and> int_size \<le> builtin_data_size (join_ids a b)) number_ids) number_ids"
  by code_simp

lemma join_ids:
  assumes "a \<in> set number_ids" "b \<in> set number_ids"
  shows "promote_ids a b = Some (join_ids a b)" "chain_place (join_ids a b) = max (chain_place a) (chain_place b)"
    "is_complex (join_ids a b) \<longleftrightarrow> is_complex a \<or> is_complex b" "join_ids a b \<in> set number_ids" "int_size \<le> builtin_data_size (join_ids a b)"
  using join_list assms by (auto simp: list_all_iff)

lemma join_absorb:
  assumes "a \<in> set number_ids" "b \<in> set number_ids"
  shows "join_ids a (join_ids a b) = join_ids a b" "join_ids b (join_ids a b) = join_ids a b"
proof -
  have "max (chain_place a) (max (chain_place a) (chain_place b)) = max (chain_place a) (chain_place b)"
    "max (chain_place b) (max (chain_place a) (chain_place b)) = max (chain_place a) (chain_place b)" by simp_all
  then show "join_ids a (join_ids a b) = join_ids a b" "join_ids b (join_ids a b) = join_ids a b"
    unfolding join_ids_def[of _ "join_ids a b"] join_ids(2,3)[OF assms]
    by (simp_all add: join_ids_def disj_comms)
qed

lemma join_assoc:
  assumes "a \<in> set number_ids" "b \<in> set number_ids" "c \<in> set number_ids"
  shows "join_ids (join_ids a b) c = join_ids a (join_ids b c)"
  unfolding join_ids_def[of "join_ids a b"] join_ids_def[of _ "join_ids b c"] join_ids(2,3)[OF assms(1,2)] join_ids(2,3)[OF assms(2,3)]
  by (simp add: max.assoc)

lemma promote_numbers:
  assumes "a \<in> set number_ids" "b \<in> set number_ids"
  shows "promote_types_arithmetic (builtin_type a) (builtin_type b) = Inr (builtin_type (join_ids a b))"
  by (simp add: promote_builtins promote_builtin_def join_ids(1)[OF assms])

section \<open>Properties of promotion\<close>

text \<open>
  C35. The type for the arithmetic on two types does not depend on their order, errors included, through expression types,
  options and dimensions, as long as no half precision number is in them.
\<close>

theorem promotion_commutes:
  assumes "full_types tp0" "full_types tp1"
  shows "promote_types_arithmetic tp0 tp1 = promote_types_arithmetic tp1 tp0"
  using assms by (rule promote_full_commutes)

theorem promotion_commutes_witness:
  "promote_types_arithmetic (var_dim_type (option_type (builtin_type int16_type_id))) (fixed_dim_type 3 (builtin_type complex_float32_type_id))
   = promote_types_arithmetic (fixed_dim_type 3 (builtin_type complex_float32_type_id)) (var_dim_type (option_type (builtin_type int16_type_id)))"
  by (rule promotion_commutes) (simp_all add: full_ids_def)



text \<open>
  With half precision numbers the order matters: an integer and then \<open>float16\<close> promote to single precision, the other
  way around to half precision. With quadruple precision the grouping does.
\<close>

lemma half_promotion_depends_on_order:
  "promote_types_arithmetic (builtin_type int64_type_id) (builtin_type float16_type_id) = Inr (builtin_type float32_type_id)"
  "promote_types_arithmetic (builtin_type float16_type_id) (builtin_type int64_type_id) = Inr (builtin_type float16_type_id)"
  unfolding promote_builtins by code_simp+

lemma quadruple_promotion_depends_on_grouping:
  "promote_types_arithmetic (builtin_type float128_type_id) (builtin_type complex_float32_type_id)
     = Inr (builtin_type complex_float32_type_id)"
  "promote_types_arithmetic (builtin_type float128_type_id) (builtin_type complex_float64_type_id)
     = Inr (builtin_type complex_float64_type_id)"
  "promote_types_arithmetic (builtin_type float64_type_id) (builtin_type complex_float32_type_id)
     = Inr (builtin_type complex_float64_type_id)"
  "promote_types_arithmetic (builtin_type float128_type_id) (builtin_type float64_type_id) = Inr (builtin_type float128_type_id)"
  unfolding promote_builtins by code_simp+

end
