(* ===== verification/Substitute_Shape.thy ===== *)
theory Substitute_Shape
  imports Types
begin

text \<open>
  \<^verbatim>\<open>types/substitute_shape.cpp\<close>: the sizes of an array are put into the leading dimensions of a type. A negative size
  stands for a \<open>var\<close> dimension. The visitor goes through the dimensions and the types around them and says whether it
  changed the type, so that a type that does not change is kept; that this is the plain replacement of the
  dimensions is \<open>substitute_shape_replaces\<close>.
\<close>

section \<open>The visitor\<close>

definition substitution_error :: "dynd_exception + 'a" where
  "substitution_error = Inl (type_error ''Cannot substitute shape '')"

text \<open>
  A dimension whose element has been visited, with the size for it. The second component of a result says that the type
  has changed.
\<close>

definition substitute_dim :: "ndt \<Rightarrow> int \<Rightarrow> ndt \<times> bool \<Rightarrow> dynd_exception + (ndt \<times> bool)" where
  "substitute_dim tp dim_size sub =
     (case sub of (subtp, was_transformed) \<Rightarrow>
        (case tp of
           fixed_dim_kind_type _ \<Rightarrow> if 0 \<le> dim_size then Inr (fixed_dim_type dim_size subtp, True) else substitution_error
         | fixed_dim_type n _ \<Rightarrow>
             if dim_size < 0 \<or> dim_size = n then Inr (if \<not> was_transformed then tp else fixed_dim_type n subtp, was_transformed)
             else substitution_error
         | var_dim_type _ \<Rightarrow> Inr (if \<not> was_transformed then tp else var_dim_type subtp, was_transformed)
         | _ \<Rightarrow> substitution_error))"

text \<open>
  \<^verbatim>\<open>transform_child_types\<close> of the types that are not dimensions but have dimensions in them. Only pointers and options
  visit their part. A type without dimensions is not reached.
\<close>

definition transform_child :: "(ndt \<Rightarrow> dynd_exception + (ndt \<times> bool)) \<Rightarrow> ndt \<Rightarrow> dynd_exception + (ndt \<times> bool)" where
  "transform_child visit tp =
     (case tp of
        pointer_type t \<Rightarrow>
          bind_made (visit t) (\<lambda>(t', was_transformed).
            if was_transformed then bind_made (make_pointer t') (\<lambda>tp. Inr (tp, True)) else Inr (tp, False))
      | option_type t \<Rightarrow>
          bind_made (visit t) (\<lambda>(t', was_transformed).
            if was_transformed then bind_made (make_option t') (\<lambda>tp. Inr (tp, True)) else Inr (tp, False))
      | c_contiguous_type _ \<Rightarrow> Inr (tp, False)
      | typevar_constructed_type _ _ \<Rightarrow> Inr (tp, False)
      | _ \<Rightarrow> Inl undefined_behaviour)"

lemma size_element_dim: "is_dim tp \<Longrightarrow> size (get_element_type tp) \<le> size tp"
  by (cases tp) simp_all

text \<open>With no sizes at all a dimension still reads one, past the end of the shape.\<close>

function substitute_shape_visitor :: "int list \<Rightarrow> nat \<Rightarrow> ndt \<Rightarrow> dynd_exception + (ndt \<times> bool)" where
  "substitute_shape_visitor shape i tp =
     (if is_dim tp
      then (if length shape \<le> i then Inl undefined_behaviour
            else bind_made
                   (if Suc i < length shape then substitute_shape_visitor shape (Suc i) (get_element_type tp)
                    else Inr (get_element_type tp, False))
                   (substitute_dim tp (shape ! i)))
      else if i < length shape
      then (case tp of
              pointer_type t \<Rightarrow> transform_child (\<lambda>_. substitute_shape_visitor shape i t) tp
            | option_type t \<Rightarrow> transform_child (\<lambda>_. substitute_shape_visitor shape i t) tp
            | _ \<Rightarrow> transform_child (\<lambda>_. Inl undefined_behaviour) tp)
      else Inr (tp, False))"
  by pat_completeness auto

termination
  by (relation "measure (\<lambda>(shape, i, tp). size tp + (length shape - i))") (auto dest!: size_element_dim)

definition substitute_shape :: "ndt \<Rightarrow> int list \<Rightarrow> made" where
  "substitute_shape pattern shape =
     (if int (length shape) > get_ndim pattern then substitution_error
      else bind_made (substitute_shape_visitor shape 0 pattern) (\<lambda>(tp, _). Inr tp))"

section \<open>Plain replacement\<close>

text \<open>The same without the flag: every type on the way is made again.\<close>

function replace_dims :: "int list \<Rightarrow> ndt \<Rightarrow> made" where
  "replace_dims [] p = Inr p"
| "replace_dims (s # ss) p =
     (case p of
        fixed_dim_kind_type t \<Rightarrow>
          bind_made (replace_dims ss t) (\<lambda>t. if 0 \<le> s then Inr (fixed_dim_type s t) else substitution_error)
      | fixed_dim_type n t \<Rightarrow>
          bind_made (replace_dims ss t) (\<lambda>t. if s < 0 \<or> s = n then Inr (fixed_dim_type n t) else substitution_error)
      | var_dim_type t \<Rightarrow> bind_made (replace_dims ss t) (\<lambda>t. Inr (var_dim_type t))
      | pointer_type t \<Rightarrow> bind_made (replace_dims (s # ss) t) (\<lambda>t. Inr (pointer_type t))
      | option_type t \<Rightarrow> bind_made (replace_dims (s # ss) t) (\<lambda>t. Inr (option_type t))
      | c_contiguous_type _ \<Rightarrow> Inr p
      | typevar_constructed_type _ _ \<Rightarrow> Inr p
      | _ \<Rightarrow> substitution_error)"
  by pat_completeness auto

termination
  by (relation "measure (\<lambda>(ss, p). size p)") auto

declare substitute_shape_visitor.simps [simp del] replace_dims.simps(2) [simp del]

text \<open>Types whose dimensions are not fragments, and whose options are not of options.\<close>

fun whole_dims :: "ndt \<Rightarrow> bool" where
  "whole_dims (dim_fragment_type _) = False"
| "whole_dims (option_type t) = (whole_dims t \<and> get_type_id t \<noteq> option_type_id)"
| "whole_dims (pointer_type t) = whole_dims t"
| "whole_dims (fixed_dim_kind_type t) = whole_dims t"
| "whole_dims (fixed_dim_type _ t) = whole_dims t"
| "whole_dims (var_dim_type t) = whole_dims t"
| "whole_dims (typevar_dim_type _ t) = whole_dims t"
| "whole_dims (pow_dimsym_type _ _ t) = whole_dims t"
| "whole_dims (ellipsis_dim_type _ t) = whole_dims t"
| "whole_dims _ = True"

text \<open>What the visitor returns for a type that is replaced: the flag says whether it is another type.\<close>

definition flagged :: "ndt \<Rightarrow> made \<Rightarrow> dynd_exception + (ndt \<times> bool)" where
  "flagged tp r = bind_made r (\<lambda>t. Inr (t, t \<noteq> tp))"

lemma replaced_kind:
  assumes "replace_dims (s # ss) t = Inr t'"
  shows "t' \<noteq> null_type \<and> t' \<noteq> void_type \<and> (get_kind t' = expr_kind \<longrightarrow> get_type_id t' = pointer_type_id)
     \<and> (get_type_id t' = option_type_id \<longleftrightarrow> get_type_id t = option_type_id)"
  using assms
  by (cases t; cases "replace_dims ss (get_element_type t)")
    (auto simp: replace_dims.simps(2) substitution_error_def bind_made_def split: sum.splits if_splits)

lemma replace_error: "replace_dims shape t = Inl e \<Longrightarrow> e = type_error ''Cannot substitute shape ''"
proof (induction shape t rule: replace_dims.induct)
  case (2 s ss p)
  then show ?case
    by (cases p) (auto simp: replace_dims.simps(2) substitution_error_def bind_made_def split: sum.splits if_splits)
qed simp

lemma dim_replaces:
  assumes "is_dim tp" "whole_dims tp"
  shows "bind_made (flagged (get_element_type tp) (replace_dims ss (get_element_type tp))) (substitute_dim tp s)
    = flagged tp (replace_dims (s # ss) tp)"
proof (cases "replace_dims ss (get_element_type tp)")
  case (Inl e)
  then show ?thesis
    using assms replace_error[OF Inl]
    by (cases tp) (auto simp: replace_dims.simps(2) flagged_def bind_made_def substitution_error_def)
next
  case (Inr t)
  then show ?thesis
    using assms
    by (cases tp) (auto simp: replace_dims.simps(2) flagged_def bind_made_def substitution_error_def substitute_dim_def)
qed

lemma child_replaces:
  assumes "replace_dims (s # ss) t = r" "visit t = flagged t r"
  shows "transform_child visit (pointer_type t) = flagged (pointer_type t) (replace_dims (s # ss) (pointer_type t))"
    and "get_type_id t \<noteq> option_type_id
      \<Longrightarrow> transform_child visit (option_type t) = flagged (option_type t) (replace_dims (s # ss) (option_type t))"
proof -
  have "transform_child visit (pointer_type t) = flagged (pointer_type t) (replace_dims (s # ss) (pointer_type t))
    \<and> (get_type_id t \<noteq> option_type_id \<longrightarrow>
        transform_child visit (option_type t) = flagged (option_type t) (replace_dims (s # ss) (option_type t)))"
  proof (cases r)
    case (Inl e)
    then show ?thesis using assms by (simp add: transform_child_def flagged_def bind_made_def replace_dims.simps(2))
  next
    case (Inr t')
    have "make_pointer t' = Inr (pointer_type t') \<and> (get_type_id t \<noteq> option_type_id \<longrightarrow> make_option t' = Inr (option_type t'))"
      using replaced_kind[of s ss t t'] assms(1) Inr by (simp add: make_pointer_def make_option_def)
    then show ?thesis
      using assms Inr by (simp add: transform_child_def flagged_def bind_made_def replace_dims.simps(2))
  qed
  then show "transform_child visit (pointer_type t) = flagged (pointer_type t) (replace_dims (s # ss) (pointer_type t))"
    and "get_type_id t \<noteq> option_type_id
      \<Longrightarrow> transform_child visit (option_type t) = flagged (option_type t) (replace_dims (s # ss) (option_type t))"
    by blast+
qed

lemma visitor_replaces:
  "whole_dims tp \<Longrightarrow> i < length shape \<Longrightarrow> int (length shape - i) \<le> get_ndim tp
   \<Longrightarrow> substitute_shape_visitor shape i tp = flagged tp (replace_dims (drop i shape) tp)"
proof (induction shape i tp rule: substitute_shape_visitor.induct)
  case (1 shape i tp)
  have d: "drop i shape = shape ! i # drop (Suc i) shape" using 1(5) by (simp add: Cons_nth_drop_Suc)
  show ?case
  proof (cases "is_dim tp")
    case True
    have e: "whole_dims (get_element_type tp) \<and> get_ndim tp = 1 + get_ndim (get_element_type tp)"
      using True 1(4) by (cases tp) simp_all
    have "(if Suc i < length shape then substitute_shape_visitor shape (Suc i) (get_element_type tp)
        else Inr (get_element_type tp, False)) = flagged (get_element_type tp) (replace_dims (drop (Suc i) shape) (get_element_type tp))"
      using True e 1 by (auto simp: flagged_def bind_made_def)
    then show ?thesis
      using True 1(5) dim_replaces[OF True 1(4)]
      by (simp add: substitute_shape_visitor.simps[of shape i tp] d)
  next
    case False
    note unfold = substitute_shape_visitor.simps[of shape i tp] d
    show ?thesis
    proof (cases tp)
      case (pointer_type t)
      then show ?thesis using False 1(2,4,5,6) d unfolding unfold by (simp add: child_replaces)
    next
      case (option_type t)
      then show ?thesis using False 1(3,4,5,6) d unfolding unfold by (simp add: child_replaces)
    qed (use False 1(4-6) in \<open>unfold unfold, auto simp: replace_dims.simps(2) flagged_def bind_made_def transform_child_def\<close>)
  qed
qed



text \<open>The sizes are read before the number of them is looked at: with none, a dimension reads past the shape.\<close>

lemma no_sizes_read_past_shape: "substitute_shape (var_dim_type t) [] = Inl undefined_behaviour"
  using substitute_shape_visitor.simps[of "[]" 0 "var_dim_type t"] get_ndim_nonneg[of t] by (simp add: substitute_shape_def bind_made_def)

text \<open>A type that asks for contiguous memory hides its dimensions, which stay as they are.\<close>

lemma contiguous_dims_stay:
  "substitute_shape (c_contiguous_type (fixed_dim_kind_type (builtin_type int32_type_id))) [5]
     = Inr (c_contiguous_type (fixed_dim_kind_type (builtin_type int32_type_id)))"
  by (simp add: substitute_shape_def substitute_shape_visitor.simps transform_child_def bind_made_def)

end
