(* ===== verification/Missing_Values.thy ===== *)
theory Missing_Values
  imports Types
begin

text \<open>
  The missing value NA of optional types: the kernels of \<^verbatim>\<open>kernels/assign_na_kernel.hpp\<close> and
  \<^verbatim>\<open>kernels/is_avail_kernel.hpp\<close>, which write NA and look for it in one element or in a strided sequence, and the functions of
  \<^verbatim>\<open>types/option_type.cpp\<close> for one element. Memory is a function from addresses to bytes, little-endian. A kernel with a
  source gets an array of one source pointer; the pointer is the argument, and the array is not written by the kernel.
\<close>

section \<open>Memory\<close>

type_synonym memory = "int \<Rightarrow> u8"

fun load_uint :: "memory \<Rightarrow> int \<Rightarrow> nat \<Rightarrow> int" where
  "load_uint mem a 0 = 0"
| "load_uint mem a (Suc n) = uint (mem a) + 256 * load_uint mem (a + 1) n"

fun store_uint :: "memory \<Rightarrow> int \<Rightarrow> nat \<Rightarrow> int \<Rightarrow> memory" where
  "store_uint mem a 0 v = mem"
| "store_uint mem a (Suc n) v = store_uint (mem(a := word_of_int v)) (a + 1) n (v div 256)"

text \<open>Signed integers of \<open>n\<close> bytes, and the least of them.\<close>

definition load_sint :: "memory \<Rightarrow> int \<Rightarrow> nat \<Rightarrow> int" where
  "load_sint mem a n = (let v = load_uint mem a n in if v < 2 ^ (8 * n - 1) then v else v - 2 ^ (8 * n))"

definition least_sint :: "nat \<Rightarrow> int" where
  "least_sint n = - (2 ^ (8 * n - 1))"

definition float32_na :: int where
  "float32_na = 0x7f8007a2"

definition float64_na :: int where
  "float64_na = 0x7ff00000000007a2"

definition float32_isnan :: "int \<Rightarrow> bool" where
  "float32_isnan bits \<longleftrightarrow> bits div 2 ^ 23 mod 2 ^ 8 = 2 ^ 8 - 1 \<and> bits mod 2 ^ 23 \<noteq> 0"

definition float64_isnan :: "int \<Rightarrow> bool" where
  "float64_isnan bits \<longleftrightarrow> bits div 2 ^ 52 mod 2 ^ 11 = 2 ^ 11 - 1 \<and> bits mod 2 ^ 52 \<noteq> 0"

section \<open>Writing NA\<close>

type_synonym na_result = "dynd_exception + memory"

definition assign_na_sint :: "nat \<Rightarrow> int \<Rightarrow> memory \<Rightarrow> memory" where
  "assign_na_sint n dst mem = store_uint mem dst n (least_sint n)"

definition assign_na_complex :: "nat \<Rightarrow> int \<Rightarrow> int \<Rightarrow> memory \<Rightarrow> memory" where
  "assign_na_complex n na dst mem = store_uint (store_uint mem dst n na) (dst + int n) n na"

text \<open>The first field of \<open>string_type_data\<close> is the pointer to the beginning.\<close>

definition string_begin :: "memory \<Rightarrow> int \<Rightarrow> int" where
  "string_begin mem a = load_uint mem a 8"

definition assign_na_string :: "int \<Rightarrow> memory \<Rightarrow> na_result" where
  "assign_na_string dst mem =
     (if string_begin mem dst \<noteq> 0 then Inl (invalid_argument ''Cannot assign an NA to a dynd string after it has been allocated'')
      else Inr mem)"

definition sint_ids :: "type_id list" where
  "sint_ids = [int8_type_id, int16_type_id, int32_type_id, int64_type_id, int128_type_id]"

text \<open>The functions \<open>single\<close>; a type without a kernel has no result.\<close>

definition assign_na_single :: "type_id \<Rightarrow> int \<Rightarrow> memory \<Rightarrow> na_result option" where
  "assign_na_single tid dst mem =
     (if tid = bool_type_id then Some (Inr (mem(dst := 2)))
      else if tid \<in> set sint_ids then Some (Inr (assign_na_sint (nat (builtin_data_size tid)) dst mem))
      else if tid = float32_type_id then Some (Inr (store_uint mem dst 4 float32_na))
      else if tid = float64_type_id then Some (Inr (store_uint mem dst 8 float64_na))
      else if tid = complex_float32_type_id then Some (Inr (assign_na_complex 4 float32_na dst mem))
      else if tid = complex_float64_type_id then Some (Inr (assign_na_complex 8 float64_na dst mem))
      else if tid = void_type_id then Some (Inr mem)
      else if tid = pointer_type_id then Some (Inl (runtime_error ''assign_na for pointers is not yet implemented''))
      else if tid = string_type_id then Some (assign_na_string dst mem)
      else if tid = date_type_id then Some (Inr (assign_na_sint 4 dst mem))
      else if tid = time_type_id then Some (Inr (assign_na_sint 8 dst mem))
      else if tid = datetime_type_id then Some (Inr (assign_na_sint 8 dst mem))
      else None)"

fun na_loop :: "(int \<Rightarrow> memory \<Rightarrow> na_result) \<Rightarrow> int \<Rightarrow> nat \<Rightarrow> int \<Rightarrow> memory \<Rightarrow> na_result" where
  "na_loop body stride 0 dst mem = Inr mem"
| "na_loop body stride (Suc count) dst mem =
     bind_made (body dst mem) (\<lambda>mem. na_loop body stride count (dst + stride) mem)"

fun memset_bytes :: "memory \<Rightarrow> int \<Rightarrow> u8 \<Rightarrow> nat \<Rightarrow> memory" where
  "memset_bytes mem a v 0 = mem"
| "memset_bytes mem a v (Suc n) = memset_bytes (mem(a := v)) (a + 1) v n"

text \<open>The functions \<open>strided\<close>.\<close>

definition assign_na_strided :: "type_id \<Rightarrow> int \<Rightarrow> int \<Rightarrow> nat \<Rightarrow> memory \<Rightarrow> na_result option" where
  "assign_na_strided tid dst stride count mem =
     (if tid = bool_type_id
      then Some (if stride = 1 then Inr (memset_bytes mem dst 2 count)
                 else na_loop (\<lambda>dst mem. Inr (mem(dst := 2))) stride count dst mem)
      else if tid \<in> set sint_ids
      then Some (na_loop (\<lambda>dst mem. Inr (assign_na_sint (nat (builtin_data_size tid)) dst mem)) stride count dst mem)
      else if tid = float32_type_id then Some (na_loop (\<lambda>dst mem. Inr (store_uint mem dst 4 float32_na)) stride count dst mem)
      else if tid = float64_type_id then Some (na_loop (\<lambda>dst mem. Inr (store_uint mem dst 8 float64_na)) stride count dst mem)
      else if tid = complex_float32_type_id
      then Some (na_loop (\<lambda>dst mem. Inr (assign_na_complex 4 float32_na dst mem)) stride count dst mem)
      else if tid = complex_float64_type_id
      then Some (na_loop (\<lambda>dst mem. Inr (assign_na_complex 8 float64_na dst mem)) stride count dst mem)
      else if tid = void_type_id then Some (Inr mem)
      else if tid = pointer_type_id then Some (Inl (runtime_error ''assign_na for pointers is not yet implemented''))
      else if tid = string_type_id then Some (na_loop assign_na_string stride count dst mem)
      else if tid = date_type_id then Some (na_loop (\<lambda>dst mem. Inr (assign_na_sint 4 dst mem)) stride count dst mem)
      else if tid = time_type_id then Some (na_loop (\<lambda>dst mem. Inr (assign_na_sint 8 dst mem)) stride count dst mem)
      else if tid = datetime_type_id then Some (na_loop (\<lambda>dst mem. Inr (assign_na_sint 8 dst mem)) stride count dst mem)
      else None)"

text \<open>The kernel of a dimension is that of its element, for some builtin types.\<close>

definition na_dim_ids :: "type_id list" where
  "na_dim_ids =
     [bool_type_id, int8_type_id, int16_type_id, int32_type_id, int64_type_id, int128_type_id, float32_type_id,
      float64_type_id, complex_float32_type_id, complex_float64_type_id]"

definition assign_na_fixed_dim :: "type_id \<Rightarrow> dynd_exception + type_id" where
  "assign_na_fixed_dim dtype =
     (if dtype \<in> set na_dim_ids then Inr dtype else Inl (type_error ''fixed_dim_assign_na: expected built-in type''))"

section \<open>Looking for NA\<close>

definition avail_complex :: "nat \<Rightarrow> int \<Rightarrow> memory \<Rightarrow> int \<Rightarrow> bool" where
  "avail_complex n na mem a \<longleftrightarrow> load_uint mem a n \<noteq> na \<and> load_uint mem (a + int n) n \<noteq> na"

text \<open>What \<open>single\<close> finds of the element at an address.\<close>

definition is_avail_element :: "type_id \<Rightarrow> memory \<Rightarrow> int \<Rightarrow> (dynd_exception + bool) option" where
  "is_avail_element tid mem a =
     (if tid = bool_type_id then Some (Inr (mem a \<le> 1))
      else if tid \<in> set sint_ids
      then (let n = nat (builtin_data_size tid) in Some (Inr (load_sint mem a n \<noteq> least_sint n)))
      else if tid = float32_type_id then Some (Inr (\<not> float32_isnan (load_uint mem a 4)))
      else if tid = float64_type_id then Some (Inr (\<not> float64_isnan (load_uint mem a 8)))
      else if tid = complex_float32_type_id then Some (Inr (avail_complex 4 float32_na mem a))
      else if tid = complex_float64_type_id then Some (Inr (avail_complex 8 float64_na mem a))
      else if tid = void_type_id then Some (Inr False)
      else if tid = string_type_id then Some (Inr (string_begin mem a \<noteq> 0))
      else if tid = date_type_id then Some (Inr (load_sint mem a 4 \<noteq> least_sint 4))
      else if tid = time_type_id then Some (Inr (load_sint mem a 8 \<noteq> least_sint 8))
      else if tid = datetime_type_id then Some (Inr (load_sint mem a 8 \<noteq> least_sint 8))
      else if tid = pointer_type_id then Some (Inl (runtime_error ''is_avail for pointers is not yet implemented''))
      else None)"

definition write_bool :: "int \<Rightarrow> memory \<Rightarrow> bool \<Rightarrow> memory" where
  "write_bool dst mem b = mem(dst := of_bool b)"

definition is_avail_single :: "type_id \<Rightarrow> int \<Rightarrow> int \<Rightarrow> memory \<Rightarrow> na_result option" where
  "is_avail_single tid dst src0 mem =
     map_option (\<lambda>r. bind_made r (\<lambda>b. Inr (write_bool dst mem b))) (is_avail_element tid mem src0)"

fun avail_loop :: "(memory \<Rightarrow> int \<Rightarrow> bool) \<Rightarrow> int \<Rightarrow> int \<Rightarrow> nat \<Rightarrow> int \<Rightarrow> int \<Rightarrow> memory \<Rightarrow> memory" where
  "avail_loop element stride src0_stride 0 dst src0 mem = mem"
| "avail_loop element stride src0_stride (Suc count) dst src0 mem =
     avail_loop element stride src0_stride count (dst + stride) (src0 + src0_stride) (write_bool dst mem (element mem src0))"

text \<open>
  The loop for dates reads the array of the source pointers in the place of the element, that is, the low half of the
  first pointer. The loop for datetimes reads the first element each time.
\<close>

definition low_sint32 :: "int \<Rightarrow> int" where
  "low_sint32 p = (let v = p mod 2 ^ 32 in if v < 2 ^ 31 then v else v - 2 ^ 32)"

definition is_avail_strided :: "type_id \<Rightarrow> int \<Rightarrow> int \<Rightarrow> int \<Rightarrow> int \<Rightarrow> nat \<Rightarrow> memory \<Rightarrow> na_result option" where
  "is_avail_strided tid dst stride src src_stride count mem =
     (let loop = (\<lambda>element. Some (Inr (avail_loop element stride src_stride count dst src mem)))
      in if tid = bool_type_id then loop (\<lambda>mem a. mem a \<le> 1)
         else if tid \<in> set sint_ids
         then (let n = nat (builtin_data_size tid) in loop (\<lambda>mem a. load_sint mem a n \<noteq> least_sint n))
         else if tid = float32_type_id then loop (\<lambda>mem a. \<not> float32_isnan (load_uint mem a 4))
         else if tid = float64_type_id then loop (\<lambda>mem a. \<not> float64_isnan (load_uint mem a 8))
         else if tid = complex_float32_type_id then loop (avail_complex 4 float32_na)
         else if tid = complex_float64_type_id then loop (avail_complex 8 float64_na)
         else if tid = void_type_id then loop (\<lambda>mem a. False)
         else if tid = string_type_id then loop (\<lambda>mem a. string_begin mem a \<noteq> 0)
         else if tid = date_type_id then loop (\<lambda>mem a. low_sint32 src \<noteq> least_sint 4)
         else if tid = time_type_id then loop (\<lambda>mem a. load_sint mem a 8 \<noteq> least_sint 8)
         else if tid = datetime_type_id then loop (\<lambda>mem a. load_sint mem src 8 \<noteq> least_sint 8)
         else if tid = pointer_type_id then Some (Inl (runtime_error ''is_avail for pointers is not yet implemented''))
         else None)"

definition is_avail_fixed_dim :: "type_id \<Rightarrow> dynd_exception + type_id" where
  "is_avail_fixed_dim dtype =
     (if dtype \<in> set na_dim_ids then Inr dtype else Inl (type_error ''fixed_dim_is_avail: expected built-in type''))"

section \<open>One element of an optional builtin type\<close>

definition option_is_avail :: "type_id \<Rightarrow> memory \<Rightarrow> int \<Rightarrow> bool" where
  "option_is_avail tid mem data =
     (if tid = bool_type_id then mem data \<le> 1
      else if tid \<in> set sint_ids
      then (let n = nat (builtin_data_size tid) in load_sint mem data n \<noteq> least_sint n)
      else if tid = float32_type_id then \<not> float32_isnan (load_uint mem data 4)
      else if tid = float64_type_id then \<not> float64_isnan (load_uint mem data 8)
      else if tid = complex_float32_type_id
      then load_uint mem data 4 \<noteq> float32_na \<or> load_uint mem (data + 4) 4 \<noteq> float32_na
      else if tid = complex_float64_type_id
      then load_uint mem data 8 \<noteq> float64_na \<or> load_uint mem (data + 8) 8 \<noteq> float64_na
      else False)"

definition option_assign_na :: "type_id \<Rightarrow> memory \<Rightarrow> int \<Rightarrow> memory" where
  "option_assign_na tid mem data =
     (if tid = bool_type_id then mem(data := 2)
      else if tid \<in> set sint_ids then (let n = nat (builtin_data_size tid) in store_uint mem data n (least_sint n))
      else if tid = float32_type_id then store_uint mem data 4 float32_na
      else if tid = float64_type_id then store_uint mem data 8 float64_na
      else if tid = complex_float32_type_id then store_uint (store_uint mem data 4 float32_na) (data + 4) 4 float32_na
      else if tid = complex_float64_type_id then store_uint (store_uint mem data 8 float64_na) (data + 8) 8 float64_na
      else mem)"

section \<open>Loads and stores\<close>

lemma store_outside: "x < a \<or> a + int n \<le> x \<Longrightarrow> store_uint mem a n v x = mem x"
proof (induction n arbitrary: mem a v)
  case (Suc n)
  have "store_uint (mem(a := word_of_int v)) (a + 1) n (v div 256) x = (mem(a := word_of_int v)) x"
    by (rule Suc.IH) (use Suc.prems in auto)
  moreover have "x \<noteq> a" using Suc.prems by auto
  ultimately show ?case by (metis store_uint.simps(2) fun_upd_other)
qed simp

lemma load_cong: "(\<And>x. a \<le> x \<Longrightarrow> x < a + int n \<Longrightarrow> mem x = mem' x) \<Longrightarrow> load_uint mem a n = load_uint mem' a n"
proof (induction mem a n rule: load_uint.induct)
  case (2 mem a n)
  have "load_uint mem (a + 1) n = load_uint mem' (a + 1) n" using 2(2) by (intro 2(1)) auto
  moreover have "mem a = mem' a" using 2(2)[of a] by simp
  ultimately show ?case by simp
qed simp

lemma load_store_outside: "b + int k \<le> a \<or> a + int n \<le> b \<Longrightarrow> load_uint (store_uint mem a n v) b k = load_uint mem b k"
  by (intro load_cong store_outside) auto

lemma load_store: "load_uint (store_uint mem a n v) a n = v mod 256 ^ n"
proof (induction mem a n v rule: store_uint.induct)
  case (2 mem a n v)
  have "store_uint (mem(a := word_of_int v)) (a + 1) n (v div 256) a = word_of_int v"
    by (simp add: store_outside)
  moreover have "uint (word_of_int v :: u8) = v mod 256" by (simp add: uint_word_of_int)
  moreover have "v mod 256 + 256 * (v div 256 mod 256 ^ n) = v mod (256 * 256 ^ n)"
    by (simp add: zmod_zmult2_eq)
  ultimately show ?case by (simp only: store_uint.simps load_uint.simps 2 power_Suc)
qed simp

lemma load_store_na:
  "load_uint (store_uint mem a 4 float32_na) a 4 = float32_na" "load_uint (store_uint mem a 8 float64_na) a 8 = float64_na"
  by (simp_all add: load_store float32_na_def float64_na_def)

lemma load_store_least: "0 < n \<Longrightarrow> load_sint (store_uint mem a n (least_sint n)) a n = least_sint n"
proof -
  assume n: "0 < n"
  define h :: int where "h = 2 ^ (8 * n - 1)"
  have h: "(256::int) ^ n = 2 * h"
    using n by (simp add: h_def flip: power_mult power_Suc) (simp add: power_mult)
  have pos: "0 < h" by (simp add: h_def)
  have "(- h) mod (2 * h) = h" using pos by (simp add: zmod_zminus1_eq_if)
  moreover have "2 ^ (8 * n) = 2 * h" using h by (simp add: power_mult)
  ultimately show ?thesis
    unfolding load_sint_def load_store least_sint_def Let_def h_def[symmetric] h using pos by simp
qed

lemma na_is_nan: "float32_isnan float32_na" "float64_isnan float64_na"
  by (simp_all add: float32_isnan_def float64_isnan_def float32_na_def float64_na_def)

section \<open>One element\<close>

definition na_size :: "type_id \<Rightarrow> nat" where
  "na_size tid =
     (if tid = string_type_id then 16 else if tid = date_type_id then 4
      else if tid = time_type_id \<or> tid = datetime_type_id then 8 else nat (builtin_data_size tid))"

lemma sint_sizes: "tid \<in> set sint_ids \<Longrightarrow> na_size tid = nat (builtin_data_size tid) \<and> 0 < nat (builtin_data_size tid)"
  by (auto simp: sint_ids_def na_size_def)

text \<open>Whether an element is available depends on its bytes only, and NA is written to these.\<close>

lemma element_local:
  assumes "\<And>x. a \<le> x \<Longrightarrow> x < a + int (na_size tid) \<Longrightarrow> mem x = mem' x"
  shows "is_avail_element tid mem a = is_avail_element tid mem' a"
proof -
  have c: "b + int n \<le> a + int (na_size tid) \<Longrightarrow> a \<le> b \<Longrightarrow> load_uint mem b n = load_uint mem' b n" for b n
    using assms by (intro load_cong) auto
  consider "tid \<in> set sint_ids" | "tid \<notin> set sint_ids" by blast
  then show ?thesis
  proof cases
    case 1
    then have "tid \<noteq> bool_type_id" by (auto simp: sint_ids_def)
    then show ?thesis using 1 c[of a "nat (builtin_data_size tid)"] sint_sizes[OF 1] by (simp add: is_avail_element_def load_sint_def Let_def)
  next
    case 2
    show ?thesis
    proof (cases tid)
      case bool_type_id
      then show ?thesis using assms[of a] by (simp add: is_avail_element_def na_size_def)
    qed (use 2 c[of a 4] c[of a 8] c[of "a + 4" 4] c[of "a + 8" 8] in
        \<open>simp_all add: is_avail_element_def na_size_def load_sint_def avail_complex_def string_begin_def sint_ids_def\<close>)
  qed
qed

lemma single_writes:
  assumes "assign_na_single tid dst mem = Some (Inr mem')"
  shows "is_avail_element tid mem' dst = Some (Inr False) \<and> (x < dst \<or> dst + int (na_size tid) \<le> x \<longrightarrow> mem' x = mem x)"
proof (cases "tid \<in> set sint_ids")
  case True
  then have "tid \<noteq> bool_type_id" by (auto simp: sint_ids_def)
  then show ?thesis
    using True assms sint_sizes[OF True] load_store_least[of "nat (builtin_data_size tid)" mem dst]
    by (auto simp: assign_na_single_def is_avail_element_def assign_na_sint_def store_outside Let_def)
next
  case False
  then show ?thesis
    using assms load_store_least[of 4 mem dst] load_store_least[of 8 mem dst]
    by (cases tid)
      (auto simp: assign_na_single_def is_avail_element_def assign_na_sint_def na_size_def store_outside load_store_na na_is_nan
        assign_na_complex_def avail_complex_def load_store_outside assign_na_string_def sint_ids_def word_le_def split: if_splits)
qed

section \<open>Sequences of elements\<close>

text \<open>
  The functions \<open>strided\<close> that \<^verbatim>\<open>base_kernel\<close> has for kernels that do not define one: \<open>single\<close> on one element after the
  other, without and with a source.
\<close>

fun base_strided_0 :: "(int \<Rightarrow> memory \<Rightarrow> na_result option) \<Rightarrow> int \<Rightarrow> int \<Rightarrow> nat \<Rightarrow> memory \<Rightarrow> na_result option" where
  "base_strided_0 single dst stride 0 mem = Some (Inr mem)"
| "base_strided_0 single dst stride (Suc count) mem =
     (case single dst mem of
        Some (Inr mem) \<Rightarrow> base_strided_0 single (dst + stride) stride count mem
      | r \<Rightarrow> r)"

fun base_strided_1 ::
  "(int \<Rightarrow> int \<Rightarrow> memory \<Rightarrow> na_result option) \<Rightarrow> int \<Rightarrow> int \<Rightarrow> int \<Rightarrow> int \<Rightarrow> nat \<Rightarrow> memory \<Rightarrow> na_result option" where
  "base_strided_1 single dst stride src src_stride 0 mem = Some (Inr mem)"
| "base_strided_1 single dst stride src src_stride (Suc count) mem =
     (case single dst src mem of
        Some (Inr mem) \<Rightarrow> base_strided_1 single (dst + stride) stride (src + src_stride) src_stride count mem
      | r \<Rightarrow> r)"

lemma memset_loop: "Inr (memset_bytes mem dst 2 count) = na_loop (\<lambda>dst mem. Inr (mem(dst := 2))) 1 count dst mem"
  by (induction count arbitrary: dst mem) (simp_all add: bind_made_def)

lemma na_loop_repeats:
  "(\<And>dst mem. single dst mem = Some (body dst mem)) \<Longrightarrow> Some (na_loop body stride count dst mem) = base_strided_0 single dst stride count mem"
  by (induction count arbitrary: dst mem) (simp_all add: bind_made_def split: sum.split)

lemma avail_loop_repeats:
  "(\<And>dst src mem. single dst src mem = Some (Inr (write_bool dst mem (element mem src))))
   \<Longrightarrow> Some (Inr (avail_loop element stride src_stride count dst src mem)) = base_strided_1 single dst stride src src_stride count mem"
  by (induction count arbitrary: dst src mem) simp_all

lemma void_repeats: "base_strided_0 (\<lambda>dst mem. Some (Inr mem)) dst stride count mem = Some (Inr mem)"
  by (induction count arbitrary: dst) simp_all

text \<open>The branches of the kernels.\<close>

lemma sint_not:
  "tid \<in> set sint_ids \<Longrightarrow> tid \<noteq> bool_type_id"
  by (auto simp: sint_ids_def)

lemma assign_na_sint_branch:
  assumes "tid \<in> set sint_ids"
  shows "assign_na_single tid dst mem = Some (Inr (assign_na_sint (nat (builtin_data_size tid)) dst mem))"
    "assign_na_strided tid dst stride count mem
       = Some (na_loop (\<lambda>dst mem. Inr (assign_na_sint (nat (builtin_data_size tid)) dst mem)) stride count dst mem)"
  using assms sint_not[OF assms] by (simp_all add: assign_na_single_def assign_na_strided_def del: builtin_data_size.simps)

lemma assign_na_branches:
  "assign_na_single bool_type_id dst mem = Some (Inr (mem(dst := 2)))"
  "assign_na_single float32_type_id dst mem = Some (Inr (store_uint mem dst 4 float32_na))"
  "assign_na_single float64_type_id dst mem = Some (Inr (store_uint mem dst 8 float64_na))"
  "assign_na_single complex_float32_type_id dst mem = Some (Inr (assign_na_complex 4 float32_na dst mem))"
  "assign_na_single complex_float64_type_id dst mem = Some (Inr (assign_na_complex 8 float64_na dst mem))"
  "assign_na_single string_type_id dst mem = Some (assign_na_string dst mem)"
  "assign_na_single date_type_id dst mem = Some (Inr (assign_na_sint 4 dst mem))"
  "assign_na_single time_type_id dst mem = Some (Inr (assign_na_sint 8 dst mem))"
  "assign_na_single datetime_type_id dst mem = Some (Inr (assign_na_sint 8 dst mem))"
  by (simp_all add: assign_na_single_def sint_ids_def)

lemma assign_na_strided_branches:
  "assign_na_strided bool_type_id dst stride count mem = Some (na_loop (\<lambda>dst mem. Inr (mem(dst := 2))) stride count dst mem)"
  "assign_na_strided float32_type_id dst stride count mem
     = Some (na_loop (\<lambda>dst mem. Inr (store_uint mem dst 4 float32_na)) stride count dst mem)"
  "assign_na_strided float64_type_id dst stride count mem
     = Some (na_loop (\<lambda>dst mem. Inr (store_uint mem dst 8 float64_na)) stride count dst mem)"
  "assign_na_strided complex_float32_type_id dst stride count mem
     = Some (na_loop (\<lambda>dst mem. Inr (assign_na_complex 4 float32_na dst mem)) stride count dst mem)"
  "assign_na_strided complex_float64_type_id dst stride count mem
     = Some (na_loop (\<lambda>dst mem. Inr (assign_na_complex 8 float64_na dst mem)) stride count dst mem)"
  "assign_na_strided string_type_id dst stride count mem = Some (na_loop assign_na_string stride count dst mem)"
  "assign_na_strided date_type_id dst stride count mem = Some (na_loop (\<lambda>dst mem. Inr (assign_na_sint 4 dst mem)) stride count dst mem)"
  "assign_na_strided time_type_id dst stride count mem = Some (na_loop (\<lambda>dst mem. Inr (assign_na_sint 8 dst mem)) stride count dst mem)"
  "assign_na_strided datetime_type_id dst stride count mem
     = Some (na_loop (\<lambda>dst mem. Inr (assign_na_sint 8 dst mem)) stride count dst mem)"
  by (simp_all add: assign_na_strided_def sint_ids_def memset_loop)

lemma assign_na_repeats:
  assumes "0 < count"
  shows "assign_na_strided tid dst stride count mem = base_strided_0 (assign_na_single tid) dst stride count mem"
proof (cases "tid \<in> set sint_ids")
  case True
  show ?thesis
    unfolding assign_na_sint_branch(2)[OF True] by (rule na_loop_repeats) (rule assign_na_sint_branch(1)[OF True])
next
  case False
  obtain n where n: "count = Suc n" using assms by (cases count) auto
  show ?thesis
  proof (cases tid)
    case void_type_id
    then have "assign_na_single tid = (\<lambda>dst mem. Some (Inr mem))"
      using False by (intro ext) (simp add: assign_na_single_def)
    then show ?thesis using void_type_id False by (simp add: assign_na_strided_def void_repeats)
  qed (simp only: assign_na_strided_branches, rule na_loop_repeats, rule assign_na_branches | use False in \<open>simp add: assign_na_strided_def assign_na_single_def n\<close>)+
qed

lemma is_avail_sint_branch:
  assumes "tid \<in> set sint_ids"
  shows "is_avail_single tid dst src mem
       = Some (Inr (write_bool dst mem (load_sint mem src (nat (builtin_data_size tid)) \<noteq> least_sint (nat (builtin_data_size tid)))))"
    "is_avail_strided tid dst stride src src_stride count mem
       = Some (Inr (avail_loop (\<lambda>mem a. load_sint mem a (nat (builtin_data_size tid)) \<noteq> least_sint (nat (builtin_data_size tid)))
           stride src_stride count dst src mem))"
  using assms sint_not[OF assms]
  by (simp_all add: is_avail_single_def is_avail_element_def is_avail_strided_def bind_made_def Let_def del: builtin_data_size.simps)

lemma is_avail_repeats:
  assumes "0 < count" "tid \<noteq> date_type_id" "tid \<noteq> datetime_type_id"
  shows "is_avail_strided tid dst stride src src_stride count mem
    = base_strided_1 (is_avail_single tid) dst stride src src_stride count mem"
proof (cases "tid \<in> set sint_ids")
  case True
  show ?thesis
    unfolding is_avail_sint_branch(2)[OF True] by (rule avail_loop_repeats) (rule is_avail_sint_branch(1)[OF True])
next
  case False
  obtain n where n: "count = Suc n" using assms by (cases count) auto
  define element where "element = (\<lambda>mem a. case is_avail_element tid mem a of Some (Inr b) \<Rightarrow> b | _ \<Rightarrow> False)"
  show ?thesis
  proof (cases "\<exists>mem a. is_avail_element tid mem a = None \<or> (\<exists>e. is_avail_element tid mem a = Some (Inl e))")
    case True
    then show ?thesis
      using False by (cases tid) (auto simp: is_avail_element_def is_avail_strided_def is_avail_single_def n bind_made_def Let_def)
  next
    case ok: False
    have e: "is_avail_element tid mem a = Some (Inr (element mem a))" for mem a
    proof -
      from ok[unfolded not_ex, rule_format, of mem a]
      obtain b where "is_avail_element tid mem a = Some (Inr b)" by (metis not_Some_eq sum.exhaust)
      then show ?thesis by (simp add: element_def)
    qed
    have "is_avail_strided tid dst stride src src_stride count mem = Some (Inr (avail_loop element stride src_stride count dst src mem))"
      using False assms(2,3) ok
      by (cases tid) (simp_all add: element_def is_avail_strided_def is_avail_element_def sint_ids_def)
    then show ?thesis
      using avail_loop_repeats[of "is_avail_single tid" element] e by (simp add: is_avail_single_def bind_made_def)
  qed
qed

section \<open>Properties\<close>

text \<open>
  C13. The kernels that write NA to a sequence of elements and look for NA in one do what their functions for a single
  element do, one after the other in the order of the sequence, whatever the strides and however the elements
  overlap, for every type but dates and datetimes, where looking for NA does not.
\<close>

theorem strided_na_kernels_repeat_single:
  assumes "0 < count"
  shows "assign_na_strided tid dst stride count mem = base_strided_0 (assign_na_single tid) dst stride count mem
    \<and> (tid \<noteq> date_type_id \<and> tid \<noteq> datetime_type_id \<longrightarrow>
        is_avail_strided tid dst stride src src_stride count mem
          = base_strided_1 (is_avail_single tid) dst stride src src_stride count mem)"
  using assign_na_repeats[OF assms] is_avail_repeats[OF assms] by blast

theorem strided_na_kernels_repeat_single_witness:
  "assign_na_strided int32_type_id 100 4 2 (\<lambda>_. 0) = base_strided_0 (assign_na_single int32_type_id) 100 4 2 (\<lambda>_. 0)
   \<and> is_avail_strided time_type_id 0 1 100 8 3 (\<lambda>_. 0) = base_strided_1 (is_avail_single time_type_id) 0 1 100 8 3 (\<lambda>_. 0)"
  using strided_na_kernels_repeat_single[of 2 int32_type_id 100 4 "\<lambda>_. 0"]
    strided_na_kernels_repeat_single[of 3 time_type_id 0 1 "\<lambda>_. 0" 100 8] by simp

lemma repeated_na:
  assumes "base_strided_0 (assign_na_single tid) dst stride count mem = Some (Inr mem')" "stride = 0 \<or> int (na_size tid) \<le> \<bar>stride\<bar>"
  shows "(\<forall>i<count. is_avail_element tid mem' (dst + int i * stride) = Some (Inr False))
    \<and> (\<forall>x. (\<forall>i<count. x < dst + int i * stride \<or> dst + int i * stride + int (na_size tid) \<le> x) \<longrightarrow> mem' x = mem x)"
  using assms(1)
proof (induction count arbitrary: dst mem)
  case 0
  then show ?case by simp
next
  case (Suc count)
  obtain m where m: "assign_na_single tid dst mem = Some (Inr m)"
    "base_strided_0 (assign_na_single tid) (dst + stride) stride count m = Some (Inr mem')"
    using Suc.prems by (auto split: option.splits sum.splits)
  note ih = Suc.IH[OF m(2)] and first = single_writes[OF m(1)]
  have here: "dst + stride + int i * stride = dst + int (Suc i) * stride" for i by (simp add: algebra_simps)
  have frame: "mem' x = mem x" if "\<And>i. i < Suc count \<Longrightarrow> x < dst + int i * stride \<or> dst + int i * stride + int (na_size tid) \<le> x" for x
  proof -
    have "mem' x = m x" using ih that[of "Suc i" for i] unfolding here by auto
    also have "m x = mem x" using first[of x] that[of 0] by auto
    finally show ?thesis .
  qed
  have "is_avail_element tid mem' dst = Some (Inr False)"
  proof (cases "stride = 0 \<and> 0 < count")
    case True
    then show ?thesis using ih by auto
  next
    case False
    have "mem' x = m x" if x: "dst \<le> x" "x < dst + int (na_size tid)" for x
    proof (cases "count = 0")
      case True
      then show ?thesis using m(2) by simp
    next
      case count: False
      have big: "int (na_size tid) \<le> \<bar>stride\<bar>" using assms(2) False count by auto
      have "x < dst + int (Suc i) * stride \<or> dst + int (Suc i) * stride + int (na_size tid) \<le> x" for i
      proof (cases "0 < stride")
        case True
        then have "stride \<le> int (Suc i) * stride" by simp
        then show ?thesis using big True x by linarith
      next
        case neg: False
        then have "int (Suc i) * stride \<le> stride" using mult_left_mono_neg[of 1 "int (Suc i)" stride] by (simp add: mult.commute)
        then show ?thesis using big neg x by linarith
      qed
      then show ?thesis using ih unfolding here by blast
    qed
    then have "is_avail_element tid mem' dst = is_avail_element tid m dst" by (intro element_local) auto
    then show ?thesis using first by simp
  qed
  then have "is_avail_element tid mem' (dst + int i * stride) = Some (Inr False)" if "i < Suc count" for i
    using that ih unfolding here by (cases i) auto
  then show ?case using frame by blast
qed



text \<open>
  The loop for dates does not look at the dates: the date NA at address 16 is available. The loop for datetimes looks at
  the first of them only: of the two at 16 and 24, the second of which is NA, both are available.
\<close>

definition na_at :: "int \<Rightarrow> nat \<Rightarrow> memory" where
  "na_at a n = store_uint (\<lambda>_. 0) a n (least_sint n)"

lemma date_loop_reads_pointer:
  "is_avail_element date_type_id (na_at 16 4) 16 = Some (Inr False)"
  "is_avail_strided date_type_id 100 1 16 4 1 (na_at 16 4) = Some (Inr (write_bool 100 (na_at 16 4) True))"
  using load_store_least[of 4 "\<lambda>_. 0" 16]
  by (simp_all add: na_at_def is_avail_element_def is_avail_strided_def sint_ids_def low_sint32_def least_sint_def)

lemma datetime_loop_reads_first:
  "is_avail_element datetime_type_id (na_at 24 8) 24 = Some (Inr False)"
  "is_avail_strided datetime_type_id 100 1 16 8 2 (na_at 24 8) = Some (Inr (write_bool 101 (write_bool 100 (na_at 24 8) True) True))"
proof -
  have "load_uint (na_at 24 8) 16 8 = load_uint (\<lambda>_. 0) 16 8" unfolding na_at_def by (rule load_store_outside) simp
  then have z: "load_sint (na_at 24 8) 16 8 = 0" by (simp add: load_sint_def eval_nat_numeral)
  moreover have "load_sint (write_bool 100 mem b) 16 8 = load_sint mem 16 8" for mem b
    unfolding load_sint_def by (subst load_cong[of 16 8 "write_bool 100 mem b" mem]) (simp_all add: write_bool_def)
  ultimately show "is_avail_strided datetime_type_id 100 1 16 8 2 (na_at 24 8)
      = Some (Inr (write_bool 101 (write_bool 100 (na_at 24 8) True) True))"
    by (simp add: is_avail_strided_def sint_ids_def eval_nat_numeral) (simp add: least_sint_def)
  show "is_avail_element datetime_type_id (na_at 24 8) 24 = Some (Inr False)"
    using load_store_least[of 8 "\<lambda>_. 0" 24] by (simp add: na_at_def is_avail_element_def sint_ids_def)
qed

text \<open>
  The kernel and the function for one element disagree on complex numbers of which one part is NA: the kernel takes
  them for missing. On the other builtin types they agree.
\<close>

lemma avail_kernel_and_option_agree:
  assumes "tid \<in> set na_dim_ids" "tid \<noteq> complex_float32_type_id" "tid \<noteq> complex_float64_type_id"
  shows "is_avail_element tid mem a = Some (Inr (option_is_avail tid mem a))"
  using assms by (auto simp: na_dim_ids_def is_avail_element_def option_is_avail_def sint_ids_def Let_def)

lemma half_na_complex_disagree:
  assumes "load_uint mem a 4 = float32_na" "load_uint mem (a + 4) 4 \<noteq> float32_na"
  shows "is_avail_element complex_float32_type_id mem a = Some (Inr False)" "option_is_avail complex_float32_type_id mem a"
  using assms by (simp_all add: is_avail_element_def option_is_avail_def sint_ids_def avail_complex_def)


end
