(* ===== verification/Builtin_Assign.thy ===== *)
theory Builtin_Assign
  imports Types Complex_Main
begin

text \<open>
  Assignment between the builtin types in the error modes: the templates \<^verbatim>\<open>is_overflow\<close> and \<^verbatim>\<open>assignment_kernel\<close> of
  \<^verbatim>\<open>kernels/assignment_kernels.hpp\<close> for booleans, the integers of up to 64 bits, \<^verbatim>\<open>float\<close>, \<^verbatim>\<open>double\<close> and complex
  sources and destinations of integers. An integer is its value, a floating point number its value or one of the special
  ones. A conversion that C++ leaves undefined is a result of its own.
\<close>

section \<open>Values\<close>

datatype assign_failure = overflow_failure | fractional_failure | imaginary_failure | inexact_failure | mode_failure | undefined_cast

type_synonym 'a assigned = "assign_failure + 'a"

definition small_sint_ids :: "type_id list" where
  "small_sint_ids = [int8_type_id, int16_type_id, int32_type_id, int64_type_id]"

definition small_uint_ids :: "type_id list" where
  "small_uint_ids = [uint8_type_id, uint16_type_id, uint32_type_id, uint64_type_id]"

definition int_ids :: "type_id list" where
  "int_ids = small_sint_ids @ small_uint_ids"

definition float_ids :: "type_id list" where
  "float_ids = [float32_type_id, float64_type_id]"

definition int_bits :: "type_id \<Rightarrow> nat" where
  "int_bits tid = 8 * nat (builtin_data_size tid)"

definition is_signed_id :: "type_id \<Rightarrow> bool" where
  "is_signed_id tid \<longleftrightarrow> builtin_kind tid = sint_kind"

text \<open>\<^verbatim>\<open>std::numeric_limits\<close> and \<^verbatim>\<open>static_cast\<close> of integers.\<close>

definition limit_min :: "type_id \<Rightarrow> int" where
  "limit_min tid = (if is_signed_id tid then - (2 ^ (int_bits tid - 1)) else 0)"

definition limit_max :: "type_id \<Rightarrow> int" where
  "limit_max tid = (if is_signed_id tid then 2 ^ (int_bits tid - 1) - 1 else 2 ^ int_bits tid - 1)"

definition cast_int_to :: "type_id \<Rightarrow> int \<Rightarrow> int" where
  "cast_int_to tid v =
     (let m = 2 ^ int_bits tid
      in if is_signed_id tid then (v + m div 2) mod m - m div 2 else v mod m)"

definition int_fits :: "type_id \<Rightarrow> int \<Rightarrow> bool" where
  "int_fits tid v \<longleftrightarrow> limit_min tid \<le> v \<and> v \<le> limit_max tid"

text \<open>Floating point values; an infinity has a sign, True for the negative one.\<close>

datatype fvalue = NaN | Infinite bool | Finite rat

definition fless :: "fvalue \<Rightarrow> fvalue \<Rightarrow> bool" where
  "fless a b =
     (case a of
        NaN \<Rightarrow> False
      | Infinite neg \<Rightarrow> (case b of NaN \<Rightarrow> False | Infinite neg' \<Rightarrow> neg \<and> \<not> neg' | Finite _ \<Rightarrow> neg)
      | Finite q \<Rightarrow> (case b of NaN \<Rightarrow> False | Infinite neg' \<Rightarrow> \<not> neg' | Finite q' \<Rightarrow> q < q'))"

definition fequal :: "fvalue \<Rightarrow> fvalue \<Rightarrow> bool" where
  "fequal a b \<longleftrightarrow> a = b \<and> a \<noteq> NaN"

definition ffloor :: "fvalue \<Rightarrow> fvalue" where
  "ffloor a = (case a of Finite q \<Rightarrow> Finite (of_int \<lfloor>q\<rfloor>) | _ \<Rightarrow> a)"

text \<open>The digits of the significand, and an integer converted to the nearest floating point value, a tie to the even one.\<close>

definition significand :: "type_id \<Rightarrow> nat" where
  "significand tid = (if tid = float32_type_id then 24 else 53)"

function drop_count :: "nat \<Rightarrow> nat \<Rightarrow> nat" where
  "drop_count p a = (if a < 2 ^ p then 0 else Suc (drop_count p (a div 2)))"
  by pat_completeness auto

termination
proof (relation "measure (\<lambda>(p, a). a)")
  fix p a :: nat assume "\<not> a < 2 ^ p"
  moreover have "0 < (2::nat) ^ p" by simp
  ultimately have "0 < a" by linarith
  then show "((p, a div 2), (p, a)) \<in> measure (\<lambda>(p, a). a)" by simp
qed simp

declare drop_count.simps [simp del]

definition round_magnitude :: "nat \<Rightarrow> nat \<Rightarrow> nat" where
  "round_magnitude p a =
     (let k = drop_count p a; q = a div 2 ^ k; r = a mod 2 ^ k
      in (if 2 * r > 2 ^ k \<or> (2 * r = 2 ^ k \<and> odd q) then q + 1 else q) * 2 ^ k)"

definition int_to_float :: "type_id \<Rightarrow> int \<Rightarrow> int" where
  "int_to_float ftid v = sgn v * int (round_magnitude (significand ftid) (nat \<bar>v\<bar>))"

text \<open>\<^verbatim>\<open>static_cast\<close> of a floating point number to an integer drops the fraction; out of range it is undefined.\<close>

definition truncate_rat :: "rat \<Rightarrow> int" where
  "truncate_rat q = (if 0 \<le> q then \<lfloor>q\<rfloor> else \<lceil>q\<rceil>)"

definition cast_float_to_int :: "type_id \<Rightarrow> fvalue \<Rightarrow> int assigned" where
  "cast_float_to_int tid a =
     (case a of
        Finite q \<Rightarrow> if int_fits tid (truncate_rat q) then Inr (truncate_rat q) else Inl undefined_cast
      | _ \<Rightarrow> Inl undefined_cast)"

section \<open>Integers\<close>

text \<open>The templates \<^verbatim>\<open>is_overflow\<close>, for a destination that is smaller and one that is not.\<close>

definition is_overflow_sint_sint :: "type_id \<Rightarrow> type_id \<Rightarrow> int \<Rightarrow> bool" where
  "is_overflow_sint_sint dst src s =
     (if builtin_data_size dst < builtin_data_size src
      then s < cast_int_to src (limit_min dst) \<or> s > cast_int_to src (limit_max dst)
      else False)"

definition is_overflow_sint_uint :: "type_id \<Rightarrow> type_id \<Rightarrow> int \<Rightarrow> bool" where
  "is_overflow_sint_uint dst src s =
     (if builtin_data_size dst < builtin_data_size src then s > cast_int_to src (limit_max dst) else False)"

definition is_overflow_uint_sint :: "type_id \<Rightarrow> type_id \<Rightarrow> int \<Rightarrow> bool" where
  "is_overflow_uint_sint dst src s =
     (if builtin_data_size dst < builtin_data_size src then s < 0 \<or> cast_int_to src (limit_max dst) < s else s < 0)"

definition is_overflow_uint_uint :: "type_id \<Rightarrow> type_id \<Rightarrow> int \<Rightarrow> bool" where
  "is_overflow_uint_uint dst src s =
     (if builtin_data_size dst < builtin_data_size src then cast_int_to src (limit_max dst) < s else False)"

definition is_overflow :: "type_id \<Rightarrow> type_id \<Rightarrow> int \<Rightarrow> bool" where
  "is_overflow dst src s =
     (if is_signed_id dst
      then (if is_signed_id src then is_overflow_sint_sint dst src s else is_overflow_sint_uint dst src s)
      else (if is_signed_id src then is_overflow_uint_sint dst src s else is_overflow_uint_uint dst src s))"

text \<open>The kernel with overflow checking, which is the one of the other checked modes, too.\<close>

definition assign_int_checked :: "type_id \<Rightarrow> type_id \<Rightarrow> int \<Rightarrow> int assigned" where
  "assign_int_checked dst src s = (if is_overflow dst src s then Inl overflow_failure else Inr (cast_int_to dst s))"

text \<open>\<^verbatim>\<open>assignment_virtual_kernel\<close> chooses the kernel by the error mode.\<close>

definition by_mode ::
  "assign_error_mode \<Rightarrow> 'a assigned \<Rightarrow> 'a assigned \<Rightarrow> 'a assigned \<Rightarrow> 'a assigned \<Rightarrow> 'a assigned" where
  "by_mode errmode nocheck overflow fractional inexact =
     (case errmode of
        assign_error_nocheck \<Rightarrow> nocheck
      | assign_error_overflow \<Rightarrow> overflow
      | assign_error_fractional \<Rightarrow> fractional
      | assign_error_inexact \<Rightarrow> inexact
      | assign_error_default \<Rightarrow> Inl mode_failure)"

definition assign_int :: "assign_error_mode \<Rightarrow> type_id \<Rightarrow> type_id \<Rightarrow> int \<Rightarrow> int assigned" where
  "assign_int errmode dst src s =
     (let checked = assign_int_checked dst src s in by_mode errmode (Inr (cast_int_to dst s)) checked checked checked)"

section \<open>Booleans\<close>

definition assign_int_bool :: "assign_error_mode \<Rightarrow> int \<Rightarrow> bool assigned" where
  "assign_int_bool errmode s =
     (let checked = (if s = 0 then Inr False else if s = 1 then Inr True else Inl overflow_failure)
      in by_mode errmode (Inr (s \<noteq> 0)) checked checked checked)"

definition assign_float_bool :: "assign_error_mode \<Rightarrow> fvalue \<Rightarrow> bool assigned" where
  "assign_float_bool errmode s =
     (let checked = (if fequal s (Finite 0) then Inr False else if fequal s (Finite 1) then Inr True else Inl overflow_failure)
      in by_mode errmode (Inr (\<not> fequal s (Finite 0))) checked checked checked)"

definition assign_bool_int :: "assign_error_mode \<Rightarrow> type_id \<Rightarrow> bool \<Rightarrow> int assigned" where
  "assign_bool_int errmode dst s =
     (let nocheck = Inr (cast_int_to dst (of_bool s)) in by_mode errmode nocheck nocheck nocheck nocheck)"

section \<open>Floating point numbers to integers\<close>

definition float_overflow_sint :: "type_id \<Rightarrow> type_id \<Rightarrow> fvalue \<Rightarrow> bool" where
  "float_overflow_sint dst src s \<longleftrightarrow>
     fless s (Finite (of_int (int_to_float src (limit_min dst)))) \<or> fless (Finite (of_int (int_to_float src (limit_max dst)))) s"

definition float_overflow_uint :: "type_id \<Rightarrow> type_id \<Rightarrow> fvalue \<Rightarrow> bool" where
  "float_overflow_uint dst src s \<longleftrightarrow> fless s (Finite 0) \<or> fless (Finite (of_int (int_to_float src (limit_max dst)))) s"

definition float_overflow :: "type_id \<Rightarrow> type_id \<Rightarrow> fvalue \<Rightarrow> bool" where
  "float_overflow dst src s = (if is_signed_id dst then float_overflow_sint dst src s else float_overflow_uint dst src s)"

definition assign_float_int_overflow :: "type_id \<Rightarrow> type_id \<Rightarrow> fvalue \<Rightarrow> int assigned" where
  "assign_float_int_overflow dst src s =
     (if float_overflow dst src s then Inl overflow_failure else cast_float_to_int dst s)"

definition assign_float_int_fractional :: "type_id \<Rightarrow> type_id \<Rightarrow> fvalue \<Rightarrow> int assigned" where
  "assign_float_int_fractional dst src s =
     (if float_overflow dst src s then Inl overflow_failure
      else if \<not> fequal (ffloor s) s then Inl fractional_failure
      else cast_float_to_int dst s)"

definition assign_float_int :: "assign_error_mode \<Rightarrow> type_id \<Rightarrow> type_id \<Rightarrow> fvalue \<Rightarrow> int assigned" where
  "assign_float_int errmode dst src s =
     (let fractional = assign_float_int_fractional dst src s
      in by_mode errmode (cast_float_to_int dst s) (assign_float_int_overflow dst src s) fractional fractional)"

text \<open>A complex number is the pair of its parts; the type of the parts is given.\<close>

definition assign_complex_int_overflow :: "type_id \<Rightarrow> type_id \<Rightarrow> fvalue \<times> fvalue \<Rightarrow> int assigned" where
  "assign_complex_int_overflow dst src s =
     (case s of (re, im) \<Rightarrow>
        if \<not> fequal im (Finite 0) then Inl imaginary_failure
        else if float_overflow dst src re then Inl overflow_failure
        else cast_float_to_int dst re)"

definition assign_complex_int_fractional :: "type_id \<Rightarrow> type_id \<Rightarrow> fvalue \<times> fvalue \<Rightarrow> int assigned" where
  "assign_complex_int_fractional dst src s =
     (case s of (re, im) \<Rightarrow>
        if \<not> fequal im (Finite 0) then Inl imaginary_failure
        else if float_overflow dst src re then Inl overflow_failure
        else if \<not> fequal (ffloor re) re then Inl fractional_failure
        else cast_float_to_int dst re)"

definition assign_complex_int :: "assign_error_mode \<Rightarrow> type_id \<Rightarrow> type_id \<Rightarrow> fvalue \<times> fvalue \<Rightarrow> int assigned" where
  "assign_complex_int errmode dst src s =
     (let fractional = assign_complex_int_fractional dst src s
      in by_mode errmode (cast_float_to_int dst (fst s)) (assign_complex_int_overflow dst src s) fractional fractional)"

section \<open>Integers to floating point numbers\<close>

definition assign_int_float_inexact :: "type_id \<Rightarrow> type_id \<Rightarrow> int \<Rightarrow> fvalue assigned" where
  "assign_int_float_inexact dst src s =
     (let d = int_to_float dst s
      in case cast_float_to_int src (Finite (of_int d)) of
           Inl e \<Rightarrow> Inl e
         | Inr back \<Rightarrow> if back \<noteq> s then Inl inexact_failure else Inr (Finite (of_int d)))"

definition assign_int_float :: "assign_error_mode \<Rightarrow> type_id \<Rightarrow> type_id \<Rightarrow> int \<Rightarrow> fvalue assigned" where
  "assign_int_float errmode dst src s =
     (let nocheck = Inr (Finite (of_int (int_to_float dst s)))
      in by_mode errmode nocheck nocheck nocheck (assign_int_float_inexact dst src s))"

text \<open>A complex destination gets the number as its real part, and 0.\<close>

definition assign_int_complex :: "assign_error_mode \<Rightarrow> type_id \<Rightarrow> type_id \<Rightarrow> int \<Rightarrow> (fvalue \<times> fvalue) assigned" where
  "assign_int_complex errmode dst src s = map_sum id (\<lambda>d. (d, Finite 0)) (assign_int_float errmode dst src s)"

section \<open>The ranges of the types\<close>

lemma int_id_cases:
  assumes "tid \<in> set int_ids"
  obtains "tid = int8_type_id" | "tid = int16_type_id" | "tid = int32_type_id" | "tid = int64_type_id"
    | "tid = uint8_type_id" | "tid = uint16_type_id" | "tid = uint32_type_id" | "tid = uint64_type_id"
  using assms by (auto simp: int_ids_def small_sint_ids_def small_uint_ids_def)

lemma int_id_facts:
  "int_bits int8_type_id = 8" "int_bits int16_type_id = 16" "int_bits int32_type_id = 32" "int_bits int64_type_id = 64"
  "int_bits uint8_type_id = 8" "int_bits uint16_type_id = 16" "int_bits uint32_type_id = 32" "int_bits uint64_type_id = 64"
  "is_signed_id int8_type_id" "is_signed_id int16_type_id" "is_signed_id int32_type_id" "is_signed_id int64_type_id"
  "\<not> is_signed_id uint8_type_id" "\<not> is_signed_id uint16_type_id" "\<not> is_signed_id uint32_type_id"
  "\<not> is_signed_id uint64_type_id"
  by (simp_all add: int_bits_def is_signed_id_def)

lemma limits:
  "limit_min int8_type_id = - 128" "limit_max int8_type_id = 127"
  "limit_min int16_type_id = - 32768" "limit_max int16_type_id = 32767"
  "limit_min int32_type_id = - 2147483648" "limit_max int32_type_id = 2147483647"
  "limit_min int64_type_id = - 9223372036854775808" "limit_max int64_type_id = 9223372036854775807"
  "limit_min uint8_type_id = 0" "limit_max uint8_type_id = 255"
  "limit_min uint16_type_id = 0" "limit_max uint16_type_id = 65535"
  "limit_min uint32_type_id = 0" "limit_max uint32_type_id = 4294967295"
  "limit_min uint64_type_id = 0" "limit_max uint64_type_id = 18446744073709551615"
  by (simp_all add: limit_min_def limit_max_def int_id_facts)

lemma cast_fits: "int_fits tid v \<Longrightarrow> cast_int_to tid v = v" if "tid \<in> set int_ids"
  using that
  by (cases rule: int_id_cases) (simp_all add: int_fits_def limits cast_int_to_def int_id_facts)

text \<open>The one pair of types for which the check is missing: an unsigned source of the size of a signed destination.\<close>

definition unchecked_pair :: "type_id \<Rightarrow> type_id \<Rightarrow> bool" where
  "unchecked_pair dst src \<longleftrightarrow> is_signed_id dst \<and> \<not> is_signed_id src \<and> int_bits dst = int_bits src"

text \<open>How the ranges lie, for every two types.\<close>

definition ranges_lie :: "type_id \<Rightarrow> type_id \<Rightarrow> bool" where
  "ranges_lie dst src \<longleftrightarrow>
     (if builtin_data_size dst < builtin_data_size src
      then limit_min src \<le> limit_max dst \<and> limit_max dst \<le> limit_max src \<and> int_bits dst \<noteq> int_bits src
        \<and> (is_signed_id src \<longrightarrow> limit_min src \<le> limit_min dst \<and> limit_min dst \<le> limit_max src)
      else (unchecked_pair dst src \<or> limit_max src \<le> limit_max dst)
        \<and> (is_signed_id dst \<or> \<not> is_signed_id src \<longrightarrow> limit_min dst \<le> limit_min src))
     \<and> (is_signed_id dst \<longrightarrow> limit_min dst < 0) \<and> (\<not> is_signed_id src \<longrightarrow> limit_min src = 0)
     \<and> (\<not> is_signed_id dst \<longrightarrow> limit_min dst = 0)"

lemma ranges_list: "list_all (\<lambda>dst. list_all (ranges_lie dst) int_ids) int_ids"
  by code_simp

lemma is_overflow_iff:
  assumes "dst \<in> set int_ids" "src \<in> set int_ids" "int_fits src s"
  shows "is_overflow dst src s \<longleftrightarrow> \<not> unchecked_pair dst src \<and> \<not> int_fits dst s"
proof -
  have r: "ranges_lie dst src" using ranges_list assms(1,2) by (simp add: list_all_iff)
  have c: "cast_int_to src v = v" if "limit_min src \<le> v" "v \<le> limit_max src" for v
    using that cast_fits[OF assms(2)] by (simp add: int_fits_def)
  show ?thesis
    using r assms(3) c[of "limit_min dst"] c[of "limit_max dst"]
    by (cases "is_signed_id dst"; cases "is_signed_id src"; cases "builtin_data_size dst < builtin_data_size src")
      (auto simp: ranges_lie_def is_overflow_def is_overflow_sint_sint_def is_overflow_sint_uint_def
        is_overflow_uint_sint_def is_overflow_uint_uint_def int_fits_def unchecked_pair_def simp del: builtin_data_size.simps)
qed

text \<open>
  C12. In every checked mode an integer is assigned to an integer type exactly when it is in the range of the type, and is
  then stored as it is; any other is an overflow. The one exception is a signed destination of the size of an
  unsigned source, for which nothing is checked and the value wraps around. Without checks the value wraps always, and the
  default mode, which has to be resolved before, is refused.
\<close>

theorem int_assignment_exact:
  assumes "dst \<in> set int_ids" "src \<in> set int_ids" "int_fits src s"
  shows "assign_int errmode dst src s =
    (if errmode = assign_error_default then Inl mode_failure
     else if errmode = assign_error_nocheck \<or> unchecked_pair dst src then Inr (cast_int_to dst s)
     else if int_fits dst s then Inr s else Inl overflow_failure)"
  using is_overflow_iff[OF assms] cast_fits[OF assms(1), of s]
  by (cases errmode) (simp_all add: assign_int_def by_mode_def assign_int_checked_def)

theorem int_assignment_exact_witness:
  "assign_int assign_error_inexact int16_type_id uint32_type_id 40000 = Inl overflow_failure
   \<and> assign_int assign_error_overflow uint8_type_id int64_type_id 200 = Inr 200
   \<and> assign_int assign_error_overflow int32_type_id uint32_type_id 4000000000 = Inr (- 294967296)"
  by (subst (1 2 3) int_assignment_exact)
    (simp_all add: int_ids_def small_sint_ids_def small_uint_ids_def int_fits_def limits unchecked_pair_def int_id_facts cast_int_to_def)


section \<open>The limits as floating point numbers\<close>

text \<open>The largest value of a type rounds up where its digits are more than those of the significand.\<close>

definition rounded_max :: "type_id \<Rightarrow> type_id \<Rightarrow> int" where
  "rounded_max src dst = (if significand src < int_bits dst then limit_max dst + 1 else limit_max dst)"

definition limits_round :: "type_id \<Rightarrow> type_id \<Rightarrow> bool" where
  "limits_round src dst \<longleftrightarrow>
     int_to_float src (limit_min dst) = limit_min dst \<and> int_to_float src (limit_max dst) = rounded_max src dst
     \<and> limit_min dst \<le> 0 \<and> 0 < limit_max dst"

lemma drop_count_more: "2 ^ p \<le> a \<Longrightarrow> drop_count p a = Suc (drop_count p (a div 2))"
  by (subst drop_count.simps) simp

lemma drop_count_none: "a < 2 ^ p \<Longrightarrow> drop_count p a = 0"
  by (subst drop_count.simps) simp

lemma limits_round_any:
  assumes "src \<in> set float_ids" "dst \<in> set int_ids"
  shows "limits_round src dst"
proof -
  from assms(1) consider "src = float32_type_id" | "src = float64_type_id" by (auto simp: float_ids_def)
  then show ?thesis
    by cases (use assms(2) in \<open>cases rule: int_id_cases;
      simp add: limits_round_def limits int_to_float_def significand_def round_magnitude_def drop_count_more drop_count_none
        rounded_max_def int_id_facts\<close>)+
qed

lemma limits_round:
  assumes "src \<in> set float_ids" "dst \<in> set int_ids"
  shows "int_to_float src (limit_min dst) = limit_min dst" "int_to_float src (limit_max dst) = rounded_max src dst"
    "limit_min dst \<le> 0" "0 < limit_max dst"
  using limits_round_any[OF assms] by (simp_all add: limits_round_def)

lemma unsigned_min: "dst \<in> set int_ids \<Longrightarrow> \<not> is_signed_id dst \<Longrightarrow> limit_min dst = 0"
  by (simp add: limit_min_def)

lemma float_overflow_exact:
  assumes "src \<in> set float_ids" "dst \<in> set int_ids"
  shows "float_overflow dst src s \<longleftrightarrow>
    fless s (Finite (of_int (limit_min dst))) \<or> fless (Finite (of_int (rounded_max src dst))) s"
  using unsigned_min[OF assms(2)]
  by (simp add: float_overflow_def float_overflow_sint_def float_overflow_uint_def limits_round[OF assms])

lemma truncate_int [simp]: "truncate_rat (of_int z) = z"
  by (simp add: truncate_rat_def)

lemma ffloor_equal: "fequal (ffloor s) s \<longleftrightarrow> (case s of NaN \<Rightarrow> False | Infinite _ \<Rightarrow> True | Finite q \<Rightarrow> of_int \<lfloor>q\<rfloor> = q)"
  by (cases s) (auto simp: fequal_def ffloor_def)

lemma truncate_fits:
  assumes "of_int \<lfloor>q\<rfloor> = (q :: rat)"
  shows "truncate_rat q = \<lfloor>q\<rfloor>"
  by (subst (1) assms[symmetric]) (rule truncate_int)

text \<open>
  C38. In the fractional and the inexact mode a floating point number is assigned to an integer type exactly when it is
  one of the integers of the type, and is stored as it is. Otherwise it is an overflow when it is below or above the
  range, and a fractional part is lost when it is inside; a NaN has a fraction, an infinity overflows. The one exception
  is the number just above the largest integer, where the type has more digits than the significand: the range is tested
  with the largest integer rounded up, so the number passes every test and the conversion is undefined.
\<close>

theorem float_assignment_exact:
  assumes "src \<in> set float_ids" "dst \<in> set int_ids" "errmode = assign_error_fractional \<or> errmode = assign_error_inexact"
  shows "assign_float_int errmode dst src s =
    (case s of
       NaN \<Rightarrow> Inl fractional_failure
     | Infinite _ \<Rightarrow> Inl overflow_failure
     | Finite q \<Rightarrow>
         if q < of_int (limit_min dst) \<or> of_int (rounded_max src dst) < q then Inl overflow_failure
         else if of_int \<lfloor>q\<rfloor> \<noteq> q then Inl fractional_failure
         else if \<lfloor>q\<rfloor> = limit_max dst + 1 then Inl undefined_cast
         else Inr \<lfloor>q\<rfloor>)"
proof -
  have mode: "assign_float_int errmode dst src x = assign_float_int_fractional dst src x" for x
    using assms(3) by (auto simp: assign_float_int_def by_mode_def Let_def)
  show ?thesis
  proof (cases s)
    case (Finite q)
    show ?thesis
    proof (cases "of_int \<lfloor>q\<rfloor> = q")
      case False
      then show ?thesis
        by (simp add: Finite mode assign_float_int_fractional_def float_overflow_exact[OF assms(1,2)] fless_def ffloor_equal)
    next
      case True
      then obtain z where q: "q = of_int z" by metis
      show ?thesis
        using limits_round(3,4)[OF assms(1,2)]
        by (auto simp: mode Finite q assign_float_int_fractional_def float_overflow_exact[OF assms(1,2)] fless_def
            ffloor_equal cast_float_to_int_def int_fits_def rounded_max_def split: if_splits)
    qed
  qed (simp_all add: mode assign_float_int_fractional_def float_overflow_exact[OF assms(1,2)] fless_def ffloor_equal)
qed

theorem float_assignment_exact_witness:
  "assign_float_int assign_error_fractional int8_type_id float32_type_id (Finite (- 128)) = Inr (- 128)
   \<and> assign_float_int assign_error_inexact uint16_type_id float64_type_id (Finite (1 / 2)) = Inl fractional_failure
   \<and> assign_float_int assign_error_fractional int32_type_id float32_type_id (Finite 2147483648) = Inl undefined_cast
   \<and> assign_float_int assign_error_fractional int32_type_id float64_type_id (Finite 2147483648) = Inl overflow_failure"
proof -
  have "\<lfloor>(1 :: rat) / 2\<rfloor> = 0" by (rule floor_unique) simp_all
  then show ?thesis
    by (subst (1 2 3 4) float_assignment_exact)
      (simp_all add: int_ids_def float_ids_def small_sint_ids_def small_uint_ids_def limits rounded_max_def significand_def int_id_facts)
qed



end
