(* ===== verification/Json_Validate.thy ===== *)
theory Json_Validate
  imports Datashape_Total
begin

text \<open>
  Validation of JSON text, from \<^verbatim>\<open>json_parser.cpp\<close>: \<^verbatim>\<open>skip_json_value\<close>, which the parser uses to pass over a value, and
  \<^verbatim>\<open>validate_json\<close>, against a grammar of JSON text. Positions are the rest of the text; the recursion has fuel, and enough
  of it is twice the length of the text.
\<close>

section \<open>Errors\<close>

text \<open>
  A \<^verbatim>\<open>parse_error\<close> has the position and the message, which is a text or what another exception says; a
  \<^verbatim>\<open>json_parse_error\<close> the type, too. Other exceptions pass through the parser.
\<close>

datatype json_message = message string | what dynd_exception

datatype json_error = json_failed string json_message "ndt option" | json_threw dynd_exception | json_no_fuel

definition json_fail :: "string \<Rightarrow> string \<Rightarrow> json_error + 'a" where
  "json_fail position text = Inl (json_failed position (message text) None)"

definition from_scan :: "parse_error + 'a \<Rightarrow> json_error + 'a" where
  "from_scan r = (case r of Inl (Parse_Error position text) \<Rightarrow> json_fail position text | Inr v \<Rightarrow> Inr v)"

definition expect_json :: "string \<Rightarrow> string \<Rightarrow> string \<Rightarrow> json_error + string" where
  "expect_json token text s = (case parse_token token s of Some (_, r) \<Rightarrow> Inr r | None \<Rightarrow> json_fail s text)"

section \<open>Passing over a value\<close>

text \<open>The name of a member and the colon behind it.\<close>

definition skip_name :: "string \<Rightarrow> json_error + string" where
  "skip_name s =
     (let s = skip_whitespace s
      in case parse_doublequote_string_no_ws s of
           None \<Rightarrow> json_fail s ''expected string for name in object dict''
         | Some q \<Rightarrow> bind_made (from_scan q) (\<lambda>(_, r).
             expect_json '':'' ''expected ':' separating name from value in object dict'' r))"

definition skip_json_string :: "string \<Rightarrow> json_error + string" where
  "skip_json_string s =
     (case parse_doublequote_string_no_ws s of
        None \<Rightarrow> json_fail s ''invalid string''
      | Some q \<Rightarrow> map_sum id snd (from_scan q))"

definition skip_json_number :: "string \<Rightarrow> json_error + string" where
  "skip_json_number s =
     (case parse_json_number_no_ws s of None \<Rightarrow> json_fail s ''invalid number'' | Some (_, r) \<Rightarrow> Inr r)"

fun skip_json_value :: "nat \<Rightarrow> string \<Rightarrow> json_error + string"
  and skip_members :: "nat \<Rightarrow> string \<Rightarrow> json_error + string"
  and skip_elements :: "nat \<Rightarrow> string \<Rightarrow> json_error + string" where
  "skip_json_value 0 s = Inl json_no_fuel"
| "skip_json_value (Suc n) s =
     (case skip_whitespace s of
        [] \<Rightarrow> json_fail [] ''malformed JSON, expecting an element''
      | c # t \<Rightarrow>
          if c = CHR ''{''
          then (case parse_token ''}'' t of
                  Some (_, r) \<Rightarrow> Inr r
                | None \<Rightarrow> bind_made (skip_members n t) (expect_json ''}'' (''expected object separator ',' or terminator '}'' @ [CHR 0x27])))
          else if c = CHR ''[''
          then (case parse_token '']'' t of
                  Some (_, r) \<Rightarrow> Inr r
                | None \<Rightarrow> bind_made (skip_elements n t) (expect_json '']'' (''expected array separator ',' or terminator ']'' @ [CHR 0x27])))
          else if c = CHR 0x22 then skip_json_string (c # t)
          else if c = CHR ''t'' then expect_json ''true'' ''invalid json value'' (c # t)
          else if c = CHR ''f'' then expect_json ''false'' ''invalid json value'' (c # t)
          else if c = CHR ''n'' then expect_json ''null'' ''invalid json value'' (c # t)
          else if c = CHR ''-'' \<or> CHR ''0'' \<le> c \<and> c \<le> CHR ''9'' then skip_json_number (c # t)
          else json_fail (c # t) ''invalid json value'')"
| "skip_members 0 s = Inl json_no_fuel"
| "skip_members (Suc n) s =
     bind_made (skip_name s) (\<lambda>s.
     bind_made (skip_json_value n s) (\<lambda>s.
     case parse_token '','' s of Some (_, r) \<Rightarrow> skip_members n r | None \<Rightarrow> Inr s))"
| "skip_elements 0 s = Inl json_no_fuel"
| "skip_elements (Suc n) s =
     bind_made (skip_json_value n s) (\<lambda>s.
     case parse_token '','' s of Some (_, r) \<Rightarrow> skip_elements n r | None \<Rightarrow> Inr s)"

section \<open>Validation\<close>

definition spaces :: "nat \<Rightarrow> string" where
  "spaces n = replicate n (CHR '' '')"

text \<open>The lines around an error and a mark under its column, in a long line only a part of it.\<close>

definition print_json_parse_error_marker :: "string \<Rightarrow> string \<Rightarrow> nat \<Rightarrow> nat \<Rightarrow> string" where
  "print_json_parse_error_marker line_prev line_cur line column =
     (if length line_cur < 200
      then (if line > 1 then line_prev @ newline else []) @ line_cur @ newline @ spaces (column - 1) @ ''^'' @ newline
      else if column < 80
      then take 80 line_cur @ '' ...'' @ newline @ spaces (column - 1) @ ''^'' @ newline
      else (let start = column - 60
            in '' ... '' @ take 80 (drop (start - 1) line_cur) @ '' ...'' @ newline @ spaces 65 @ ''^'' @ newline))"

text \<open>The text of an exception of the calls inside is not modelled; it is an argument.\<close>

definition json_error_message :: "(dynd_exception \<Rightarrow> string) \<Rightarrow> string \<Rightarrow> string \<Rightarrow> string \<Rightarrow> json_message \<Rightarrow> dynd_exception" where
  "json_error_message what_text head text position msg =
     (case get_error_line_column text (length text - length position) of
        None \<Rightarrow> runtime_error ''Cannot get line number of error, its position is out of range''
      | Some (line_prev, line_cur, line, column) \<Rightarrow>
          invalid_argument (''Error '' @ head @ '' JSON at line '' @ decimal line @ '', column '' @ decimal column @ newline
            @ ''Message: '' @ (case msg of message m \<Rightarrow> m | what e \<Rightarrow> what_text e) @ newline
            @ print_json_parse_error_marker line_prev line_cur line column))"

text \<open>The value and the space behind it; None would be a lack of fuel.\<close>

definition skip_json_text :: "string \<Rightarrow> json_error + unit" where
  "skip_json_text s =
     bind_made (skip_json_value (2 * length s + 1) s) (\<lambda>r.
     if skip_whitespace r \<noteq> [] then json_fail (skip_whitespace r) ''unexpected trailing JSON text'' else Inr ())"

definition validate_json :: "(dynd_exception \<Rightarrow> string) \<Rightarrow> string \<Rightarrow> (dynd_exception + unit) option" where
  "validate_json what_text s =
     (case skip_json_text s of
        Inr _ \<Rightarrow> Some (Inr ())
      | Inl (json_failed position msg _) \<Rightarrow> Some (Inl (json_error_message what_text ''validating'' s position msg))
      | Inl (json_threw e) \<Rightarrow> Some (Inl e)
      | Inl json_no_fuel \<Rightarrow> None)"


section \<open>The grammar of JSON text\<close>

abbreviation blanks :: "string \<Rightarrow> bool" where
  "blanks w \<equiv> list_all is_space w"

text \<open>The body of a string: an escape, or any other character but the quote.\<close>

inductive string_body :: "string \<Rightarrow> bool" where
  string_body_end: "string_body []"
| string_body_plain: "c \<noteq> CHR 0x22 \<Longrightarrow> c \<noteq> CHR 0x5C \<Longrightarrow> string_body b \<Longrightarrow> string_body (c # b)"
| string_body_letter:
    "c \<in> {CHR 0x22, CHR 0x5C, CHR ''/'', CHR ''b'', CHR ''f'', CHR ''n'', CHR ''r'', CHR ''t''} \<Longrightarrow> string_body b
     \<Longrightarrow> string_body (CHR 0x5C # c # b)"
| string_body_short: "length h = 4 \<Longrightarrow> list_all is_hex_digit h \<Longrightarrow> string_body b \<Longrightarrow> string_body (CHR 0x5C # CHR ''u'' # h @ b)"
| string_body_long: "length h = 8 \<Longrightarrow> list_all is_hex_digit h \<Longrightarrow> string_body b \<Longrightarrow> string_body (CHR 0x5C # CHR ''U'' # h @ b)"

definition is_json_string :: "string \<Rightarrow> bool" where
  "is_json_string u \<longleftrightarrow> (\<exists>b. string_body b \<and> u = CHR 0x22 # b @ [CHR 0x22])"

inductive is_json_value :: "string \<Rightarrow> bool"
  and is_json_members :: "string \<Rightarrow> bool"
  and is_json_elements :: "string \<Rightarrow> bool" where
  value_number: "blanks w \<Longrightarrow> is_json_number u \<Longrightarrow> is_json_value (w @ u)"
| value_string: "blanks w \<Longrightarrow> is_json_string u \<Longrightarrow> is_json_value (w @ u)"
| value_literal: "blanks w \<Longrightarrow> u \<in> {''true'', ''false'', ''null''} \<Longrightarrow> is_json_value (w @ u)"
| value_empty_array: "blanks w \<Longrightarrow> blanks w' \<Longrightarrow> is_json_value (w @ ''['' @ w' @ '']'')"
| value_array: "blanks w \<Longrightarrow> is_json_elements u \<Longrightarrow> blanks w' \<Longrightarrow> is_json_value (w @ ''['' @ u @ w' @ '']'')"
| value_empty_object: "blanks w \<Longrightarrow> blanks w' \<Longrightarrow> is_json_value (w @ ''{'' @ w' @ ''}'')"
| value_object: "blanks w \<Longrightarrow> is_json_members u \<Longrightarrow> blanks w' \<Longrightarrow> is_json_value (w @ ''{'' @ u @ w' @ ''}'')"
| elements_one: "is_json_value u \<Longrightarrow> is_json_elements u"
| elements_more: "is_json_value u \<Longrightarrow> blanks w \<Longrightarrow> is_json_elements v \<Longrightarrow> is_json_elements (u @ w @ '','' @ v)"
| members_one:
    "blanks w \<Longrightarrow> is_json_string k \<Longrightarrow> blanks w' \<Longrightarrow> is_json_value u \<Longrightarrow> is_json_members (w @ k @ w' @ '':'' @ u)"
| members_more:
    "blanks w \<Longrightarrow> is_json_string k \<Longrightarrow> blanks w' \<Longrightarrow> is_json_value u \<Longrightarrow> blanks w'' \<Longrightarrow> is_json_members v
     \<Longrightarrow> is_json_members (w @ k @ w' @ '':'' @ u @ w'' @ '','' @ v)"

text \<open>A JSON text is a value with space around it.\<close>

definition is_json_text :: "string \<Rightarrow> bool" where
  "is_json_text s \<longleftrightarrow> (\<exists>u w. s = u @ w \<and> is_json_value u \<and> blanks w)"

section \<open>The scanners against the grammar\<close>

lemma skip_whitespace_splits: "\<exists>w. s = w @ skip_whitespace s \<and> blanks w"
  using spaces_before[of s is_space] by (auto simp: skip_whitespace_def list_all_iff)

lemma skip_whitespace_blanks [simp]: "blanks w \<Longrightarrow> skip_whitespace (w @ s) = skip_whitespace s"
  by (induction w) (auto simp: skip_whitespace_def)

lemma skip_whitespace_stops [simp]: "\<not> is_space c \<Longrightarrow> skip_whitespace (c # s) = c # s"
  by (simp add: skip_whitespace_def)

lemma json_characters [simp]:
  "\<not> is_space CHR 0x22" "\<not> is_space CHR ''{''" "\<not> is_space CHR ''}''" "\<not> is_space CHR ''[''" "\<not> is_space CHR '']''"
  "\<not> is_space CHR '',''" "\<not> is_space CHR '':''" "\<not> is_space CHR ''t''" "\<not> is_space CHR ''f''" "\<not> is_space CHR ''n''"
  by (simp_all add: is_space_def)

lemma parse_token_splits: "parse_token t s = Some (v, r) \<Longrightarrow> \<exists>w. s = w @ t @ r \<and> blanks w"
  using skip_whitespace_splits[of s]
  by (auto simp: parse_token_def parse_token_no_ws_def split: if_splits) (metis append_take_drop_id)

lemma parse_token_char [simp]: "\<not> is_space c \<Longrightarrow> blanks w \<Longrightarrow> parse_token [c] (w @ c # r) = Some ((), r)"
  by (simp add: parse_token_def parse_token_no_ws_def)

lemma scan_hex_splits: "scan_hex n e s = Inr r \<Longrightarrow> \<exists>h. s = h @ r \<and> length h = n \<and> list_all is_hex_digit h"
proof -
  assume a: "scan_hex n e s = Inr r"
  then have l: "n \<le> length s" and r: "r = drop n s" and d: "\<forall>i<n. is_hex_digit (s ! i)"
    by (auto simp: scan_hex_def find_None_iff split: if_splits option.splits)
  then show ?thesis
    by (intro exI[of _ "take n s"]) (auto simp: list_all_length)
qed

lemma scan_escape_splits:
  assumes "scan_escape st s = Inr r" "string_body b"
  shows "\<exists>e. s = e @ r \<and> string_body (CHR 0x5C # e @ b)"
proof -
  obtain c t where s: "s = c # t" using assms(1) by (cases s) auto
  consider "c \<in> {CHR 0x22, CHR 0x5C, CHR ''/'', CHR ''b'', CHR ''f'', CHR ''n'', CHR ''r'', CHR ''t''}" "r = t"
    | "c = CHR ''u''" "scan_hex 4 (CHR 0x5C # c # t) t = Inr r"
    | "c = CHR ''U''" "scan_hex 8 (CHR 0x5C # c # t) t = Inr r"
    using assms(1) by (auto simp: s split: if_splits)
  then show ?thesis
  proof cases
    case 1
    then show ?thesis
      using string_body_letter[of c b] assms(2) by (intro exI[of _ "[c]"]) (simp add: s)
  next
    case 2
    then obtain h where "t = h @ r" "length h = 4" "list_all is_hex_digit h" using scan_hex_splits by blast
    then show ?thesis using string_body_short[of h b] 2 assms(2) by (intro exI[of _ "c # h"]) (simp add: s)
  next
    case 3
    then obtain h where "t = h @ r" "length h = 8" "list_all is_hex_digit h" using scan_hex_splits by blast
    then show ?thesis using string_body_long[of h b] 3 assms(2) by (intro exI[of _ "c # h"]) (simp add: s)
  qed
qed

lemma dq_loop_splits:
  "dq_loop start escaped s = Inr (v, r) \<Longrightarrow> \<exists>b. string_body b \<and> s = b @ CHR 0x22 # r"
proof (induction start escaped s arbitrary: v r rule: dq_loop.induct)
  case (2 start escaped c rest)
  consider (escape) t where "c = CHR 0x5C" "scan_escape start rest = Inr t" "dq_loop start True t = Inr (v, r)"
    | (quote) "c = CHR 0x22" "rest = r"
    | (plain) "c \<noteq> CHR 0x5C" "c \<noteq> CHR 0x22" "dq_loop start escaped rest = Inr (v, r)"
    using 2(3) by (auto split: if_splits sum.splits)
  then show ?case
  proof cases
    case escape
    then obtain b where b: "string_body b" "t = b @ CHR 0x22 # r" using 2(1) by blast
    then obtain e where "rest = e @ t" "string_body (CHR 0x5C # e @ b)" using scan_escape_splits[OF escape(2)] by blast
    then show ?thesis using escape b by (intro exI[of _ "CHR 0x5C # e @ b"]) simp
  next
    case quote
    then show ?thesis using string_body_end by (intro exI[of _ "[]"]) simp
  next
    case plain
    then obtain b where "string_body b" "rest = b @ CHR 0x22 # r" using 2(2) by blast
    then show ?thesis using string_body_plain[of c b] plain by (intro exI[of _ "c # b"]) simp
  qed
qed simp

lemma dq_loop_body:
  assumes "string_body b"
  shows "\<exists>f. \<forall>start escaped s. dq_loop start escaped (b @ s) = dq_loop start (escaped \<or> f) s"
  using assms
proof induction
  case string_body_end
  then show ?case by (auto intro: exI[of _ False])
next
  case (string_body_plain c b)
  then obtain f where "\<And>start escaped s. dq_loop start escaped (b @ s) = dq_loop start (escaped \<or> f) s" by blast
  with string_body_plain show ?case by (intro exI[of _ f]) simp
next
  case (string_body_letter c b)
  then obtain f where "\<And>start escaped s. dq_loop start escaped (b @ s) = dq_loop start (escaped \<or> f) s" by blast
  with string_body_letter(1) show ?case by (intro exI[of _ True]) auto
next
  case (string_body_short h b)
  then obtain f where "\<And>start escaped s. dq_loop start escaped (b @ s) = dq_loop start (escaped \<or> f) s" by blast
  with string_body_short(1,2) show ?case by (intro exI[of _ True]) (simp add: scan_hex_digits list_all_iff)
next
  case (string_body_long h b)
  then obtain f where "\<And>start escaped s. dq_loop start escaped (b @ s) = dq_loop start (escaped \<or> f) s" by blast
  with string_body_long(1,2) show ?case by (intro exI[of _ True]) (simp add: scan_hex_digits list_all_iff)
qed

lemma doublequote_splits:
  assumes "parse_doublequote_string_no_ws s = Some (Inr (v, r))"
  shows "\<exists>u. s = u @ r \<and> is_json_string u"
proof -
  obtain t where t: "s = CHR 0x22 # t" "dq_loop s False t = Inr (v, r)"
    using assms by (cases s) (auto simp: parse_doublequote_string_no_ws_def parse_token_no_ws_def split: if_splits)
  then show ?thesis
    using dq_loop_splits[OF t(2)] by (auto simp: is_json_string_def)
qed

lemma doublequote_string:
  assumes "is_json_string u"
  shows "\<exists>v. parse_doublequote_string_no_ws (u @ r) = Some (Inr (v, r))"
proof -
  obtain b where b: "string_body b" "u = CHR 0x22 # b @ [CHR 0x22]" using assms by (auto simp: is_json_string_def)
  then show ?thesis
    using dq_loop_body[OF b(1)] by (auto simp: parse_doublequote_string_no_ws_def parse_token_no_ws_def)
qed

text \<open>A number ends where no character of a number follows.\<close>

definition number_ends :: "string \<Rightarrow> bool" where
  "number_ends r \<longleftrightarrow> r = [] \<or> \<not> is_digit (hd r) \<and> hd r \<notin> {CHR ''.'', CHR ''e'', CHR ''E''}"

lemma number_ends_digits: "number_ends r \<Longrightarrow> dropWhile is_digit r = r"
  by (cases r) (auto simp: number_ends_def)

lemma json_exponent_ends:
  assumes "json_exp_part e" "number_ends r"
  shows "json_exponent (e @ r) = Some r"
proof (cases "e = []")
  case True
  then show ?thesis using assms(2) by (cases r) (auto simp: json_exponent_def number_ends_def)
next
  case False
  then obtain x sg d ds where e: "e = x # sg @ d # ds" "x \<in> {CHR ''e'', CHR ''E''}" "sg \<in> {[], ''+'', ''-''}"
    "is_digit d" "list_all is_digit ds"
    using assms(1) by (auto simp: json_exp_part_def)
  moreover have "d \<noteq> CHR ''+'' \<and> d \<noteq> CHR ''-''" using e(4) by (auto simp: is_digit_def)
  ultimately show ?thesis
    using number_ends_digits[OF assms(2)] by (auto simp: json_exponent_def dropWhile_digits_append)
qed

lemma parse_json_number_ends:
  assumes "is_json_number u" "number_ends r"
  shows "parse_json_number_no_ws (u @ r) = Some (u, r)"
proof -
  obtain sg i f e where s: "u = sg @ i @ f @ e" "sg \<in> {[], ''-''}" "json_int_part i" "json_frac_part f" "json_exp_part e"
    using assms by (auto simp: is_json_number_def)
  have e: "dropWhile is_digit (e @ r) = e @ r" "e @ r \<noteq> [] \<Longrightarrow> hd (e @ r) \<noteq> CHR ''.''"
    using s(5) assms(2) number_ends_digits[OF assms(2)] by (cases e; auto simp: json_exp_part_def is_digit_def number_ends_def)+
  have f: "dropWhile is_digit (f @ e @ r) = f @ e @ r"
    using s(4) e(1) by (cases f) (auto simp: json_frac_part_def is_digit_def)
  have p: "json_integer (i @ f @ e @ r) = Some (f @ e @ r)" "json_fraction (f @ e @ r) = Some (e @ r)"
    "json_exponent (e @ r) = Some r"
    using json_integer_complete[OF s(3) f] json_fraction_complete[OF s(4) e(1)] e(2) json_exponent_ends[OF s(5) assms(2)] by auto
  have "i \<noteq> [] \<and> hd i \<noteq> CHR ''-''" using s(3) by (auto simp: json_int_part_def)
  then show ?thesis
    using p s(1,2) matched_append[of "sg @ i @ f @ e" r] by (cases i) (auto simp: parse_json_number_no_ws_def)
qed

section \<open>What is passed over is a value\<close>

lemma expect_json_splits: "expect_json t text s = Inr r \<Longrightarrow> \<exists>w. s = w @ t @ r \<and> blanks w"
  using parse_token_splits by (auto simp: expect_json_def json_fail_def split: option.splits)

lemma from_scan_Inr: "from_scan q = Inr v \<longleftrightarrow> q = Inr v"
  by (auto simp: from_scan_def json_fail_def split: sum.splits parse_error.splits)

lemma bind_made_Inr: "bind_made r f = Inr v \<longleftrightarrow> (\<exists>x. r = Inr x \<and> f x = Inr v)"
  by (auto simp: bind_made_def split: sum.splits)

lemma skip_name_splits:
  assumes "skip_name s = Inr r"
  shows "\<exists>w k w'. s = w @ k @ w' @ '':'' @ r \<and> blanks w \<and> is_json_string k \<and> blanks w'"
proof -
  obtain v t where q: "parse_doublequote_string_no_ws (skip_whitespace s) = Some (Inr (v, t))"
      "expect_json '':'' ''expected ':' separating name from value in object dict'' t = Inr r"
    using assms by (auto simp: skip_name_def Let_def from_scan_Inr bind_made_Inr json_fail_def split: option.splits)
  obtain k w' w where "skip_whitespace s = k @ t" "is_json_string k" "t = w' @ '':'' @ r" "blanks w'"
    "s = w @ skip_whitespace s" "blanks w"
    using doublequote_splits[OF q(1)] expect_json_splits[OF q(2)] skip_whitespace_splits[of s] by blast
  then show ?thesis by (metis append.assoc)
qed

lemma skip_json_string_splits: "skip_json_string s = Inr r \<Longrightarrow> \<exists>u. s = u @ r \<and> is_json_string u"
  using doublequote_splits
  by (auto simp: skip_json_string_def from_scan_Inr json_fail_def map_sum_def split: option.splits sum.splits)

lemma skip_json_number_splits: "skip_json_number s = Inr r \<Longrightarrow> \<exists>u. s = u @ r \<and> is_json_number u"
  using parse_json_number_sound by (auto simp: skip_json_number_def json_fail_def split: option.splits)

text \<open>The cases of a value that is passed over.\<close>

lemma skip_json_value_cases:
  assumes "skip_json_value (Suc n) s = Inr r"
  obtains (object) w t where "s = w @ ''{'' @ t" "blanks w" "parse_token ''}'' t = None"
      "\<exists>s'. skip_members n t = Inr s' \<and> (\<exists>w'. s' = w' @ ''}'' @ r \<and> blanks w')"
    | (array) w t where "s = w @ ''['' @ t" "blanks w" "parse_token '']'' t = None"
      "\<exists>s'. skip_elements n t = Inr s' \<and> (\<exists>w'. s' = w' @ '']'' @ r \<and> blanks w')"
    | (whole) u where "s = u @ r" "is_json_value u"
proof -
  obtain w where w: "s = w @ skip_whitespace s" "blanks w" using skip_whitespace_splits by blast
  obtain c t where c: "skip_whitespace s = c # t"
    using assms by (cases "skip_whitespace s") (auto simp: json_fail_def)
  then have s: "s = w @ c # t" using w by simp
  note eq = assms[unfolded skip_json_value.simps c list.case]
  consider "c = CHR ''{''" | "c = CHR ''[''" | "c = CHR 0x22" | "c = CHR ''t''" | "c = CHR ''f''" | "c = CHR ''n''"
    | "c = CHR ''-'' \<or> CHR ''0'' \<le> c \<and> c \<le> CHR ''9''" "c \<noteq> CHR ''{''" "c \<noteq> CHR ''[''" "c \<noteq> CHR 0x22" "c \<noteq> CHR ''t''"
      "c \<noteq> CHR ''f''" "c \<noteq> CHR ''n''"
    using eq by (auto simp: json_fail_def split: if_splits)
  then show ?thesis
  proof cases
    case 1
    show ?thesis
    proof (cases "parse_token ''}'' t")
      case None
      then obtain s' msg where s': "skip_members n t = Inr s'" "expect_json ''}'' msg s' = Inr r" using eq 1 by (auto simp: bind_made_Inr)
      have "s = w @ ''{'' @ t" using s 1 by simp
      then show ?thesis using object[OF _ w(2) None] s'(1) expect_json_splits[OF s'(2)] by blast
    next
      case (Some q)
      then have "parse_token ''}'' t = Some ((), r)" using eq 1 by (auto split: prod.splits)
      then obtain w' where "t = w' @ ''}'' @ r" "blanks w'" using parse_token_splits by blast
      then show ?thesis using whole[of "w @ ''{'' @ w' @ ''}''"] value_empty_object[OF w(2)] s 1 by simp
    qed
  next
    case 2
    show ?thesis
    proof (cases "parse_token '']'' t")
      case None
      then obtain s' msg where s': "skip_elements n t = Inr s'" "expect_json '']'' msg s' = Inr r" using eq 2 by (auto simp: bind_made_Inr)
      have "s = w @ ''['' @ t" using s 2 by simp
      then show ?thesis using array[OF _ w(2) None] s'(1) expect_json_splits[OF s'(2)] by blast
    next
      case (Some q)
      then have "parse_token '']'' t = Some ((), r)" using eq 2 by (auto split: prod.splits)
      then obtain w' where "t = w' @ '']'' @ r" "blanks w'" using parse_token_splits by blast
      then show ?thesis using whole[of "w @ ''['' @ w' @ '']''"] value_empty_array[OF w(2)] s 2 by simp
    qed
  next
    case 3
    then have "skip_json_string (c # t) = Inr r" using eq by simp
    then obtain u where "c # t = u @ r" "is_json_string u" using skip_json_string_splits by blast
    then show ?thesis using whole[of "w @ u"] value_string[OF w(2)] s by simp
  next
    case 7
    then have "skip_json_number (c # t) = Inr r" using eq by simp
    then obtain u where "c # t = u @ r" "is_json_number u" using skip_json_number_splits by blast
    then show ?thesis using whole[of "w @ u"] value_number[OF w(2)] s by simp
  next
    case 4
    then obtain w' where "c # t = w' @ ''true'' @ r" "blanks w'" using eq expect_json_splits by fastforce
    then show ?thesis using whole[of "w @ w' @ ''true''"] value_literal[of "w @ w'" "''true''"] s w(2) by simp
  next
    case 5
    then obtain w' where "c # t = w' @ ''false'' @ r" "blanks w'" using eq expect_json_splits by fastforce
    then show ?thesis using whole[of "w @ w' @ ''false''"] value_literal[of "w @ w'" "''false''"] s w(2) by simp
  next
    case 6
    then obtain w' where "c # t = w' @ ''null'' @ r" "blanks w'" using eq expect_json_splits by fastforce
    then show ?thesis using whole[of "w @ w' @ ''null''"] value_literal[of "w @ w'" "''null''"] s w(2) by simp
  qed
qed

lemma skip_sound:
  shows "skip_json_value n s = Inr r \<Longrightarrow> \<exists>u. s = u @ r \<and> is_json_value u"
    and "skip_members n s = Inr r \<Longrightarrow> \<exists>u. s = u @ r \<and> is_json_members u"
    and "skip_elements n s = Inr r \<Longrightarrow> \<exists>u. s = u @ r \<and> is_json_elements u"
proof (induction n arbitrary: s r)
  case (Suc n)
  {
    case 1
    then show ?case
    proof (cases rule: skip_json_value_cases)
      case (object w t)
      then obtain w' s' where o: "skip_members n t = Inr s'" "s' = w' @ ''}'' @ r" "blanks w'" by blast
      then obtain u where "t = u @ s'" "is_json_members u" using Suc.IH(2) by blast
      then show ?thesis
        using value_object[OF object(2) _ o(3), of u] o(2) object(1) by (intro exI[of _ "w @ ''{'' @ u @ w' @ ''}''"]) simp
    next
      case (array w t)
      then obtain w' s' where o: "skip_elements n t = Inr s'" "s' = w' @ '']'' @ r" "blanks w'" by blast
      then obtain u where "t = u @ s'" "is_json_elements u" using Suc.IH(3) by blast
      then show ?thesis
        using value_array[OF array(2) _ o(3), of u] o(2) array(1) by (intro exI[of _ "w @ ''['' @ u @ w' @ '']''"]) simp
    qed blast
  next
    case 2
    then obtain s1 s2 where p: "skip_name s = Inr s1" "skip_json_value n s1 = Inr s2"
      "(case parse_token '','' s2 of Some (_, r) \<Rightarrow> skip_members n r | None \<Rightarrow> Inr s2) = Inr r"
      by (auto simp: bind_made_Inr)
    obtain w k w' where n: "s = w @ k @ w' @ '':'' @ s1" "blanks w" "is_json_string k" "blanks w'"
      using skip_name_splits[OF p(1)] by blast
    obtain u where u: "s1 = u @ s2" "is_json_value u" using Suc.IH(1)[OF p(2)] by blast
    show ?case
    proof (cases "parse_token '','' s2")
      case None
      then show ?thesis
        using p(3) n u members_one[OF n(2-4) u(2)] by (intro exI[of _ "w @ k @ w' @ '':'' @ u"]) simp
    next
      case (Some q)
      then obtain s3 where q: "parse_token '','' s2 = Some ((), s3)" "skip_members n s3 = Inr r"
        using p(3) by (cases q) auto
      obtain w'' where c: "s2 = w'' @ '','' @ s3" "blanks w''" using parse_token_splits[OF q(1)] by blast
      obtain v where v: "s3 = v @ r" "is_json_members v" using Suc.IH(2)[OF q(2)] by blast
      show ?thesis
        using n u c v members_more[OF n(2-4) u(2) c(2) v(2)]
        by (intro exI[of _ "w @ k @ w' @ '':'' @ u @ w'' @ '','' @ v"]) simp
    qed
  next
    case 3
    then obtain s2 where p: "skip_json_value n s = Inr s2"
      "(case parse_token '','' s2 of Some (_, r) \<Rightarrow> skip_elements n r | None \<Rightarrow> Inr s2) = Inr r"
      by (auto simp: bind_made_Inr)
    obtain u where u: "s = u @ s2" "is_json_value u" using Suc.IH(1)[OF p(1)] by blast
    show ?case
    proof (cases "parse_token '','' s2")
      case None
      then show ?thesis using p(2) u elements_one[OF u(2)] by auto
    next
      case (Some q)
      then obtain s3 where q: "parse_token '','' s2 = Some ((), s3)" "skip_elements n s3 = Inr r"
        using p(2) by (cases q) auto
      obtain w where c: "s2 = w @ '','' @ s3" "blanks w" using parse_token_splits[OF q(1)] by blast
      obtain v where v: "s3 = v @ r" "is_json_elements v" using Suc.IH(3)[OF q(2)] by blast
      show ?thesis
        using u c v elements_more[OF u(2) c(2) v(2)] by (intro exI[of _ "u @ w @ '','' @ v"]) simp
    qed
  }
qed simp_all

section \<open>Every value is passed over\<close>

lemma space_no_digit: "is_space c \<Longrightarrow> \<not> (CHR ''0'' \<le> c \<and> c \<le> CHR ''9'')"
proof
  assume s: "is_space c" and d: "CHR ''0'' \<le> c \<and> c \<le> CHR ''9''"
  then have "c \<le> CHR 0x0D" by (auto simp: is_space_def)
  with d have "CHR ''0'' \<le> CHR 0x0D" using order_trans by blast
  then show False by simp
qed

lemma space_ends: "is_space c \<Longrightarrow> number_ends (c # r)"
  using space_no_digit[of c] by (auto simp: number_ends_def is_digit_def) (auto simp: is_space_def)

lemma number_ends_blank:
  assumes "blanks w" "c \<in> {CHR ''}'', CHR '']'', CHR '','', CHR '':''}"
  shows "number_ends (w @ c # s)"
  using assms by (cases w) (auto simp: space_ends, auto simp: number_ends_def is_digit_def)

lemma number_ends_blanks: "blanks w \<Longrightarrow> number_ends w"
  by (cases w) (auto simp: space_ends, simp add: number_ends_def)

lemma parse_token_other: "\<not> is_space d \<Longrightarrow> d \<noteq> c \<Longrightarrow> blanks w \<Longrightarrow> parse_token [c] (w @ d # r) = None"
  by (simp add: parse_token_def parse_token_no_ws_def)

lemma parse_token_word: "t \<noteq> [] \<Longrightarrow> \<not> is_space (hd t) \<Longrightarrow> blanks w \<Longrightarrow> parse_token t (w @ t @ r) = Some ((), r)"
  by (cases t) (simp_all add: parse_token_def parse_token_no_ws_def)

lemma number_head:
  assumes "is_json_number u"
  obtains c t where "u = c # t" "c = CHR ''-'' \<or> CHR ''0'' \<le> c \<and> c \<le> CHR ''9''"
  using assms by (auto simp: is_json_number_def json_int_part_def less_eq_char_def)

text \<open>The first character of a value.\<close>

lemma value_head:
  "is_json_value u \<Longrightarrow> \<exists>w c t. u = w @ c # t \<and> blanks w \<and> \<not> is_space c \<and> c \<notin> {CHR '']'', CHR ''}'', CHR '',''}"
  "is_json_members u \<Longrightarrow> \<exists>w t. u = w @ CHR 0x22 # t \<and> blanks w"
  "is_json_elements u \<Longrightarrow> \<exists>w c t. u = w @ c # t \<and> blanks w \<and> \<not> is_space c \<and> c \<notin> {CHR '']'', CHR ''}'', CHR '',''}"
proof (induction rule: is_json_value_is_json_members_is_json_elements.inducts)
  case (value_number w u)
  then obtain c t where "u = c # t" "c = CHR ''-'' \<or> CHR ''0'' \<le> c \<and> c \<le> CHR ''9''" using number_head by blast
  moreover from this have "\<not> is_space c \<and> c \<notin> {CHR '']'', CHR ''}'', CHR '',''}" using space_no_digit[of c] by (auto simp: is_space_def)
  ultimately show ?case using value_number(1) by blast
next
  case (value_string w u)
  then show ?case by (fastforce simp: is_json_string_def)
next
  case (value_literal w u)
  then show ?case by fastforce
next
  case (members_one w k w' u)
  then show ?case by (fastforce simp: is_json_string_def)
next
  case (members_more w k w' u w'' v)
  then show ?case by (fastforce simp: is_json_string_def)
qed fastforce+

lemma skip_name_complete:
  assumes "blanks w" "is_json_string k" "blanks w'"
  shows "skip_name (w @ k @ w' @ CHR '':'' # r) = Inr r"
proof -
  obtain v where "parse_doublequote_string_no_ws (k @ w' @ CHR '':'' # r) = Some (Inr (v, w' @ CHR '':'' # r))"
    using doublequote_string[OF assms(2)] by blast
  moreover have "skip_whitespace (k @ w' @ CHR '':'' # r) = k @ w' @ CHR '':'' # r"
    using assms(2) by (auto simp: is_json_string_def)
  ultimately show ?thesis
    using assms by (simp add: skip_name_def from_scan_def bind_made_def expect_json_def split: prod.split)
qed

lemma skip_json_string_complete: "is_json_string u \<Longrightarrow> skip_json_string (u @ r) = Inr r"
  using doublequote_string[of u r] by (auto simp: skip_json_string_def from_scan_def)

lemma skip_json_value_step:
  assumes "blanks w" "\<not> is_space c"
  shows "skip_json_value (Suc n) (w @ c # t) = skip_json_value (Suc n) (c # t)"
  using assms by simp

lemma no_comma: "blanks w \<Longrightarrow> c \<in> {CHR ''}'', CHR '']''} \<Longrightarrow> parse_token '','' (w @ c # r) = None"
  by (rule parse_token_other) auto

lemma skip_complete:
  "is_json_value u \<Longrightarrow> number_ends r \<Longrightarrow> 2 * length u < n \<Longrightarrow> skip_json_value n (u @ r) = Inr r"
  "is_json_members u \<Longrightarrow> number_ends r \<Longrightarrow> parse_token '','' r = None \<Longrightarrow> 2 * length u + 1 < n \<Longrightarrow> skip_members n (u @ r) = Inr r"
  "is_json_elements u \<Longrightarrow> number_ends r \<Longrightarrow> parse_token '','' r = None \<Longrightarrow> 2 * length u + 1 < n \<Longrightarrow> skip_elements n (u @ r) = Inr r"
proof (induction arbitrary: r n and r n and r n rule: is_json_value_is_json_members_is_json_elements.inducts)
  case (value_number w u)
  then obtain m where n: "n = Suc m" by (cases n) auto
  obtain c t where c: "u = c # t" "c = CHR ''-'' \<or> CHR ''0'' \<le> c \<and> c \<le> CHR ''9''" using number_head[OF value_number(2)] .
  have sp: "\<not> is_space c" using c(2) space_no_digit[of c] by (auto simp: is_space_def)
  have other: "c \<notin> {CHR ''{'', CHR ''['', CHR 0x22, CHR ''t'', CHR ''f'', CHR ''n''}" using c(2) by auto
  have "skip_json_number (u @ r) = Inr r" using parse_json_number_ends[OF value_number(2,3)] by (simp add: skip_json_number_def)
  then show ?case using value_number(1) c sp other by (simp add: n)
next
  case (value_string w u)
  then obtain m where n: "n = Suc m" by (cases n) auto
  obtain b where "u = CHR 0x22 # b" using value_string(2) by (auto simp: is_json_string_def)
  then show ?case using value_string(1) skip_json_string_complete[OF value_string(2), of r] by (simp add: n)
next
  case (value_literal w u)
  then obtain m where n: "n = Suc m" by (cases n) auto
  have "parse_token u (u @ r) = Some ((), r)" using value_literal(2) parse_token_word[of u "[]"] by auto
  then show ?case using value_literal(1,2) by (auto simp: n expect_json_def)
next
  case (value_empty_array w w')
  then obtain m where n: "n = Suc m" by (cases n) auto
  then show ?case using value_empty_array(1,2) by simp
next
  case (value_array w u w')
  then obtain m where n: "n = Suc m" by (cases n) auto
  obtain v c t where h: "u = v @ c # t" "blanks v" "\<not> is_space c" "c \<noteq> CHR '']''" using value_head(3)[OF value_array(2)] by auto
  have "skip_elements m (u @ w' @ CHR '']'' # r) = Inr (w' @ CHR '']'' # r)"
    using value_array(3,6) by (intro value_array(4)) (simp_all add: n number_ends_blank no_comma)
  moreover have "parse_token '']'' (u @ w' @ CHR '']'' # r) = None" using h by (simp add: parse_token_other)
  ultimately show ?case using value_array(1,3) by (simp add: n bind_made_def expect_json_def)
next
  case (value_empty_object w w')
  then obtain m where n: "n = Suc m" by (cases n) auto
  then show ?case using value_empty_object(1,2) by simp
next
  case (value_object w u w')
  then obtain m where n: "n = Suc m" by (cases n) auto
  obtain v t where h: "u = v @ CHR 0x22 # t" "blanks v" using value_head(2)[OF value_object(2)] by auto
  have "skip_members m (u @ w' @ CHR ''}'' # r) = Inr (w' @ CHR ''}'' # r)"
    using value_object(3,6) by (intro value_object(4)) (simp_all add: n number_ends_blank no_comma)
  moreover have "parse_token ''}'' (u @ w' @ CHR ''}'' # r) = None" using h by (simp add: parse_token_other)
  ultimately show ?case using value_object(1,3) by (simp add: n bind_made_def expect_json_def)
next
  case (elements_one u)
  then obtain m where n: "n = Suc m" by (cases n) auto
  then show ?case using elements_one by (simp add: bind_made_def)
next
  case (elements_more u w v)
  then obtain m where n: "n = Suc m" by (cases n) auto
  have "skip_json_value m (u @ w @ CHR '','' # v @ r) = Inr (w @ CHR '','' # v @ r)"
    using elements_more(2,8) by (intro elements_more(4)) (simp_all add: n number_ends_blank)
  moreover have "skip_elements m (v @ r) = Inr r" using elements_more(6,7,8) by (intro elements_more(5)) (simp_all add: n)
  ultimately show ?case using elements_more(2) by (simp add: n bind_made_def)
next
  case (members_one w k w' u)
  then obtain m where n: "n = Suc m" by (cases n) auto
  have "skip_json_value m (u @ r) = Inr r" using members_one(6,8) by (intro members_one(5)) (simp_all add: n)
  then show ?case using skip_name_complete[OF members_one(1-3)] members_one(7) by (simp add: n bind_made_def)
next
  case (members_more w k w' u w'' v)
  then obtain m where n: "n = Suc m" by (cases n) auto
  have "skip_json_value m (u @ w'' @ CHR '','' # v @ r) = Inr (w'' @ CHR '','' # v @ r)"
    using members_more(5,11) by (intro members_more(7)) (simp_all add: n number_ends_blank)
  moreover have "skip_members m (v @ r) = Inr r" using members_more(9,10,11) by (intro members_more(8)) (simp_all add: n)
  ultimately show ?case
    using skip_name_complete[OF members_more(1-3)] members_more(5) by (simp add: n bind_made_def)
qed

section \<open>Errors stand in the text\<close>

text \<open>A result whose rest, or the position of whose error, is an end of the text.\<close>

fun stands_in :: "string \<Rightarrow> json_error + string \<Rightarrow> bool" where
  "stands_in s (Inr r) \<longleftrightarrow> suffix r s"
| "stands_in s (Inl (json_failed position (message _) None)) \<longleftrightarrow> suffix position s"
| "stands_in s _ \<longleftrightarrow> False"

lemma stands_in_fail [simp]: "stands_in s (json_fail position text) \<longleftrightarrow> suffix position s"
  by (simp add: json_fail_def)

lemma stands_in_suffix: "stands_in t r \<Longrightarrow> suffix t s \<Longrightarrow> stands_in s r"
  by (cases "(t, r)" rule: stands_in.cases) (auto intro: suffix_order.trans)

lemma stands_in_bind: "stands_in s r \<Longrightarrow> (\<And>x. r = Inr x \<Longrightarrow> stands_in s (f x)) \<Longrightarrow> stands_in s (bind_made r f)"
  by (cases "(s, r)" rule: stands_in.cases) (auto simp: bind_made_def)

lemma stands_in_expect:
  assumes "suffix t s"
  shows "stands_in s (expect_json token text t)"
proof (cases "parse_token token t")
  case (Some q)
  then obtain r where q: "parse_token token t = Some ((), r)" by (cases q) auto
  then obtain w where "t = w @ token @ r" using parse_token_splits by blast
  then have "suffix r t" by (metis append.assoc suffixI)
  then have "suffix r s" using assms by (rule suffix_order.trans)
  then show ?thesis using q by (simp add: expect_json_def)
qed (use assms in \<open>simp add: expect_json_def\<close>)

lemma scan_hex_position:
  assumes "scan_hex n e s = Inl (Parse_Error p t)" "suffix e start" "suffix s start"
  shows "suffix p start"
proof -
  have "p = e \<or> (\<exists>i. p = drop i s)" using assms(1) by (auto simp: scan_hex_def split: if_splits option.splits)
  moreover have "suffix (drop i s) start" for i by (rule suffix_order.trans[OF suffix_drop assms(3)])
  ultimately show ?thesis using assms(2) by blast
qed

lemma scan_escape_position:
  assumes "scan_escape start s = Inl (Parse_Error p t)" "suffix (CHR 0x5C # s) start"
  shows "suffix p start"
proof (cases s)
  case (Cons c rest)
  have r: "suffix rest start" using suffix_ConsD[OF suffix_ConsD[OF assms(2)[unfolded Cons]]] .
  consider "p = CHR 0x5C # c # rest" | n where "scan_hex n (CHR 0x5C # c # rest) rest = Inl (Parse_Error p t)"
    using assms(1) by (auto simp: Cons split: if_splits)
  then show ?thesis using scan_hex_position[OF _ _ r] assms(2) unfolding Cons by cases blast+
qed (use assms in simp)

lemma dq_loop_position:
  "dq_loop start escaped s = Inl (Parse_Error p t) \<Longrightarrow> suffix s start \<Longrightarrow> suffix p start"
proof (induction start escaped s rule: dq_loop.induct)
  case (2 start escaped c rest)
  have rest: "suffix rest start" using 2(4) by (rule suffix_ConsD)
  consider (error) "c = CHR 0x5C" "scan_escape start rest = Inl (Parse_Error p t)"
    | (escape) r where "c = CHR 0x5C" "scan_escape start rest = Inr r" "dq_loop start True r = Inl (Parse_Error p t)"
    | (plain) "c \<noteq> CHR 0x5C" "c \<noteq> CHR 0x22" "dq_loop start escaped rest = Inl (Parse_Error p t)"
    using 2(3) by (auto split: if_splits sum.splits)
  then show ?case
  proof cases
    case error
    then show ?thesis using scan_escape_position 2(4) by blast
  next
    case escape
    then show ?thesis using 2(1)[OF escape(1,2,3)] scan_escape_length[OF escape(2)] suffix_order.trans[of r rest start] rest by blast
  next
    case plain
    then show ?thesis using 2(2) rest by blast
  qed
qed simp

lemma stands_in_doublequote:
  assumes "parse_doublequote_string_no_ws s = Some q"
  shows "case q of Inr (v, r) \<Rightarrow> suffix r s | Inl (Parse_Error p t) \<Rightarrow> suffix p s"
proof -
  obtain t where t: "s = CHR 0x22 # t" "q = dq_loop s False t"
    using assms by (cases s) (auto simp: parse_doublequote_string_no_ws_def parse_token_no_ws_def split: if_splits)
  then have "suffix t s" by (simp add: suffix_ConsI)
  then show ?thesis
    using t dq_loop_position dq_loop_splits doublequote_splits assms by (fastforce split: sum.splits parse_error.splits prod.splits simp: suffix_def)
qed

lemma skip_whitespace_in: "suffix (skip_whitespace s) s"
  by (rule skip_whitespace_suffix)

lemma stands_in_name: "stands_in s (skip_name s)"
proof (cases "parse_doublequote_string_no_ws (skip_whitespace s)")
  case None
  then show ?thesis by (simp add: skip_name_def skip_whitespace_in)
next
  case (Some q)
  note d = stands_in_doublequote[OF Some]
  show ?thesis
  proof (cases q)
    case (Inl e)
    then show ?thesis
      using d Some by (cases e) (auto simp: skip_name_def from_scan_def bind_made_def json_fail_def intro: suffix_order.trans[OF _ skip_whitespace_in])
  next
    case (Inr x)
    then show ?thesis
      using d Some by (cases x) (auto simp: skip_name_def from_scan_def bind_made_def
          intro!: stands_in_expect intro: suffix_order.trans[OF _ skip_whitespace_in])
  qed
qed

lemma stands_in_string: "stands_in s (skip_json_string s)"
proof (cases "parse_doublequote_string_no_ws s")
  case (Some q)
  then show ?thesis
    using stands_in_doublequote[OF Some]
    by (auto simp: skip_json_string_def from_scan_def json_fail_def split: sum.splits parse_error.splits prod.splits)
qed (simp add: skip_json_string_def)

lemma stands_in_number: "stands_in s (skip_json_number s)"
  using parse_json_number_sound by (auto simp: skip_json_number_def suffix_def split: option.splits)

lemma skip_json_value_shorter: "skip_json_value n s = Inr r \<Longrightarrow> length r < length s"
  using skip_sound(1)[of n s r] value_head(1) by fastforce

lemma skip_name_shorter: "skip_name s = Inr r \<Longrightarrow> length r < length s"
  using skip_name_splits[of s r] by auto

lemma comma_shorter: "parse_token '','' s = Some (v, r) \<Longrightarrow> length r < length s \<and> suffix r s"
  using parse_token_splits[of "'',''" s v r] by (auto simp: suffix_def)

lemma stands_in_if: "(p \<Longrightarrow> stands_in s a) \<Longrightarrow> (\<not> p \<Longrightarrow> stands_in s b) \<Longrightarrow> stands_in s (if p then a else b)"
  by simp

text \<open>Enough fuel: twice the length of the text.\<close>

lemma skip_stands:
  "2 * length s < n \<Longrightarrow> stands_in s (skip_json_value n s)"
  "2 * length s + 1 < n \<Longrightarrow> stands_in s (skip_members n s)"
  "2 * length s + 1 < n \<Longrightarrow> stands_in s (skip_elements n s)"
proof (induction n arbitrary: s)
  case (Suc n)
  {
    case 1
    show ?case
    proof (cases "skip_whitespace s")
      case Nil
      then show ?thesis by simp
    next
      case (Cons c t)
      have ct: "suffix (c # t) s" using skip_whitespace_in[of s] Cons by simp
      have t: "suffix t s" using ct by (rule suffix_ConsD)
      have l: "2 * length t + 1 < n" using 1 suffix_length_le[OF ct] by simp
      have inner: "stands_in s r" if "stands_in t r" for r using that t by (rule stands_in_suffix)
      have whole: "stands_in s r" if "stands_in (c # t) r" for r using that ct by (rule stands_in_suffix)
      have token: "stands_in s (Inr r)" if "parse_token [d] t = Some (v, r)" for d v r
      proof -
        have "suffix r t" using parse_token_splits[OF that] by (auto simp: suffix_def)
        then show ?thesis using t by (simp add: suffix_order.trans)
      qed
      have object: "stands_in s (bind_made (skip_members n t) (expect_json ''}'' m))" for m
        using Suc.IH(2)[OF l] by (intro inner stands_in_bind) (auto intro: stands_in_expect)
      have array: "stands_in s (bind_made (skip_elements n t) (expect_json '']'' m))" for m
        using Suc.IH(3)[OF l] by (intro inner stands_in_bind) (auto intro: stands_in_expect)
      note ends = stands_in_expect[OF ct] whole[OF stands_in_string] whole[OF stands_in_number]
      have obj: "stands_in s (case parse_token ''}'' t of Some (_, r) \<Rightarrow> Inr r
          | None \<Rightarrow> bind_made (skip_members n t) (expect_json ''}'' m))" for m
        using object token by (simp split: option.split)
      have arr: "stands_in s (case parse_token '']'' t of Some (_, r) \<Rightarrow> Inr r
          | None \<Rightarrow> bind_made (skip_elements n t) (expect_json '']'' m))" for m
        using array token by (simp split: option.split)
      show ?thesis
        unfolding skip_json_value.simps Cons list.case
        by (intro stands_in_if) (rule obj arr ends | simp add: ct)+
    qed
  next
    case 2
    show ?case
      unfolding skip_members.simps
    proof (intro stands_in_bind stands_in_name)
      fix s1 assume s1: "skip_name s = Inr s1"
      then have i: "suffix s1 s" using stands_in_name[of s] by simp
      have "2 * length s1 < n" using skip_name_shorter[OF s1] 2 by simp
      then show "stands_in s (skip_json_value n s1)" using Suc.IH(1) i by (blast intro: stands_in_suffix)
      fix s2 assume s2: "skip_json_value n s1 = Inr s2"
      then have j: "suffix s2 s" using \<open>stands_in s (skip_json_value n s1)\<close> by simp
      show "stands_in s (case parse_token '','' s2 of None \<Rightarrow> Inr s2 | Some (_, r) \<Rightarrow> skip_members n r)"
      proof (cases "parse_token '','' s2")
        case (Some q)
        then obtain r where r: "parse_token '','' s2 = Some ((), r)" by (cases q) auto
        then have "length r < length s2" "suffix r s" using comma_shorter[OF r] j suffix_order.trans by blast+
        moreover have "2 * length r + 1 < n"
          using \<open>length r < length s2\<close> skip_json_value_shorter[OF s2] skip_name_shorter[OF s1] 2 by simp
        ultimately show ?thesis using r Suc.IH(2) stands_in_suffix by auto
      qed (simp add: j)
    qed
  next
    case 3
    show ?case
      unfolding skip_elements.simps
    proof (intro stands_in_bind)
      show i: "stands_in s (skip_json_value n s)" using Suc.IH(1) 3 by simp
      fix s2 assume s2: "skip_json_value n s = Inr s2"
      then have j: "suffix s2 s" using i by simp
      show "stands_in s (case parse_token '','' s2 of None \<Rightarrow> Inr s2 | Some (_, r) \<Rightarrow> skip_elements n r)"
      proof (cases "parse_token '','' s2")
        case (Some q)
        then obtain r where r: "parse_token '','' s2 = Some ((), r)" by (cases q) auto
        then have "length r < length s2" "suffix r s" using comma_shorter[OF r] j suffix_order.trans by blast+
        moreover have "2 * length r + 1 < n" using \<open>length r < length s2\<close> skip_json_value_shorter[OF s2] 3 by simp
        ultimately show ?thesis using r Suc.IH(3) stands_in_suffix by auto
      qed (simp add: j)
    qed
  }
qed simp_all

section \<open>Validation\<close>

lemma skip_json_text_cases:
  obtains "is_json_text s" "skip_json_text s = Inr ()"
    | before rest msg where "\<not> is_json_text s" "s = before @ rest" "skip_json_text s = Inl (json_failed rest (message msg) None)"
proof -
  define n where "n = 2 * length s + 1"
  have stands: "stands_in s (skip_json_value n s)" unfolding n_def by (rule skip_stands) simp
  note skip = skip_json_text_def[of s, folded n_def]
  have whole: "\<exists>r. skip_json_value n s = Inr r \<and> skip_whitespace r = []" if good: "is_json_text s"
  proof -
    obtain u w where u: "s = u @ w" "is_json_value u" "blanks w" using good by (auto simp: is_json_text_def)
    then have "skip_json_value n s = Inr w" using skip_complete(1)[OF u(2) number_ends_blanks[OF u(3)], of n] by (simp add: n_def del: skip_json_value.simps)
    then show ?thesis using skip_whitespace_blanks[OF u(3), of "[]"] by (auto simp: skip_whitespace_def)
  qed
  show ?thesis
  proof (cases "skip_json_value n s")
    case (Inl e)
    then obtain rest msg where e: "e = json_failed rest (message msg) None" "suffix rest s"
      using stands by (cases "(s, Inl e :: json_error + string)" rule: stands_in.cases) auto
    then obtain before where "s = before @ rest" by (auto simp: suffix_def)
    moreover have "skip_json_text s = Inl (json_failed rest (message msg) None)" using Inl e(1) by (simp add: skip bind_made_def)
    moreover have "\<not> is_json_text s" using whole Inl by auto
    ultimately show ?thesis using that(2) by blast
  next
    case (Inr r)
    then obtain u where u: "s = u @ r" "is_json_value u" using skip_sound(1) by blast
    obtain w where w: "r = w @ skip_whitespace r" "blanks w" using skip_whitespace_splits by blast
    show ?thesis
    proof (cases "skip_whitespace r = []")
      case True
      then have "is_json_text s" using u w by (auto simp: is_json_text_def)
      then show ?thesis using that(1) True Inr by (simp add: skip bind_made_def)
    next
      case False
      have "s = (u @ w) @ skip_whitespace r" using u(1) w(1) by simp
      moreover have "skip_json_text s = Inl (json_failed (skip_whitespace r) (message ''unexpected trailing JSON text'') None)"
        using Inr False by (simp add: skip bind_made_def json_fail_def)
      moreover have "\<not> is_json_text s" using whole Inr False by auto
      ultimately show ?thesis using that(2) by blast
    qed
  qed
qed



lemma refused_text:
  "skip_json_text (''[1,'' @ newline) = Inl (json_failed [] (message ''malformed JSON, expecting an element'') None)"
  by code_simp


text \<open>What the grammar takes beyond JSON: a raw newline in a string, an escape with eight digits, other characters as space.\<close>

lemma lenient_texts:
  "skip_json_text ([CHR 0x22] @ newline @ [CHR 0x22]) = Inr ()"
  "skip_json_text (''['' @ [CHR 0x0B, CHR 0x22, CHR 0x5C] @ ''U0001F600'' @ [CHR 0x22] @ '']'') = Inr ()"
  by code_simp+

end
