(* ===== verification/Spec2Isabelle.thy ===== *)
theory Spec2Isabelle
  imports Prelude Wide_Int Scan Half_Float Unicode String_Kernels Escape Number_Parse
    Calendar Date_Parse Ref_Count Pod_Blocks Object_Blocks Shape Date_Adapter Types
    Datashape_Parse Datashape_Total Datashape_Roundtrip Type_Match Match_Correct Match_Sound
    Match_Complete
    Type_Promote Substitute_Shape Missing_Values Builtin_Assign Json_Validate
begin

text \<open>
  A verification library for DyND, a C++ library for dynamic, multidimensional arrays whose types are
  described at run time. Paths below are relative to the root of the sources: headers are in
  \<^verbatim>\<open>include/dynd\<close>, implementations in \<^verbatim>\<open>src/dynd\<close>.

  \<^bold>\<open>The program and its parts.\<close> An array is a block of reference counted memory together with a type. Types are
  written as datashapes, text that a recursive descent parser turns into type objects and that types print
  themselves as. Values of one type are assigned to another by kernels, which for strings go through code
  points, for text and numbers through the scanning and number parsing functions, and for dates through the
  calendar. Patterns, types with type variables, select the functions that apply to given arguments.
  Shapes and strides say where the elements of an array lie.

  \<^bold>\<open>Theories, in the order in which they build on each other.\<close>

  \<^item> \<open>Prelude\<close>: names of the machine integers and lemmas on words, options and lists used everywhere.
  \<^item> \<open>Wide_Int\<close> (\<^verbatim>\<open>uint128.hpp\<close>, \<^verbatim>\<open>int128.hpp\<close>, their \<^verbatim>\<open>.cpp\<close>): 128-bit integers as pairs of words. Addition,
    subtraction, products and quotients by words are exact modulo \<open>2 ^ 128\<close> or where the source is not, the theorem says
    for which arguments it is; printing writes the decimal digits.
  \<^item> \<open>Half_Float\<close> (\<^verbatim>\<open>float16.hpp\<close>, \<^verbatim>\<open>float16.cpp\<close>): conversions between bit patterns of half, single and
    double precision. Widening is exact, narrowing gives a nearest number in the normal range, comparison is that of
    values. The locale \<open>wide_format\<close> states once what both wide formats share.
  \<^item> \<open>Unicode\<close> (\<^verbatim>\<open>string_encodings.cpp\<close>): reading and writing code points in five encodings with the error modes. The
    locale \<open>codec\<close> says that reading undoes writing; each encoding is an interpretation.
  \<^item> \<open>String_Kernels\<close> (\<^verbatim>\<open>kernels/string_assignment_kernels.cpp\<close>, \<^verbatim>\<open>kernels/string_algorithm_kernels.cpp\<close>): assignment of
    fixed size and growing strings between encodings and the search for a substring, with the locales \<open>writer\<close>,
    \<open>reader\<close> and \<open>transcoder\<close> between kernels and codecs.
  \<^item> \<open>Scan\<close> (\<^verbatim>\<open>parser_util.hpp\<close>, \<^verbatim>\<open>parser_util.cpp\<close>): scanning functions on the rest of a text. The locale \<open>scanner\<close>
    says that a scan returns an end of the text, \<open>strict_scanner\<close> that it moves.
  \<^item> \<open>Escape\<close>: printing strings with escapes and the unescaping of the JSON parser, which reads them back.
  \<^item> \<open>Number_Parse\<close> (\<^verbatim>\<open>parser_util.cpp\<close>): integers, floating point numbers and booleans from text, with overflow; the
    locale \<open>uint_template\<close> is the template over 64 and 128-bit integers.
  \<^item> \<open>Calendar\<close>, \<open>Date_Parse\<close>, \<open>Date_Adapter\<close> (\<^verbatim>\<open>types/date_util.cpp\<close>, \<^verbatim>\<open>time_util.cpp\<close>, \<^verbatim>\<open>datetime_util.cpp\<close>, the three
    parsers, \<^verbatim>\<open>kernels/date_adapter_kernels.cpp\<close> and \<^verbatim>\<open>datetime_adapter_kernels.cpp\<close>): days and ticks against
    calendar fields, text of dates and datetimes against their fields, adapters between numbers and dates.
  \<^item> \<open>Ref_Count\<close>, \<open>Pod_Blocks\<close>, \<open>Object_Blocks\<close> (\<^verbatim>\<open>memblock\<close>): smart pointers over an explicit store of
    counted blocks, with the invariant that counts are the numbers of owners; the growing memory blocks as
    state machines over a heap of bytes, refined to a map of buffers; the locale \<open>pod_allocator\<close> is the contract
    of the plain and the zeroing block.
  \<^item> \<open>Shape\<close> (\<^verbatim>\<open>shape_tools.cpp\<close>, \<^verbatim>\<open>shape_tools.hpp\<close>, \<^verbatim>\<open>irange.hpp\<close>): broadcasting, axis orders, index ranges.
  \<^item> \<open>Types\<close> (\<^verbatim>\<open>types\<close>, \<^verbatim>\<open>type.cpp\<close>, \<^verbatim>\<open>type.hpp\<close>): a datatype with one constructor per class of type, the virtual
    functions kind, size, alignment, flags and equality, the factories with their checks, and printing.
  \<^item> \<open>Datashape_Parse\<close>, \<open>Datashape_Total\<close>, \<open>Datashape_Roundtrip\<close> (\<^verbatim>\<open>types/datashape_parser.cpp\<close>): the whole parser on
    the rest of the text; it returns for every text and reports errors where they stand (locale
    \<open>datashape_parser\<close>), and it reads back what a type prints.
  \<^item> \<open>Type_Match\<close>, \<open>Match_Correct\<close>, \<open>Match_Sound\<close>, \<open>Match_Complete\<close> (the functions \<^verbatim>\<open>match\<close> of \<^verbatim>\<open>types\<close>,
    \<^verbatim>\<open>type.cpp\<close>, \<^verbatim>\<open>types/dim_fragment_type.cpp\<close>, \<^verbatim>\<open>types/substitute_typevars.cpp\<close>): matching types against patterns
    and substituting type variables. Both end within a depth of as many calls as there are nodes (locale
    \<open>matcher_depth\<close>); what a match finds gives the type back (\<open>sound_matcher\<close>), and every instance is matched
    (\<open>complete_matcher\<close>). The end of \<open>Match_Complete\<close> shows where the code leaves this contract.
  \<^item> \<open>Type_Promote\<close>, \<open>Substitute_Shape\<close> (\<^verbatim>\<open>type_promotion.cpp\<close>, \<^verbatim>\<open>types/substitute_shape.cpp\<close>): the type of the
    result of an arithmetic operation, which is a join of number types and commutes but for 16 bit floats; a shape put into
    the symbolic dimensions of a type.
  \<^item> \<open>Missing_Values\<close> (\<^verbatim>\<open>kernels/assign_na_kernel.hpp\<close>, \<^verbatim>\<open>kernels/is_avail_kernel.hpp\<close>, \<^verbatim>\<open>types/option_type.cpp\<close>): the
    kernels that write and find missing values in memory, one by one and strided; each strided function against the loop
    of \<^verbatim>\<open>kernels/base_kernel.hpp\<close>, which shows two that read the wrong place.
  \<^item> \<open>Builtin_Assign\<close> (\<^verbatim>\<open>kernels/assignment_kernels.hpp\<close>): assignment between booleans, integers and floating point
    numbers in every error mode; exactly which values pass the checks, and two that should not.
  \<^item> \<open>Json_Validate\<close> (\<^verbatim>\<open>json_parser.cpp\<close>): the validation of JSON text decides a grammar of JSON, written as
    inductive predicates, and its errors stand where they are. Twice the length of the text and one is enough fuel.

  \<^bold>\<open>State, errors and recursion.\<close> A cursor into a text is the rest of the text. Mutable objects are records that
  operations return updated. Exceptions are values of a sum type, the \<open>Inl\<close> side, and carry the message up to the
  first value it prints; in-out parameters are arguments and results. Integers keep their width as words, or are
  integers with an explicit cast where the source casts. Recursion over text has the length of the text as fuel:
  \<open>datashape_parser_returns\<close> shows that it is enough. Loops that may not end are \<open>partial_function (option)\<close>: None is
  a run that never ends, and the theorems that a result is produced say \<open>Some\<close>.

  \<^bold>\<open>Parameters.\<close> What is outside of the sources is an argument: the clock of the two-digit year window
  (\<open>rawtime\<close>), \<^verbatim>\<open>strtod\<close> and the hardware conversions between floating point formats (\<open>fp_env\<close>), \<^verbatim>\<open>malloc\<close>, and the
  contents of variables that the source reads without having written them (\<open>minute0\<close>, \<open>second0\<close>, \<open>mem\<close>).

  \<^bold>\<open>Not modelled.\<close> The array object and its views, comparison kernels, assignments between real and complex types,
  the lifting of kernels over dimensions, the registry and dispatch objects: they are glue over arrmeta and ckernel
  memory, whose layout in bytes the model does not have.
  Code generation, CUDA, the calling conventions, preprocessor tables and the bundled libraries have no behaviour
  that the logic could observe. The JSON parser and formatter read and write array memory; only the
  validation of JSON text, its scanning and the escaping are modelled.
\<close>

end
